(* ===== verification/Prelude.thy ===== *)
theory Prelude
  imports Main "HOL-Library.Char_ord" "HOL-Library.List_Lexorder"
begin

section \<open>Shared vocabulary and library lemmas\<close>

text \<open>
  What every component of the model shares: the time units of \<^verbatim>\<open>std::chrono\<close>, the gRPC status
  codes a handler answers with, \<^verbatim>\<open>std::map\<close> as an association list sorted by key (iteration order
  is key order, as the code relies on when it walks a table), and the generic list facts the component
  proofs use. \<open>server_simps\<close> collects the unfolding equations of the server's small accessors.
\<close>

named_theorems server_simps \<open>unfolding equations of the server state's accessors\<close>

subsection \<open>Status of a call\<close>

datatype status_code =
    CANCELLED | UNKNOWN | INVALID_ARGUMENT | DEADLINE_EXCEEDED | PERMISSION_DENIED
  | RESOURCE_EXHAUSTED | FAILED_PRECONDITION | INTERNAL

text \<open>A handler answers a refusal (code and text) or a response; \<^verbatim>\<open>grpc::Status::OK\<close> is \<open>Inr\<close>.\<close>

type_synonym refusal = "status_code \<times> string"
type_synonym 'r rpc = "refusal + 'r"

text \<open>Times are nanoseconds of the steady or the system clock; \<open>ms\<close> builds a duration.
  \<^verbatim>\<open>duration_cast\<close> to milliseconds truncates towards zero.\<close>

definition ms :: "int \<Rightarrow> int" where
  "ms n = n * 1000000"

definition to_ms :: "int \<Rightarrow> int" where
  "to_ms d = sgn d * (\<bar>d\<bar> div 1000000)"

lemma to_ms_nonneg [simp]: "0 \<le> d \<Longrightarrow> to_ms d = d div 1000000"
  by (cases "d = 0") (simp_all add: to_ms_def)

lemma to_ms_ms [simp]: "to_ms (ms n) = n"
  by (simp add: to_ms_def ms_def abs_mult sgn_mult sgn_mult_abs)

lemma to_ms_less_iff: "0 \<le> d \<Longrightarrow> to_ms d < n \<longleftrightarrow> d < ms n"
  by (simp add: ms_def) linarith

lemma to_ms_mono: "0 \<le> a \<Longrightarrow> a \<le> b \<Longrightarrow> to_ms a \<le> to_ms b"
  by (simp add: zdiv_mono1)

subsection \<open>std::map as a sorted association list\<close>

type_synonym ('k, 'v) std_map = "('k \<times> 'v) list"

fun sm_find :: "('k, 'v) std_map \<Rightarrow> 'k \<Rightarrow> 'v option" where
  "sm_find [] k = None"
| "sm_find ((k', v) # m) k = (if k = k' then Some v else sm_find m k)"

text \<open>Assignment through \<^verbatim>\<open>operator[]\<close>: overwrite, or insert at the key's place.\<close>

fun sm_set :: "'k::linorder \<Rightarrow> 'v \<Rightarrow> ('k, 'v) std_map \<Rightarrow> ('k, 'v) std_map" where
  "sm_set k v [] = [(k, v)]"
| "sm_set k v ((k', v') # m) =
     (if k = k' then (k, v) # m
      else if k < k' then (k, v) # (k', v') # m
      else (k', v') # sm_set k v m)"

text \<open>\<^verbatim>\<open>emplace\<close>: inserts only an absent key and says whether it did.\<close>

definition sm_emplace :: "'k::linorder \<Rightarrow> 'v \<Rightarrow> ('k, 'v) std_map \<Rightarrow> ('k, 'v) std_map \<times> bool" where
  "sm_emplace k v m = (case sm_find m k of None \<Rightarrow> (sm_set k v m, True) | Some _ \<Rightarrow> (m, False))"

fun sm_erase :: "'k \<Rightarrow> ('k, 'v) std_map \<Rightarrow> ('k, 'v) std_map" where
  "sm_erase k [] = []"
| "sm_erase k ((k', v) # m) = (if k = k' then m else (k', v) # sm_erase k m)"

definition sm_ok :: "('k::linorder, 'v) std_map \<Rightarrow> bool" where
  "sm_ok m \<longleftrightarrow> sorted_wrt (<) (map fst m)"

text \<open>The contract of a keyed table, as the clients of \<^verbatim>\<open>std::map\<close> use it.\<close>

locale keyed_table =
  fixes empty :: "'m"
    and find :: "'m \<Rightarrow> 'k \<Rightarrow> 'v option"
    and set_at :: "'k \<Rightarrow> 'v \<Rightarrow> 'm \<Rightarrow> 'm"
    and erase :: "'k \<Rightarrow> 'm \<Rightarrow> 'm"
    and size_of :: "'m \<Rightarrow> nat"
    and ok :: "'m \<Rightarrow> bool"
  assumes ok_empty: "ok empty"
    and find_empty: "find empty k = None"
    and size_empty: "size_of empty = 0"
    and ok_set: "ok m \<Longrightarrow> ok (set_at k v m)"
    and ok_erase: "ok m \<Longrightarrow> ok (erase k m)"
    and find_set: "ok m \<Longrightarrow> find (set_at k v m) k' = (if k' = k then Some v else find m k')"
    and find_erase: "ok m \<Longrightarrow> find (erase k m) k' = (if k' = k then None else find m k')"
    and size_set: "ok m \<Longrightarrow> size_of (set_at k v m) = (if find m k = None then Suc (size_of m) else size_of m)"
    and size_erase: "ok m \<Longrightarrow> size_of (erase k m) = (if find m k = None then size_of m else size_of m - 1)"
begin

lemma set_idem: "ok m \<Longrightarrow> find m k = Some v \<Longrightarrow> find (set_at k v m) = find m"
  by (auto simp: find_set fun_eq_iff)

lemma erase_set: "ok m \<Longrightarrow> find m k = None \<Longrightarrow> find (erase k (set_at k v m)) = find m"
  by (auto simp: find_set find_erase ok_set fun_eq_iff)

lemma size_set_le: "ok m \<Longrightarrow> size_of (set_at k v m) \<le> Suc (size_of m)"
  by (simp add: size_set)

lemma size_erase_le: "ok m \<Longrightarrow> size_of (erase k m) \<le> size_of m"
  by (simp add: size_erase)

lemma inj_set:
  assumes "ok m" and "inj_on (find m) {k. find m k \<noteq> None}" and "\<And>k'. find m k' \<noteq> Some v"
  shows "inj_on (find (set_at k v m)) {k'. find (set_at k v m) k' \<noteq> None}"
  using assms by (auto simp: inj_on_def find_set split: if_splits)

end

lemma sm_find_None_iff: "sm_find m k = None \<longleftrightarrow> k \<notin> fst ` set m"
  by (induction m k rule: sm_find.induct) auto

lemma sm_find_in: "sm_find m k = Some v \<Longrightarrow> (k, v) \<in> set m"
  by (induction m) (auto split: if_splits)

lemma sm_ok_Nil [simp]: "sm_ok []"
  by (simp add: sm_ok_def)

lemma sm_ok_Cons: "sm_ok ((k, v) # m) \<longleftrightarrow> (\<forall>k' \<in> fst ` set m. k < k') \<and> sm_ok m"
  by (auto simp: sm_ok_def)

lemma sm_in_find: "sm_ok m \<Longrightarrow> (k, v) \<in> set m \<Longrightarrow> sm_find m k = Some v"
  by (induction m) (force simp: sm_ok_Cons)+

lemma sm_set_keys: "fst ` set (sm_set k v m) = insert k (fst ` set m)"
  by (induction k v m rule: sm_set.induct) auto

lemma sm_erase_keys: "fst ` set (sm_erase k m) \<subseteq> fst ` set m"
  by (induction k m rule: sm_erase.induct) auto

lemma sm_ok_set: "sm_ok m \<Longrightarrow> sm_ok (sm_set k v m)"
  by (induction k v m rule: sm_set.induct) (auto simp: sm_ok_Cons sm_set_keys)

lemma sm_ok_erase: "sm_ok m \<Longrightarrow> sm_ok (sm_erase k m)"
  by (induction k m rule: sm_erase.induct) (use sm_erase_keys in \<open>fastforce simp: sm_ok_Cons\<close>)+

lemma sm_find_set: "sm_ok m \<Longrightarrow> sm_find (sm_set k v m) k' = (if k' = k then Some v else sm_find m k')"
  by (induction k v m rule: sm_set.induct) (auto simp: sm_ok_Cons)

lemma sm_find_erase: "sm_ok m \<Longrightarrow> sm_find (sm_erase k m) k' = (if k' = k then None else sm_find m k')"
  by (induction k m rule: sm_erase.induct) (force simp: sm_ok_Cons sm_find_None_iff)+

lemma sm_length_set:
  "sm_ok m \<Longrightarrow> length (sm_set k v m) = (if sm_find m k = None then Suc (length m) else length m)"
  by (induction k v m rule: sm_set.induct) (force simp: sm_ok_Cons sm_find_None_iff)+

lemma sm_length_erase:
  "sm_ok m \<Longrightarrow> length (sm_erase k m) = (if sm_find m k = None then length m else length m - 1)"
  by (induction k m rule: sm_erase.induct)
     (auto simp: sm_ok_Cons sm_find_None_iff neq_Nil_conv intro!: Suc_pred)

interpretation smap: keyed_table "[] :: ('k::linorder, 'v) std_map" sm_find sm_set sm_erase length sm_ok
  by unfold_locales
     (simp_all add: sm_ok_set sm_ok_erase sm_find_set sm_find_erase sm_length_set sm_length_erase)

end
