(* ===== verification/Options.thy ===== *)
theory Options
  imports Prelude "HOL-Library.Multiset"
begin

section \<open>Command line of a type server\<close>

text \<open>
  \<^verbatim>\<open>src/common/src/robot_server_options.cpp\<close>: the identifier grammar, the ROS name derived from the node
  name, and \<^verbatim>\<open>ParseServerOptions\<close>. A thrown \<^verbatim>\<open>std::invalid_argument\<close> is \<open>Inl\<close> of its message. Strings are
  byte lists; positions found by \<^verbatim>\<open>find\<close>/\<^verbatim>\<open>rfind\<close> become the parts they delimit.
\<close>

subsection \<open>Characters\<close>

definition within :: "char \<Rightarrow> char \<Rightarrow> char \<Rightarrow> bool" where
  "within lo hi c = (lo \<le> c \<and> c \<le> hi)"

definition digit :: "char \<Rightarrow> bool" where
  "digit = within CHR ''0'' CHR ''9''"

definition alnum :: "char \<Rightarrow> bool" where
  "alnum c = list_ex (\<lambda>(lo, hi). within lo hi c) [(CHR ''a'', CHR ''z''), (CHR ''A'', CHR ''Z''), (CHR ''0'', CHR ''9'')]"

definition identifierCharacter :: "char \<Rightarrow> bool" where
  "identifierCharacter c \<longleftrightarrow> alnum c \<or> c = CHR ''.'' \<or> c = CHR ''_'' \<or> c = CHR '':'' \<or> c = CHR ''-''"

definition RosNameCharacters :: "string \<Rightarrow> string" where
  "RosNameCharacters text = map (\<lambda>c. if alnum c \<or> c = CHR ''_'' then c else CHR ''_'') text"

definition ValidReferenceId :: "string \<Rightarrow> bool" where
  "ValidReferenceId value \<longleftrightarrow> value \<noteq> [] \<and> length value \<le> 128 \<and> list_all identifierCharacter value"

definition RosNodeName :: "string \<Rightarrow> string" where
  "RosNodeName node_name =
     (let name = RosNameCharacters node_name
      in case name of
           [] \<Rightarrow> ''n''
         | c # _ \<Rightarrow> if digit c \<or> c = CHR ''_'' then CHR ''n'' # name else name)"

text \<open>\<^verbatim>\<open>std::string::find\<close> of a substring.\<close>

fun str_contains :: "string \<Rightarrow> string \<Rightarrow> bool" where
  "str_contains [] needle = (needle = [])"
| "str_contains (c # hay) needle = (take (length needle) (c # hay) = needle \<or> str_contains hay needle)"

subsection \<open>Validation of single values\<close>

text \<open>The loop of \<^verbatim>\<open>requireSocketPath\<close> over the components after the leading slash.\<close>

function socketComponents :: "string \<Rightarrow> bool" where
  "socketComponents rest =
     (let component = takeWhile (\<lambda>c. c \<noteq> CHR ''/'') rest; tail = dropWhile (\<lambda>c. c \<noteq> CHR ''/'') rest
      in if component = [] \<or> component = ''.'' \<or> component = ''..'' then False
         else case tail of [] \<Rightarrow> True | _ # rest' \<Rightarrow> socketComponents rest')"
  by pat_completeness auto
termination
  by (relation "measure length") (auto dest: arg_cong [where f = length] simp: dropWhile_eq_drop)

declare socketComponents.simps [simp del]

definition sun_path_size :: nat where
  "sun_path_size = 108"

definition requireSocketPath :: "string \<Rightarrow> string option" where
  "requireSocketPath path =
     (if path = [] \<or> hd path \<noteq> CHR ''/'' \<or> CHR 0x00 \<in> set path \<or> sun_path_size \<le> length path
      then Some ''--socket-path must be a bounded absolute Unix path''
      else if \<not> socketComponents (tl path) then Some ''--socket-path contains an invalid component''
      else None)"

definition requireIdentifier :: "string \<Rightarrow> string \<Rightarrow> string option" where
  "requireIdentifier flag value =
     (if ValidReferenceId value then None
      else Some (flag @ '' must be 1-128 characters of [A-Za-z0-9._:-]''))"

fun stoul :: "nat \<Rightarrow> string \<Rightarrow> nat" where
  "stoul acc [] = acc"
| "stoul acc (c # cs) = stoul (10 * acc + (of_char c - of_char CHR ''0'')) cs"

definition requireMasterUri :: "string \<Rightarrow> string option" where
  "requireMasterUri uri =
     (if 2048 < length uri \<or> take 7 uri \<noteq> ''http://'' then Some ''--ros-master-uri must be an http:// URI''
      else let authority = takeWhile (\<lambda>c. c \<noteq> CHR ''/'') (drop 7 uri);
               tail = dropWhile (\<lambda>c. c \<noteq> CHR ''/'') (drop 7 uri);
               port = rev (takeWhile (\<lambda>c. c \<noteq> CHR '':'') (rev authority));
               host_size = length authority - Suc (length port)
           in if CHR '':'' \<notin> set authority \<or> host_size = 0 \<or> port = [] \<or> 5 < length port
                 \<or> \<not> list_all digit port \<or> stoul 0 port = 0 \<or> 65535 < stoul 0 port
                 \<or> (tail \<noteq> [] \<and> list_ex (\<lambda>c. c \<noteq> CHR ''/'') tail)
              then Some ''--ros-master-uri must name host and port, e.g. http://127.0.0.1:11311''
              else None)"

subsection \<open>The options and their parser\<close>

record server_options =
  socket_path :: string
  run_id :: string
  node_name :: string
  provider :: string
  target_id :: string
  ros_master_uri :: string
  ros_ip :: string
  network_bootstrap :: string

definition default_options :: server_options where
  "default_options = \<lparr>socket_path = [], run_id = [], node_name = [], provider = [], target_id = [],
     ros_master_uri = [], ros_ip = [], network_bootstrap = []\<rparr>"

text \<open>The flag set, in the iteration order of the code's \<^verbatim>\<open>std::set\<close>.\<close>

definition flags :: "string list" where
  "flags = [''--network-bootstrap'', ''--node-name'', ''--provider'', ''--ros-ip'', ''--ros-master-uri'',
            ''--run-id'', ''--socket-path'', ''--target-id'']"

definition optional_flag :: "string \<Rightarrow> bool" where
  "optional_flag flag \<longleftrightarrow> flag = ''--ros-ip'' \<or> flag = ''--network-bootstrap''"

definition assign_option :: "string \<Rightarrow> string \<Rightarrow> server_options \<Rightarrow> server_options" where
  "assign_option flag value options =
     (if flag = ''--socket-path'' then options\<lparr>socket_path := value\<rparr>
      else if flag = ''--run-id'' then options\<lparr>run_id := value\<rparr>
      else if flag = ''--node-name'' then options\<lparr>node_name := value\<rparr>
      else if flag = ''--provider'' then options\<lparr>provider := value\<rparr>
      else if flag = ''--target-id'' then options\<lparr>target_id := value\<rparr>
      else if flag = ''--ros-master-uri'' then options\<lparr>ros_master_uri := value\<rparr>
      else if flag = ''--network-bootstrap'' then options\<lparr>network_bootstrap := value\<rparr>
      else options\<lparr>ros_ip := value\<rparr>)"

text \<open>The argument loop: flags seen so far and the options filled in.\<close>

fun parse_flags :: "string list \<Rightarrow> string list \<Rightarrow> server_options \<Rightarrow> string + (string list \<times> server_options)" where
  "parse_flags [] seen options = Inr (seen, options)"
| "parse_flags (flag # args) seen options =
     (if flag \<notin> set flags then Inl (''unknown argument: '' @ flag)
      else if flag \<in> set seen then Inl (''argument occurs more than once: '' @ flag)
      else case args of
             [] \<Rightarrow> Inl (''missing value for '' @ flag)
           | value # rest \<Rightarrow>
               if take 2 value = ''--'' then Inl (''missing value for '' @ flag)
               else if CHR 0x00 \<in> set value \<or> (value = [] \<and> \<not> optional_flag flag)
               then Inl (''empty value for '' @ flag)
               else parse_flags rest (flag # seen) (assign_option flag value options))"

definition first_missing :: "string list \<Rightarrow> string option" where
  "first_missing seen = List.find (\<lambda>flag. \<not> optional_flag flag \<and> flag \<notin> set seen) flags"

text \<open>The checks after the loop, in the code's order; the first failure is the exception.\<close>

definition check_options :: "string list \<Rightarrow> server_options \<Rightarrow> string option" where
  "check_options providers options =
     (case requireSocketPath (socket_path options) of Some e \<Rightarrow> Some e | None \<Rightarrow>
      case requireIdentifier ''--run-id'' (run_id options) of Some e \<Rightarrow> Some e | None \<Rightarrow>
      case requireIdentifier ''--target-id'' (target_id options) of Some e \<Rightarrow> Some e | None \<Rightarrow>
      if 128 < length (node_name options) then Some ''--node-name must have at most 128 characters''
      else if \<not> str_contains (RosNameCharacters (node_name options)) (RosNameCharacters (run_id options))
      then Some ''--node-name must include the --run-id''
      else if provider options \<notin> set providers
      then Some (''--provider is not served by this executable: '' @ provider options)
      else case requireMasterUri (ros_master_uri options) of Some e \<Rightarrow> Some e | None \<Rightarrow>
      if 253 < length (ros_ip options) then Some ''--ros-ip is too long''
      else if network_bootstrap options \<noteq> []
              \<and> (hd (network_bootstrap options) \<noteq> CHR ''/'' \<or> 4096 < length (network_bootstrap options))
      then Some ''--network-bootstrap must be an absolute file path''
      else None)"

definition ParseServerOptions :: "string list \<Rightarrow> string list \<Rightarrow> string + server_options" where
  "ParseServerOptions args providers =
     (case parse_flags args [] default_options of
        Inl e \<Rightarrow> Inl e
      | Inr (seen, options) \<Rightarrow>
          (case first_missing seen of
             Some flag \<Rightarrow> Inl (''missing required argument: '' @ flag)
           | None \<Rightarrow> (case check_options providers options of Some e \<Rightarrow> Inl e | None \<Rightarrow> Inr options)))"

subsection \<open>Names\<close>

lemma alnum_digit: "digit c \<Longrightarrow> alnum c"
  by (simp add: alnum_def digit_def)

lemma RosNameCharacters_legal: "c \<in> set (RosNameCharacters s) \<Longrightarrow> alnum c \<or> c = CHR ''_''"
  by (auto simp: RosNameCharacters_def)

lemma RosNameCharacters_length [simp]: "length (RosNameCharacters s) = length s"
  by (simp add: RosNameCharacters_def)

lemma RosNameCharacters_idem [simp]: "RosNameCharacters (RosNameCharacters s) = RosNameCharacters s"
  by (simp add: RosNameCharacters_def)

lemma str_contains_Cons: "str_contains hay needle \<Longrightarrow> str_contains (c # hay) needle"
  by simp

lemma take_eq_prefix: "take (length n) h = n \<longleftrightarrow> (\<exists>post. h = n @ post)"
  by (metis append_eq_conv_conj append_take_drop_id)

lemma str_contains_iff: "str_contains hay needle \<longleftrightarrow> (\<exists>pre post. hay = pre @ needle @ post)"
proof (induction hay)
  case Nil
  show ?case by auto
next
  case (Cons c hay)
  show ?case
    unfolding str_contains.simps take_eq_prefix Cons.IH
    by (metis append_Cons append_Nil append_eq_Cons_conv)
qed

lemma RosNodeName_cases:
  obtains "RosNodeName s = RosNameCharacters s" "s \<noteq> []"
  | "RosNodeName s = CHR ''n'' # RosNameCharacters s"
proof (cases "RosNameCharacters s")
  case Nil
  then show ?thesis by (intro that(2)) (simp add: RosNodeName_def)
next
  case (Cons c cs)
  then have "s \<noteq> []" by (auto simp: RosNameCharacters_def)
  with Cons show ?thesis
    by (cases "digit c \<or> c = CHR ''_''") (simp_all add: RosNodeName_def that)
qed

lemma RosNodeName_contains:
  "str_contains (RosNameCharacters s) needle \<Longrightarrow> str_contains (RosNodeName s) needle"
  by (cases rule: RosNodeName_cases [of s]) auto

text \<open>the ROS node name is always legal: it is non-empty, starts with a letter, and every character is a
  letter, a digit or an underscore, whatever the node name was.\<close>

theorem RosNodeName_legal:
  "\<exists>c cs. RosNodeName s = c # cs \<and> alnum c \<and> \<not> digit c
     \<and> list_all (\<lambda>d. alnum d \<or> d = CHR ''_'') (RosNodeName s)"
proof -
  have n: "alnum CHR ''n''" "\<not> digit CHR ''n''"
    by code_simp+
  show ?thesis
  proof (cases "RosNameCharacters s")
    case Nil
    with n show ?thesis by (simp add: RosNodeName_def)
  next
    case (Cons c cs)
    with RosNameCharacters_legal [of _ s] have legal: "list_all (\<lambda>d. alnum d \<or> d = CHR ''_'') (c # cs)"
      by (auto simp: list_all_iff)
    with n Cons show ?thesis by (auto simp: RosNodeName_def Let_def)
  qed
qed

subsection \<open>Paths and URIs\<close>

text \<open>The components of an absolute path, and the path they spell.\<close>

fun join_path :: "string list \<Rightarrow> string" where
  "join_path [] = []"
| "join_path [c] = c"
| "join_path (c # cs) = c @ CHR ''/'' # join_path cs"

definition path_component :: "string \<Rightarrow> bool" where
  "path_component c \<longleftrightarrow> c \<noteq> [] \<and> c \<noteq> ''.'' \<and> c \<noteq> ''..'' \<and> CHR ''/'' \<notin> set c"

lemma takeWhile_component:
  "CHR ''/'' \<notin> set c \<Longrightarrow> takeWhile (\<lambda>x. x \<noteq> CHR ''/'') (c @ CHR ''/'' # r) = c"
  "CHR ''/'' \<notin> set c \<Longrightarrow> dropWhile (\<lambda>x. x \<noteq> CHR ''/'') (c @ CHR ''/'' # r) = CHR ''/'' # r"
  "CHR ''/'' \<notin> set c \<Longrightarrow> takeWhile (\<lambda>x. x \<noteq> CHR ''/'') c = c"
  "CHR ''/'' \<notin> set c \<Longrightarrow> dropWhile (\<lambda>x. x \<noteq> CHR ''/'') c = []"
  by (induction c) auto

lemma socketComponents_join:
  "cs \<noteq> [] \<Longrightarrow> list_all path_component cs \<Longrightarrow> socketComponents (join_path cs)"
  by (induction cs rule: join_path.induct)
     (auto simp: socketComponents.simps [of "join_path _"] socketComponents.simps [of "_ @ _"]
        socketComponents.simps path_component_def takeWhile_component)

lemma join_path_Cons: "cs \<noteq> [] \<Longrightarrow> join_path (c # cs) = c @ CHR ''/'' # join_path cs"
  by (cases cs) simp_all

lemma dropWhile_slash: "dropWhile (\<lambda>c. c \<noteq> CHR ''/'') s = x # r \<Longrightarrow> x = CHR ''/''"
  by (induction s) (auto split: if_splits)

lemma socketComponents_split:
  "socketComponents rest \<Longrightarrow> \<exists>cs. cs \<noteq> [] \<and> list_all path_component cs \<and> rest = join_path cs"
proof (induction rest rule: socketComponents.induct)
  case (1 rest)
  let ?c = "takeWhile (\<lambda>c. c \<noteq> CHR ''/'') rest" and ?t = "dropWhile (\<lambda>c. c \<noteq> CHR ''/'') rest"
  from "1.prems" have c: "path_component ?c"
    by (auto simp: socketComponents.simps [of rest] path_component_def Let_def
        dest: set_takeWhileD split: if_splits)
  show ?case
  proof (cases ?t)
    case Nil
    then have "rest = join_path [?c]" by (metis append_Nil2 join_path.simps(2) takeWhile_dropWhile_id)
    with c show ?thesis by (intro exI [of _ "[?c]"]) auto
  next
    case (Cons x r)
    with "1.prems" "1.IH" [OF refl refl _ Cons] c obtain cs
      where cs: "cs \<noteq> []" "list_all path_component cs" "r = join_path cs"
      by (auto simp: socketComponents.simps [of rest] Let_def split: if_splits)
    from Cons dropWhile_slash [OF Cons] have "rest = ?c @ CHR ''/'' # r"
      using takeWhile_dropWhile_id [of "\<lambda>c. c \<noteq> CHR ''/''" rest] by simp
    with cs have "rest = join_path (?c # cs)" by (simp add: join_path_Cons del: join_path.simps)
    with c cs show ?thesis by (intro exI [of _ "?c # cs"]) auto
  qed
qed

lemma rsplit_last:
  assumes "x \<in> set a"
  shows "\<exists>host. a = host @ x # rev (takeWhile (\<lambda>c. c \<noteq> x) (rev a))"
proof -
  from split_list_last [OF assms] obtain ys zs where a: "a = ys @ x # zs" "x \<notin> set zs" by blast
  then have "takeWhile (\<lambda>c. c \<noteq> x) (rev a) = rev zs" by (simp add: takeWhile_append takeWhile_tail)
  with a show ?thesis by auto
qed

lemma authority_split: "s = takeWhile P s @ dropWhile P s"
  by simp

lemma requireMasterUri_shape:
  assumes "requireMasterUri uri = None"
  shows "\<exists>host port tail. uri = ''http://'' @ host @ '':'' @ port @ tail \<and> host \<noteq> [] \<and> CHR ''/'' \<notin> set host
    \<and> list_all digit port \<and> length port \<le> 5 \<and> 1 \<le> stoul 0 port \<and> stoul 0 port \<le> 65535 \<and> set tail \<subseteq> {CHR ''/''}"
proof -
  let ?a = "takeWhile (\<lambda>c. c \<noteq> CHR ''/'') (drop 7 uri)" and ?t = "dropWhile (\<lambda>c. c \<noteq> CHR ''/'') (drop 7 uri)"
  let ?p = "rev (takeWhile (\<lambda>c. c \<noteq> CHR '':'') (rev ?a))"
  from assms have h: "take 7 uri = ''http://''" "CHR '':'' \<in> set ?a" "length ?a - Suc (length ?p) \<noteq> 0"
    "length ?p \<le> 5" "list_all digit ?p" "stoul 0 ?p \<noteq> 0" "stoul 0 ?p \<le> 65535"
    "?t = [] \<or> \<not> list_ex (\<lambda>c. c \<noteq> CHR ''/'') ?t"
    by (auto simp: requireMasterUri_def Let_def not_less split: if_splits)
  from rsplit_last [OF h(2)] obtain host where host: "?a = host @ CHR '':'' # ?p" ..
  have "uri = take 7 uri @ ?a @ ?t" by simp
  also have "\<dots> = ''http://'' @ (host @ CHR '':'' # ?p) @ ?t" by (simp only: h(1) flip: host)
  finally have uri: "uri = ''http://'' @ host @ '':'' @ ?p @ ?t" by (simp only: append.assoc append.simps)
  from host have "length ?a = length (host @ CHR '':'' # ?p)" by (rule arg_cong)
  with h(3) have "host \<noteq> []" by (cases host) (simp_all only: length_append list.size, simp)
  have "set host \<subseteq> set ?a" by (subst host) auto
  then have slash: "CHR ''/'' \<notin> set host" by (auto dest: set_takeWhileD)
  have tail: "set ?t \<subseteq> {CHR ''/''}"
    using h(8) by (rule disjE) (simp only: list.set empty_subsetI, unfold list_ex_iff, blast)
  have one: "1 \<le> stoul 0 ?p" using h(6) by simp
  show ?thesis
    by (rule exI [of _ host], rule exI [of _ ?p], rule exI [of _ ?t], intro conjI)
       (fact uri, fact, fact slash, fact h(5), fact h(4), fact one, fact h(7), fact tail)
qed

subsection \<open>What a parsed command line guarantees\<close>

lemma ParseServerOptions_check:
  "ParseServerOptions args providers = Inr options \<Longrightarrow> check_options providers options = None"
  by (auto simp: ParseServerOptions_def split: sum.splits prod.splits option.splits)

lemma requireSocketPath_shape:
  assumes "requireSocketPath path = None"
  shows "\<exists>cs. path = CHR ''/'' # join_path cs \<and> cs \<noteq> [] \<and> list_all path_component cs \<and> length path < 108"
proof -
  from assms have "path \<noteq> []" "hd path = CHR ''/''" "length path < 108" "socketComponents (tl path)"
    by (auto simp: requireSocketPath_def sun_path_size_def not_le split: if_splits)
  with socketComponents_split [of "tl path"] show ?thesis by (cases path) auto
qed


text \<open>A command line with the run id and the node name left open, and its options.\<close>

definition example_args :: "string \<Rightarrow> string \<Rightarrow> string list" where
  "example_args run node = [''--run-id'', run, ''--node-name'', node, ''--socket-path'', ''/run/s'',
     ''--provider'', ''p'', ''--target-id'', ''t'', ''--ros-master-uri'', ''http://h:11311/'']"

definition example_options :: "string \<Rightarrow> string \<Rightarrow> server_options" where
  "example_options run node = \<lparr>socket_path = ''/run/s'', run_id = run, node_name = node, provider = ''p'',
     target_id = ''t'', ros_master_uri = ''http://h:11311/'', ros_ip = [], network_bootstrap = []\<rparr>"

lemmas char_tests = ValidReferenceId_def identifierCharacter_def alnum_def digit_def within_def RosNameCharacters_def

lemma example_rest_valid:
  "requireSocketPath ''/run/s'' = None" "requireIdentifier ''--target-id'' ''t'' = None"
  "requireMasterUri ''http://h:11311/'' = None"
  by (simp_all add: requireSocketPath_def socketComponents.simps sun_path_size_def requireIdentifier_def
      requireMasterUri_def char_tests)

lemma example_parse_flags:
  "parse_flags (example_args ''a-b'' ''na-b'') [] default_options =
     Inr (rev [''--run-id'', ''--node-name'', ''--socket-path'', ''--provider'', ''--target-id'', ''--ros-master-uri''],
       example_options ''a-b'' ''na-b'')"
  "parse_flags (example_args ''a_b'' ''na-b'') [] default_options =
     Inr (rev [''--run-id'', ''--node-name'', ''--socket-path'', ''--provider'', ''--target-id'', ''--ros-master-uri''],
       example_options ''a_b'' ''na-b'')"
  by code_simp+

lemma example_parses:
  "ParseServerOptions (example_args ''a-b'' ''na-b'') [''p''] = Inr (example_options ''a-b'' ''na-b'')"
  "ParseServerOptions (example_args ''a_b'' ''na-b'') [''p''] = Inr (example_options ''a_b'' ''na-b'')"
  by (simp_all add: ParseServerOptions_def example_parse_flags first_missing_def flags_def optional_flag_def
      check_options_def example_options_def example_rest_valid)
     (simp_all add: requireIdentifier_def char_tests example_rest_valid)


subsection \<open>Order of the arguments\<close>

definition args_of :: "(string \<times> string) list \<Rightarrow> string list" where
  "args_of ps = concat (map (\<lambda>(flag, value). [flag, value]) ps)"

definition good_pair :: "string \<times> string \<Rightarrow> bool" where
  "good_pair p \<longleftrightarrow> fst p \<in> set flags \<and> take 2 (snd p) \<noteq> ''--'' \<and> CHR 0x00 \<notin> set (snd p)
     \<and> (snd p \<noteq> [] \<or> optional_flag (fst p))"

lemma parse_flags_pairs:
  "list_all good_pair ps \<Longrightarrow> distinct (map fst ps) \<Longrightarrow> set (map fst ps) \<inter> set seen = {} \<Longrightarrow>
   parse_flags (args_of ps) seen options =
     Inr (rev (map fst ps) @ seen, fold (\<lambda>p. assign_option (fst p) (snd p)) ps options)"
proof (induction ps arbitrary: seen options)
  case Nil
  then show ?case by (simp add: args_of_def)
next
  case (Cons p ps)
  obtain f v where p: "p = (f, v)" by (cases p)
  have "args_of (p # ps) = f # v # args_of ps" by (simp add: args_of_def p)
  with Cons p show ?case by (auto simp: good_pair_def)
qed

lemma assign_option_flags:
  "assign_option ''--socket-path'' v options = options\<lparr>socket_path := v\<rparr>"
  "assign_option ''--run-id'' v options = options\<lparr>run_id := v\<rparr>"
  "assign_option ''--node-name'' v options = options\<lparr>node_name := v\<rparr>"
  "assign_option ''--provider'' v options = options\<lparr>provider := v\<rparr>"
  "assign_option ''--target-id'' v options = options\<lparr>target_id := v\<rparr>"
  "assign_option ''--ros-master-uri'' v options = options\<lparr>ros_master_uri := v\<rparr>"
  "assign_option ''--network-bootstrap'' v options = options\<lparr>network_bootstrap := v\<rparr>"
  "assign_option ''--ros-ip'' v options = options\<lparr>ros_ip := v\<rparr>"
  by (simp_all add: assign_option_def)

lemma flags_cases:
  assumes "f \<in> set flags"
  obtains "f = ''--socket-path''" | "f = ''--run-id''" | "f = ''--node-name''" | "f = ''--provider''"
   | "f = ''--target-id''" | "f = ''--ros-master-uri''" | "f = ''--network-bootstrap''" | "f = ''--ros-ip''"
  using assms unfolding flags_def list.set insert_iff empty_iff
  by (elim disjE) (erule that FalseE)+

lemma assign_option_commute:
  assumes "f \<in> set flags" "g \<in> set flags" "f \<noteq> g"
  shows "assign_option f v (assign_option g w options) = assign_option g w (assign_option f v options)"
  by (rule flags_cases [OF assms(1)]; rule flags_cases [OF assms(2)];
      use assms(3) in \<open>simp only: assign_option_flags\<close>; simp)

lemma fold_assign_perm:
  assumes "mset ps = mset qs" "list_all good_pair ps" "distinct (map fst ps)"
  shows "fold (\<lambda>p. assign_option (fst p) (snd p)) ps = fold (\<lambda>p. assign_option (fst p) (snd p)) qs"
proof (rule fold_multiset_equiv [OF _ assms(1)])
  fix x y assume "x \<in> set ps" "y \<in> set ps"
  with assms(2,3) show "assign_option (fst x) (snd x) \<circ> assign_option (fst y) (snd y) =
      assign_option (fst y) (snd y) \<circ> assign_option (fst x) (snd x)"
    by (cases "x = y") (auto simp: fun_eq_iff good_pair_def list_all_iff distinct_map
        intro!: assign_option_commute dest: inj_onD)
qed

text \<open>the order of the flags on the command line does not matter: two argument lists that give each flag
  once, with the same values, parse to the same options or fail with the same message.\<close>

theorem ParseServerOptions_order:
  assumes "list_all good_pair ps" "distinct (map fst ps)" "mset ps = mset qs"
  shows "ParseServerOptions (args_of ps) providers = ParseServerOptions (args_of qs) providers"
proof -
  have q: "list_all good_pair qs" "distinct (map fst qs)"
    using assms mset_eq_setD [OF assms(3)] mset_eq_imp_distinct_iff [of "map fst ps" "map fst qs"]
    by (simp_all add: list_all_iff)
  have seen: "first_missing (rev (map fst ps)) = first_missing (rev (map fst qs))"
    unfolding first_missing_def using mset_eq_setD [OF assms(3)] by simp
  show ?thesis
    using parse_flags_pairs [OF assms(1,2), of "[]"] parse_flags_pairs [OF q, of "[]"] seen
    by (simp add: ParseServerOptions_def fold_assign_perm [OF assms(3,1,2)])
qed

theorem ParseServerOptions_order_witness:
  "ParseServerOptions (args_of [(''--run-id'', ''r''), (''--provider'', ''p'')]) [''p''] =
   ParseServerOptions (args_of [(''--provider'', ''p''), (''--run-id'', ''r'')]) [''p'']"
  by (rule ParseServerOptions_order) (code_simp, simp_all)

text \<open>the check that the node name includes the run id does not keep two Runs apart: two different run ids
  are both accepted with one and the same ROS node name, because every character outside the ROS alphabet is
  spelled as an underscore before the comparison.\<close>

theorem two_runs_share_a_node_name:
  "\<exists>args1 args2 o1 o2. ParseServerOptions args1 [''p''] = Inr o1 \<and> ParseServerOptions args2 [''p''] = Inr o2
    \<and> run_id o1 \<noteq> run_id o2 \<and> RosNodeName (node_name o1) = RosNodeName (node_name o2)"
  by (rule exI, rule exI, rule exI, rule exI, rule conjI [OF example_parses(1)],
      rule conjI [OF example_parses(2)]) (simp add: example_options_def)

end
