(* ===== verification/Domain.thy ===== *)
theory Domain
  imports Options
begin

section \<open>Identities, requests and events\<close>

text \<open>
  The data the server core exchanges: \<^verbatim>\<open>src/common/include/xgc2_ros1_robot_adapter/robot_domain.hpp\<close> with
  \<^verbatim>\<open>src/common/src/robot_domain.cpp\<close>, the parts of \<^verbatim>\<open>native_command.hpp\<close> that decide whether a command may
  reach a robot, and \<^verbatim>\<open>CommandError\<close> of \<^verbatim>\<open>robot_server.cpp\<close>. Protobuf messages are records of the fields the
  code reads; opaque payloads stay byte strings. Times are passed in.
\<close>

subsection \<open>Identities\<close>

record member_identity =
  id_target :: string
  id_run :: string
  id_robot :: string
  id_epoch :: nat

text \<open>\<^verbatim>\<open>^[A-Za-z0-9][A-Za-z0-9_.-]{0,127}$\<close>\<close>

definition validRobotId :: "string \<Rightarrow> bool" where
  "validRobotId value =
     (case value of [] \<Rightarrow> False
      | c # cs \<Rightarrow> alnum c \<and> length cs \<le> 127
          \<and> list_all (\<lambda>d. alnum d \<or> d = CHR ''_'' \<or> d = CHR ''.'' \<or> d = CHR ''-'') cs)"

definition ValidRobotIdentity :: "string \<Rightarrow> bool" where
  "ValidRobotIdentity robot_id = validRobotId robot_id"

definition validIdentity :: "member_identity \<Rightarrow> bool" where
  "validIdentity i \<longleftrightarrow> ValidRobotIdentity (id_robot i) \<and> ValidReferenceId (id_target i)
     \<and> ValidReferenceId (id_run i) \<and> id_epoch i \<noteq> 0"

definition sameIdentity :: "member_identity \<Rightarrow> member_identity \<Rightarrow> bool" where
  "sameIdentity a b \<longleftrightarrow> id_target a = id_target b \<and> id_run a = id_run b \<and> id_robot a = id_robot b
     \<and> id_epoch a = id_epoch b"

lemma sameIdentity_iff [simp]: "sameIdentity a b \<longleftrightarrow> a = b"
  by (auto simp: sameIdentity_def)

lemma validRobotId_reference: "validRobotId s \<Longrightarrow> ValidReferenceId s"
  by (cases s) (auto simp: validRobotId_def ValidReferenceId_def identifierCharacter_def list_all_iff)

subsection \<open>Robot configuration and telemetry\<close>

record robot_resource =
  rr_robot_id :: string
  rr_profile_id :: string
  rr_profile_digest :: string
  rr_parameters :: "(string, string) std_map"
  rr_channels :: "(string \<times> bool) list"

record robot_config =
  cfg_robot_id :: string
  cfg_profile_id :: string
  cfg_profile_digest :: string
  cfg_parameters :: "(string, string) std_map"
  cfg_channels :: "(string \<times> bool) list"

definition configFrom :: "robot_resource \<Rightarrow> robot_config" where
  "configFrom w = \<lparr>cfg_robot_id = rr_robot_id w, cfg_profile_id = rr_profile_id w,
     cfg_profile_digest = rr_profile_digest w, cfg_parameters = rr_parameters w, cfg_channels = rr_channels w\<rparr>"

datatype clock_domain = CLOCK_DOMAIN_UNSPECIFIED | CLOCK_DOMAIN_NATIVE | CLOCK_DOMAIN_SIMULATION

record message_schema =
  ms_message_id :: nat
  ms_type_name :: string
  ms_version :: nat
  ms_fingerprint :: nat

record robot_message_context =
  ctx_robot_id :: string
  ctx_channel_id :: string
  ctx_sequence :: nat
  ctx_source_time :: "(int \<times> clock_domain) option"
  ctx_observed :: int

record robot_message =
  rm_robot_id :: string
  rm_channel_id :: string
  rm_sequence :: nat
  rm_source_time :: "(int \<times> clock_domain) option"
  rm_observed :: int
  rm_schema :: message_schema
  rm_value :: string

text \<open>The serializer of the payload is protobuf code: its result is an argument, \<open>None\<close> for a failure.\<close>

definition EncodeRobotMessage ::
    "robot_message_context \<Rightarrow> message_schema \<Rightarrow> string option \<Rightarrow> string + robot_message" where
  "EncodeRobotMessage context schema serialized =
     (case serialized of
        None \<Rightarrow> Inl ''failed to serialize semantic protobuf payload''
      | Some encoded \<Rightarrow> Inr \<lparr>rm_robot_id = ctx_robot_id context, rm_channel_id = ctx_channel_id context,
          rm_sequence = ctx_sequence context, rm_source_time = ctx_source_time context,
          rm_observed = ctx_observed context, rm_schema = schema, rm_value = encoded\<rparr>)"

subsection \<open>Operations and their events\<close>

datatype error_class =
    ERROR_CLASS_UNSPECIFIED | ERROR_CLASS_REJECTED | ERROR_CLASS_CANCELLED | ERROR_CLASS_DEADLINE
  | ERROR_CLASS_RESOURCE_EXHAUSTED | ERROR_CLASS_UNCERTAIN

datatype operation_phase =
    PHASE_SUCCEEDED | PHASE_REJECTED | PHASE_CANCELLED | PHASE_EXPIRED | PHASE_FAILED | PHASE_UNCERTAIN

datatype payload_encoding = PAYLOAD_ENCODING_UNSPECIFIED | PAYLOAD_ENCODING_PROTOBUF

record operation_request =
  op_work_id :: string
  op_endpoint_id :: string
  op_deadline_unix_nanos :: int
  op_encoding :: payload_encoding
  op_schema :: message_schema
  op_value :: string

record operation_event =
  ev_work_id :: string
  ev_occurred :: int
  ev_phase :: operation_phase
  ev_error :: "(error_class \<times> string \<times> string) option"
  ev_output :: "message_schema option"

definition phase_of_class :: "error_class \<Rightarrow> operation_phase" where
  "phase_of_class c =
     (if c = ERROR_CLASS_UNCERTAIN then PHASE_UNCERTAIN
      else if c = ERROR_CLASS_REJECTED then PHASE_REJECTED
      else if c = ERROR_CLASS_CANCELLED then PHASE_CANCELLED
      else if c = ERROR_CLASS_DEADLINE then PHASE_EXPIRED
      else PHASE_FAILED)"

definition CommandError :: "operation_request \<Rightarrow> error_class \<Rightarrow> string \<Rightarrow> string \<Rightarrow> int \<Rightarrow> operation_event" where
  "CommandError request c code detail wall =
     \<lparr>ev_work_id = op_work_id request, ev_occurred = wall, ev_phase = phase_of_class c,
      ev_error = Some (c, code, detail), ev_output = None\<rparr>"

definition CommandSuccess :: "operation_request \<Rightarrow> message_schema \<Rightarrow> int \<Rightarrow> operation_event" where
  "CommandSuccess request output wall =
     (CommandError request ERROR_CLASS_UNSPECIFIED [] [] wall)
       \<lparr>ev_error := None, ev_phase := PHASE_SUCCEEDED, ev_output := Some output\<rparr>"

definition Enabled :: "robot_config \<Rightarrow> string \<Rightarrow> bool" where
  "Enabled config channel =
     (case List.find (\<lambda>e. fst e = channel) (cfg_channels config) of Some e \<Rightarrow> snd e | None \<Rightarrow> False)"

definition ValidateCommand ::
    "operation_request \<Rightarrow> robot_config \<Rightarrow> string \<Rightarrow> message_schema \<Rightarrow> string option" where
  "ValidateCommand request config channel_id input =
     (if \<not> Enabled config channel_id then Some ''command channel disabled''
      else if op_encoding request \<noteq> PAYLOAD_ENCODING_PROTOBUF \<or> op_schema request \<noteq> input
      then Some ''command schema does not match installed operation''
      else None)"

text \<open>The steady-clock deadline of a native call: the earlier of the request's absolute deadline (system clock)
  and the operation's timeout.\<close>

definition NativeDeadline :: "operation_request \<Rightarrow> int \<Rightarrow> int \<Rightarrow> int \<Rightarrow> int" where
  "NativeDeadline request timeout_ms wall now = now + min (op_deadline_unix_nanos request - wall) (ms timeout_ms)"

lemma CommandError_sel [simp]:
  "ev_work_id (CommandError request c code detail wall) = op_work_id request"
  "ev_error (CommandError request c code detail wall) = Some (c, code, detail)"
  "ev_phase (CommandError request c code detail wall) = phase_of_class c"
  by (simp_all add: CommandError_def)

lemma phase_of_class_UNCERTAIN [simp]: "phase_of_class c = PHASE_UNCERTAIN \<longleftrightarrow> c = ERROR_CLASS_UNCERTAIN"
  by (simp add: phase_of_class_def)

lemma phase_of_class_not_succeeded [simp]: "phase_of_class c \<noteq> PHASE_SUCCEEDED"
  by (simp add: phase_of_class_def)

end
