(* ===== verification/Server_State.thy ===== *)
theory Server_State
  imports Domain
begin

section \<open>State of the robot server\<close>

text \<open>
  The state of \<^verbatim>\<open>RobotServer::Impl\<close> (\<^verbatim>\<open>src/common/src/robot_server.cpp\<close>). A \<^verbatim>\<open>Member\<close> is a heap object
  shared by the member table, the controller table and the scheduler, so members live in a store addressed by
  natural numbers and the tables hold addresses; addresses from \<open>fresh\<close> on are not allocated. Calls of the
  status stream and of \<^verbatim>\<open>Execute\<close> are named by numbers too. The methods of \<^verbatim>\<open>NativeRobot\<close> that classify an
  operation are fields of the native object; the results of its other methods are arguments of the steps
  that call them. Every function of the model that reads or writes the state is one critical section of the code
  or a composition of such sections; clock readings are arguments.
\<close>

datatype phase = Starting | Ready | Draining | Drained | Stopped

datatype stop_reason = NoStop | Signal | ShutdownRpc | MasterChanged | MasterUnreachable | RosShutdown | Failure

text \<open>\<^verbatim>\<open>NativeRobot\<close>: the predicates on operations and the watchdog limit in milliseconds.\<close>

record native_robot =
  RequiresControl :: "operation_request \<Rightarrow> bool"
  IsControlRelease :: "operation_request \<Rightarrow> bool"
  IsSafetyOperation :: "operation_request \<Rightarrow> bool"
  ControlSilenceLimit :: int

record execute_call =
  call_number :: nat
  call_identity :: member_identity
  call_operation :: operation_request
  call_controller_grant :: string
  call_control_generation :: nat

record member =
  identity :: member_identity
  configuration :: robot_resource
  native :: native_robot
  latest :: "(string, nat \<times> robot_message) std_map"
  state_version :: nat
  status_channels :: "string set"
  lane :: nat
  closing :: bool
  commands :: "execute_call list"
  in_flight :: bool
  uncertain :: bool
  native_call :: nat
  native_cancel_requested :: bool
  active_call :: "execute_call option"
  native_stopped :: bool
  control_owner :: nat
  control_generation :: nat
  retired_control_generation :: nat
  control_work :: nat
  control_held :: bool
  control_retiring :: bool
  control_finishing :: bool
  control_release_waiting :: bool
  potential_motion :: bool
  silent_since :: int
  control_heartbeat :: int

text \<open>\<^verbatim>\<open>OwnedStatusSlot\<close>: the stream that owns a status slot and the last one that did.\<close>

record owned_status_slot =
  active :: "nat option"
  slot_generation :: nat
  retired_generation :: nat
  open_id :: string
  retired_open_id :: string
  retiring :: bool
  ready :: bool

definition empty_slot :: owned_status_slot where
  "empty_slot = \<lparr>active = None, slot_generation = 0, retired_generation = 0, open_id = [], retired_open_id = [],
     retiring = False, ready = False\<rparr>"

record controller_binding =
  cb_provider_instance_id :: string
  cb_core_id :: string
  cb_core_boot_id :: string
  cb_agent_id :: string
  cb_agent_epoch_id :: string

definition empty_binding :: controller_binding where
  "empty_binding = \<lparr>cb_provider_instance_id = [], cb_core_id = [], cb_core_boot_id = [], cb_agent_id = [],
     cb_agent_epoch_id = []\<rparr>"

text \<open>\<^verbatim>\<open>StatusSelection\<close> and \<^verbatim>\<open>Subscriber\<close>; a subscriber is named by the stream call that registered it.\<close>

record selected_member =
  sel_identity :: member_identity
  sel_channels :: "string set"

record status_selection =
  sel_all :: bool
  sel_control :: bool
  sel_members :: "(string, selected_member) std_map"

record subscriber =
  sb_call :: nat
  sb_selection :: status_selection
  sb_revision :: nat
  sb_delivered :: nat

text \<open>Jobs of the registration thread (a batch is named by its call) and of the command scheduler.\<close>

record registration =
  reg_identity :: member_identity
  reg_configuration :: robot_resource

datatype member_job = ApplyJob nat "registration list" | RemoveJob nat "member_identity list" | CloseAllJob

record job_queues =
  registration_jobs :: "member_job list"
  registration_alive :: bool
  management_stopping :: bool
  command_jobs :: "execute_call list"
  fence_job :: "nat list option"
  command_revision :: nat
  scheduler_alive :: bool
  stopping :: bool

text \<open>The bounded lanes of blocking calls, and what the startup waits for.\<close>

record work_lanes =
  blocking_calls :: nat
  membership_blocking_calls :: nat
  safety_blocking_calls :: nat
  control_blocking_calls :: nat
  readiness_waits :: nat

record master_identity =
  mi_uri :: string
  mi_pid :: int
  mi_run_id :: string

record startup_state =
  ready_workers :: nat
  master_pinned :: bool
  pinned :: master_identity

record server =
  options :: server_options
  instance_id :: string
  process_owner :: string
  phase :: phase
  stop_reason :: stop_reason
  failure_detail :: string
  fatal :: bool
  shutdown :: bool
  commands_closed :: bool
  heap :: "nat \<Rightarrow> member"
  fresh :: nat
  members :: "(string, nat) std_map"
  namespaces :: "(string, string) std_map"
  members_revision :: nat
  next_lane :: nat
  retained :: "native_robot list"
  controller_generation :: nat
  retired_controller_generation :: nat
  controller_open_id :: string
  retired_controller_open_id :: string
  controller_grant :: string
  controller_binding :: controller_binding
  controller_retiring :: bool
  controller_finishing :: bool
  controller_work :: nat
  control_members :: "nat set"
  last_control_renewal :: int
  controller_calls :: "nat set"
  optional_status :: owned_status_slot
  control_status :: owned_status_slot
  subscribers :: "subscriber list"
  status_subscribers :: nat
  optional_status_subscribers :: nat
  lanes :: work_lanes
  queues :: job_queues
  startup :: startup_state
  replies :: "(nat \<times> operation_event) list"

definition kMaximumRobots :: nat where "kMaximumRobots = 256"
definition kMaximumBatchMembers :: nat where "kMaximumBatchMembers = 256"
definition kMaximumCommandsPerRobot :: nat where "kMaximumCommandsPerRobot = 32"
definition kMaximumChannelsPerRobot :: nat where "kMaximumChannelsPerRobot = 32"
definition kMaximumRegistrationJobs :: nat where "kMaximumRegistrationJobs = 32"
definition kMaximumCommandJobs :: nat where "kMaximumCommandJobs = 32"
definition kMaximumStatusSubscribers :: nat where "kMaximumStatusSubscribers = 4"
definition kMaximumBlockingCalls :: nat where "kMaximumBlockingCalls = 18"
definition kMaximumControlWaits :: nat where "kMaximumControlWaits = 2"
definition kMaximumSafetyWaits :: nat where "kMaximumSafetyWaits = 1"
definition kMaximumMembershipWaits :: nat where "kMaximumMembershipWaits = 1"
definition kMaximumReadinessWaits :: nat where "kMaximumReadinessWaits = 4"
definition kMinimumControlHeartbeat :: int where "kMinimumControlHeartbeat = 100"
definition kMinimumControlRenewInterval :: int where "kMinimumControlRenewInterval = kMinimumControlHeartbeat div 2"
definition kMaximumControlHeartbeat :: int where "kMaximumControlHeartbeat = 10000"

definition kMaximumTelemetryItemBytes :: nat where "kMaximumTelemetryItemBytes = 65536"

text \<open>A member as \<^verbatim>\<open>std::make_shared<Member>()\<close> leaves it, with what the registration then stores; \<open>since\<close> is
  the clock reading of the \<open>silent_since\<close> initializer.\<close>

definition new_member :: "member_identity \<Rightarrow> robot_resource \<Rightarrow> native_robot \<Rightarrow> nat \<Rightarrow> int \<Rightarrow> member" where
  "new_member i c n l since = \<lparr>identity = i, configuration = c, native = n, latest = [], state_version = 0,
     status_channels = {}, lane = l, closing = True, commands = [], in_flight = False, uncertain = False,
     native_call = 0, native_cancel_requested = False, active_call = None, native_stopped = False,
     control_owner = 0, control_generation = 0, retired_control_generation = 0, control_work = 0,
     control_held = False, control_retiring = False, control_finishing = False, control_release_waiting = False,
     potential_motion = False, silent_since = since, control_heartbeat = 0\<rparr>"

text \<open>A server as its constructor leaves it; the store holds nothing yet (\<open>d\<close> fills the unused addresses).\<close>

definition idle_queues :: job_queues where
  "idle_queues = \<lparr>registration_jobs = [], registration_alive = False, management_stopping = False, command_jobs = [],
     fence_job = None, command_revision = 0, scheduler_alive = False, stopping = False\<rparr>"

definition free_lanes :: work_lanes where
  "free_lanes = \<lparr>blocking_calls = 0, membership_blocking_calls = 0, safety_blocking_calls = 0,
     control_blocking_calls = 0, readiness_waits = 0\<rparr>"

definition initial_server :: "server_options \<Rightarrow> string \<Rightarrow> string \<Rightarrow> member \<Rightarrow> server" where
  "initial_server opts inst owner d = \<lparr>options = opts, instance_id = inst, process_owner = owner, phase = Starting,
     stop_reason = NoStop, failure_detail = [], fatal = False, shutdown = False, commands_closed = False, heap = (\<lambda>_. d),
     fresh = 0, members = [], namespaces = [], members_revision = 0, next_lane = 0, retained = [],
     controller_generation = 0, retired_controller_generation = 0, controller_open_id = [],
     retired_controller_open_id = [], controller_grant = [], controller_binding = empty_binding,
     controller_retiring = False, controller_finishing = False, controller_work = 0, control_members = {},
     last_control_renewal = 0, controller_calls = {}, optional_status = empty_slot, control_status = empty_slot,
     subscribers = [], status_subscribers = 0, optional_status_subscribers = 0, lanes = free_lanes,
     queues = idle_queues,
     startup = \<lparr>ready_workers = 0, master_pinned = False, pinned = \<lparr>mi_uri = [], mi_pid = 0, mi_run_id = []\<rparr>\<rparr>,
     replies = []\<rparr>"

definition put :: "nat \<Rightarrow> member \<Rightarrow> server \<Rightarrow> server" where
  "put a m s = s\<lparr>heap := (heap s)(a := m)\<rparr>"

lemma put_sel [simp]:
  "heap (put a m s) = (heap s)(a := m)" "fresh (put a m s) = fresh s" "members (put a m s) = members s"
  "namespaces (put a m s) = namespaces s" "control_members (put a m s) = control_members s"
  "controller_generation (put a m s) = controller_generation s"
  "retired_controller_generation (put a m s) = retired_controller_generation s"
  "controller_work (put a m s) = controller_work s" "controller_grant (put a m s) = controller_grant s"
  "controller_retiring (put a m s) = controller_retiring s" "controller_finishing (put a m s) = controller_finishing s"
  "control_status (put a m s) = control_status s" "optional_status (put a m s) = optional_status s"
  "controller_calls (put a m s) = controller_calls s" "phase (put a m s) = phase s" "options (put a m s) = options s"
  "replies (put a m s) = replies s" "commands_closed (put a m s) = commands_closed s"
  "members_revision (put a m s) = members_revision s" "controller_open_id (put a m s) = controller_open_id s"
  "fatal (put a m s) = fatal s" "stop_reason (put a m s) = stop_reason s" "shutdown (put a m s) = shutdown s"
  "next_lane (put a m s) = next_lane s" "last_control_renewal (put a m s) = last_control_renewal s"
  "subscribers (put a m s) = subscribers s" "queues (put a m s) = queues s" "lanes (put a m s) = lanes s"
  "startup (put a m s) = startup s" "status_subscribers (put a m s) = status_subscribers s"
  "retained (put a m s) = retained s" "failure_detail (put a m s) = failure_detail s"
  by (simp_all add: put_def)

text \<open>\<^verbatim>\<open>selectedMember\<close>: the registered member with exactly this identity.\<close>

definition selectedMember :: "member_identity \<Rightarrow> server \<Rightarrow> nat option" where
  "selectedMember i s =
     (case sm_find (members s) (id_robot i) of
        None \<Rightarrow> None
      | Some a \<Rightarrow> if sameIdentity (identity (heap s a)) i then Some a else None)"

definition secretEqual :: "string \<Rightarrow> string \<Rightarrow> nat \<Rightarrow> bool" where
  "secretEqual value expected n \<longleftrightarrow> length value = n \<and> value = take n expected"

subsection \<open>Stopping\<close>

text \<open>The first reason to stop wins, and so does the first failure text.\<close>

definition requestStop :: "stop_reason \<Rightarrow> server \<Rightarrow> server" where
  "requestStop reason s = (if stop_reason s = NoStop then s\<lparr>stop_reason := reason\<rparr> else s)"

definition setDetail :: "string \<Rightarrow> server \<Rightarrow> server" where
  "setDetail text s = (if failure_detail s = [] then s\<lparr>failure_detail := text\<rparr> else s)"

definition workerFailed :: "string \<Rightarrow> string option \<Rightarrow> server \<Rightarrow> server" where
  "workerFailed owner what s =
     requestStop Failure (setDetail (owner @ '': '' @ (case what of Some w \<Rightarrow> w | None \<Rightarrow> ''unknown native failure''))
       (s\<lparr>fatal := True\<rparr>))"

end
