(* ===== verification/Control.thy ===== *)
theory Control
  imports Server_State
begin

section \<open>Control of the robots\<close>

text \<open>
  The controller protocol of \<^verbatim>\<open>robot_server.cpp\<close>: a process owner installs one controller (a generation, an
  open id and a secret grant); the controller opens a control status stream, acquires control of members,
  renews it by heartbeat, and releases it; retiring the controller joins everything it holds. Each definition
  below is one critical section under \<^verbatim>\<open>controller_mutex_\<close> (or \<^verbatim>\<open>table_mutex_\<close> where it says so). A handler
  that takes the lock several times is several sections: other threads may run between them, so the composed
  handler takes the state at each acquisition. A wait on \<^verbatim>\<open>controller_changed_\<close> is a section that ends in
  \<open>Pending\<close>, the predicate it waits for, and the sections that follow it or its timeout.
\<close>

datatype 'r progress = Answer "'r rpc" | Pending

subsection \<open>Grants\<close>

definition controllerCredentialLocked :: "string \<Rightarrow> server \<Rightarrow> bool" where
  "controllerCredentialLocked grant s \<longleftrightarrow> controller_generation s \<noteq> 0 \<and> secretEqual grant (controller_grant s) 32"

definition controllerGrantLocked :: "string \<Rightarrow> server \<Rightarrow> bool" where
  "controllerGrantLocked grant s \<longleftrightarrow> \<not> controller_retiring s \<and> controllerCredentialLocked grant s"

text \<open>The condition that guards control admission: an active, ready control stream that is not retiring.\<close>

definition control_stream_up :: "server \<Rightarrow> bool" where
  "control_stream_up s \<longleftrightarrow> active (control_status s) \<noteq> None \<and> ready (control_status s) \<and> \<not> retiring (control_status s)"

definition markControlDownLocked :: "server \<Rightarrow> server" where
  "markControlDownLocked s = s\<lparr>control_status := (control_status s)\<lparr>ready := False\<rparr>\<rparr>"

subsection \<open>Installing and retiring the controller\<close>

text \<open>The process owner is recognised by its secret and by a peer that is a passed Unix descriptor.\<close>

definition ownerAuthorized :: "string \<Rightarrow> string \<Rightarrow> server \<Rightarrow> bool" where
  "ownerAuthorized peer presented s \<longleftrightarrow>
     3 < length peer \<and> take 3 peer = ''fd:'' \<and> list_all digit (drop 3 peer)
     \<and> secretEqual presented (process_owner s) 32"

record install_request =
  in_peer :: string
  in_process_owner :: string
  in_binding :: "controller_binding option"
  in_generation :: nat
  in_open_id :: string
  in_grant :: string

definition install_binding :: "install_request \<Rightarrow> controller_binding" where
  "install_binding req = (case in_binding req of Some b \<Rightarrow> b | None \<Rightarrow> empty_binding)"

definition invalid_installation :: "install_request \<Rightarrow> server \<Rightarrow> bool" where
  "invalid_installation req s \<longleftrightarrow>
     (let b = install_binding req;
          local = (cb_agent_id b = [] \<and> cb_agent_epoch_id b = []);
          remote = (ValidReferenceId (cb_agent_id b) \<and> ValidReferenceId (cb_agent_epoch_id b)
                    \<and> cb_agent_id b = target_id (options s))
      in in_binding req = None \<or> cb_provider_instance_id b \<noteq> instance_id s
         \<or> \<not> ValidReferenceId (cb_core_id b) \<or> \<not> ValidReferenceId (cb_core_boot_id b)
         \<or> (\<not> local \<and> \<not> remote) \<or> in_generation req = 0 \<or> length (in_open_id req) \<noteq> 16
         \<or> length (in_grant req) \<noteq> 32)"

text \<open>The request repeats the installation in place.\<close>

definition same_installation :: "install_request \<Rightarrow> server \<Rightarrow> bool" where
  "same_installation req s \<longleftrightarrow> \<not> controller_retiring s \<and> in_generation req = controller_generation s
     \<and> in_open_id req = controller_open_id s \<and> secretEqual (in_grant req) (controller_grant s) 32
     \<and> install_binding req = controller_binding s"

definition installController :: "install_request \<Rightarrow> server \<Rightarrow> (nat \<times> string) rpc \<times> server" where
  "installController req s =
     (if \<not> ownerAuthorized (in_peer req) (in_process_owner req) s
      then (Inl (PERMISSION_DENIED, ''private process owner is required''), s)
      else if invalid_installation req s
      then (Inl (INVALID_ARGUMENT, ''invalid controller installation''), s)
      else if controller_generation s \<noteq> 0
      then if \<not> same_installation req s
           then (Inl (FAILED_PRECONDITION, ''controller owner already exists''), s)
           else (Inr (controller_generation s, controller_open_id s), s)
      else if in_generation req \<le> retired_controller_generation s
      then (Inl (FAILED_PRECONDITION, ''controller generation is retired''), s)
      else (Inr (in_generation req, in_open_id req),
            s\<lparr>controller_generation := in_generation req, controller_open_id := in_open_id req,
              controller_grant := in_grant req, controller_binding := install_binding req\<rparr>))"

record retire_request =
  rt_peer :: string
  rt_process_owner :: string
  rt_generation :: nat
  rt_open_id :: string

definition retireController_begin :: "retire_request \<Rightarrow> server \<Rightarrow> (nat \<times> string) progress \<times> server" where
  "retireController_begin req s =
     (if \<not> ownerAuthorized (rt_peer req) (rt_process_owner req) s
      then (Answer (Inl (PERMISSION_DENIED, ''private process owner is required'')), s)
      else if rt_generation req = 0 \<or> length (rt_open_id req) \<noteq> 16
      then (Answer (Inl (INVALID_ARGUMENT, ''invalid controller retirement'')), s)
      else if controller_generation s = 0 \<and> rt_generation req = retired_controller_generation s
              \<and> rt_open_id req = retired_controller_open_id s
      then (Answer (Inr (rt_generation req, rt_open_id req)), s)
      else if rt_generation req \<noteq> controller_generation s \<or> rt_open_id req \<noteq> controller_open_id s
      then (Answer (Inl (FAILED_PRECONDITION, ''controller owner does not match'')), s)
      else (Pending, markControlDownLocked (s\<lparr>controller_retiring := True\<rparr>)))"

text \<open>First wait: every stream of the controller and all its work joined.\<close>

definition retireController_joined :: "server \<Rightarrow> bool" where
  "retireController_joined s \<longleftrightarrow> controller_generation s = 0
     \<or> (controller_calls s = {} \<and> controller_work s = 0 \<and> \<not> controller_finishing s)"

definition retireController_claim :: "retire_request \<Rightarrow> server \<Rightarrow> (nat \<times> string) progress \<times> server" where
  "retireController_claim req s =
     (if controller_generation s = 0
      then if rt_generation req \<noteq> retired_controller_generation s \<or> rt_open_id req \<noteq> retired_controller_open_id s
           then (Answer (Inl (FAILED_PRECONDITION, ''controller owner changed'')), s)
           else (Answer (Inr (rt_generation req, rt_open_id req)), s)
      else if rt_generation req = controller_generation s \<and> rt_open_id req = controller_open_id s
              \<and> controller_retiring s
      then (Pending, s\<lparr>controller_finishing := True\<rparr>)
      else (Answer (Inl (FAILED_PRECONDITION, ''controller owner changed'')), s))"

text \<open>The walk over the members the controller held when it was claimed: wait, skip or claim one, release its
  native control outside the lock, note the result.\<close>

definition retire_member_joined :: "nat \<Rightarrow> nat \<Rightarrow> server \<Rightarrow> bool" where
  "retire_member_joined gen a s \<longleftrightarrow> control_owner (heap s a) \<noteq> gen \<or> \<not> potential_motion (heap s a)
     \<or> (control_work (heap s a) = 0 \<and> \<not> control_release_waiting (heap s a) \<and> \<not> control_finishing (heap s a))"

definition retire_member_skip :: "nat \<Rightarrow> nat \<Rightarrow> server \<Rightarrow> bool" where
  "retire_member_skip gen a s \<longleftrightarrow> control_owner (heap s a) \<noteq> gen \<or> \<not> potential_motion (heap s a)"

definition retire_member_claim :: "nat \<Rightarrow> server \<Rightarrow> server" where
  "retire_member_claim a s = put a ((heap s a)\<lparr>control_finishing := True\<rparr>) s"

definition retire_member_finish :: "bool \<Rightarrow> nat \<Rightarrow> server \<Rightarrow> (nat \<times> string) progress \<times> server" where
  "retire_member_finish released a s =
     (if \<not> released
      then (Answer (Inl (UNKNOWN, ''native control release did not complete'')),
            (put a ((heap s a)\<lparr>control_finishing := False\<rparr>) s)\<lparr>controller_finishing := False\<rparr>)
      else (Pending, put a ((heap s a)\<lparr>control_finishing := False, potential_motion := False\<rparr>) s))"

definition retireController_timeout :: "string \<Rightarrow> server \<Rightarrow> (nat \<times> string) progress \<times> server" where
  "retireController_timeout detail s = (Answer (Inl (DEADLINE_EXCEEDED, detail)), s\<lparr>controller_finishing := False\<rparr>)"

text \<open>Last section, after \<^verbatim>\<open>controller_work_ == 0\<close>: give back every member of the walk and forget the controller.\<close>

definition retire_owned :: "nat \<Rightarrow> int \<Rightarrow> member \<Rightarrow> member" where
  "retire_owned gen now m =
     (if control_owner m \<noteq> gen then m
      else m\<lparr>control_held := False, control_retiring := False, retired_control_generation := control_generation m,
             silent_since := now\<rparr>)"

definition retireController_commit :: "retire_request \<Rightarrow> nat set \<Rightarrow> int \<Rightarrow> server \<Rightarrow> (nat \<times> string) rpc \<times> server" where
  "retireController_commit req controls now s =
     (Inr (rt_generation req, rt_open_id req),
      s\<lparr>heap := (\<lambda>a. if a \<in> controls then retire_owned (rt_generation req) now (heap s a) else heap s a),
        control_members := control_members s - {a \<in> controls. control_owner (heap s a) = rt_generation req},
        retired_controller_generation := controller_generation s,
        retired_controller_open_id := controller_open_id s,
        controller_generation := 0, controller_open_id := [], controller_grant := [],
        controller_binding := empty_binding, controller_retiring := False, controller_finishing := False,
        optional_status := empty_slot, control_status := empty_slot, last_control_renewal := 0\<rparr>)"

subsection \<open>Acquiring control of a member\<close>

record control_request =
  cr_identity :: "member_identity option"
  cr_generation :: nat
  cr_grant :: string

record control_response =
  rs_identity :: member_identity
  rs_generation :: nat
  rs_heartbeat_interval_ms :: int

definition bad_control_request :: "control_request \<Rightarrow> bool" where
  "bad_control_request req \<longleftrightarrow>
     (case cr_identity req of None \<Rightarrow> True | Some i \<Rightarrow> \<not> validIdentity i) \<or> cr_generation req = 0"

definition acquireControl_admit :: "bool \<Rightarrow> control_request \<Rightarrow> server \<Rightarrow> refusal option" where
  "acquireControl_admit cancelled req s =
     (if bad_control_request req then Some (INVALID_ARGUMENT, ''invalid control admission'')
      else if \<not> controllerGrantLocked (cr_grant req) s
      then Some (PERMISSION_DENIED, ''controller grant is unavailable'')
      else if cancelled \<or> \<not> control_stream_up s
      then Some (FAILED_PRECONDITION, ''required control stream is unavailable'')
      else None)"

definition heartbeat_interval :: "int \<Rightarrow> int" where
  "heartbeat_interval silence = (if silence \<le> 0 then 0 else min (silence div 3) kMaximumControlHeartbeat)"

definition control_answer :: "member \<Rightarrow> control_response" where
  "control_answer m = \<lparr>rs_identity = identity m, rs_generation = control_generation m,
     rs_heartbeat_interval_ms = heartbeat_interval (ControlSilenceLimit (native m))\<rparr>"

text \<open>A member last owned by another controller starts over under the current one.\<close>

definition adopt :: "nat \<Rightarrow> member \<Rightarrow> member" where
  "adopt gen m =
     (if control_owner m \<noteq> gen
      then m\<lparr>control_owner := gen, control_generation := 0, retired_control_generation := 0, control_retiring := False\<rparr>
      else m)"

definition acquireControl_commit ::
    "bool \<Rightarrow> control_request \<Rightarrow> nat \<Rightarrow> int \<Rightarrow> server \<Rightarrow> control_response rpc \<times> server" where
  "acquireControl_commit cancelled req a now s =
     (let m = heap s a; silence = ControlSilenceLimit (native m); gen = controller_generation s
      in if \<not> controllerGrantLocked (cr_grant req) s
         then (Inl (PERMISSION_DENIED, ''controller grant is unavailable''), s)
         else if cancelled \<or> closing m \<or> \<not> control_stream_up s
         then (Inl (FAILED_PRECONDITION, ''required control stream is unavailable''), s)
         else if 0 < silence \<and> silence < 3 * kMinimumControlHeartbeat
         then (Inl (FAILED_PRECONDITION, ''control watchdog is shorter than the scheduler budget''), s)
         else if control_owner m \<noteq> gen \<and> (control_work m \<noteq> 0 \<or> control_held m \<or> potential_motion m)
         then (Inl (FAILED_PRECONDITION, ''previous control owner is not retired''), s)
         else let m' = adopt gen m
              in if control_held m'
                 then if control_retiring m' \<or> cr_generation req \<noteq> control_generation m'
                      then (Inl (FAILED_PRECONDITION, ''member control is already held''), put a m' s)
                      else (Inr (control_answer m'), put a m' s)
                 else if cr_generation req \<le> retired_control_generation m'
                 then (Inl (FAILED_PRECONDITION, ''member control generation is retired''), put a m' s)
                 else if kMaximumRobots \<le> card (control_members s) \<and> a \<notin> control_members s
                 then (Inl (RESOURCE_EXHAUSTED, ''member control capacity exhausted''), put a m' s)
                 else let m'' = m'\<lparr>control_generation := cr_generation req, control_held := True,
                                   control_retiring := False, control_heartbeat := now\<rparr>
                      in (Inr (control_answer m''),
                          (put a m'' s)\<lparr>control_members := insert a (control_members s)\<rparr>))"

text \<open>The handler: the states at its three lock acquisitions.\<close>

definition acquireControl ::
    "bool \<Rightarrow> control_request \<Rightarrow> int \<Rightarrow> server \<Rightarrow> server \<Rightarrow> server \<Rightarrow> control_response rpc \<times> server" where
  "acquireControl cancelled req now s1 s2 s3 =
     (case acquireControl_admit cancelled req s1 of
        Some r \<Rightarrow> (Inl r, s3)
      | None \<Rightarrow>
          (case Option.bind (cr_identity req) (\<lambda>i. selectedMember i s2) of
             None \<Rightarrow> (Inl (FAILED_PRECONDITION, ''member is not current''), s3)
           | Some a \<Rightarrow> acquireControl_commit cancelled req a now s3))"

subsection \<open>Renewing control\<close>

record renewal =
  rn_identity :: "member_identity option"
  rn_generation :: nat

record renew_request =
  rq_grant :: string
  rq_status_generation :: nat
  rq_status_open_id :: string
  rq_members :: "renewal list"

definition renew_stream_matches :: "renew_request \<Rightarrow> server \<Rightarrow> bool" where
  "renew_stream_matches req s \<longleftrightarrow> control_stream_up s
     \<and> slot_generation (control_status s) = rq_status_generation req
     \<and> open_id (control_status s) = rq_status_open_id req"

text \<open>The first section reserves the rate edge of the owner before any member is looked at.\<close>

definition renewControl_admit :: "bool \<Rightarrow> renew_request \<Rightarrow> int \<Rightarrow> server \<Rightarrow> refusal option \<times> server" where
  "renewControl_admit cancelled req now s =
     (if rq_status_generation req = 0 \<or> length (rq_status_open_id req) \<noteq> 16 \<or> rq_members req = []
         \<or> kMaximumRobots < length (rq_members req)
      then (Some (INVALID_ARGUMENT, ''invalid control renewal''), s)
      else if \<not> controllerGrantLocked (rq_grant req) s
      then (Some (PERMISSION_DENIED, ''controller grant is unavailable''), s)
      else if cancelled \<or> \<not> renew_stream_matches req s
      then (Some (FAILED_PRECONDITION, ''required control stream is unavailable''), s)
      else if last_control_renewal s \<noteq> 0 \<and> now - last_control_renewal s < ms kMinimumControlRenewInterval
      then (Some (RESOURCE_EXHAUSTED, ''control renewal is faster than its scheduler policy''), s)
      else (None, s\<lparr>last_control_renewal := now\<rparr>))"

text \<open>The second section (\<^verbatim>\<open>table_mutex_\<close>) finds the members, in request order, and refuses duplicates.\<close>

fun renewControl_lookup :: "string list \<Rightarrow> renewal list \<Rightarrow> server \<Rightarrow> refusal + nat option list" where
  "renewControl_lookup ids [] s = Inr []"
| "renewControl_lookup ids (r # rs) s =
     (case rn_identity r of
        None \<Rightarrow> Inl (INVALID_ARGUMENT, ''invalid control renewal member'')
      | Some i \<Rightarrow>
          if \<not> validIdentity i \<or> rn_generation r = 0 \<or> id_robot i \<in> set ids
          then Inl (INVALID_ARGUMENT, ''invalid control renewal member'')
          else (case renewControl_lookup (id_robot i # ids) rs s of
                  Inl e \<Rightarrow> Inl e
                | Inr found \<Rightarrow> Inr (selectedMember i s # found)))"

definition renewal_current :: "renewal \<Rightarrow> nat option \<Rightarrow> server \<Rightarrow> bool" where
  "renewal_current r found s =
     (case found of None \<Rightarrow> False
      | Some a \<Rightarrow> let m = heap s a
          in \<not> closing m \<and> control_owner m = controller_generation s \<and> control_held m \<and> \<not> control_retiring m
             \<and> control_generation m = rn_generation r \<and> 0 < ControlSilenceLimit (native m))"

text \<open>The loop of the last section: the answers in request order, and the heartbeat of each renewed member.\<close>

fun renew_members :: "int \<Rightarrow> (renewal \<times> nat option) list \<Rightarrow> server \<Rightarrow> (renewal \<times> bool) list \<times> server" where
  "renew_members now [] s = ([], s)"
| "renew_members now ((r, found) # rest) s =
     (let current = renewal_current r found s;
          s' = (if current then (case found of Some a \<Rightarrow> put a ((heap s a)\<lparr>control_heartbeat := now\<rparr>) s | None \<Rightarrow> s) else s);
          (answers, s'') = renew_members now rest s'
      in ((r, current) # answers, s''))"

definition renewControl_commit ::
    "bool \<Rightarrow> renew_request \<Rightarrow> nat option list \<Rightarrow> int \<Rightarrow> server \<Rightarrow> (renewal \<times> bool) list rpc \<times> server" where
  "renewControl_commit cancelled req found now s =
     (if \<not> controllerGrantLocked (rq_grant req) s
      then (Inl (PERMISSION_DENIED, ''controller grant is unavailable''), s)
      else if cancelled \<or> \<not> renew_stream_matches req s
      then (Inl (FAILED_PRECONDITION, ''required control stream is unavailable''), s)
      else let (answers, s') = renew_members now (zip (rq_members req) found) s in (Inr answers, s'))"

subsection \<open>Releasing control\<close>

definition requireIndependentRelease :: "bool \<Rightarrow> control_request \<Rightarrow> server \<Rightarrow> server \<Rightarrow> server \<Rightarrow> refusal option" where
  "requireIndependentRelease cancelled req s1 s2 s3 =
     (if bad_control_request req then Some (INVALID_ARGUMENT, ''invalid control retirement'')
      else if cancelled then Some (CANCELLED, ''control retirement was not admitted'')
      else if \<not> controllerCredentialLocked (cr_grant req) s1
      then Some (PERMISSION_DENIED, ''controller grant is unavailable'')
      else case Option.bind (cr_identity req) (\<lambda>i. selectedMember i s2) of
             None \<Rightarrow> Some (FAILED_PRECONDITION, ''member is not current'')
           | Some a \<Rightarrow>
               let m = heap s3 a
               in if \<not> controllerCredentialLocked (cr_grant req) s3 \<or> control_owner m \<noteq> controller_generation s3
                  then Some (PERMISSION_DENIED, ''controller grant is unavailable'')
                  else if \<not> control_held m \<and> cr_generation req = retired_control_generation m then None
                  else if \<not> control_held m \<or> cr_generation req \<noteq> control_generation m
                  then Some (FAILED_PRECONDITION, ''member control does not match'')
                  else if control_release_waiting m \<or> control_finishing m
                  then Some (FAILED_PRECONDITION, ''control retirement is already joining'')
                  else None)"

definition release_answer :: "control_request \<Rightarrow> member \<Rightarrow> control_response" where
  "release_answer req m = \<lparr>rs_identity = identity m, rs_generation = cr_generation req, rs_heartbeat_interval_ms = 0\<rparr>"

text \<open>The section that starts a release: refuse, answer a release that already happened, or begin to wait.\<close>

definition releaseControl_begin ::
    "bool \<Rightarrow> control_request \<Rightarrow> nat \<Rightarrow> int \<Rightarrow> server \<Rightarrow> control_response progress \<times> server" where
  "releaseControl_begin cancelled req a now s =
     (let m = heap s a
      in if \<not> controllerCredentialLocked (cr_grant req) s \<or> control_owner m \<noteq> controller_generation s
         then (Answer (Inl (PERMISSION_DENIED, ''controller grant is unavailable'')), s)
         else if \<not> control_held m \<and> cr_generation req = retired_control_generation m
         then (Answer (Inr (release_answer req m)), s)
         else if \<not> control_held m \<or> cr_generation req \<noteq> control_generation m
         then (Answer (Inl (FAILED_PRECONDITION, ''member control does not match'')), s)
         else if cancelled then (Answer (Inl (CANCELLED, ''control retirement was not admitted'')), s)
         else if control_release_waiting m \<or> control_finishing m
         then (Answer (Inl (FAILED_PRECONDITION, ''control retirement is already joining'')), s)
         else (Pending, (put a (m\<lparr>control_retiring := True, control_release_waiting := True, silent_since := now\<rparr>) s)
                  \<lparr>controller_work := Suc (controller_work s)\<rparr>))"

text \<open>The destructor of the wait (\<^verbatim>\<open>ReleaseWait\<close>), run on every way out of it.\<close>

definition end_release_wait :: "nat \<Rightarrow> server \<Rightarrow> server" where
  "end_release_wait a s =
     (put a ((heap s a)\<lparr>control_release_waiting := False\<rparr>) s)\<lparr>controller_work := controller_work s - 1\<rparr>"

definition releaseControl_joined :: "nat \<Rightarrow> server \<Rightarrow> bool" where
  "releaseControl_joined a s \<longleftrightarrow> \<not> control_held (heap s a)
     \<or> (control_work (heap s a) = 0 \<and> \<not> control_finishing (heap s a))"

definition releaseControl_timeout :: "nat \<Rightarrow> server \<Rightarrow> control_response progress \<times> server" where
  "releaseControl_timeout a s =
     (Answer (Inl (DEADLINE_EXCEEDED, ''member control is still joining'')), end_release_wait a s)"

text \<open>After the wait: the control ended meanwhile, or this caller finishes it and reads whether motion is possible.\<close>

definition releaseControl_claim :: "control_request \<Rightarrow> nat \<Rightarrow> server \<Rightarrow> control_response progress \<times> server" where
  "releaseControl_claim req a s =
     (let m = heap s a
      in if \<not> control_held m
         then if cr_generation req \<noteq> retired_control_generation m
              then (Answer (Inl (FAILED_PRECONDITION, ''member control changed'')), end_release_wait a s)
              else (Answer (Inr (release_answer req m)), end_release_wait a s)
         else (Pending, put a (m\<lparr>control_finishing := True\<rparr>) s))"

definition releaseControl_finish :: "bool \<Rightarrow> control_request \<Rightarrow> nat \<Rightarrow> server \<Rightarrow> control_response progress \<times> server" where
  "releaseControl_finish success req a s =
     (if \<not> success
      then (Answer (Inl (UNKNOWN, ''native control release did not complete'')),
            end_release_wait a (put a ((heap s a)\<lparr>control_finishing := False\<rparr>) s))
      else let m = (heap s a)\<lparr>control_finishing := False, potential_motion := False, control_held := False,
                     retired_control_generation := control_generation (heap s a), control_retiring := False\<rparr>
           in (Answer (Inr (release_answer req m)),
               end_release_wait a ((put a m s)\<lparr>control_members := control_members s - {a}\<rparr>)))"

text \<open>\<^verbatim>\<open>retireNativeControl\<close>: a stopped member has nothing to release; otherwise the native publisher answers.\<close>

definition retireNativeControl :: "bool \<Rightarrow> member \<Rightarrow> bool" where
  "retireNativeControl native_result m \<longleftrightarrow> native_stopped m \<or> native_result"

text \<open>The handler when no other thread takes the lock between its sections: \<open>expired\<close> says that the deadline
  passes before the awaited condition, \<open>native_result\<close> is the answer of the native publisher.\<close>

definition releaseControl ::
    "bool \<Rightarrow> bool \<Rightarrow> bool \<Rightarrow> control_request \<Rightarrow> int \<Rightarrow> server \<Rightarrow> control_response progress \<times> server" where
  "releaseControl cancelled expired native_result req now s =
     (if bad_control_request req then (Answer (Inl (INVALID_ARGUMENT, ''invalid control retirement'')), s)
      else if \<not> controllerCredentialLocked (cr_grant req) s
      then (Answer (Inl (PERMISSION_DENIED, ''controller grant is unavailable'')), s)
      else case Option.bind (cr_identity req) (\<lambda>i. selectedMember i s) of
             None \<Rightarrow> (Answer (Inl (FAILED_PRECONDITION, ''member is not current'')), s)
           | Some a \<Rightarrow>
               (case releaseControl_begin cancelled req a now s of
                  (Answer r, s1) \<Rightarrow> (Answer r, s1)
                | (Pending, s1) \<Rightarrow>
                    if \<not> releaseControl_joined a s1
                    then if expired then releaseControl_timeout a s1 else (Pending, s1)
                    else (case releaseControl_claim req a s1 of
                            (Answer r, s2) \<Rightarrow> (Answer r, s2)
                          | (Pending, s2) \<Rightarrow>
                              releaseControl_finish
                                (\<not> potential_motion (heap s1 a) \<or> retireNativeControl native_result (heap s2 a))
                                req a s2)))"

subsection \<open>The watchdog\<close>

text \<open>How long the owner of a member has been silent, in milliseconds, as \<^verbatim>\<open>CoreSilent\<close> is told.\<close>

definition memberSilence :: "nat \<Rightarrow> int \<Rightarrow> server \<Rightarrow> int" where
  "memberSilence a now s =
     (let m = heap s a
      in if \<not> potential_motion m then 0
         else if control_held m \<and> control_owner m = controller_generation s \<and> \<not> control_retiring m
                 \<and> \<not> controller_retiring s
         then let limit = ControlSilenceLimit (native m); age = to_ms (now - control_heartbeat m)
              in if limit \<le> 0 then 0 else if age < limit then 0 else age
         else to_ms (now - silent_since m))"

text \<open>The scheduler's section after the native publisher released the motion of a silent owner.\<close>

definition silence_released :: "nat \<Rightarrow> server \<Rightarrow> server" where
  "silence_released a s =
     (if control_work (heap s a) = 0 then put a ((heap s a)\<lparr>potential_motion := False\<rparr>) s else s)"

subsection \<open>Commands and stops\<close>

text \<open>The section of \<^verbatim>\<open>dispatch\<close> under the controller lock: the refusal of a motion without admitted control or of
  a release that is already retiring, or the accounting of the control work that starts (\<open>Inr True\<close>).\<close>

definition stale_heartbeat :: "member \<Rightarrow> int \<Rightarrow> bool" where
  "stale_heartbeat m now \<longleftrightarrow> 0 < ControlSilenceLimit (native m)
     \<and> ms (ControlSilenceLimit (native m)) \<le> now - control_heartbeat m"

definition dispatch_control ::
    "bool \<Rightarrow> bool \<Rightarrow> string \<Rightarrow> nat \<Rightarrow> nat \<Rightarrow> int \<Rightarrow> server \<Rightarrow> (string \<times> string + bool) \<times> server" where
  "dispatch_control motion release grant generation a now s =
     (let m = heap s a; gen = controller_generation s
      in if motion \<and> (\<not> controllerGrantLocked grant s \<or> \<not> control_stream_up s \<or> \<not> control_held m
              \<or> control_retiring m \<or> closing m \<or> stale_heartbeat m now \<or> control_owner m \<noteq> gen
              \<or> control_generation m \<noteq> generation)
         then (Inl (''control-unavailable'', ''not executed: admitted member control is required''), s)
         else if release \<and> control_owner m = gen \<and> gen \<noteq> 0 \<and> (control_finishing m \<or> control_retiring m)
         then (Inl (''control-retiring'', ''not executed: native control is retiring''), s)
         else if motion \<or> (release \<and> control_owner m = gen \<and> gen \<noteq> 0 \<and> control_held m)
         then (Inr True, (put a (m\<lparr>control_work := Suc (control_work m),
                                 potential_motion := (motion \<or> potential_motion m)\<rparr>) s)
                         \<lparr>controller_work := Suc (controller_work s)\<rparr>)
         else (Inr False, s))"

text \<open>The section of the completion of a command that was counted as control work.\<close>

definition complete_control :: "bool \<Rightarrow> nat \<Rightarrow> server \<Rightarrow> server" where
  "complete_control released a s =
     (let m = heap s a
      in (put a (m\<lparr>potential_motion := (potential_motion m \<and> \<not> released), control_work := control_work m - 1\<rparr>) s)
           \<lparr>controller_work := controller_work s - 1\<rparr>)"

text \<open>The section of \<^verbatim>\<open>stopMember\<close> after \<^verbatim>\<open>NativeRobot::Stop\<close>.\<close>

definition stop_control :: "nat \<Rightarrow> server \<Rightarrow> server" where
  "stop_control a s =
     (let m = heap s a
      in (put a (m\<lparr>potential_motion := False, control_held := False,
                   retired_control_generation := control_generation m\<rparr>) s)
           \<lparr>control_members := control_members s - {a}\<rparr>)"

definition stopMember :: "nat \<Rightarrow> server \<Rightarrow> server" where
  "stopMember a s = stop_control a (put a ((heap s a)\<lparr>native_stopped := True\<rparr>) s)"

subsection \<open>Ownership of the status streams\<close>

record status_owner =
  so_grant :: string
  so_generation :: nat
  so_open_id :: string
  so_predecessor_generation :: nat
  so_predecessor_open_id :: string

definition validStatusOwner :: "status_owner \<Rightarrow> bool" where
  "validStatusOwner w \<longleftrightarrow> length (so_grant w) = 32 \<and> so_generation w \<noteq> 0 \<and> length (so_open_id w) = 16
     \<and> (so_predecessor_generation w = 0 \<and> so_predecessor_open_id w = []
        \<or> so_predecessor_generation w \<noteq> 0 \<and> length (so_predecessor_open_id w) = 16)"

definition matchesPredecessor :: "status_owner \<Rightarrow> owned_status_slot \<Rightarrow> bool" where
  "matchesPredecessor w slot \<longleftrightarrow> so_predecessor_generation w = retired_generation slot
     \<and> so_predecessor_open_id w = retired_open_id slot"

definition status_slot :: "bool \<Rightarrow> server \<Rightarrow> owned_status_slot" where
  "status_slot control s = (if control then control_status s else optional_status s)"

definition set_slot :: "bool \<Rightarrow> owned_status_slot \<Rightarrow> server \<Rightarrow> server" where
  "set_slot control slot s = (if control then s\<lparr>control_status := slot\<rparr> else s\<lparr>optional_status := slot\<rparr>)"

text \<open>Admission of a stream: \<open>Inr True\<close> when the call now owns the slot, \<open>Inr False\<close> for an unowned view.\<close>

definition admitOwnedStatus :: "nat \<Rightarrow> bool \<Rightarrow> status_owner option \<Rightarrow> server \<Rightarrow> bool rpc \<times> server" where
  "admitOwnedStatus c control w s =
     (case w of
        None \<Rightarrow> (if control then Inl (INVALID_ARGUMENT, ''control owner is required'') else Inr False, s)
      | Some w \<Rightarrow>
          if \<not> validStatusOwner w then (Inl (INVALID_ARGUMENT, ''invalid status owner''), s)
          else if \<not> controllerGrantLocked (so_grant w) s
          then (Inl (PERMISSION_DENIED, ''controller grant is unavailable''), s)
          else let slot = status_slot control s
               in if active slot \<noteq> None then (Inl (FAILED_PRECONDITION, ''prior status owner is not joined''), s)
                  else if \<not> matchesPredecessor w slot \<or> so_generation w \<le> retired_generation slot
                  then (Inl (FAILED_PRECONDITION, ''status predecessor is retired or mismatched''), s)
                  else (Inr True,
                        (set_slot control (slot\<lparr>active := Some c, slot_generation := so_generation w,
                             open_id := so_open_id w, retiring := False, ready := False\<rparr>) s)
                          \<lparr>controller_calls := insert c (controller_calls s)\<rparr>))"

text \<open>The start of \<^verbatim>\<open>subscribe\<close> for an owned stream: it becomes ready, or ends as cancelled.\<close>

definition subscribe_ready :: "nat \<Rightarrow> bool \<Rightarrow> server \<Rightarrow> bool \<times> server" where
  "subscribe_ready c control s =
     (let slot = status_slot control s
      in if active slot \<noteq> Some c \<or> retiring slot \<or> controller_retiring s then (False, s)
         else (True, set_slot control (slot\<lparr>ready := True\<rparr>) s))"

text \<open>The Done tag of an owned control stream.\<close>

definition status_done :: "nat \<Rightarrow> server \<Rightarrow> server" where
  "status_done c s = (if active (control_status s) = Some c then markControlDownLocked s else s)"

text \<open>\<^verbatim>\<open>releaseStatus\<close> of an owned call: the slot remembers the stream as retired.\<close>

definition releaseStatus :: "nat \<Rightarrow> bool \<Rightarrow> server \<Rightarrow> server" where
  "releaseStatus c control s =
     (let slot = status_slot control s;
          s' = (if active slot = Some c
                then set_slot control (slot\<lparr>retired_generation := slot_generation slot,
                       retired_open_id := open_id slot, open_id := [], active := None, slot_generation := 0,
                       retiring := False, ready := False\<rparr>) s
                else s)
      in s'\<lparr>controller_calls := controller_calls s' - {c}\<rparr>)"

definition retireStatus_begin :: "bool \<Rightarrow> status_owner option \<Rightarrow> server \<Rightarrow> (nat \<times> string) progress \<times> server" where
  "retireStatus_begin control w s =
     (case w of
        None \<Rightarrow> (Answer (Inl (INVALID_ARGUMENT, ''invalid status retirement'')), s)
      | Some w \<Rightarrow>
          if \<not> validStatusOwner w then (Answer (Inl (INVALID_ARGUMENT, ''invalid status retirement'')), s)
          else if \<not> controllerGrantLocked (so_grant w) s
          then (Answer (Inl (PERMISSION_DENIED, ''controller grant is unavailable'')), s)
          else let slot = status_slot control s
               in if active slot \<noteq> None \<and> slot_generation slot = so_generation w \<and> open_id slot = so_open_id w
                     \<and> matchesPredecessor w slot
                  then (Pending, set_slot control (slot\<lparr>retiring := True, ready := False\<rparr>) s)
                  else let slot' = (if active slot = None \<and> retired_generation slot < so_generation w
                                       \<and> matchesPredecessor w slot
                                    then slot\<lparr>retired_generation := so_generation w, retired_open_id := so_open_id w\<rparr>
                                    else slot);
                           s' = set_slot control slot' s
                       in if retired_generation slot' \<noteq> so_generation w \<or> retired_open_id slot' \<noteq> so_open_id w
                          then (Answer (Inl (FAILED_PRECONDITION, ''status owner does not match'')), s')
                          else (Answer (Inr (so_generation w, so_open_id w)), s'))"

definition retireStatus_joined :: "bool \<Rightarrow> status_owner \<Rightarrow> server \<Rightarrow> bool" where
  "retireStatus_joined control w s \<longleftrightarrow>
     (let slot = status_slot control s
      in active slot = None \<or> slot_generation slot \<noteq> so_generation w \<or> open_id slot \<noteq> so_open_id w)"

definition retireStatus_finish :: "bool \<Rightarrow> status_owner \<Rightarrow> server \<Rightarrow> (nat \<times> string) progress" where
  "retireStatus_finish control w s =
     (let slot = status_slot control s
      in if retired_generation slot \<noteq> so_generation w \<or> retired_open_id slot \<noteq> so_open_id w
         then Answer (Inl (FAILED_PRECONDITION, ''status owner does not match''))
         else Answer (Inr (so_generation w, so_open_id w)))"

end
