(* ===== verification/Control_Protocol.thy ===== *)
theory Control_Protocol
  imports Control
begin

section \<open>The controller protocol as a transition system\<close>

text \<open>
  The critical sections of \<open>Control\<close> interleaved in any order: a step is one section of one handler. What a
  handler remembers between its sections is visible in the flags of the member it works on
  (\<^verbatim>\<open>control_release_waiting\<close>, \<^verbatim>\<open>control_finishing\<close>); the walk of \<^verbatim>\<open>retireController\<close> over the members it found
  is the one piece of thread-local state, kept here as \<open>walk\<close>: the members still to visit and all of them. The
  invariant says who may hold control and accounts for all control work; it holds in every reachable state.
\<close>

record system =
  srv :: server
  walk :: "(nat set \<times> nat set) option"

subsection \<open>Invariant\<close>

definition member_ok :: "server \<Rightarrow> nat \<Rightarrow> bool" where
  "member_ok s a \<longleftrightarrow>
     (control_held (heap s a) \<longrightarrow> a \<in> control_members s \<and> control_owner (heap s a) = controller_generation s
        \<and> controller_generation s \<noteq> 0 \<and> retired_control_generation (heap s a) < control_generation (heap s a))
     \<and> (a \<in> control_members s \<longrightarrow> control_held (heap s a))
     \<and> (potential_motion (heap s a) \<longrightarrow> control_held (heap s a))"

definition work_of :: "member \<Rightarrow> nat" where
  "work_of m = control_work m + of_bool (control_release_waiting m)"

definition work_sum :: "server \<Rightarrow> nat" where
  "work_sum s = (\<Sum>a<fresh s. work_of (heap s a))"

definition slot_ok :: "owned_status_slot \<Rightarrow> nat set \<Rightarrow> bool" where
  "slot_ok slot calls \<longleftrightarrow> (\<forall>c. active slot = Some c \<longrightarrow> c \<in> calls \<and> retired_generation slot < slot_generation slot)
     \<and> (active slot = None \<longrightarrow> \<not> ready slot)"

definition controller_ok :: "server \<Rightarrow> bool" where
  "controller_ok s \<longleftrightarrow>
     (controller_generation s \<noteq> 0 \<longrightarrow> retired_controller_generation s < controller_generation s
        \<and> length (controller_grant s) = 32)
     \<and> (controller_finishing s \<longrightarrow> controller_retiring s)
     \<and> (controller_retiring s \<longrightarrow> controller_generation s \<noteq> 0)
     \<and> slot_ok (control_status s) (controller_calls s) \<and> slot_ok (optional_status s) (controller_calls s)"

definition walk_ok :: "system \<Rightarrow> bool" where
  "walk_ok y \<longleftrightarrow>
     (case walk y of None \<Rightarrow> \<not> controller_finishing (srv y)
      | Some (pending, controls) \<Rightarrow> controller_finishing (srv y) \<and> controller_calls (srv y) = {}
          \<and> pending \<subseteq> controls \<and> controls \<subseteq> {..<fresh (srv y)} \<and> control_members (srv y) \<subseteq> controls
          \<and> (\<forall>a \<in> controls - pending. \<not> potential_motion (heap (srv y) a)))"

definition ctl_inv :: "system \<Rightarrow> bool" where
  "ctl_inv y \<longleftrightarrow> (\<forall>a < fresh (srv y). member_ok (srv y) a) \<and> control_members (srv y) \<subseteq> {..<fresh (srv y)}
     \<and> controller_work (srv y) = work_sum (srv y) \<and> controller_ok (srv y) \<and> walk_ok y"

subsection \<open>Steps\<close>

text \<open>What the rest of the server may change between two control sections: everything but the control state.\<close>

definition control_view :: "member \<Rightarrow> (nat \<times> nat \<times> nat \<times> nat) \<times> bool \<times> bool \<times> bool \<times> bool \<times> bool" where
  "control_view m = ((control_owner m, control_generation m, retired_control_generation m, control_work m),
     control_held m, control_retiring m, control_finishing m, control_release_waiting m, potential_motion m)"

definition control_frame :: "server \<Rightarrow> server \<Rightarrow> bool" where
  "control_frame s s' \<longleftrightarrow> fresh s' = fresh s \<and> control_members s' = control_members s
     \<and> controller_generation s' = controller_generation s
     \<and> retired_controller_generation s' = retired_controller_generation s
     \<and> controller_grant s' = controller_grant s \<and> controller_open_id s' = controller_open_id s
     \<and> controller_retiring s' = controller_retiring s \<and> controller_finishing s' = controller_finishing s
     \<and> controller_work s' = controller_work s \<and> controller_calls s' = controller_calls s
     \<and> control_status s' = control_status s \<and> optional_status s' = optional_status s
     \<and> (\<forall>a < fresh s. control_view (heap s' a) = control_view (heap s a))"

inductive control_step :: "system \<Rightarrow> system \<Rightarrow> bool" where
  install: "control_step y (y\<lparr>srv := snd (installController req (srv y))\<rparr>)"
| acquire: "a < fresh (srv y) \<Longrightarrow>
    control_step y (y\<lparr>srv := snd (acquireControl_commit cancelled req a now (srv y))\<rparr>)"
| renew: "list_all (\<lambda>f. \<forall>a. f = Some a \<longrightarrow> a < fresh (srv y)) found \<Longrightarrow>
    control_step y (y\<lparr>srv := snd (renewControl_commit cancelled rreq found now (srv y))\<rparr>)"
| renew_admit: "control_step y (y\<lparr>srv := snd (renewControl_admit cancelled rreq now (srv y))\<rparr>)"
| release_begin: "a < fresh (srv y) \<Longrightarrow>
    control_step y (y\<lparr>srv := snd (releaseControl_begin cancelled req' a now (srv y))\<rparr>)"
| release_timeout: "a < fresh (srv y) \<Longrightarrow> control_release_waiting (heap (srv y) a) \<Longrightarrow>
    \<not> control_finishing (heap (srv y) a) \<Longrightarrow>
    control_step y (y\<lparr>srv := snd (releaseControl_timeout a (srv y))\<rparr>)"
| release_claim: "a < fresh (srv y) \<Longrightarrow> control_release_waiting (heap (srv y) a) \<Longrightarrow>
    \<not> control_finishing (heap (srv y) a) \<Longrightarrow> releaseControl_joined a (srv y) \<Longrightarrow>
    control_step y (y\<lparr>srv := snd (releaseControl_claim req' a (srv y))\<rparr>)"
| release_finish: "a < fresh (srv y) \<Longrightarrow> control_release_waiting (heap (srv y) a) \<Longrightarrow>
    control_finishing (heap (srv y) a) \<Longrightarrow>
    control_step y (y\<lparr>srv := snd (releaseControl_finish success req' a (srv y))\<rparr>)"
| dispatch: "a < fresh (srv y) \<Longrightarrow>
    control_step y (y\<lparr>srv := snd (dispatch_control motion release grant generation a now (srv y))\<rparr>)"
| complete: "a < fresh (srv y) \<Longrightarrow> 0 < control_work (heap (srv y) a) \<Longrightarrow>
    control_step y (y\<lparr>srv := complete_control released a (srv y)\<rparr>)"
| silence: "a < fresh (srv y) \<Longrightarrow> control_step y (y\<lparr>srv := silence_released a (srv y)\<rparr>)"
| stop: "a < fresh (srv y) \<Longrightarrow> control_step y (y\<lparr>srv := stopMember a (srv y)\<rparr>)"
| admit_status: "c \<notin> controller_calls (srv y) \<Longrightarrow>
    control_step y (y\<lparr>srv := snd (admitOwnedStatus c control w (srv y))\<rparr>)"
| status_ready: "control_step y (y\<lparr>srv := snd (subscribe_ready c control (srv y))\<rparr>)"
| status_done: "control_step y (y\<lparr>srv := status_done c (srv y)\<rparr>)"
| release_status: "active (status_slot (\<not> control) (srv y)) \<noteq> Some c \<Longrightarrow>
    control_step y (y\<lparr>srv := releaseStatus c control (srv y)\<rparr>)"
| retire_status: "control_step y (y\<lparr>srv := snd (retireStatus_begin control w (srv y))\<rparr>)"
| retire_begin: "control_step y (y\<lparr>srv := snd (retireController_begin tq (srv y))\<rparr>)"
| retire_claim: "retireController_joined (srv y) \<Longrightarrow> retireController_claim tq (srv y) = (Pending, s') \<Longrightarrow>
    control_step y (y\<lparr>srv := s', walk := Some (control_members (srv y), control_members (srv y))\<rparr>)"
| retire_skip: "walk y = Some (pending, controls) \<Longrightarrow> a \<in> pending \<Longrightarrow>
    retire_member_skip (controller_generation (srv y)) a (srv y) \<Longrightarrow>
    control_step y (y\<lparr>walk := Some (pending - {a}, controls)\<rparr>)"
| retire_visit: "walk y = Some (pending, controls) \<Longrightarrow> a \<in> pending \<Longrightarrow> a < fresh (srv y) \<Longrightarrow>
    retire_member_joined (controller_generation (srv y)) a (srv y) \<Longrightarrow>
    \<not> retire_member_skip (controller_generation (srv y)) a (srv y) \<Longrightarrow>
    control_step y (y\<lparr>srv := retire_member_claim a (srv y)\<rparr>)"
| retire_done: "walk y = Some (pending, controls) \<Longrightarrow> a \<in> pending \<Longrightarrow> a < fresh (srv y) \<Longrightarrow>
    control_finishing (heap (srv y) a) \<Longrightarrow> \<not> control_release_waiting (heap (srv y) a) \<Longrightarrow>
    control_step y (y\<lparr>srv := snd (retire_member_finish True a (srv y)), walk := Some (pending - {a}, controls)\<rparr>)"
| retire_fail: "walk y = Some (pending, controls) \<Longrightarrow> a \<in> pending \<Longrightarrow> a < fresh (srv y) \<Longrightarrow>
    control_finishing (heap (srv y) a) \<Longrightarrow> \<not> control_release_waiting (heap (srv y) a) \<Longrightarrow>
    control_step y (y\<lparr>srv := snd (retire_member_finish False a (srv y)), walk := None\<rparr>)"
| retire_timeout: "walk y = Some (pending, controls) \<Longrightarrow>
    control_step y (y\<lparr>srv := snd (retireController_timeout detail (srv y)), walk := None\<rparr>)"
| retire_commit: "walk y = Some ({}, controls) \<Longrightarrow> controller_work (srv y) = 0 \<Longrightarrow>
    rt_generation tq = controller_generation (srv y) \<Longrightarrow>
    control_step y (y\<lparr>srv := snd (retireController_commit tq controls now (srv y)), walk := None\<rparr>)"
| register: "control_step y (y\<lparr>srv := (put (fresh (srv y)) (new_member i cfg robot l since) (srv y))
    \<lparr>fresh := Suc (fresh (srv y))\<rparr>\<rparr>)"
| other: "control_frame (srv y) s' \<Longrightarrow> control_step y (y\<lparr>srv := s'\<rparr>)"

subsection \<open>One member at a time\<close>

text \<open>A section that works on one member leaves the rest of the control state alone.\<close>

definition touches :: "nat \<Rightarrow> server \<Rightarrow> server \<Rightarrow> bool" where
  "touches a s s' \<longleftrightarrow> fresh s' = fresh s \<and> (\<forall>b. b \<noteq> a \<longrightarrow> heap s' b = heap s b)
     \<and> control_members s' - {a} = control_members s - {a}
     \<and> controller_generation s' = controller_generation s
     \<and> retired_controller_generation s' = retired_controller_generation s
     \<and> controller_grant s' = controller_grant s
     \<and> controller_retiring s' = controller_retiring s \<and> controller_finishing s' = controller_finishing s
     \<and> controller_calls s' = controller_calls s
     \<and> control_status s' = control_status s \<and> optional_status s' = optional_status s"

lemma member_ok_cong:
  "heap s' b = heap s b \<Longrightarrow> controller_generation s' = controller_generation s \<Longrightarrow>
   (b \<in> control_members s') = (b \<in> control_members s) \<Longrightarrow> member_ok s' b = member_ok s b"
  by (simp add: member_ok_def)

lemma work_sum_touch:
  assumes "a < fresh s" "touches a s s'"
  shows "work_sum s' + work_of (heap s a) = work_sum s + work_of (heap s' a)"
proof -
  have split: "work_sum t = work_of (heap t a) + (\<Sum>b \<in> {..<fresh t} - {a}. work_of (heap t b))"
    if "a < fresh t" for t
    using that unfolding work_sum_def by (subst sum.remove [of _ a]) auto
  have "(\<Sum>b \<in> {..<fresh s'} - {a}. work_of (heap s' b)) = (\<Sum>b \<in> {..<fresh s} - {a}. work_of (heap s b))"
    using assms by (intro sum.cong) (auto simp: touches_def)
  with split [of s] split [of s'] assms show ?thesis by (simp add: touches_def)
qed

lemma controller_ok_touch: "touches a s s' \<Longrightarrow> controller_ok s' = controller_ok s"
  by (simp add: touches_def controller_ok_def)

text \<open>What such a section owes the invariant: the member stays well-formed, the work it adds or removes is counted,
  and neither control nor motion starts while the controller retires.\<close>

definition good_touch :: "nat \<Rightarrow> server \<Rightarrow> server \<Rightarrow> bool" where
  "good_touch a s s' \<longleftrightarrow> touches a s s' \<and> member_ok s' a
     \<and> controller_work s' + work_of (heap s a) = controller_work s + work_of (heap s' a)
     \<and> (potential_motion (heap s' a) \<longrightarrow> potential_motion (heap s a) \<or> \<not> controller_retiring s)
     \<and> (a \<in> control_members s' \<longrightarrow> a \<in> control_members s \<or> \<not> controller_retiring s)"

lemma ctl_inv_touch:
  assumes inv: "ctl_inv y" and a: "a < fresh (srv y)" and good: "good_touch a (srv y) s'"
  shows "ctl_inv (y\<lparr>srv := s'\<rparr>)"
proof -
  let ?s = "srv y"
  from good have t: "touches a ?s s'" and ok: "member_ok s' a"
    and work: "controller_work s' + work_of (heap ?s a) = controller_work ?s + work_of (heap s' a)"
    and motion: "potential_motion (heap s' a) \<Longrightarrow> potential_motion (heap ?s a) \<or> \<not> controller_retiring ?s"
    and hold: "a \<in> control_members s' \<Longrightarrow> a \<in> control_members ?s \<or> \<not> controller_retiring ?s"
    by (auto simp: good_touch_def)
  have m: "member_ok s' b" if "b < fresh s'" for b
  proof (cases "b = a")
    case False
    then have "(b \<in> control_members s') = (b \<in> control_members ?s)" using t by (auto simp: touches_def)
    with False t inv that show ?thesis
      by (subst member_ok_cong [of _ _ ?s]) (auto simp: touches_def ctl_inv_def)
  qed (use ok in simp)
  have members: "control_members s' \<subseteq> insert a (control_members ?s)" using t by (auto simp: touches_def)
  have w: "controller_work s' = work_sum s'"
    using inv work work_sum_touch [OF a t] by (simp add: ctl_inv_def)
  have "walk_ok (y\<lparr>srv := s'\<rparr>)"
  proof (cases "walk y")
    case None
    with inv t show ?thesis by (simp add: ctl_inv_def walk_ok_def touches_def)
  next
    case (Some pc)
    obtain p c where pc: "pc = (p, c)" by (cases pc)
    from inv have wk: "walk_ok y" and "controller_ok ?s" by (auto simp: ctl_inv_def)
    with Some pc have fin: "controller_finishing ?s" and ret: "controller_retiring ?s"
      by (auto simp: walk_ok_def controller_ok_def)
    have quiet: "\<not> potential_motion (heap s' b)" if "b \<in> c - p" for b
      using that wk Some pc ret motion t by (cases "b = a") (auto simp: walk_ok_def touches_def)
    have "control_members ?s \<subseteq> c" using wk Some pc by (simp add: walk_ok_def)
    then have sub: "control_members s' \<subseteq> c" using members hold ret by blast
    from wk Some pc fin quiet sub t show ?thesis by (auto simp: walk_ok_def touches_def)
  qed
  with m w members a inv t show ?thesis
    by (auto simp: ctl_inv_def controller_ok_touch [OF t] touches_def)
qed

subsection \<open>Every section is good\<close>

lemmas touch_simps = good_touch_def member_ok_def work_of_def touches_def put_def

lemma grant_not_retiring: "controllerGrantLocked g s \<Longrightarrow> \<not> controller_retiring s \<and> controller_generation s \<noteq> 0"
  by (simp add: controllerGrantLocked_def controllerCredentialLocked_def)

lemma good_touch_refl: "member_ok s a \<Longrightarrow> good_touch a s s"
  by (simp add: good_touch_def touches_def)

lemma good_acquire:
  "member_ok s a \<Longrightarrow> good_touch a s (snd (acquireControl_commit cancelled req a now s))"
  by (simp add: acquireControl_commit_def Let_def good_touch_refl)
     (auto simp: adopt_def touch_simps dest: grant_not_retiring)

lemma good_release_begin:
  "member_ok s a \<Longrightarrow> good_touch a s (snd (releaseControl_begin cancelled req a now s))"
  by (simp add: releaseControl_begin_def Let_def good_touch_refl)
     (auto simp: touch_simps)

lemma good_release_timeout:
  "member_ok s a \<Longrightarrow> control_release_waiting (heap s a) \<Longrightarrow> 0 < controller_work s \<Longrightarrow>
   good_touch a s (snd (releaseControl_timeout a s))"
  by (auto simp: releaseControl_timeout_def end_release_wait_def touch_simps)

lemma good_release_claim:
  "member_ok s a \<Longrightarrow> control_release_waiting (heap s a) \<Longrightarrow> 0 < controller_work s \<Longrightarrow>
   good_touch a s (snd (releaseControl_claim req a s))"
  by (auto simp: releaseControl_claim_def Let_def end_release_wait_def touch_simps)

lemma good_release_finish:
  "member_ok s a \<Longrightarrow> control_release_waiting (heap s a) \<Longrightarrow> 0 < controller_work s \<Longrightarrow>
   good_touch a s (snd (releaseControl_finish success req a s))"
  by (auto simp: releaseControl_finish_def Let_def end_release_wait_def touch_simps)

lemma good_dispatch:
  "member_ok s a \<Longrightarrow> good_touch a s (snd (dispatch_control motion release grant generation a now s))"
  by (simp add: dispatch_control_def Let_def good_touch_refl)
     (auto simp: touch_simps dest: grant_not_retiring)

lemma good_complete:
  "member_ok s a \<Longrightarrow> 0 < control_work (heap s a) \<Longrightarrow> 0 < controller_work s \<Longrightarrow> good_touch a s (complete_control released a s)"
  by (auto simp: complete_control_def Let_def touch_simps)

lemma good_stop: "member_ok s a \<Longrightarrow> good_touch a s (stopMember a s)"
  by (auto simp: stopMember_def stop_control_def Let_def touch_simps)

lemma good_silence: "member_ok s a \<Longrightarrow> good_touch a s (silence_released a s)"
  by (auto simp: silence_released_def touch_simps)

lemma good_retire_claim: "member_ok s a \<Longrightarrow> good_touch a s (retire_member_claim a s)"
  by (auto simp: retire_member_claim_def touch_simps)

lemma good_heartbeat: "member_ok s a \<Longrightarrow> good_touch a s (put a ((heap s a)\<lparr>control_heartbeat := now\<rparr>) s)"
  by (auto simp: touch_simps)

subsection \<open>The invariant is kept\<close>

lemma ctl_invD:
  assumes "ctl_inv y"
  shows "a < fresh (srv y) \<Longrightarrow> member_ok (srv y) a" "controller_ok (srv y)" "walk_ok y"
    "controller_work (srv y) = work_sum (srv y)" "control_members (srv y) \<subseteq> {..<fresh (srv y)}"
  using assms by (simp_all add: ctl_inv_def)

lemma work_of_le_sum: "a < fresh s \<Longrightarrow> work_of (heap s a) \<le> work_sum s"
  unfolding work_sum_def by (rule member_le_sum) auto

lemma controller_work_pos:
  "ctl_inv y \<Longrightarrow> a < fresh (srv y) \<Longrightarrow> 0 < work_of (heap (srv y) a) \<Longrightarrow> 0 < controller_work (srv y)"
  using work_of_le_sum [of a "srv y"] ctl_invD(4) [of y] by simp

lemma waiting_work: "control_release_waiting m \<Longrightarrow> 0 < work_of m" "0 < control_work m \<Longrightarrow> 0 < work_of m"
  by (simp_all add: work_of_def)

text \<open>Sections that leave every member alone.\<close>

definition keeps_members :: "server \<Rightarrow> server \<Rightarrow> bool" where
  "keeps_members s s' \<longleftrightarrow> fresh s' = fresh s \<and> heap s' = heap s \<and> control_members s' = control_members s
     \<and> controller_work s' = controller_work s"

lemma ctl_inv_keep:
  assumes "ctl_inv y" "keeps_members (srv y) s'" "controller_ok s'"
    "controller_generation s' = controller_generation (srv y) \<or> controller_generation (srv y) = 0"
    "walk_ok (y\<lparr>srv := s', walk := w\<rparr>)"
  shows "ctl_inv (y\<lparr>srv := s', walk := w\<rparr>)"
proof -
  have "member_ok s' a" if "a < fresh s'" for a
    using that assms(2,4) ctl_invD(1) [OF assms(1), of a] by (auto simp: keeps_members_def member_ok_def)
  moreover have "work_sum s' = work_sum (srv y)"
    using assms(2) by (simp add: keeps_members_def work_sum_def)
  ultimately show ?thesis
    using assms(2,3,5) ctl_invD(4,5) [OF assms(1)] by (auto simp: ctl_inv_def keeps_members_def)
qed

text \<open>A section that keeps the walk and only starts streams or a controller while none is retiring.\<close>

definition good_keep :: "server \<Rightarrow> server \<Rightarrow> bool" where
  "good_keep s s' \<longleftrightarrow> keeps_members s s' \<and> controller_ok s' \<and> controller_finishing s' = controller_finishing s
     \<and> (controller_generation s' = controller_generation s \<or> controller_generation s = 0)
     \<and> (controller_calls s' \<subseteq> controller_calls s \<or> \<not> controller_retiring s)"

lemma ctl_inv_good_keep:
  assumes inv: "ctl_inv y" and g: "good_keep (srv y) s'"
  shows "ctl_inv (y\<lparr>srv := s'\<rparr>)"
proof -
  from g have k: "keeps_members (srv y) s'" "controller_ok s'" "controller_finishing s' = controller_finishing (srv y)"
    "controller_generation s' = controller_generation (srv y) \<or> controller_generation (srv y) = 0"
    "controller_calls s' \<subseteq> controller_calls (srv y) \<or> \<not> controller_retiring (srv y)"
    by (simp_all add: good_keep_def)
  have w: "walk_ok (y\<lparr>srv := s', walk := walk y\<rparr>)"
    using k ctl_invD(2,3) [OF inv]
    by (auto simp: walk_ok_def keeps_members_def controller_ok_def split: option.splits)
  from ctl_inv_keep [OF inv k(1,2,4) w] show ?thesis by simp
qed

lemmas keep_simps = good_keep_def keeps_members_def controller_ok_def slot_ok_def markControlDownLocked_def
  set_slot_def status_slot_def

lemma good_keep_refl: "controller_ok s \<Longrightarrow> good_keep s s"
  by (simp add: good_keep_def keeps_members_def)

lemma valid_installation: "\<not> invalid_installation req s \<Longrightarrow> in_generation req \<noteq> 0 \<and> length (in_grant req) = 32"
  by (simp add: invalid_installation_def Let_def)

lemma good_install: "controller_ok s \<Longrightarrow> good_keep s (snd (installController req s))"
  by (simp add: installController_def good_keep_refl) (auto simp: keep_simps dest: valid_installation)

lemma good_renew_admit: "controller_ok s \<Longrightarrow> good_keep s (snd (renewControl_admit cancelled req now s))"
  by (auto simp: renewControl_admit_def keep_simps)

lemma good_admit_status:
  "controller_ok s \<Longrightarrow> good_keep s (snd (admitOwnedStatus c control w s))"
  by (cases w; simp add: admitOwnedStatus_def Let_def good_keep_refl)
     (auto simp: keep_simps dest: grant_not_retiring)

lemma good_subscribe_ready: "controller_ok s \<Longrightarrow> good_keep s (snd (subscribe_ready c control s))"
  by (auto simp: subscribe_ready_def Let_def keep_simps)

lemma good_status_done: "controller_ok s \<Longrightarrow> good_keep s (status_done c s)"
  by (auto simp: status_done_def keep_simps)

lemma good_release_status:
  "controller_ok s \<Longrightarrow> active (status_slot (\<not> control) s) \<noteq> Some c \<Longrightarrow> good_keep s (releaseStatus c control s)"
  by (cases control; simp add: releaseStatus_def Let_def status_slot_def set_slot_def good_keep_def keeps_members_def)
     (auto simp: controller_ok_def slot_ok_def)

lemma good_set_slot:
  "controller_ok s \<Longrightarrow> slot_ok slot (controller_calls s) \<Longrightarrow> good_keep s (set_slot control slot s)"
  by (simp add: set_slot_def good_keep_def keeps_members_def controller_ok_def)

lemma slot_ok_status_slot: "controller_ok s \<Longrightarrow> slot_ok (status_slot control s) (controller_calls s)"
  by (simp add: status_slot_def controller_ok_def)

lemma slot_ok_retire:
  "slot_ok slot calls \<Longrightarrow> slot_ok (slot\<lparr>retiring := True, ready := False\<rparr>) calls"
  "slot_ok slot calls \<Longrightarrow> active slot = None \<Longrightarrow> slot_ok (slot\<lparr>retired_generation := g, retired_open_id := i\<rparr>) calls"
  by (simp_all add: slot_ok_def)

lemma good_retire_status: "controller_ok s \<Longrightarrow> good_keep s (snd (retireStatus_begin control w s))"
  by (cases w; simp add: retireStatus_begin_def Let_def good_keep_refl good_set_slot slot_ok_status_slot slot_ok_retire)

lemma good_retire_begin: "controller_ok s \<Longrightarrow> good_keep s (snd (retireController_begin req s))"
  by (simp add: retireController_begin_def good_keep_refl) (auto simp: keep_simps)

lemma renew_members_inv:
  "ctl_inv y \<Longrightarrow> list_all (\<lambda>p. \<forall>a. snd p = Some a \<longrightarrow> a < fresh (srv y)) rs \<Longrightarrow>
   ctl_inv (y\<lparr>srv := snd (renew_members now rs (srv y))\<rparr>) \<and> fresh (snd (renew_members now rs (srv y))) = fresh (srv y)"
proof (induction rs arbitrary: y)
  case Nil
  then show ?case by simp
next
  case (Cons p rs)
  obtain r f where p: "p = (r, f)" by (cases p)
  let ?s1 = "if renewal_current r f (srv y)
      then (case f of Some a \<Rightarrow> put a ((heap (srv y) a)\<lparr>control_heartbeat := now\<rparr>) (srv y) | None \<Rightarrow> srv y) else srv y"
  have f1: "fresh ?s1 = fresh (srv y)" by (simp split: option.splits)
  have "ctl_inv (y\<lparr>srv := ?s1\<rparr>)"
    using Cons.prems p ctl_invD(1) [OF Cons.prems(1)]
    by (cases f) (auto intro!: ctl_inv_touch good_heartbeat)
  from Cons.IH [OF this] Cons.prems(2) f1 show ?case
    by (simp add: p Let_def case_prod_unfold)
qed

lemma list_all_zip_snd: "list_all P ys \<Longrightarrow> list_all (\<lambda>p. P (snd p)) (zip xs ys)"
  by (auto simp: list_all_iff dest: set_zip_rightD)

lemma renew_commit_inv:
  assumes "ctl_inv y" "list_all (\<lambda>f. \<forall>a. f = Some a \<longrightarrow> a < fresh (srv y)) found"
  shows "ctl_inv (y\<lparr>srv := snd (renewControl_commit cancelled req found now (srv y))\<rparr>)"
  using assms(1) renew_members_inv [OF assms(1) list_all_zip_snd [OF assms(2), of "rq_members req"], of now]
  by (simp add: renewControl_commit_def case_prod_unfold Let_def)

lemma register_inv:
  assumes "ctl_inv y"
  shows "ctl_inv (y\<lparr>srv := (put (fresh (srv y)) (new_member i cfg robot l since) (srv y))\<lparr>fresh := Suc (fresh (srv y))\<rparr>\<rparr>)"
proof -
  let ?s = "srv y"
  let ?s' = "(put (fresh ?s) (new_member i cfg robot l since) ?s)\<lparr>fresh := Suc (fresh ?s)\<rparr>"
  have mem: "control_members ?s \<subseteq> {..<fresh ?s}" using assms by (rule ctl_invD)
  have "member_ok ?s' a" if "a < Suc (fresh ?s)" for a
  proof (cases "a = fresh ?s")
    case True
    with mem show ?thesis by (auto simp: member_ok_def new_member_def)
  next
    case False
    with that ctl_invD(1) [OF assms, of a] show ?thesis by (simp add: member_ok_def)
  qed
  moreover have "work_sum ?s' = work_sum ?s"
    by (simp add: work_sum_def new_member_def work_of_def)
  moreover have "controller_ok ?s'" using ctl_invD(2) [OF assms] by (simp add: controller_ok_def)
  moreover have "walk_ok (y\<lparr>srv := ?s'\<rparr>)"
    using ctl_invD(3) [OF assms] by (auto simp: walk_ok_def new_member_def split: option.splits)
  ultimately show ?thesis
    using mem ctl_invD(4) [OF assms] by (auto simp: ctl_inv_def)
qed

lemma frame_inv:
  assumes "ctl_inv y" "control_frame (srv y) s'"
  shows "ctl_inv (y\<lparr>srv := s'\<rparr>)"
proof -
  let ?s = "srv y"
  have v: "control_view (heap s' a) = control_view (heap ?s a)" if "a < fresh ?s" for a
    using assms(2) that by (simp add: control_frame_def)
  have "member_ok s' a" if "a < fresh ?s" for a
    using v [OF that] ctl_invD(1) [OF assms(1) that] assms(2)
    by (simp add: member_ok_def control_view_def control_frame_def)
  moreover have "work_sum s' = work_sum ?s"
    using v assms(2) unfolding work_sum_def control_frame_def
    by (intro sum.cong) (auto simp: work_of_def control_view_def)
  moreover have "controller_ok s'" using assms(2) ctl_invD(2) [OF assms(1)]
    by (simp add: controller_ok_def control_frame_def)
  moreover have "walk_ok (y\<lparr>srv := s'\<rparr>)"
  proof (cases "walk y")
    case (Some pc)
    have "\<not> potential_motion (heap s' a)" if "a \<in> snd pc - fst pc" for a
    proof -
      have "\<not> potential_motion (heap ?s a)" "a < fresh ?s"
        using that Some ctl_invD(3) [OF assms(1)] by (auto simp: walk_ok_def case_prod_unfold)
      with v show ?thesis by (simp add: control_view_def)
    qed
    with Some assms(2) ctl_invD(3) [OF assms(1)] show ?thesis
      by (auto simp: walk_ok_def control_frame_def case_prod_unfold)
  qed (use assms(2) ctl_invD(3) [OF assms(1)] in \<open>simp add: walk_ok_def control_frame_def\<close>)
  ultimately show ?thesis
    using assms(2) ctl_invD(4,5) [OF assms(1)] by (simp add: ctl_inv_def control_frame_def)
qed


lemma retire_claim_inv:
  assumes "ctl_inv y" "retireController_joined (srv y)" "retireController_claim tq (srv y) = (Pending, s')"
  shows "ctl_inv (y\<lparr>srv := s', walk := Some (control_members (srv y), control_members (srv y))\<rparr>)"
proof -
  have s': "s' = (srv y)\<lparr>controller_finishing := True\<rparr>" "controller_retiring (srv y)" "controller_generation (srv y) \<noteq> 0"
    using assms(3) by (auto simp: retireController_claim_def split: if_splits)
  have "controller_ok s'" using s' ctl_invD(2) [OF assms(1)] by (simp add: controller_ok_def)
  moreover have "controller_calls (srv y) = {}"
    using s'(3) assms(2) by (simp add: retireController_joined_def)
  then have "walk_ok (y\<lparr>srv := s', walk := Some (control_members (srv y), control_members (srv y))\<rparr>)"
    using s'(1) ctl_invD(5) [OF assms(1)] by (simp add: walk_ok_def)
  ultimately show ?thesis
    by (intro ctl_inv_keep [OF assms(1)]) (simp_all add: s'(1) keeps_members_def)
qed

lemma retire_skip_inv:
  assumes "ctl_inv y" "walk y = Some (pending, controls)" "a \<in> pending"
    "retire_member_skip (controller_generation (srv y)) a (srv y)"
  shows "ctl_inv (y\<lparr>walk := Some (pending - {a}, controls)\<rparr>)"
proof -
  from ctl_invD(3) [OF assms(1)] assms(2)
  have w: "controller_finishing (srv y)" "controller_calls (srv y) = {}" "pending \<subseteq> controls"
    "controls \<subseteq> {..<fresh (srv y)}" "control_members (srv y) \<subseteq> controls"
    "\<forall>b \<in> controls - pending. \<not> potential_motion (heap (srv y) b)"
    by (simp_all add: walk_ok_def)
  then have "a < fresh (srv y)" using assms(3) by blast
  from ctl_invD(1) [OF assms(1) this] assms(4) have "\<not> potential_motion (heap (srv y) a)"
    unfolding retire_member_skip_def member_ok_def by blast
  with w(6) have "\<forall>b \<in> controls - (pending - {a}). \<not> potential_motion (heap (srv y) b)" by blast
  with w have "walk_ok (y\<lparr>walk := Some (pending - {a}, controls)\<rparr>)"
    by (simp add: walk_ok_def subset_iff)
  with assms(1) show ?thesis by (simp add: ctl_inv_def)
qed

lemma retire_end_inv:
  assumes "ctl_inv y"
  shows "ctl_inv (y\<lparr>srv := (srv y)\<lparr>controller_finishing := False\<rparr>, walk := None\<rparr>)"
  using ctl_invD(2) [OF assms]
  by (intro ctl_inv_keep [OF assms]) (simp_all add: keeps_members_def controller_ok_def walk_ok_def)

lemma good_finishing:
  "member_ok s a \<Longrightarrow> good_touch a s (put a ((heap s a)\<lparr>control_finishing := False\<rparr>) s)"
  "member_ok s a \<Longrightarrow> good_touch a s (put a ((heap s a)\<lparr>control_finishing := False, potential_motion := False\<rparr>) s)"
  by (auto simp: touch_simps)

lemma retire_done_inv:
  assumes "ctl_inv y" "walk y = Some (pending, controls)" "a < fresh (srv y)"
  shows "ctl_inv (y\<lparr>srv := snd (retire_member_finish True a (srv y)), walk := Some (pending - {a}, controls)\<rparr>)"
proof -
  let ?s' = "put a ((heap (srv y) a)\<lparr>control_finishing := False, potential_motion := False\<rparr>) (srv y)"
  have "ctl_inv (y\<lparr>srv := ?s'\<rparr>)"
    using assms ctl_invD(1) [OF assms(1,3)] by (intro ctl_inv_touch [where a = a] good_finishing(2))
  note inv' = this
  have "walk_ok (y\<lparr>srv := ?s', walk := Some (pending - {a}, controls)\<rparr>)"
    using assms(2) ctl_invD(3) [OF inv'] by (auto simp: walk_ok_def split: if_splits)
  with inv' show ?thesis by (simp add: ctl_inv_def retire_member_finish_def)
qed

lemma retire_fail_inv:
  assumes "ctl_inv y" "a < fresh (srv y)"
  shows "ctl_inv (y\<lparr>srv := snd (retire_member_finish False a (srv y)), walk := None\<rparr>)"
proof -
  have "ctl_inv (y\<lparr>srv := put a ((heap (srv y) a)\<lparr>control_finishing := False\<rparr>) (srv y)\<rparr>)"
    using assms ctl_invD(1) [OF assms] by (intro ctl_inv_touch [where a = a] good_finishing(1))
  from retire_end_inv [OF this] show ?thesis by (simp add: retire_member_finish_def)
qed

text \<open>The end of a retirement: nothing is held and nothing can move.\<close>

lemma retire_commit_state:
  assumes inv: "ctl_inv y" and w: "walk y = Some ({}, controls)" and work: "controller_work (srv y) = 0"
    and gen: "rt_generation tq = controller_generation (srv y)" and a: "a < fresh (srv y)"
    and s': "s' = snd (retireController_commit tq controls now (srv y))"
  shows "\<not> control_held (heap s' a) \<and> \<not> potential_motion (heap s' a) \<and> work_of (heap s' a) = 0 \<and> control_members s' = {}"
proof -
  let ?s = "srv y"
  have mem: "control_members ?s \<subseteq> controls" and quiet: "\<And>b. b \<in> controls \<Longrightarrow> \<not> potential_motion (heap ?s b)"
    using w ctl_invD(3) [OF inv] by (auto simp: walk_ok_def)
  have ok: "member_ok ?s b" if "b < fresh ?s" for b using that by (rule ctl_invD(1) [OF inv])
  have held: "control_owner (heap ?s b) = rt_generation tq \<and> b \<in> controls" if "b \<in> control_members ?s" for b
    using that mem ok [of b] ctl_invD(5) [OF inv] gen by (auto simp: member_ok_def)
  have "work_of (heap ?s a) = 0"
    using work work_of_le_sum [OF a] ctl_invD(4) [OF inv] by simp
  moreover have "work_of (heap s' a) = work_of (heap ?s a)"
    by (simp add: s' retireController_commit_def retire_owned_def work_of_def)
  moreover have "\<not> control_held (heap s' a)"
    using ok [OF a] held [of a] by (auto simp: s' retireController_commit_def retire_owned_def member_ok_def)
  moreover have "potential_motion (heap s' a) = potential_motion (heap ?s a)"
    by (simp add: s' retireController_commit_def retire_owned_def)
  moreover have "\<not> potential_motion (heap ?s a)"
    using ok [OF a] held [of a] quiet [of a] by (auto simp: member_ok_def)
  moreover have "control_members s' = {}"
    using held by (auto simp: s' retireController_commit_def)
  ultimately show ?thesis by simp
qed

lemma retire_commit_inv:
  assumes "ctl_inv y" "walk y = Some ({}, controls)" "controller_work (srv y) = 0"
    "rt_generation tq = controller_generation (srv y)"
  shows "ctl_inv (y\<lparr>srv := snd (retireController_commit tq controls now (srv y)), walk := None\<rparr>)"
proof -
  let ?s' = "snd (retireController_commit tq controls now (srv y))"
  have f: "fresh ?s' = fresh (srv y)" "controller_work ?s' = 0" "\<not> controller_finishing ?s'" "controller_ok ?s'"
    using assms(3) by (simp_all add: retireController_commit_def controller_ok_def slot_ok_def empty_slot_def)
  have q: "\<not> control_held (heap ?s' a) \<and> \<not> potential_motion (heap ?s' a) \<and> work_of (heap ?s' a) = 0 \<and> control_members ?s' = {}"
    if "a < fresh (srv y)" for a
    using retire_commit_state [OF assms that refl] .
  have members: "control_members ?s' = {}"
  proof (cases "fresh (srv y)")
    case 0
    with ctl_invD(5) [OF assms(1)] show ?thesis by (simp add: retireController_commit_def)
  next
    case Suc
    then show ?thesis using q [of 0] by simp
  qed
  have "work_sum ?s' = 0" using q f by (simp add: work_sum_def)
  with q f members show ?thesis by (auto simp: ctl_inv_def member_ok_def walk_ok_def)
qed

lemmas member_section = ctl_inv_touch [OF _ _ good_acquire] ctl_inv_touch [OF _ _ good_release_begin]
  ctl_inv_touch [OF _ _ good_dispatch] ctl_inv_touch [OF _ _ good_stop] ctl_inv_touch [OF _ _ good_silence]
  ctl_inv_touch [OF _ _ good_retire_claim]

lemmas counted_section = ctl_inv_touch [OF _ _ good_release_timeout] ctl_inv_touch [OF _ _ good_release_claim]
  ctl_inv_touch [OF _ _ good_release_finish] ctl_inv_touch [OF _ _ good_complete]

lemmas controller_section = ctl_inv_good_keep [OF _ good_install] ctl_inv_good_keep [OF _ good_renew_admit]
  ctl_inv_good_keep [OF _ good_admit_status] ctl_inv_good_keep [OF _ good_subscribe_ready]
  ctl_inv_good_keep [OF _ good_status_done] ctl_inv_good_keep [OF _ good_release_status]
  ctl_inv_good_keep [OF _ good_retire_status] ctl_inv_good_keep [OF _ good_retire_begin]

text \<open>Every step of the protocol keeps the invariant.\<close>

lemma control_step_inv:
  assumes "control_step y z" "ctl_inv y"
  shows "ctl_inv z"
  using assms(1)
proof cases
  case (renew found cancelled rreq now)
  with assms(2) show ?thesis by (simp add: renew_commit_inv)
next
  case (retire_claim tq s')
  with assms(2) show ?thesis by (simp add: retire_claim_inv)
next
  case (retire_skip pending controls a)
  with assms(2) show ?thesis by (simp add: retire_skip_inv)
next
  case (retire_done pending controls a)
  with assms(2) show ?thesis by (simp add: retire_done_inv)
next
  case (retire_fail pending controls a)
  with assms(2) show ?thesis by (simp add: retire_fail_inv)
next
  case (retire_timeout pending controls detail)
  with retire_end_inv [OF assms(2)] show ?thesis by (simp add: retireController_timeout_def)
next
  case (retire_commit controls tq now)
  with assms(2) show ?thesis by (simp add: retire_commit_inv)
next
  case (register i cfg robot l since)
  with assms(2) show ?thesis by (simp add: register_inv)
next
  case (other s')
  with assms(2) show ?thesis by (simp add: frame_inv)
qed (use assms(2) ctl_invD(1,2) [OF assms(2)] in
     \<open>simp_all add: member_section controller_section counted_section controller_work_pos waiting_work\<close>)

end
