(* ===== verification/Control_Safety.thy ===== *)
theory Control_Safety
  imports Control_Protocol
begin

section \<open>Safety of the controller protocol\<close>

text \<open>
  The states the protocol of \<open>Control_Protocol\<close> can reach from a started server, and what holds in all of
  them: a robot that may be moving is held by the installed controller, all control work is accounted for, a
  retired controller leaves nothing held or moving, and its generation never returns.
\<close>

subsection \<open>Reachable states\<close>

inductive control_reachable :: "system \<Rightarrow> bool" where
  start: "control_reachable \<lparr>srv = initial_server opts inst owner d, walk = None\<rparr>"
| step: "control_reachable y \<Longrightarrow> control_step y z \<Longrightarrow> control_reachable z"

lemma initial_ctl_inv: "ctl_inv \<lparr>srv = initial_server opts inst owner d, walk = None\<rparr>"
  by (simp add: ctl_inv_def initial_server_def work_sum_def controller_ok_def slot_ok_def empty_slot_def walk_ok_def)

lemma control_reachable_inv: "control_reachable y \<Longrightarrow> ctl_inv y"
  by (induction rule: control_reachable.induct) (auto intro: initial_ctl_inv control_step_inv)

lemma control_steps_inv: "control_step\<^sup>*\<^sup>* y z \<Longrightarrow> ctl_inv y \<Longrightarrow> ctl_inv z"
  by (induction rule: rtranclp_induct) (auto intro: control_step_inv)

text \<open>Sections other than the end of a retirement leave the last retired generation alone.\<close>

lemma retired_unchanged:
  "retired_controller_generation (snd (installController req s)) = retired_controller_generation s"
  "retired_controller_generation (snd (acquireControl_commit b req1 a now s)) = retired_controller_generation s"
  "retired_controller_generation (snd (renewControl_admit b req2 now s)) = retired_controller_generation s"
  "retired_controller_generation (snd (releaseControl_begin b req1 a now s)) = retired_controller_generation s"
  "retired_controller_generation (snd (releaseControl_timeout a s)) = retired_controller_generation s"
  "retired_controller_generation (snd (releaseControl_claim req1 a s)) = retired_controller_generation s"
  "retired_controller_generation (snd (releaseControl_finish b req1 a s)) = retired_controller_generation s"
  "retired_controller_generation (snd (dispatch_control m r g n a now s)) = retired_controller_generation s"
  "retired_controller_generation (complete_control b a s) = retired_controller_generation s"
  "retired_controller_generation (silence_released a s) = retired_controller_generation s"
  "retired_controller_generation (stopMember a s) = retired_controller_generation s"
  "retired_controller_generation (snd (subscribe_ready c k s)) = retired_controller_generation s"
  "retired_controller_generation (status_done c s) = retired_controller_generation s"
  "retired_controller_generation (releaseStatus c k s) = retired_controller_generation s"
  "retired_controller_generation (snd (retireController_begin req3 s)) = retired_controller_generation s"
  "retired_controller_generation (snd (retireController_timeout t s)) = retired_controller_generation s"
  "retired_controller_generation (retire_member_claim a s) = retired_controller_generation s"
  "retired_controller_generation (snd (retire_member_finish b a s)) = retired_controller_generation s"
  by (simp_all add: installController_def acquireControl_commit_def renewControl_admit_def releaseControl_begin_def
      releaseControl_timeout_def releaseControl_claim_def releaseControl_finish_def dispatch_control_def
      complete_control_def silence_released_def stopMember_def stop_control_def subscribe_ready_def status_done_def
      releaseStatus_def retireController_begin_def retireController_timeout_def retire_member_claim_def
      retire_member_finish_def end_release_wait_def set_slot_def markControlDownLocked_def Let_def)

lemma retired_unchanged_option:
  "retired_controller_generation (snd (admitOwnedStatus c k w s)) = retired_controller_generation s"
  "retired_controller_generation (snd (retireStatus_begin k w s)) = retired_controller_generation s"
  by (cases w; simp add: admitOwnedStatus_def retireStatus_begin_def set_slot_def Let_def)+

lemma renew_members_retired:
  "retired_controller_generation (snd (renew_members now rs s)) = retired_controller_generation s"
  by (induction now rs s rule: renew_members.induct) (auto simp: Let_def case_prod_unfold split: option.splits)

lemma renew_commit_retired:
  "retired_controller_generation (snd (renewControl_commit b req found now s)) = retired_controller_generation s"
  by (simp add: renewControl_commit_def renew_members_retired case_prod_unfold Let_def)

lemma control_step_retired_mono:
  assumes "control_step y z" "ctl_inv y"
  shows "retired_controller_generation (srv y) \<le> retired_controller_generation (srv z)"
  using assms(1)
proof cases
  case (retire_commit controls tq now)
  have "controller_generation (srv y) \<noteq> 0"
    using retire_commit(2) ctl_invD(2,3) [OF assms(2)] by (simp add: walk_ok_def controller_ok_def)
  with retire_commit(1) ctl_invD(2) [OF assms(2)] show ?thesis
    by (simp add: retireController_commit_def controller_ok_def)
next
  case (retire_claim tq s')
  then have "retired_controller_generation s' = retired_controller_generation (srv y)"
    by (auto simp: retireController_claim_def split: if_splits)
  with retire_claim(1) show ?thesis by simp
next
  case (other s')
  then show ?thesis by (simp add: control_frame_def)
qed (simp_all add: retired_unchanged retired_unchanged_option renew_commit_retired)

lemma control_steps_retired_mono:
  "control_step\<^sup>*\<^sup>* y z \<Longrightarrow> ctl_inv y \<Longrightarrow> retired_controller_generation (srv y) \<le> retired_controller_generation (srv z)"
proof (induction rule: rtranclp_induct)
  case (step y' z)
  then show ?case
    using control_step_retired_mono [OF step.hyps(2)] control_steps_inv [OF step.hyps(1)] by force
qed simp

subsection \<open>A run that moves a robot\<close>

text \<open>A member is registered and published, a controller is installed, its control stream becomes ready, it
  acquires the member and a motion command is dispatched.\<close>

definition ex_robot :: native_robot where
  "ex_robot = \<lparr>RequiresControl = (\<lambda>q. op_endpoint_id q = ''move''), IsControlRelease = (\<lambda>q. op_endpoint_id q = ''stop''),
     IsSafetyOperation = (\<lambda>q. op_endpoint_id q = ''stop''), ControlSilenceLimit = 3000\<rparr>"

definition ex_identity :: member_identity where
  "ex_identity = \<lparr>id_target = ''t'', id_run = ''r'', id_robot = ''b'', id_epoch = 1\<rparr>"

definition ex_resource :: robot_resource where
  "ex_resource = \<lparr>rr_robot_id = ''b'', rr_profile_id = ''p'', rr_profile_digest = ''d'',
     rr_parameters = [(''namespace'', ''/b'')], rr_channels = [(''pose'', True), (''move'', True)]\<rparr>"

definition ex_secret :: string where "ex_secret = replicate 32 CHR ''k''"
definition ex_open :: string where "ex_open = replicate 16 CHR ''o''"

definition ex_member :: member where
  "ex_member = new_member ex_identity ex_resource ex_robot 0 0"

definition ex_server :: server where
  "ex_server = initial_server (example_options ''r'' ''nr'') ''inst'' ex_secret ex_member"

definition ex_binding :: controller_binding where
  "ex_binding = \<lparr>cb_provider_instance_id = ''inst'', cb_core_id = ''core'', cb_core_boot_id = ''boot'',
     cb_agent_id = [], cb_agent_epoch_id = []\<rparr>"

definition ex_install :: install_request where
  "ex_install = \<lparr>in_peer = ''fd:7'', in_process_owner = ex_secret, in_binding = Some ex_binding, in_generation = 5,
     in_open_id = ex_open, in_grant = ex_secret\<rparr>"

definition ex_owner :: status_owner where
  "ex_owner = \<lparr>so_grant = ex_secret, so_generation = 1, so_open_id = ex_open, so_predecessor_generation = 0,
     so_predecessor_open_id = []\<rparr>"

definition ex_acquire :: control_request where
  "ex_acquire = \<lparr>cr_identity = Some ex_identity, cr_generation = 1, cr_grant = ex_secret\<rparr>"

definition ex_registered :: server where
  "ex_registered = (put 0 ex_member ex_server)\<lparr>fresh := 1\<rparr>"

definition ex_published :: server where
  "ex_published = (put 0 (ex_member\<lparr>closing := False\<rparr>) ex_registered)
     \<lparr>members := [(''b'', 0)], namespaces := [(''/b'', ''b'')], phase := Ready\<rparr>"

definition ex_installed :: server where "ex_installed = snd (installController ex_install ex_published)"
definition ex_admitted :: server where "ex_admitted = snd (admitOwnedStatus 9 True (Some ex_owner) ex_installed)"
definition ex_streaming :: server where "ex_streaming = snd (subscribe_ready 9 True ex_admitted)"
definition ex_held :: server where "ex_held = snd (acquireControl_commit False ex_acquire 0 (ms 10) ex_streaming)"
definition ex_moving :: server where "ex_moving = snd (dispatch_control True False ex_secret 1 0 (ms 20) ex_held)"

lemma ex_installed_eq: "ex_installed = ex_published\<lparr>controller_generation := 5, controller_open_id := ex_open,
    controller_grant := ex_secret, controller_binding := ex_binding\<rparr>"
  by (simp add: ex_installed_def installController_def ownerAuthorized_def invalid_installation_def install_binding_def
      ex_published_def ex_registered_def ex_server_def initial_server_def ex_install_def ex_binding_def put_def
      secretEqual_def ex_secret_def ex_open_def char_tests)

lemmas ex_lookup = ex_installed_eq ex_published_def ex_registered_def ex_server_def initial_server_def put_def
  ex_member_def new_member_def ex_robot_def secretEqual_def ex_secret_def ex_open_def empty_slot_def

lemma ex_streaming_eq: "ex_streaming = ex_installed\<lparr>control_status := \<lparr>active = Some 9, slot_generation = 1,
    retired_generation = 0, open_id = ex_open, retired_open_id = [], retiring = False, ready = True\<rparr>,
    controller_calls := {9}\<rparr>"
  by (simp add: ex_streaming_def ex_admitted_def admitOwnedStatus_def subscribe_ready_def validStatusOwner_def
      matchesPredecessor_def controllerGrantLocked_def controllerCredentialLocked_def status_slot_def set_slot_def
      ex_owner_def ex_lookup)

lemma ex_streaming_sel:
  "controller_generation ex_streaming = 5" "controller_grant ex_streaming = ex_secret"
  "controller_retiring ex_streaming = False" "control_members ex_streaming = {}" "fresh ex_streaming = 1"
  "control_status ex_streaming = \<lparr>active = Some 9, slot_generation = 1, retired_generation = 0, open_id = ex_open,
     retired_open_id = [], retiring = False, ready = True\<rparr>" "controller_work ex_streaming = 0"
  "heap ex_streaming 0 = ex_member\<lparr>closing := False\<rparr>"
  by (simp_all add: ex_streaming_eq ex_installed_eq ex_published_def ex_registered_def ex_server_def
      initial_server_def put_def)

lemma ex_member_sel:
  "control_held ex_member = False" "control_retiring ex_member = False" "control_finishing ex_member = False"
  "control_work ex_member = 0" "retired_control_generation ex_member = 0" "potential_motion ex_member = False"
  "ControlSilenceLimit (native ex_member) = 3000" "control_release_waiting ex_member = False"
  by (simp_all add: ex_member_def new_member_def ex_robot_def)

lemma ex_grant: "secretEqual ex_secret ex_secret 32" "length ex_secret = 32"
  by (simp_all add: secretEqual_def ex_secret_def)

lemma ex_held_eq: "ex_held = (put 0 ((heap ex_streaming 0)\<lparr>control_owner := 5, control_generation := 1,
    control_held := True, control_heartbeat := ms 10\<rparr>) ex_streaming)\<lparr>control_members := {0}\<rparr>"
  by (simp add: ex_held_def acquireControl_commit_def adopt_def controllerGrantLocked_def controllerCredentialLocked_def
      control_stream_up_def ex_acquire_def ex_streaming_sel ex_grant kMinimumControlHeartbeat_def kMaximumRobots_def
      Let_def ex_member_def new_member_def ex_robot_def)

lemma ex_held_sel:
  "controller_generation ex_held = 5" "controller_grant ex_held = ex_secret" "controller_retiring ex_held = False"
  "control_status ex_held = control_status ex_streaming" "fresh ex_held = 1" "controller_work ex_held = 0"
  "heap ex_held 0 = ex_member\<lparr>closing := False, control_owner := 5, control_generation := 1, control_held := True,
     control_heartbeat := ms 10\<rparr>"
  by (simp_all add: ex_held_eq ex_streaming_sel)

lemma ex_moving_eq: "ex_moving = (put 0 ((heap ex_held 0)\<lparr>control_work := 1, potential_motion := True\<rparr>) ex_held)
    \<lparr>controller_work := 1\<rparr>"
  by (simp add: ex_moving_def dispatch_control_def controllerGrantLocked_def controllerCredentialLocked_def
      control_stream_up_def stale_heartbeat_def ms_def ex_held_sel ex_streaming_sel ex_member_sel ex_grant Let_def)

lemma ex_moving_reachable: "control_reachable \<lparr>srv = ex_moving, walk = None\<rparr>"
proof -
  let ?y = "\<lambda>s. \<lparr>srv = s, walk = None\<rparr> :: system"
  have step: "control_reachable (?y s) \<Longrightarrow> control_step (?y s) (?y t) \<Longrightarrow> control_reachable (?y t)" for s t
    by (rule control_reachable.step)
  have 0: "control_reachable (?y ex_server)" unfolding ex_server_def by (rule control_reachable.start)
  have 1: "control_reachable (?y ex_registered)"
    using step [OF 0] control_step.register [of "?y ex_server" ex_identity ex_resource ex_robot 0 0]
    by (simp add: ex_registered_def ex_member_def ex_server_def initial_server_def put_def)
  have 2: "control_reachable (?y ex_published)"
    using step [OF 1] control_step.other [of "?y ex_registered" ex_published]
    by (simp add: control_frame_def control_view_def ex_published_def ex_registered_def ex_server_def
        initial_server_def put_def)
  have 3: "control_reachable (?y ex_installed)"
    using step [OF 2] control_step.install [of "?y ex_published" ex_install] by (simp add: ex_installed_def)
  have 4: "control_reachable (?y ex_admitted)"
    using step [OF 3] control_step.admit_status [of 9 "?y ex_installed" True "Some ex_owner"]
    by (simp add: ex_admitted_def ex_lookup)
  have 5: "control_reachable (?y ex_streaming)"
    using step [OF 4] control_step.status_ready [of "?y ex_admitted" 9 True] by (simp add: ex_streaming_def)
  have 6: "control_reachable (?y ex_held)"
    using step [OF 5] control_step.acquire [of 0 "?y ex_streaming" False ex_acquire "ms 10"]
    by (simp add: ex_held_def ex_streaming_sel)
  show ?thesis
    using step [OF 6] control_step.dispatch [of 0 "?y ex_held" True False ex_secret 1 "ms 20"]
    by (simp add: ex_moving_def ex_held_sel)
qed

text \<open>The run goes on: the command completes, the control stream ends, and the process owner retires the controller,
  which releases the motion of the one member it holds.\<close>

definition ex_retire :: retire_request where
  "ex_retire = \<lparr>rt_peer = ''fd:7'', rt_process_owner = ex_secret, rt_generation = 5, rt_open_id = ex_open\<rparr>"

definition ex_idle :: server where "ex_idle = complete_control False 0 ex_moving"
definition ex_left :: server where "ex_left = releaseStatus 9 True ex_idle"
definition ex_retiring :: server where "ex_retiring = snd (retireController_begin ex_retire ex_left)"
definition ex_claimed :: server where "ex_claimed = ex_retiring\<lparr>controller_finishing := True\<rparr>"
definition ex_visited :: server where "ex_visited = retire_member_claim 0 ex_claimed"
definition ex_released :: server where "ex_released = snd (retire_member_finish True 0 ex_visited)"

lemma ex_moving_sel:
  "controller_generation ex_moving = 5" "controller_open_id ex_moving = ex_open" "process_owner ex_moving = ex_secret"
  "controller_calls ex_moving = {9}" "controller_finishing ex_moving = False" "control_members ex_moving = {0}"
  "fresh ex_moving = 1" "controller_work ex_moving = 1" "active (optional_status ex_moving) = None"
  "control_status ex_moving = control_status ex_streaming"
  "heap ex_moving 0 = ex_member\<lparr>closing := False, control_owner := 5, control_generation := 1, control_held := True,
     control_heartbeat := ms 10, control_work := 1, potential_motion := True\<rparr>"
  by (simp_all add: ex_moving_eq ex_held_eq ex_streaming_sel ex_streaming_eq ex_installed_eq ex_published_def
      ex_registered_def ex_server_def initial_server_def put_def empty_slot_def)

lemma ex_left_eq: "ex_left = ex_idle\<lparr>controller_calls := {}, control_status := \<lparr>active = None, slot_generation = 0,
    retired_generation = 1, open_id = [], retired_open_id = ex_open, retiring = False, ready = False\<rparr>\<rparr>"
  by (simp add: ex_left_def releaseStatus_def status_slot_def set_slot_def ex_idle_def complete_control_def
      ex_moving_sel ex_streaming_sel put_def)

lemma ex_left_sel:
  "controller_generation ex_left = 5" "controller_open_id ex_left = ex_open" "process_owner ex_left = ex_secret"
  "controller_calls ex_left = {}" "controller_finishing ex_left = False" "control_members ex_left = {0}"
  "fresh ex_left = 1" "controller_work ex_left = 0"
  "heap ex_left 0 = ex_member\<lparr>closing := False, control_owner := 5, control_generation := 1, control_held := True,
     control_heartbeat := ms 10, control_work := 0, potential_motion := True\<rparr>"
  by (simp_all add: ex_left_eq ex_idle_def complete_control_def put_def ex_moving_sel)

lemma ex_retiring_eq: "ex_retiring = markControlDownLocked (ex_left\<lparr>controller_retiring := True\<rparr>)"
  by (simp add: ex_retiring_def retireController_begin_def ex_retire_def ownerAuthorized_def ex_left_sel ex_grant
      ex_open_def char_tests)

lemmas ex_retire_path = ex_released_def ex_visited_def ex_claimed_def ex_retiring_eq markControlDownLocked_def
  retire_member_claim_def retire_member_finish_def ex_left_sel ex_member_sel

lemma ex_released_reachable: "control_reachable \<lparr>srv = ex_released, walk = Some ({}, {0})\<rparr>"
proof -
  let ?y = "\<lambda>s w. \<lparr>srv = s, walk = w\<rparr> :: system"
  have step: "control_reachable y \<Longrightarrow> control_step y z \<Longrightarrow> control_reachable z" for y z
    by (rule control_reachable.step)
  have 1: "control_reachable (?y ex_idle None)"
    using step [OF ex_moving_reachable] control_step.complete [of 0 "?y ex_moving None" False]
    by (simp add: ex_idle_def ex_moving_sel)
  have 2: "control_reachable (?y ex_left None)"
    using step [OF 1] control_step.release_status [of True "?y ex_idle None" 9]
    by (simp add: ex_left_def ex_idle_def complete_control_def status_slot_def ex_moving_sel)
  have 3: "control_reachable (?y ex_retiring None)"
    using step [OF 2] control_step.retire_begin [of "?y ex_left None" ex_retire] by (simp add: ex_retiring_def)
  have 4: "control_reachable (?y ex_claimed (Some ({0}, {0})))"
    using step [OF 3] control_step.retire_claim [of "?y ex_retiring None" ex_retire ex_claimed]
    by (simp add: retireController_joined_def retireController_claim_def ex_retire_path ex_retire_def)
  have 5: "control_reachable (?y ex_visited (Some ({0}, {0})))"
    using step [OF 4] control_step.retire_visit [of "?y ex_claimed (Some ({0}, {0}))" "{0}" "{0}" 0]
    by (simp add: ex_retire_path retire_member_joined_def retire_member_skip_def)
  show ?thesis
    using step [OF 5] control_step.retire_done [of "?y ex_visited (Some ({0}, {0}))" "{0}" "{0}" 0]
    by (simp add: ex_retire_path)
qed

subsection \<open>Properties\<close>

text \<open>C1: a robot that may be moving under a continuous command is always held by the controller that is
  installed now: in every reachable state a member with possible motion is in the control table, its owner is
  the current controller generation, and the generation it is held under was never given back.\<close>

theorem motion_needs_admitted_control:
  assumes "control_reachable y" "a < fresh (srv y)" "potential_motion (heap (srv y) a)"
  shows "control_held (heap (srv y) a) \<and> a \<in> control_members (srv y)
    \<and> controller_generation (srv y) \<noteq> 0 \<and> control_owner (heap (srv y) a) = controller_generation (srv y)
    \<and> retired_control_generation (heap (srv y) a) < control_generation (heap (srv y) a)"
  using ctl_invD(1) [OF control_reachable_inv [OF assms(1)] assms(2)] assms(3) by (simp add: member_ok_def)

theorem motion_needs_admitted_control_witness:
  "control_held (heap ex_moving 0) \<and> control_owner (heap ex_moving 0) = controller_generation ex_moving"
proof -
  have "0 < fresh ex_moving" "potential_motion (heap ex_moving 0)"
    by (simp_all add: ex_moving_eq ex_held_sel)
  with motion_needs_admitted_control [OF ex_moving_reachable, of 0] show ?thesis by simp
qed

text \<open>C3: the controller's work counter is exact in every reachable state: it is the number of control commands in
  flight plus the number of release calls that are waiting, over all members ever registered.\<close>

theorem controller_work_exact:
  assumes "control_reachable y"
  shows "controller_work (srv y) =
    (\<Sum>a<fresh (srv y). control_work (heap (srv y) a) + of_bool (control_release_waiting (heap (srv y) a)))"
  using ctl_invD(4) [OF control_reachable_inv [OF assms]] by (simp add: work_sum_def work_of_def)

theorem controller_work_exact_witness:
  "controller_work ex_moving =
    (\<Sum>a<fresh ex_moving. control_work (heap ex_moving a) + of_bool (control_release_waiting (heap ex_moving a)))"
  using controller_work_exact [OF ex_moving_reachable] by simp

text \<open>C2: when \<^verbatim>\<open>RetireController\<close> completes, nothing of the controller is left: no member is held, no member may be
  moving, no control command is in flight, no release is waiting, the control table is empty and no grant is
  accepted any more.\<close>

theorem retired_controller_leaves_nothing:
  assumes "control_reachable y" "walk y = Some ({}, controls)" "controller_work (srv y) = 0"
    "rt_generation tq = controller_generation (srv y)"
    "s' = snd (retireController_commit tq controls now (srv y))"
  shows "(\<forall>a < fresh s'. \<not> control_held (heap s' a) \<and> \<not> potential_motion (heap s' a)
            \<and> control_work (heap s' a) = 0 \<and> \<not> control_release_waiting (heap s' a))
    \<and> control_members s' = {} \<and> controller_generation s' = 0 \<and> (\<forall>grant. \<not> controllerCredentialLocked grant s')"
proof -
  note inv = control_reachable_inv [OF assms(1)]
  have f: "fresh s' = fresh (srv y)" by (simp add: assms(5) retireController_commit_def)
  have inv': "ctl_inv (y\<lparr>srv := s', walk := None\<rparr>)"
    using retire_commit_inv [OF inv assms(2-4)] by (simp add: assms(5))
  have g: "controller_generation s' = 0" by (simp add: assms(5) retireController_commit_def)
  have "control_members s' = {}"
    using ctl_invD(1,5) [OF inv'] g by (fastforce simp: member_ok_def)
  with f g retire_commit_state [OF inv assms(2-4) _ assms(5)] show ?thesis
    by (auto simp: work_of_def controllerCredentialLocked_def)
qed

theorem retired_controller_leaves_nothing_witness:
  "controller_generation ex_released = 5 \<and> control_held (heap ex_released 0)
   \<and> (let s' = snd (retireController_commit ex_retire {0} (ms 40) ex_released)
      in \<not> control_held (heap s' 0) \<and> controller_generation s' = 0 \<and> control_members s' = {})"
proof -
  have start: "controller_work ex_released = 0" "rt_generation ex_retire = controller_generation ex_released"
    "fresh ex_released = 1" "controller_generation ex_released = 5" "control_held (heap ex_released 0)"
    by (simp_all add: ex_retire_path ex_retire_def)
  have "fresh (snd (retireController_commit ex_retire {0} (ms 40) ex_released)) = 1"
    by (simp add: retireController_commit_def start)
  with start retired_controller_leaves_nothing [OF ex_released_reachable, of "{0}" ex_retire _ "ms 40"]
  show ?thesis by (simp add: Let_def)
qed

text \<open>C4: a controller generation is used once: whatever happens after a state, a controller installed later has a
  generation above every generation retired by then.\<close>

theorem controller_generation_never_returns:
  assumes "control_reachable y" "control_step\<^sup>*\<^sup>* y z" "controller_generation (srv z) \<noteq> 0"
  shows "retired_controller_generation (srv y) < controller_generation (srv z)"
proof -
  note inv = control_reachable_inv [OF assms(1)]
  have "retired_controller_generation (srv y) \<le> retired_controller_generation (srv z)"
    by (rule control_steps_retired_mono [OF assms(2) inv])
  moreover have "retired_controller_generation (srv z) < controller_generation (srv z)"
    using ctl_invD(2) [OF control_steps_inv [OF assms(2) inv]] assms(3) by (simp add: controller_ok_def)
  ultimately show ?thesis by simp
qed

theorem controller_generation_never_returns_witness:
  "retired_controller_generation ex_moving < controller_generation ex_moving"
proof -
  have "controller_generation ex_moving \<noteq> 0" by (simp add: ex_moving_eq ex_held_sel)
  with controller_generation_never_returns [OF ex_moving_reachable rtranclp.rtrancl_refl] show ?thesis by simp
qed

end
