(* ===== verification/Status.thy ===== *)
theory Status
  imports Control
begin

section \<open>Telemetry and status selection\<close>

text \<open>
  The status side of \<^verbatim>\<open>robot_server.cpp\<close>: what a subscriber may select, how a change wakes the subscribers it
  concerns, the demand a member's native object is given, the latest telemetry of each channel (the emitter that
  \<^verbatim>\<open>apply\<close> hands to the robot factory), and the replacement of a selection by its owner. A message's encoded size
  is protobuf code: it is the argument \<open>bytes\<close>.
\<close>

subsection \<open>Selections\<close>

record requested_member =
  want_identity :: "member_identity option"
  want_channels :: "string list"

datatype selection_case = SelectControl bool | SelectAll bool | SelectMembers "requested_member list" | SelectNothing

record status_request =
  st_selection :: selection_case
  st_owner :: "status_owner option"

definition no_selection :: status_selection where
  "no_selection = \<lparr>sel_all = False, sel_control = False, sel_members = []\<rparr>"

text \<open>The channels of one member: an empty or repeated name is refused.\<close>

fun collect_channels :: "string set \<Rightarrow> string list \<Rightarrow> string set option" where
  "collect_channels seen [] = Some seen"
| "collect_channels seen (c # cs) = (if c = [] \<or> c \<in> seen then None else collect_channels (insert c seen) cs)"

fun collect_members ::
    "server_options \<Rightarrow> (string, selected_member) std_map \<Rightarrow> requested_member list
      \<Rightarrow> refusal + (string, selected_member) std_map" where
  "collect_members opts acc [] = Inr acc"
| "collect_members opts acc (r # rs) =
     (case want_identity r of
        None \<Rightarrow> Inl (INVALID_ARGUMENT, ''invalid status member or channels'')
      | Some i \<Rightarrow>
          if \<not> validIdentity i \<or> id_target i \<noteq> target_id opts \<or> id_run i \<noteq> run_id opts
             \<or> kMaximumChannelsPerRobot < length (want_channels r)
          then Inl (INVALID_ARGUMENT, ''invalid status member or channels'')
          else (case collect_channels {} (want_channels r) of
                  None \<Rightarrow> Inl (INVALID_ARGUMENT, ''invalid or duplicate status channel'')
                | Some channels \<Rightarrow>
                    (case sm_emplace (id_robot i) \<lparr>sel_identity = i, sel_channels = channels\<rparr> acc of
                       (acc', inserted) \<Rightarrow>
                         if inserted then collect_members opts acc' rs
                         else Inl (INVALID_ARGUMENT, ''duplicate status member''))))"

definition validateStatusSelection :: "server_options \<Rightarrow> status_request \<Rightarrow> refusal + status_selection" where
  "validateStatusSelection opts request =
     (case st_selection request of
        SelectControl yes \<Rightarrow>
          if \<not> yes \<or> st_owner request = None then Inl (INVALID_ARGUMENT, ''control status needs an owner'')
          else Inr (no_selection\<lparr>sel_control := True\<rparr>)
      | SelectAll yes \<Rightarrow>
          if \<not> yes then Inl (INVALID_ARGUMENT, ''all must be true'') else Inr (no_selection\<lparr>sel_all := True\<rparr>)
      | SelectNothing \<Rightarrow> Inl (INVALID_ARGUMENT, ''invalid status member selection'')
      | SelectMembers rs \<Rightarrow>
          if rs = [] \<or> kMaximumBatchMembers < length rs
          then Inl (INVALID_ARGUMENT, ''invalid status member selection'')
          else (case collect_members opts [] rs of
                  Inl e \<Rightarrow> Inl e
                | Inr chosen \<Rightarrow> Inr (no_selection\<lparr>sel_members := chosen\<rparr>)))"

definition sameStatusSelection :: "status_selection \<Rightarrow> status_selection \<Rightarrow> bool" where
  "sameStatusSelection a b \<longleftrightarrow> sel_all a = sel_all b \<and> sel_control a = sel_control b
     \<and> length (sel_members a) = length (sel_members b)
     \<and> list_all (\<lambda>(k, v). case sm_find (sel_members b) k of None \<Rightarrow> False
          | Some w \<Rightarrow> sameIdentity (sel_identity v) (sel_identity w) \<and> sel_channels v = sel_channels w) (sel_members a)"

subsection \<open>Waking subscribers\<close>

definition relevant :: "member_identity option \<Rightarrow> string option \<Rightarrow> status_selection \<Rightarrow> bool" where
  "relevant who channel sel =
     (case who of
        None \<Rightarrow> True
      | Some i \<Rightarrow> sel_all sel \<or>
          (case sm_find (sel_members sel) (id_robot i) of
             None \<Rightarrow> False
           | Some w \<Rightarrow> (case channel of None \<Rightarrow> True
                       | Some c \<Rightarrow> sameIdentity (sel_identity w) i \<and> c \<in> sel_channels w)))"

definition notifyStatus :: "member_identity option \<Rightarrow> string option \<Rightarrow> server \<Rightarrow> server" where
  "notifyStatus who channel s =
     (if status_subscribers s = 0 then s
      else s\<lparr>subscribers := map (\<lambda>b. if relevant who channel (sb_selection b)
                                     then b\<lparr>sb_revision := Suc (sb_revision b)\<rparr> else b) (subscribers s)\<rparr>)"

subsection \<open>Telemetry\<close>

text \<open>The emitter of a member: only an enabled channel of the configuration, at most 64 KiB, and only a sequence
  above the one held.\<close>

definition declared :: "robot_resource \<Rightarrow> string \<Rightarrow> bool" where
  "declared config channel = list_ex (\<lambda>(c, on). on \<and> c = channel) (rr_channels config)"

definition newer :: "member \<Rightarrow> robot_message \<Rightarrow> bool" where
  "newer m msg =
     (case sm_find (latest m) (rm_channel_id msg) of
        None \<Rightarrow> True
      | Some (version, held) \<Rightarrow> version = 0 \<or> rm_sequence held < rm_sequence msg)"

definition accepts :: "(robot_message \<Rightarrow> nat) \<Rightarrow> member \<Rightarrow> robot_message \<Rightarrow> bool" where
  "accepts bytes m msg \<longleftrightarrow> \<not> closing m \<and> bytes msg \<le> kMaximumTelemetryItemBytes
     \<and> declared (configuration m) (rm_channel_id msg)"

definition emitTelemetry :: "(robot_message \<Rightarrow> nat) \<Rightarrow> nat \<Rightarrow> robot_message \<Rightarrow> server \<Rightarrow> server" where
  "emitTelemetry bytes a msg s =
     (let m = heap s a; channel = rm_channel_id msg
      in if \<not> accepts bytes m msg \<or> \<not> newer m msg then s
         else let version = Suc (state_version m)
              in notifyStatus (Some (identity m)) (Some channel)
                   (put a (m\<lparr>state_version := version, latest := sm_set channel (version, msg) (latest m)\<rparr>) s))"

subsection \<open>Demand\<close>

definition enabled_channels :: "robot_resource \<Rightarrow> string set" where
  "enabled_channels config = set (map fst (filter snd (rr_channels config)))"

definition wanted_by :: "member \<Rightarrow> status_selection \<Rightarrow> string set" where
  "wanted_by m sel =
     (if sel_all sel then enabled_channels (configuration m)
      else case sm_find (sel_members sel) (id_robot (identity m)) of
             None \<Rightarrow> {}
           | Some w \<Rightarrow> if sameIdentity (sel_identity w) (identity m)
                       then enabled_channels (configuration m) \<inter> sel_channels w else {})"

definition wanted_channels :: "member \<Rightarrow> subscriber list \<Rightarrow> string set" where
  "wanted_channels m subs = \<Union> (set (map (wanted_by m \<circ> sb_selection) subs))"

definition forget :: "string set \<Rightarrow> (string, nat \<times> robot_message) std_map \<Rightarrow> (string, nat \<times> robot_message) std_map" where
  "forget channels = filter (\<lambda>(c, _). c \<notin> channels)"

text \<open>Reconciling a member: the old slot of an added channel is dropped before the native demand is replaced, that
  of a removed channel after it; \<open>emitted\<close> is what the native object emits while \<^verbatim>\<open>SetStatusDemand\<close> runs.\<close>

definition reconcileMemberStatus ::
    "(robot_message \<Rightarrow> nat) \<Rightarrow> robot_message list \<Rightarrow> nat \<Rightarrow> server \<Rightarrow> server" where
  "reconcileMemberStatus bytes emitted a s =
     (let m = heap s a; wanted = wanted_channels m (subscribers s)
      in if closing m \<or> wanted = status_channels m then s
         else let s1 = put a (m\<lparr>latest := forget (wanted - status_channels m) (latest m)\<rparr>) s;
                  s2 = fold (emitTelemetry bytes a) emitted s1;
                  m2 = heap s2 a
              in put a (m2\<lparr>latest := forget (status_channels m - wanted) (latest m2), status_channels := wanted\<rparr>) s2)"

text \<open>The members a selection names, in table order or in selection order.\<close>

definition selection_members :: "status_selection \<Rightarrow> server \<Rightarrow> nat list" where
  "selection_members sel s =
     (if sel_all sel then map snd (members s)
      else List.map_filter (\<lambda>(robot, w). case sm_find (members s) robot of
             None \<Rightarrow> None
           | Some a \<Rightarrow> if sameIdentity (identity (heap s a)) (sel_identity w) then Some a else None) (sel_members sel))"

definition reconcileSubscriberMembers ::
    "(robot_message \<Rightarrow> nat) \<Rightarrow> (nat \<Rightarrow> robot_message list) \<Rightarrow> status_selection \<Rightarrow> server \<Rightarrow> server" where
  "reconcileSubscriberMembers bytes emitted sel s =
     fold (\<lambda>a. reconcileMemberStatus bytes (emitted a) a) (selection_members sel s) s"

subsection \<open>Replacing a selection\<close>

text \<open>What a stream has delivered: the version of each channel and the identity it announced last.\<close>

record stream =
  seen :: "(string, (string, nat) std_map) std_map"
  identities :: "(string, member_identity) std_map"

text \<open>Facts of members and channels that the new selection does not have are forgotten.\<close>

definition prune_seen :: "status_selection \<Rightarrow> stream \<Rightarrow> stream" where
  "prune_seen after st =
     (if sel_all after then st
      else st\<lparr>seen := List.map_filter (\<lambda>(robot, channels).
             case sm_find (sel_members after) robot of
               None \<Rightarrow> None
             | Some w \<Rightarrow>
                 if (case sm_find (identities st) robot of None \<Rightarrow> False
                     | Some i \<Rightarrow> \<not> sameIdentity i (sel_identity w))
                 then None
                 else Some (robot, filter (\<lambda>(c, _). c \<in> sel_channels w) channels)) (seen st)\<rparr>)"

text \<open>First section: the stream that owns the optional slot.\<close>

definition updateStatusSelection_admit :: "status_request \<Rightarrow> server \<Rightarrow> refusal + (nat \<times> status_owner \<times> status_selection)" where
  "updateStatusSelection_admit request s =
     (case st_owner request of
        None \<Rightarrow> Inl (INVALID_ARGUMENT, ''invalid status owner'')
      | Some w \<Rightarrow>
          if \<not> validStatusOwner w then Inl (INVALID_ARGUMENT, ''invalid status owner'')
          else (case validateStatusSelection (options s) request of
                  Inl e \<Rightarrow> Inl e
                | Inr replacement \<Rightarrow>
                    if sel_control replacement then Inl (INVALID_ARGUMENT, ''control status has no selection'')
                    else (case active (optional_status s) of
                            None \<Rightarrow> Inl (FAILED_PRECONDITION, ''status owner is unavailable'')
                          | Some c \<Rightarrow>
                              if c \<notin> controller_calls s
                              then Inl (FAILED_PRECONDITION, ''status owner is unavailable'')
                              else Inr (c, w, replacement))))"

definition current_owner :: "nat \<Rightarrow> status_owner \<Rightarrow> server \<Rightarrow> bool" where
  "current_owner c w s \<longleftrightarrow>
     (let slot = optional_status s
      in controllerGrantLocked (so_grant w) s \<and> active slot = Some c \<and> \<not> retiring slot \<and> ready slot
         \<and> slot_generation slot = so_generation w \<and> open_id slot = so_open_id w \<and> matchesPredecessor w slot)"

text \<open>Second section, with the stream's update lock and no write in progress: the selection before, and the new
  selection unless it is the same.\<close>

definition updateStatusSelection_commit ::
    "bool \<Rightarrow> nat \<Rightarrow> status_owner \<Rightarrow> status_selection \<Rightarrow> stream \<Rightarrow> server
      \<Rightarrow> (status_selection \<times> status_selection option) rpc \<times> stream \<times> server" where
  "updateStatusSelection_commit cancelled c w replacement st s =
     (if \<not> current_owner c w s \<or> cancelled
      then (Inl (FAILED_PRECONDITION, ''status owner is not current''), st, s)
      else case List.find (\<lambda>b. sb_call b = c) (subscribers s) of
             None \<Rightarrow> (Inl (FAILED_PRECONDITION, ''status subscriber is unavailable''), st, s)
           | Some b \<Rightarrow>
               let before = sb_selection b
               in if sameStatusSelection before replacement then (Inr (before, None), st, s)
                  else (Inr (before, Some replacement), prune_seen replacement st,
                        s\<lparr>subscribers := map (\<lambda>x. if sb_call x = c
                             then x\<lparr>sb_selection := replacement, sb_revision := Suc (sb_revision x)\<rparr> else x)
                               (subscribers s)\<rparr>))"

text \<open>The handler when no other thread takes the locks between its sections; \<open>waits\<close> says which of its two waits
  (the update lock, the write in progress) end by the deadline.\<close>

definition updateStatusSelection ::
    "(robot_message \<Rightarrow> nat) \<Rightarrow> (nat \<Rightarrow> robot_message list) \<Rightarrow> (nat \<Rightarrow> robot_message list) \<Rightarrow> bool \<times> bool \<Rightarrow> bool
      \<Rightarrow> status_request \<Rightarrow> stream \<Rightarrow> server \<Rightarrow> (nat \<times> string) rpc \<times> stream \<times> server" where
  "updateStatusSelection bytes emitted emitted' waits cancelled request st s =
     (case updateStatusSelection_admit request s of
        Inl e \<Rightarrow> (Inl e, st, s)
      | Inr (c, w, replacement) \<Rightarrow>
          if fst waits then (Inl (DEADLINE_EXCEEDED, ''prior status selection is still joining''), st, s)
          else if snd waits then (Inl (DEADLINE_EXCEEDED, ''status write is still joining''), st, s)
          else (case updateStatusSelection_commit cancelled c w replacement st s of
                  (Inl e, st', s') \<Rightarrow> (Inl e, st', s')
                | (Inr (before, None), st', s') \<Rightarrow> (Inr (so_generation w, so_open_id w), st', s')
                | (Inr (before, Some after), st', s') \<Rightarrow>
                    (Inr (so_generation w, so_open_id w), st',
                     reconcileSubscriberMembers bytes emitted' after
                       (reconcileSubscriberMembers bytes emitted before s'))))"

subsection \<open>Subscribers\<close>

text \<open>A view stream registers its subscriber and reconciles the members it selects; its end removes it again.\<close>

definition subscribe_register ::
    "(robot_message \<Rightarrow> nat) \<Rightarrow> (nat \<Rightarrow> robot_message list) \<Rightarrow> nat \<Rightarrow> status_selection \<Rightarrow> server \<Rightarrow> stream \<times> server" where
  "subscribe_register bytes emitted c sel s =
     (\<lparr>seen = [], identities = map (\<lambda>(robot, w). (robot, sel_identity w)) (sel_members sel)\<rparr>,
      reconcileSubscriberMembers bytes emitted sel
        (s\<lparr>subscribers := subscribers s @ [\<lparr>sb_call = c, sb_selection = sel, sb_revision = 1, sb_delivered = 0\<rparr>]\<rparr>))"

definition subscribe_retire ::
    "(robot_message \<Rightarrow> nat) \<Rightarrow> (nat \<Rightarrow> robot_message list) \<Rightarrow> nat \<Rightarrow> server \<Rightarrow> server" where
  "subscribe_retire bytes emitted c s =
     (case List.find (\<lambda>b. sb_call b = c) (subscribers s) of
        None \<Rightarrow> s
      | Some b \<Rightarrow> reconcileSubscriberMembers bytes emitted (sb_selection b)
                    (s\<lparr>subscribers := remove1 b (subscribers s)\<rparr>))"

text \<open>\<^verbatim>\<open>awaitStatusDelivered\<close>: every subscriber that was registered has delivered the revision it had, or has left.\<close>

definition delivery_targets :: "server \<Rightarrow> (nat \<times> nat) list" where
  "delivery_targets s = map (\<lambda>b. (sb_call b, sb_revision b)) (subscribers s)"

definition awaitStatusDelivered :: "(nat \<times> nat) list \<Rightarrow> server \<Rightarrow> bool" where
  "awaitStatusDelivered targets s =
     list_all (\<lambda>(c, r). list_all (\<lambda>b. sb_call b = c \<longrightarrow> r \<le> sb_delivered b) (subscribers s)) targets"

subsection \<open>Lemmas\<close>

lemma notifyStatus_sel [simp]:
  "heap (notifyStatus i c s) = heap s" "members (notifyStatus i c s) = members s"
  "namespaces (notifyStatus i c s) = namespaces s" "fresh (notifyStatus i c s) = fresh s"
  "status_subscribers (notifyStatus i c s) = status_subscribers s" "options (notifyStatus i c s) = options s"
  "phase (notifyStatus i c s) = phase s" "members_revision (notifyStatus i c s) = members_revision s"
  "replies (notifyStatus i c s) = replies s" "commands_closed (notifyStatus i c s) = commands_closed s"
  "queues (notifyStatus i c s) = queues s" "control_members (notifyStatus i c s) = control_members s"
  "shutdown (notifyStatus i c s) = shutdown s" "fatal (notifyStatus i c s) = fatal s"
  "stop_reason (notifyStatus i c s) = stop_reason s" "next_lane (notifyStatus i c s) = next_lane s"
  by (simp_all add: notifyStatus_def)

lemma notifyStatus_selections [simp]:
  "map sb_selection (subscribers (notifyStatus i c s)) = map sb_selection (subscribers s)"
  "map sb_call (subscribers (notifyStatus i c s)) = map sb_call (subscribers s)"
  by (auto simp: notifyStatus_def)

text \<open>A member's telemetry is well-formed: one slot per channel, with the version of a message it accepted.\<close>

definition latest_ok :: "member \<Rightarrow> bool" where
  "latest_ok m \<longleftrightarrow> sm_ok (latest m) \<and> (\<forall>c v h. sm_find (latest m) c = Some (v, h) \<longrightarrow>
     0 < v \<and> v \<le> state_version m \<and> rm_channel_id h = c)"

lemma new_member_latest_ok: "latest_ok (new_member i c n l t)"
  by (simp add: latest_ok_def new_member_def)

lemma emit_elsewhere: "b \<noteq> a \<Longrightarrow> heap (emitTelemetry bytes a msg s) b = heap s b"
  by (simp add: emitTelemetry_def Let_def)

lemma emit_member:
  "heap (emitTelemetry bytes a msg s) a =
     (let m = heap s a; v = Suc (state_version m)
      in if accepts bytes m msg \<and> newer m msg
         then m\<lparr>state_version := v, latest := sm_set (rm_channel_id msg) (v, msg) (latest m)\<rparr> else m)"
  by (simp add: emitTelemetry_def Let_def)

lemma emit_accepts [simp]: "accepts bytes (heap (emitTelemetry bytes' a msg s) b) = accepts bytes (heap s b)"
  by (cases "b = a") (auto simp: accepts_def emit_elsewhere emit_member Let_def fun_eq_iff)

lemma emit_latest_ok: "latest_ok (heap s a) \<Longrightarrow> latest_ok (heap (emitTelemetry bytes a msg s) a)"
  by (fastforce simp: emit_member Let_def latest_ok_def smap.ok_set smap.find_set split: if_splits)

text \<open>The slot of a channel after one emission: the newer of what it held and the accepted message.\<close>

definition held_message :: "member \<Rightarrow> string \<Rightarrow> robot_message option" where
  "held_message m c = map_option snd (sm_find (latest m) c)"

definition newest :: "robot_message option \<Rightarrow> robot_message \<Rightarrow> robot_message option" where
  "newest held msg = (case held of None \<Rightarrow> Some msg | Some h \<Rightarrow> if rm_sequence h < rm_sequence msg then Some msg else Some h)"

lemma emit_held:
  assumes "latest_ok (heap s a)"
  shows "held_message (heap (emitTelemetry bytes a msg s) a) c =
    (if accepts bytes (heap s a) msg \<and> rm_channel_id msg = c then newest (held_message (heap s a) c) msg
     else held_message (heap s a) c)"
proof -
  have "sm_ok (latest (heap s a))" using assms by (simp add: latest_ok_def)
  moreover have "newer (heap s a) msg \<longleftrightarrow>
      (case held_message (heap s a) (rm_channel_id msg) of None \<Rightarrow> True | Some h \<Rightarrow> rm_sequence h < rm_sequence msg)"
    using assms by (fastforce simp: newer_def held_message_def latest_ok_def split: option.splits)
  ultimately show ?thesis
    by (auto simp: emit_member Let_def smap.find_set newest_def held_message_def split: option.splits)
qed

lemma emits_held:
  assumes "latest_ok (heap s a)"
  shows "held_message (heap (fold (emitTelemetry bytes a) msgs s) a) c =
    fold (\<lambda>msg held. newest held msg) (filter (\<lambda>msg. accepts bytes (heap s a) msg \<and> rm_channel_id msg = c) msgs)
      (held_message (heap s a) c)"
  using assms
  by (induction msgs arbitrary: s) (simp_all add: emit_held emit_latest_ok)

lemma newest_fold:
  assumes "fold (\<lambda>msg held. newest held msg) msgs held = h'"
  shows "(h' = None \<longleftrightarrow> held = None \<and> msgs = []) \<and>
    (\<forall>h. h' = Some h \<longrightarrow> h \<in> set_option held \<union> set msgs \<and> (\<forall>x \<in> set_option held \<union> set msgs. rm_sequence x \<le> rm_sequence h))"
  using assms
proof (induction msgs arbitrary: held)
  case Nil
  then show ?case by auto
next
  case (Cons msg msgs)
  show ?case
  proof (cases held)
    case None
    with Cons.IH [of "Some msg"] Cons.prems show ?thesis by (auto simp: newest_def)
  next
    case (Some h0)
    with Cons.IH [of "newest held msg"] Cons.prems show ?thesis
      by (auto simp: newest_def split: if_splits)
  qed
qed

lemma emits_accepts [simp]:
  "accepts bytes (heap (fold (emitTelemetry bytes' a) msgs s) b) = accepts bytes (heap s b)"
  by (induction msgs arbitrary: s) simp_all

lemma emits_latest_ok: "latest_ok (heap s a) \<Longrightarrow> latest_ok (heap (fold (emitTelemetry bytes a) msgs s) a)"
  by (induction msgs arbitrary: s) (simp_all add: emit_latest_ok)

lemma emit_sel [simp]:
  "status_subscribers (emitTelemetry bytes a msg s) = status_subscribers s"
  "members (emitTelemetry bytes a msg s) = members s" "fresh (emitTelemetry bytes a msg s) = fresh s"
  "map sb_selection (subscribers (emitTelemetry bytes a msg s)) = map sb_selection (subscribers s)"
  "status_channels (heap (emitTelemetry bytes a msg s) b) = status_channels (heap s b)"
  "closing (heap (emitTelemetry bytes a msg s) b) = closing (heap s b)"
  "identity (heap (emitTelemetry bytes a msg s) b) = identity (heap s b)"
  "configuration (heap (emitTelemetry bytes a msg s) b) = configuration (heap s b)"
  by (simp_all add: emitTelemetry_def Let_def)

lemma emits_sel [simp]:
  "status_channels (heap (fold (emitTelemetry bytes a) msgs s) b) = status_channels (heap s b)"
  "closing (heap (fold (emitTelemetry bytes a) msgs s) b) = closing (heap s b)"
  by (induction msgs arbitrary: s) simp_all

lemma forget_ok: "sm_ok l \<Longrightarrow> sm_ok (forget cs l)"
  by (simp add: sm_ok_def forget_def sorted_wrt_map sorted_wrt_filter)

lemma forget_find: "sm_find (forget cs l) c = (if c \<in> cs then None else sm_find l c)"
  by (induction l) (auto simp: forget_def split: if_splits)

lemma forget_held: "held_message (m\<lparr>latest := forget cs (latest m)\<rparr>) c = (if c \<in> cs then None else held_message m c)"
  by (simp add: held_message_def forget_find)

lemma forget_latest_ok: "latest_ok m \<Longrightarrow> latest_ok (m\<lparr>latest := forget cs (latest m)\<rparr>)"
  by (auto simp: latest_ok_def forget_ok forget_find split: if_splits)

lemma held_message_update [simp]: "held_message (m\<lparr>status_channels := w\<rparr>) c = held_message m c"
  by (simp add: held_message_def)

lemma accepts_latest [simp]: "accepts bytes (m\<lparr>latest := l\<rparr>) = accepts bytes m"
  by (simp add: accepts_def fun_eq_iff)

subsection \<open>Properties\<close>

text \<open>whatever order a robot's emissions arrive in, the slot of a channel ends with the accepted message of the
  highest sequence; a message of an undeclared channel, an oversized one or one of a closing member never
  gets there.\<close>

theorem telemetry_keeps_newest:
  assumes "latest_ok (heap s a)" "held_message (heap s a) c = None"
    and "x \<in> set msgs" "accepts bytes (heap s a) x" "rm_channel_id x = c"
  shows "\<exists>h \<in> set msgs. held_message (heap (fold (emitTelemetry bytes a) msgs s) a) c = Some h
    \<and> accepts bytes (heap s a) h \<and> rm_channel_id h = c
    \<and> (\<forall>y \<in> set msgs. accepts bytes (heap s a) y \<and> rm_channel_id y = c \<longrightarrow> rm_sequence y \<le> rm_sequence h)"
proof -
  let ?good = "filter (\<lambda>msg. accepts bytes (heap s a) msg \<and> rm_channel_id msg = c) msgs"
  have "?good \<noteq> []" using assms(3-5) by (auto simp: filter_empty_conv)
  then obtain h where h: "fold (\<lambda>msg held. newest held msg) ?good None = Some h"
    using newest_fold [OF refl, of ?good None] by (cases "fold (\<lambda>msg held. newest held msg) ?good None") simp_all
  with newest_fold [OF refl, of ?good None] have "h \<in> set ?good \<and> (\<forall>y \<in> set ?good. rm_sequence y \<le> rm_sequence h)"
    by simp
  moreover have "held_message (heap (fold (emitTelemetry bytes a) msgs s) a) c = Some h"
    using emits_held [OF assms(1), of bytes msgs c] assms(2) h by simp
  ultimately show ?thesis by (intro bexI [of _ h]) simp_all
qed

definition ex_message :: "nat \<Rightarrow> robot_message" where
  "ex_message n = \<lparr>rm_robot_id = ''b'', rm_channel_id = ''pose'', rm_sequence = n, rm_source_time = None, rm_observed = 0,
     rm_schema = \<lparr>ms_message_id = 1, ms_type_name = ''P'', ms_version = 1, ms_fingerprint = 7\<rparr>, rm_value = []\<rparr>"

definition ex_config :: robot_resource where
  "ex_config = \<lparr>rr_robot_id = ''b'', rr_profile_id = ''p'', rr_profile_digest = ''d'',
     rr_parameters = [(''namespace'', ''/b'')], rr_channels = [(''pose'', True)]\<rparr>"

definition ex_status_server :: "robot_resource \<Rightarrow> bool \<Rightarrow> server" where
  "ex_status_server config closed = initial_server default_options [] []
     ((new_member \<lparr>id_target = ''t'', id_run = ''r'', id_robot = ''b'', id_epoch = 1\<rparr> config
        \<lparr>RequiresControl = (\<lambda>_. False), IsControlRelease = (\<lambda>_. False), IsSafetyOperation = (\<lambda>_. False),
         ControlSilenceLimit = 0\<rparr> 0 0)\<lparr>closing := closed\<rparr>)"

lemma ex_status_member:
  "accepts (\<lambda>_. 10) (heap (ex_status_server ex_config False) 0) (ex_message n)"
  "latest (heap (ex_status_server ex_config closed) 0) = []" "state_version (heap (ex_status_server ex_config closed) 0) = 0"
  "latest_ok (heap (ex_status_server ex_config closed) 0)" "rm_channel_id (ex_message n) = ''pose''"
  "rm_sequence (ex_message n) = n"
  by (simp_all add: ex_status_server_def initial_server_def new_member_def accepts_def declared_def ex_config_def
      ex_message_def kMaximumTelemetryItemBytes_def latest_ok_def)

theorem telemetry_keeps_newest_witness:
  "\<exists>h. held_message (heap (fold (emitTelemetry (\<lambda>_. 10) 0) [ex_message 3, ex_message 7, ex_message 5]
          (ex_status_server ex_config False)) 0) ''pose'' = Some h \<and> 7 \<le> rm_sequence h"
  using telemetry_keeps_newest [of "ex_status_server ex_config False" 0 "''pose''" "ex_message 7"
      "[ex_message 3, ex_message 7, ex_message 5]" "\<lambda>_. 10"]
  by (auto simp: ex_status_member held_message_def)

text \<open>an accepted emission that is newer wakes every subscriber that selected the channel of exactly this member
  or selected everything, and no other subscriber.\<close>

theorem emission_wakes_subscribers:
  assumes "accepts bytes (heap s a) msg" "newer (heap s a) msg" "status_subscribers s \<noteq> 0"
  shows "subscribers (emitTelemetry bytes a msg s) =
    map (\<lambda>b. if sel_all (sb_selection b) \<or> (\<exists>w. sm_find (sel_members (sb_selection b)) (id_robot (identity (heap s a))) = Some w
                \<and> sel_identity w = identity (heap s a) \<and> rm_channel_id msg \<in> sel_channels w)
            then b\<lparr>sb_revision := Suc (sb_revision b)\<rparr> else b) (subscribers s)"
  using assms by (auto simp: emitTelemetry_def Let_def notifyStatus_def relevant_def split: option.splits)

definition ex_subscriber :: subscriber where
  "ex_subscriber = \<lparr>sb_call = 4, sb_selection = no_selection\<lparr>sel_all := True\<rparr>, sb_revision = 1, sb_delivered = 1\<rparr>"

definition ex_watched :: server where
  "ex_watched = (ex_status_server ex_config False)\<lparr>subscribers := [ex_subscriber], status_subscribers := 1\<rparr>"

theorem emission_wakes_subscribers_witness:
  "map sb_revision (subscribers (emitTelemetry (\<lambda>_. 10) 0 (ex_message 3) ex_watched)) = [2]"
  using emission_wakes_subscribers [of "\<lambda>_. 10" ex_watched 0 "ex_message 3"]
  by (simp add: ex_watched_def newer_def ex_status_member ex_subscriber_def)

text \<open>reconciling an open member gives it exactly the union of the channels its subscribers want; a channel that
  lost its last subscriber holds no telemetry, one that gained its first holds only what the native object
  emitted under the new demand, and one that stays wanted loses nothing.\<close>

theorem reconcile_demand_exact:
  assumes "\<not> closing (heap s a)" "latest_ok (heap s a)" "wanted_channels (heap s a) (subscribers s) \<noteq> status_channels (heap s a)"
    and s': "s' = reconcileMemberStatus bytes emitted a s"
    and "good = (\<lambda>c. filter (\<lambda>msg. accepts bytes (heap s a) msg \<and> rm_channel_id msg = c) emitted)"
  shows "status_channels (heap s' a) = wanted_channels (heap s a) (subscribers s) \<and>
    held_message (heap s' a) c =
      (if c \<in> status_channels (heap s a) - wanted_channels (heap s a) (subscribers s) then None
       else fold (\<lambda>msg held. newest held msg) (good c)
              (if c \<in> wanted_channels (heap s a) (subscribers s) - status_channels (heap s a) then None
               else held_message (heap s a) c))"
proof -
  let ?w = "wanted_channels (heap s a) (subscribers s)"
  let ?m = "(heap s a)\<lparr>latest := forget (?w - status_channels (heap s a)) (latest (heap s a))\<rparr>"
  let ?s1 = "put a ?m s"
  have "held_message (heap (fold (emitTelemetry bytes a) emitted ?s1) a) c =
      fold (\<lambda>msg held. newest held msg) (good c) (held_message ?m c)"
    using emits_held [of ?s1 a bytes emitted c] forget_latest_ok [OF assms(2)] by (simp add: assms(5))
  then show ?thesis
    using assms(1,3) by (simp add: s' reconcileMemberStatus_def Let_def forget_held)
qed

theorem reconcile_demand_exact_witness:
  "status_channels (heap (reconcileMemberStatus (\<lambda>_. 10) [ex_message 4] 0 ex_watched) 0) = {''pose''} \<and>
   held_message (heap (reconcileMemberStatus (\<lambda>_. 10) [ex_message 4] 0 ex_watched) 0) ''pose'' = Some (ex_message 4)"
proof -
  have m: "heap ex_watched 0 = heap (ex_status_server ex_config False) 0" by (simp add: ex_watched_def)
  have w: "wanted_channels (heap ex_watched 0) (subscribers ex_watched) = {''pose''}"
    and st: "status_channels (heap ex_watched 0) = {}" and cl: "\<not> closing (heap ex_watched 0)"
    by (simp_all add: m ex_watched_def wanted_channels_def wanted_by_def ex_subscriber_def enabled_channels_def
        ex_status_server_def initial_server_def new_member_def ex_config_def)
  show ?thesis
    using reconcile_demand_exact [of ex_watched 0 _ "\<lambda>_. 10" "[ex_message 4]" _ "''pose''", OF _ _ _ refl refl] w st cl
    by (simp add: m ex_status_member newest_def)
qed

end
