(* ===== verification/Delivery.thy ===== *)
theory Delivery
  imports Status
begin

section \<open>Delivery of status frames\<close>

text \<open>
  One round of the loop of \<^verbatim>\<open>subscribe\<close> in \<^verbatim>\<open>robot_server.cpp\<close>: a snapshot of the selected members is compared with
  what the stream delivered before; removals and changed channels are packed into frames of at most
  \<^verbatim>\<open>response_bytes\<close> bytes. The encoded sizes are protobuf code, given by \<open>sizes\<close>; \<open>outcomes\<close> lists the results of
  the writes still to come (an empty list means they succeed).
\<close>

subsection \<open>Frames\<close>

record member_status =
  us_identity :: member_identity
  us_removed :: bool
  us_messages :: "robot_message list"

record sizes =
  frame_bytes :: "member_status list \<Rightarrow> nat"
  status_bytes :: "member_status \<Rightarrow> nat"
  message_bytes :: "robot_message \<Rightarrow> nat"
  identity_bytes :: "member_identity \<Rightarrow> nat"

record delivery =
  sending :: "member_status list"
  written :: "member_status list list"
  outcomes :: "bool list"
  facts :: stream

definition stream_flush :: "delivery \<Rightarrow> bool \<times> delivery" where
  "stream_flush d =
     (if sending d = [] then (True, d)
      else case outcomes d of
             False # rest \<Rightarrow> (False, d\<lparr>sending := [], outcomes := rest\<rparr>)
           | rest \<Rightarrow> (True, d\<lparr>written := written d @ [sending d], sending := [], outcomes := tl rest\<rparr>))"

definition add_status :: "sizes \<Rightarrow> nat \<Rightarrow> member_status \<Rightarrow> delivery \<Rightarrow> bool \<times> delivery" where
  "add_status sz limit u d =
     (if limit < frame_bytes sz (sending d) + status_bytes sz u + 16
      then (case stream_flush d of
              (False, d') \<Rightarrow> (False, d')
            | (True, d') \<Rightarrow> (True, d'\<lparr>sending := sending d' @ [u]\<rparr>))
      else (True, d\<lparr>sending := sending d @ [u]\<rparr>))"

definition forget_robot :: "string \<Rightarrow> delivery \<Rightarrow> delivery" where
  "forget_robot robot d =
     d\<lparr>facts := (facts d)\<lparr>seen := sm_erase robot (seen (facts d)), identities := sm_erase robot (identities (facts d))\<rparr>\<rparr>"

subsection \<open>Removals\<close>

definition unselected :: "status_selection \<Rightarrow> string \<Rightarrow> member_identity \<Rightarrow> bool" where
  "unselected sel robot i \<longleftrightarrow> \<not> sel_all sel \<and>
     (case sm_find (sel_members sel) robot of None \<Rightarrow> True | Some w \<Rightarrow> \<not> sameIdentity (sel_identity w) i)"

definition departed :: "(string, member) std_map \<Rightarrow> string \<Rightarrow> member_identity \<Rightarrow> bool" where
  "departed snapshot robot i \<longleftrightarrow>
     (case sm_find snapshot robot of None \<Rightarrow> True | Some m \<Rightarrow> \<not> sameIdentity (identity m) i)"

definition removal :: "member_identity \<Rightarrow> member_status" where
  "removal i = \<lparr>us_identity = i, us_removed = True, us_messages = []\<rparr>"

fun announce_removals ::
    "sizes \<Rightarrow> nat \<Rightarrow> status_selection \<Rightarrow> (string, member) std_map \<Rightarrow> (string \<times> member_identity) list \<Rightarrow> delivery
      \<Rightarrow> refusal option \<times> delivery" where
  "announce_removals sz limit sel snapshot [] d = (None, d)"
| "announce_removals sz limit sel snapshot ((robot, i) # rest) d =
     (if unselected sel robot i then announce_removals sz limit sel snapshot rest (forget_robot robot d)
      else if departed snapshot robot i
      then if limit < status_bytes sz (removal i) + 16
           then (Some (RESOURCE_EXHAUSTED, ''member identity exceeds response policy''), d)
           else (case add_status sz limit (removal i) d of
                   (False, d') \<Rightarrow> (Some (CANCELLED, []), d')
                 | (True, d') \<Rightarrow> announce_removals sz limit sel snapshot rest (forget_robot robot d'))
      else announce_removals sz limit sel snapshot rest d)"

subsection \<open>Changed channels\<close>

text \<open>\<^verbatim>\<open>stream.seen[robot][channel]\<close> creates what it does not find.\<close>

definition seen_channels :: "string \<Rightarrow> stream \<Rightarrow> (string, nat) std_map" where
  "seen_channels robot st = (case sm_find (seen st) robot of None \<Rightarrow> [] | Some cs \<Rightarrow> cs)"

definition seen_version :: "string \<Rightarrow> string \<Rightarrow> stream \<Rightarrow> nat" where
  "seen_version robot channel st = (case sm_find (seen_channels robot st) channel of None \<Rightarrow> 0 | Some v \<Rightarrow> v)"

definition set_seen :: "string \<Rightarrow> string \<Rightarrow> nat \<Rightarrow> stream \<Rightarrow> stream" where
  "set_seen robot channel v st =
     st\<lparr>seen := sm_set robot (sm_set channel v (seen_channels robot st)) (seen st)\<rparr>"

definition candidates :: "status_selection \<Rightarrow> string \<Rightarrow> member \<Rightarrow> (string \<times> nat \<times> robot_message) list" where
  "candidates sel robot m =
     (if sel_all sel then latest m
      else case sm_find (sel_members sel) robot of
             None \<Rightarrow> []
           | Some w \<Rightarrow> List.map_filter (\<lambda>c. map_option (Pair c) (sm_find (latest m) c))
                         (sorted_list_of_set (sel_channels w)))"

fun changed_channels ::
    "string \<Rightarrow> (string \<times> nat \<times> robot_message) list \<Rightarrow> stream \<Rightarrow> (string \<times> nat \<times> robot_message) list \<times> stream" where
  "changed_channels robot [] st = ([], st)"
| "changed_channels robot ((c, v, msg) # rest) st =
     (let old = seen_version robot c st; st' = set_seen robot c old st;
          (changes, st'') = changed_channels robot rest st'
      in (if old \<noteq> v then (c, v, msg) # changes else changes, st''))"

subsection \<open>Packing one member\<close>

record packing =
  update :: member_status
  presence :: bool
  out :: delivery

definition empty_update :: "member_identity \<Rightarrow> member_status" where
  "empty_update i = \<lparr>us_identity = i, us_removed = False, us_messages = []\<rparr>"

definition append_update :: "sizes \<Rightarrow> nat \<Rightarrow> packing \<Rightarrow> bool \<times> packing" where
  "append_update sz limit p =
     (if us_messages (update p) = [] \<and> \<not> presence p then (True, p)
      else case add_status sz limit (update p) (out p) of
             (False, d) \<Rightarrow> (False, p\<lparr>out := d\<rparr>)
           | (True, d) \<Rightarrow> (True, p\<lparr>out := d, presence := False\<rparr>))"

definition add_message :: "string \<Rightarrow> string \<times> nat \<times> robot_message \<Rightarrow> packing \<Rightarrow> packing" where
  "add_message robot = (\<lambda>(c, v, msg) p.
     p\<lparr>update := (update p)\<lparr>us_messages := us_messages (update p) @ [msg]\<rparr>,
       out := (out p)\<lparr>facts := set_seen robot c v (facts (out p))\<rparr>\<rparr>)"

text \<open>When the update would not fit any more it is sent by itself and a new one is started.\<close>

definition restart_update :: "sizes \<Rightarrow> nat \<Rightarrow> member_identity \<Rightarrow> packing \<Rightarrow> bool \<times> packing" where
  "restart_update sz limit i p =
     (case append_update sz limit p of
        (False, p') \<Rightarrow> (False, p')
      | (True, p') \<Rightarrow>
          (case stream_flush (out p') of
             (False, d) \<Rightarrow> (False, p'\<lparr>out := d\<rparr>)
           | (True, d) \<Rightarrow> (True, p'\<lparr>out := d, update := empty_update i\<rparr>)))"

fun pack_messages ::
    "sizes \<Rightarrow> nat \<Rightarrow> string \<Rightarrow> member_identity \<Rightarrow> (string \<times> nat \<times> robot_message) list \<Rightarrow> packing
      \<Rightarrow> refusal option \<times> packing" where
  "pack_messages sz limit robot i [] p = (None, p)"
| "pack_messages sz limit robot i ((c, v, msg) # rest) p =
     (let channel_bytes = message_bytes sz msg + 16
      in if limit < identity_bytes sz i + channel_bytes + 16
         then (Some (RESOURCE_EXHAUSTED, ''native state exceeds response policy''), p)
         else if limit < status_bytes sz (update p) + channel_bytes + 16
         then (case restart_update sz limit i p of
                 (False, p') \<Rightarrow> (Some (CANCELLED, []), p')
               | (True, p') \<Rightarrow> pack_messages sz limit robot i rest (add_message robot (c, v, msg) p'))
         else pack_messages sz limit robot i rest (add_message robot (c, v, msg) p))"

text \<open>A member selected without channels is announced once.\<close>

definition announces_presence :: "status_selection \<Rightarrow> string \<Rightarrow> stream \<Rightarrow> bool" where
  "announces_presence sel robot st \<longleftrightarrow> \<not> sel_all sel
     \<and> (case sm_find (sel_members sel) robot of None \<Rightarrow> False | Some w \<Rightarrow> sel_channels w = {})
     \<and> sm_find (seen st) robot = None"

definition deliver_member ::
    "sizes \<Rightarrow> nat \<Rightarrow> status_selection \<Rightarrow> string \<Rightarrow> member \<Rightarrow> delivery \<Rightarrow> refusal option \<times> delivery" where
  "deliver_member sz limit sel robot m d =
     (let i = identity m;
          st = (facts d)\<lparr>identities := sm_set robot i (identities (facts d))\<rparr>;
          here = announces_presence sel robot st;
          st1 = (if here then st\<lparr>seen := sm_set robot [] (seen st)\<rparr> else st)
      in if here \<and> limit < identity_bytes sz i + 16
         then (Some (RESOURCE_EXHAUSTED, ''member identity exceeds response policy''), d\<lparr>facts := st\<rparr>)
         else let (updates, st2) = changed_channels robot (candidates sel robot m) st1
              in case pack_messages sz limit robot i updates
                        \<lparr>update = empty_update i, presence = here, out = d\<lparr>facts := st2\<rparr>\<rparr> of
                   (Some e, p) \<Rightarrow> (Some e, out p)
                 | (None, p) \<Rightarrow>
                     (case append_update sz limit p of
                        (False, p') \<Rightarrow> (Some (CANCELLED, []), out p')
                      | (True, p') \<Rightarrow> (None, out p')))"

fun deliver_members ::
    "sizes \<Rightarrow> nat \<Rightarrow> status_selection \<Rightarrow> (string \<times> member) list \<Rightarrow> delivery \<Rightarrow> refusal option \<times> delivery" where
  "deliver_members sz limit sel [] d = (None, d)"
| "deliver_members sz limit sel ((robot, m) # rest) d =
     (case deliver_member sz limit sel robot m d of
        (Some e, d') \<Rightarrow> (Some e, d')
      | (None, d') \<Rightarrow> deliver_members sz limit sel rest d')"

subsection \<open>A round\<close>

definition snapshot_members :: "status_selection \<Rightarrow> server \<Rightarrow> (string, member) std_map" where
  "snapshot_members sel s =
     (if sel_all sel then map (\<lambda>(robot, a). (robot, heap s a)) (members s)
      else List.map_filter (\<lambda>(robot, w). case sm_find (members s) robot of
             None \<Rightarrow> None
           | Some a \<Rightarrow> if sameIdentity (identity (heap s a)) (sel_identity w) then Some (robot, heap s a) else None)
             (sel_members sel))"

definition deliver_round ::
    "sizes \<Rightarrow> nat \<Rightarrow> status_selection \<Rightarrow> (string, member) std_map \<Rightarrow> bool list \<Rightarrow> stream
      \<Rightarrow> refusal option \<times> delivery" where
  "deliver_round sz limit sel snapshot results st =
     (case announce_removals sz limit sel snapshot (identities st)
             \<lparr>sending = [], written = [], outcomes = results, facts = st\<rparr> of
        (Some e, d) \<Rightarrow> (Some e, d)
      | (None, d) \<Rightarrow>
          (case deliver_members sz limit sel snapshot d of
             (Some e, d') \<Rightarrow> (Some e, d')
           | (None, d') \<Rightarrow>
               (case stream_flush d' of
                  (False, d'') \<Rightarrow> (Some (CANCELLED, []), d'')
                | (True, d'') \<Rightarrow> (None, d''))))"

text \<open>The round of the subscriber of call \<open>c\<close>: a delivered round is noted with the revision it observed.\<close>

definition subscribe_round ::
    "sizes \<Rightarrow> nat \<Rightarrow> nat \<Rightarrow> bool list \<Rightarrow> stream \<Rightarrow> server \<Rightarrow> refusal option \<times> delivery \<times> server" where
  "subscribe_round sz limit c results st s =
     (case List.find (\<lambda>b. sb_call b = c) (subscribers s) of
        None \<Rightarrow> (Some (CANCELLED, []), \<lparr>sending = [], written = [], outcomes = results, facts = st\<rparr>, s)
      | Some b \<Rightarrow>
          (case deliver_round sz limit (sb_selection b) (snapshot_members (sb_selection b) s) results st of
             (Some e, d) \<Rightarrow> (Some e, d, s)
           | (None, d) \<Rightarrow>
               (None, d, s\<lparr>subscribers := map (\<lambda>x. if sb_call x = c then x\<lparr>sb_delivered := sb_revision b\<rparr> else x)
                                          (subscribers s)\<rparr>)))"

subsection \<open>Frames stay within the policy\<close>

text \<open>What protobuf promises of encoded sizes: a field of message type costs a one-byte tag (field numbers below 16)
  and a length of at most five bytes beside its content; an empty message has no bytes.\<close>

definition sizes_ok :: "sizes \<Rightarrow> bool" where
  "sizes_ok sz \<longleftrightarrow> frame_bytes sz [] = 0
     \<and> (\<forall>us u. frame_bytes sz (us @ [u]) \<le> frame_bytes sz us + status_bytes sz u + 6)
     \<and> (\<forall>i. status_bytes sz (empty_update i) \<le> identity_bytes sz i + 6)
     \<and> (\<forall>u msg. status_bytes sz (u\<lparr>us_messages := us_messages u @ [msg]\<rparr>) \<le> status_bytes sz u + message_bytes sz msg + 6)"

definition fits :: "sizes \<Rightarrow> nat \<Rightarrow> delivery \<Rightarrow> bool" where
  "fits sz limit d \<longleftrightarrow> frame_bytes sz (sending d) \<le> limit \<and> (\<forall>f \<in> set (written d). frame_bytes sz f \<le> limit)"

lemma fits_facts [simp]: "fits sz limit (d\<lparr>facts := st\<rparr>) = fits sz limit d"
  by (simp add: fits_def)

lemma fits_forget [simp]: "fits sz limit (forget_robot r d) = fits sz limit d"
  by (simp add: forget_robot_def)

lemma flush_fits: "sizes_ok sz \<Longrightarrow> fits sz limit d \<Longrightarrow> fits sz limit (snd (stream_flush d))"
  by (auto simp: stream_flush_def fits_def sizes_ok_def split: list.splits bool.splits)

lemma flush_empty: "sending (snd (stream_flush d)) = []"
  by (simp add: stream_flush_def split: list.splits bool.splits)

lemma send_fits:
  "sizes_ok sz \<Longrightarrow> fits sz limit d \<Longrightarrow> frame_bytes sz (sending d) + status_bytes sz u + 6 \<le> limit \<Longrightarrow>
   fits sz limit (d\<lparr>sending := sending d @ [u]\<rparr>)"
  by (auto simp: fits_def sizes_ok_def intro: order_trans)

lemma add_status_fits:
  assumes "sizes_ok sz" "fits sz limit d" "status_bytes sz u + 6 \<le> limit"
  shows "fits sz limit (snd (add_status sz limit u d))"
proof -
  let ?d = "snd (stream_flush d)"
  have "fits sz limit ?d" using flush_fits assms(1,2) by blast
  moreover have "frame_bytes sz (sending ?d) = 0" using assms(1) by (simp add: flush_empty sizes_ok_def)
  ultimately have "fits sz limit (?d\<lparr>sending := sending ?d @ [u]\<rparr>)" using send_fits assms by simp
  moreover have "fits sz limit (d\<lparr>sending := sending d @ [u]\<rparr>)"
    if "\<not> limit < frame_bytes sz (sending d) + status_bytes sz u + 16"
    using send_fits [OF assms(1,2)] that by simp
  ultimately show ?thesis using \<open>fits sz limit ?d\<close>
    by (cases "stream_flush d") (auto simp: add_status_def split: bool.splits)
qed

lemma removals_fit:
  "sizes_ok sz \<Longrightarrow> fits sz limit d \<Longrightarrow> fits sz limit (snd (announce_removals sz limit sel snapshot ids d))"
proof (induction sz limit sel snapshot ids d rule: announce_removals.induct)
  case (2 sz limit sel snapshot robot i rest d)
  have "fits sz limit (snd (add_status sz limit (removal i) d))" if "\<not> limit < status_bytes sz (removal i) + 16"
    using add_status_fits [OF "2.prems"] that by simp
  with 2 show ?case by (auto split: prod.splits bool.splits)
qed simp

text \<open>While a member is packed, what would be sent now fits.\<close>

definition pack_ok :: "sizes \<Rightarrow> nat \<Rightarrow> packing \<Rightarrow> bool" where
  "pack_ok sz limit p \<longleftrightarrow> fits sz limit (out p)
     \<and> (us_messages (update p) = [] \<and> \<not> presence p \<or> status_bytes sz (update p) + 6 \<le> limit)"

lemma append_update_fits:
  "sizes_ok sz \<Longrightarrow> pack_ok sz limit p \<Longrightarrow> fits sz limit (out (snd (append_update sz limit p)))"
  using add_status_fits [of sz limit "out p" "update p"]
  by (auto simp: append_update_def pack_ok_def split: prod.splits bool.splits)

lemma restart_update_fits:
  "sizes_ok sz \<Longrightarrow> pack_ok sz limit p \<Longrightarrow> restart_update sz limit i p = (ok, p') \<Longrightarrow>
   fits sz limit (out p') \<and> (ok \<longrightarrow> update p' = empty_update i)"
  using append_update_fits [of sz limit p] flush_fits [of sz limit "out (snd (append_update sz limit p))"]
  by (auto simp: restart_update_def split: prod.splits bool.splits)

lemma add_message_pack:
  assumes "sizes_ok sz" "fits sz limit (out p)" "status_bytes sz (update p) + message_bytes sz msg + 12 \<le> limit"
  shows "pack_ok sz limit (add_message robot (c, v, msg) p)"
proof -
  have "status_bytes sz ((update p)\<lparr>us_messages := us_messages (update p) @ [msg]\<rparr>)
      \<le> status_bytes sz (update p) + message_bytes sz msg + 6" using assms(1) by (simp add: sizes_ok_def)
  with assms show ?thesis by (simp add: pack_ok_def add_message_def)
qed

lemma pack_messages_fit:
  "sizes_ok sz \<Longrightarrow> pack_ok sz limit p \<Longrightarrow> pack_ok sz limit (snd (pack_messages sz limit robot i ups p))
     \<or> fits sz limit (out (snd (pack_messages sz limit robot i ups p)))
       \<and> fst (pack_messages sz limit robot i ups p) \<noteq> None"
proof (induction sz limit robot i ups p rule: pack_messages.induct)
  case (2 sz limit robot i c v msg rest p)
  consider (large) "limit < identity_bytes sz i + (message_bytes sz msg + 16) + 16"
    | (more) "\<not> limit < identity_bytes sz i + (message_bytes sz msg + 16) + 16"
        "\<not> limit < status_bytes sz (update p) + (message_bytes sz msg + 16) + 16"
    | (restart) "\<not> limit < identity_bytes sz i + (message_bytes sz msg + 16) + 16"
        "limit < status_bytes sz (update p) + (message_bytes sz msg + 16) + 16" by blast
  then show ?case
  proof cases
    case large
    with "2.prems" show ?thesis by (simp add: Let_def)
  next
    case more
    have "pack_ok sz limit (add_message robot (c, v, msg) p)"
      by (rule add_message_pack) (use more "2.prems" in \<open>auto simp: pack_ok_def\<close>)
    with more "2.IH"(2) "2.prems" show ?thesis by (simp add: Let_def)
  next
    case restart
    obtain ok p' where r: "restart_update sz limit i p = (ok, p')" by (cases "restart_update sz limit i p")
    note f = restart_update_fits [OF "2.prems" r]
    show ?thesis
    proof (cases ok)
      case False
      with r f restart show ?thesis by (simp add: Let_def)
    next
      case True
      have "status_bytes sz (empty_update i) \<le> identity_bytes sz i + 6" using "2.prems" by (simp add: sizes_ok_def)
      then have "pack_ok sz limit (add_message robot (c, v, msg) p')"
        by (intro add_message_pack) (use f True restart "2.prems" in auto)
      with True r restart "2.IH"(1) "2.prems" show ?thesis by (simp add: Let_def)
    qed
  qed
qed simp

definition entered :: "status_selection \<Rightarrow> string \<Rightarrow> member \<Rightarrow> stream \<Rightarrow> stream" where
  "entered sel robot m st0 =
     (let st = st0\<lparr>identities := sm_set robot (identity m) (identities st0)\<rparr>
      in if announces_presence sel robot st then st\<lparr>seen := sm_set robot [] (seen st)\<rparr> else st)"

text \<open>The ways through one member.\<close>

lemma deliver_member_cases:
  assumes "deliver_member sz limit sel robot m d = (r, d')"
  obtains (large) "r \<noteq> None" "\<exists>st. d' = d\<lparr>facts := st\<rparr>"
  | (refused) here ups st p where "changed_channels robot (candidates sel robot m) (entered sel robot m (facts d)) = (ups, st)"
      "\<not> (here \<and> limit < identity_bytes sz (identity m) + 16)"
      "pack_messages sz limit robot (identity m) ups
         \<lparr>update = empty_update (identity m), presence = here, out = d\<lparr>facts := st\<rparr>\<rparr> = (r, p)" "r \<noteq> None" "d' = out p"
  | (packed) here ups st p ok p' where "changed_channels robot (candidates sel robot m) (entered sel robot m (facts d)) = (ups, st)"
      "\<not> (here \<and> limit < identity_bytes sz (identity m) + 16)"
      "pack_messages sz limit robot (identity m) ups
         \<lparr>update = empty_update (identity m), presence = here, out = d\<lparr>facts := st\<rparr>\<rparr> = (None, p)"
      "append_update sz limit p = (ok, p')" "r = None \<longleftrightarrow> ok" "d' = out p'"
proof -
  define st where "st = (facts d)\<lparr>identities := sm_set robot (identity m) (identities (facts d))\<rparr>"
  define here where "here = announces_presence sel robot st"
  have e: "entered sel robot m (facts d) = (if here then st\<lparr>seen := sm_set robot [] (seen st)\<rparr> else st)"
    by (simp add: entered_def Let_def st_def here_def)
  obtain ups st2 where c: "changed_channels robot (candidates sel robot m) (entered sel robot m (facts d)) = (ups, st2)"
    by fastforce
  define p where "p = \<lparr>update = empty_update (identity m), presence = here, out = d\<lparr>facts := st2\<rparr>\<rparr>"
  obtain r' p' where pk: "pack_messages sz limit robot (identity m) ups p = (r', p')" by fastforce
  obtain ok q where ap: "append_update sz limit p' = (ok, q)" by fastforce
  have u: "deliver_member sz limit sel robot m d =
      (if here \<and> limit < identity_bytes sz (identity m) + 16
       then (Some (RESOURCE_EXHAUSTED, ''member identity exceeds response policy''), d\<lparr>facts := st\<rparr>)
       else case r' of Some e \<Rightarrow> (Some e, out p')
            | None \<Rightarrow> if ok then (None, out q) else (Some (CANCELLED, []), out q))"
    unfolding deliver_member_def Let_def st_def [symmetric] here_def [symmetric] e [symmetric] c prod.case
      p_def [symmetric] pk by (simp add: ap split: option.split)
  show thesis
  proof (cases "here \<and> limit < identity_bytes sz (identity m) + 16")
    case True
    with assms u show thesis by (intro large) auto
  next
    case small: False
    show thesis
    proof (cases r')
      case None
      with assms u small pk ap show thesis by (intro packed [OF c small _ ap]) (auto simp: p_def split: if_splits)
    next
      case (Some e)
      with assms u small pk show thesis by (intro refused [OF c small]) (auto simp: p_def)
    qed
  qed
qed

lemma deliver_member_fits:
  assumes "sizes_ok sz" "fits sz limit d"
  shows "fits sz limit (snd (deliver_member sz limit sel robot m d))"
proof -
  have start: "pack_ok sz limit \<lparr>update = empty_update (identity m), presence = here, out = d\<lparr>facts := st\<rparr>\<rparr>"
    if "\<not> (here \<and> limit < identity_bytes sz (identity m) + 16)" for here st
  proof -
    have "status_bytes sz (empty_update (identity m)) \<le> identity_bytes sz (identity m) + 6"
      using assms(1) by (simp add: sizes_ok_def)
    with that assms(2) show ?thesis by (auto simp: pack_ok_def empty_update_def)
  qed
  obtain r d' where d': "deliver_member sz limit sel robot m d = (r, d')" by fastforce
  then have "fits sz limit d'"
  proof (cases rule: deliver_member_cases)
    case large
    with assms(2) show ?thesis by auto
  next
    case (refused here ups st p)
    with pack_messages_fit [OF assms(1) start [OF refused(2), of st], of robot "identity m" ups] show ?thesis
      by (auto simp: pack_ok_def)
  next
    case (packed here ups st p ok p')
    with pack_messages_fit [OF assms(1) start [OF packed(2), of st], of robot "identity m" ups]
      append_update_fits [OF assms(1), of limit p] show ?thesis by simp
  qed
  with d' show ?thesis by simp
qed

lemma deliver_members_fit:
  "sizes_ok sz \<Longrightarrow> fits sz limit d \<Longrightarrow> fits sz limit (snd (deliver_members sz limit sel snapshot d))"
proof (induction sz limit sel snapshot d rule: deliver_members.induct)
  case (2 sz limit sel robot m rest d)
  with deliver_member_fits [OF "2.prems", of sel robot m] show ?case by (auto split: prod.splits option.splits)
qed simp

text \<open>every status frame the server writes stays within the response policy, whatever the members, their
  telemetry and the write results are.\<close>

theorem frames_within_policy:
  assumes "sizes_ok sz" "deliver_round sz limit sel snapshot results st = (result, d)" "f \<in> set (written d)"
  shows "frame_bytes sz f \<le> limit"
proof -
  let ?d0 = "\<lparr>sending = [], written = [], outcomes = results, facts = st\<rparr>"
  obtain r1 d1 where 1: "announce_removals sz limit sel snapshot (identities st) ?d0 = (r1, d1)" by fastforce
  obtain r2 d2 where 2: "deliver_members sz limit sel snapshot d1 = (r2, d2)" by fastforce
  have "fits sz limit ?d0" using assms(1) by (simp add: fits_def sizes_ok_def)
  then have f1: "fits sz limit d1" using removals_fit [OF assms(1)] 1 by (metis snd_conv)
  then have f2: "fits sz limit d2" using deliver_members_fit [OF assms(1)] 2 by (metis snd_conv)
  then have f3: "fits sz limit (snd (stream_flush d2))" by (rule flush_fits [OF assms(1)])
  have "d \<in> {d1, d2, snd (stream_flush d2)}"
    using assms(2) 1 2 by (auto simp: deliver_round_def split: option.splits prod.splits bool.splits)
  with f1 f2 f3 have "fits sz limit d" by auto
  with assms(3) show ?thesis by (simp add: fits_def)
qed

subsection \<open>A round delivers what changed\<close>

text \<open>Everything a delivery has handed to the stream, written or about to be.\<close>

definition statuses :: "delivery \<Rightarrow> member_status list" where
  "statuses d = concat (written d) @ sending d"

definition messages_of :: "member_status list \<Rightarrow> robot_message list" where
  "messages_of us = concat (map us_messages us)"

definition removed_of :: "member_status list \<Rightarrow> member_identity list" where
  "removed_of us = map us_identity (filter us_removed us)"

lemma messages_of_append [simp]: "messages_of (us @ vs) = messages_of us @ messages_of vs"
  by (simp add: messages_of_def)

lemma removed_of_append [simp]: "removed_of (us @ vs) = removed_of us @ removed_of vs"
  by (simp add: removed_of_def)

lemma status_singleton [simp]:
  "messages_of [u] = us_messages u" "removed_of [u] = (if us_removed u then [us_identity u] else [])"
  "messages_of [] = []" "removed_of [] = []"
  by (simp_all add: messages_of_def removed_of_def)

lemma statuses_facts [simp]: "statuses (d\<lparr>facts := st\<rparr>) = statuses d" "statuses (forget_robot r d) = statuses d"
  by (simp_all add: statuses_def forget_robot_def)

lemma flush_statuses:
  "stream_flush d = (True, d') \<Longrightarrow> statuses d' = statuses d \<and> facts d' = facts d \<and> sending d' = []"
  by (auto simp: stream_flush_def statuses_def split: if_splits list.splits bool.splits)

lemma add_status_statuses:
  "add_status sz limit u d = (True, d') \<Longrightarrow> statuses d' = statuses d @ [u] \<and> facts d' = facts d"
  using flush_statuses [of d] by (auto simp: add_status_def statuses_def split: if_splits prod.splits bool.splits)

text \<open>The identities a round takes off the stream: those no longer selected, silently, and those that left, with
  a removal.\<close>

definition gone :: "status_selection \<Rightarrow> (string, member) std_map \<Rightarrow> string \<times> member_identity \<Rightarrow> bool" where
  "gone sel snapshot = (\<lambda>(robot, i). unselected sel robot i \<or> departed snapshot robot i)"

definition tombstone :: "status_selection \<Rightarrow> (string, member) std_map \<Rightarrow> string \<times> member_identity \<Rightarrow> bool" where
  "tombstone sel snapshot = (\<lambda>(robot, i). \<not> unselected sel robot i \<and> departed snapshot robot i)"

definition forget_facts :: "string list \<Rightarrow> stream \<Rightarrow> stream" where
  "forget_facts robots st = st\<lparr>seen := fold sm_erase robots (seen st), identities := fold sm_erase robots (identities st)\<rparr>"

lemma removals_statuses:
  "announce_removals sz limit sel snapshot ids d = (None, d') \<Longrightarrow>
   statuses d' = statuses d @ map removal (map snd (filter (tombstone sel snapshot) ids))
   \<and> facts d' = forget_facts (map fst (filter (gone sel snapshot) ids)) (facts d)"
proof (induction sz limit sel snapshot ids d rule: announce_removals.induct)
  case (2 sz limit sel snapshot robot i rest d)
  obtain ok q where q: "add_status sz limit (removal i) d = (ok, q)" by fastforce
  with 2 show ?case
    using add_status_statuses [of sz limit "removal i" d q]
    by (cases ok) (auto simp: gone_def tombstone_def forget_facts_def forget_robot_def split: if_splits)
qed (simp add: forget_facts_def)

definition stream_ok :: "stream \<Rightarrow> bool" where
  "stream_ok st \<longleftrightarrow> sm_ok (seen st) \<and> (\<forall>r cs. sm_find (seen st) r = Some cs \<longrightarrow> sm_ok cs) \<and> sm_ok (identities st)"

lemma seen_channels_ok: "stream_ok st \<Longrightarrow> sm_ok (seen_channels r st)"
  by (auto simp: stream_ok_def seen_channels_def split: option.splits)

lemma set_seen_ok: "stream_ok st \<Longrightarrow> stream_ok (set_seen r c v st)"
  using seen_channels_ok [of st r]
  by (auto simp: stream_ok_def set_seen_def smap.find_set smap.ok_set split: if_splits)

lemma set_seen_version:
  "stream_ok st \<Longrightarrow> seen_version r' c' (set_seen r c v st) = (if r' = r \<and> c' = c then v else seen_version r' c' st)"
  using seen_channels_ok [of st r]
  by (auto simp: stream_ok_def seen_version_def seen_channels_def set_seen_def smap.find_set split: option.splits)

lemma changed_channels_filter:
  "stream_ok st \<Longrightarrow> changed_channels r cs st = (ups, st') \<Longrightarrow>
   ups = filter (\<lambda>(c, v, _). seen_version r c st \<noteq> v) cs \<and> stream_ok st' \<and> seen_version r' c' st' = seen_version r' c' st"
proof (induction r cs st arbitrary: ups st' rule: changed_channels.induct)
  case (2 r c v msg rest st)
  obtain ups' st'' where rec: "changed_channels r rest (set_seen r c (seen_version r c st) st) = (ups', st'')" by fastforce
  have same: "seen_version x y (set_seen r c (seen_version r c st) st) = seen_version x y st" for x y
    using set_seen_version [OF "2.prems"(1)] by simp
  from "2.IH" [OF refl refl, OF set_seen_ok [OF "2.prems"(1)] rec] "2.prems"(2) rec same show ?case
    by (auto simp: Let_def)
qed simp

lemma append_update_statuses:
  "append_update sz limit p = (True, p') \<Longrightarrow> \<not> us_removed (update p) \<Longrightarrow>
   messages_of (statuses (out p')) = messages_of (statuses (out p)) @ us_messages (update p)
   \<and> removed_of (statuses (out p')) = removed_of (statuses (out p)) \<and> facts (out p') = facts (out p)"
  using add_status_statuses [of sz limit "update p" "out p"]
  by (auto simp: append_update_def split: if_splits prod.splits bool.splits)

lemma restart_update_statuses:
  assumes "restart_update sz limit i p = (True, p')" "\<not> us_removed (update p)"
  shows "messages_of (statuses (out p')) = messages_of (statuses (out p)) @ us_messages (update p)
    \<and> removed_of (statuses (out p')) = removed_of (statuses (out p)) \<and> facts (out p') = facts (out p)
    \<and> update p' = empty_update i"
proof -
  obtain q where q: "append_update sz limit p = (True, q)"
    using assms(1) by (auto simp: restart_update_def split: prod.splits bool.splits)
  with assms(1) obtain d where "stream_flush (out q) = (True, d)" "p' = q\<lparr>out := d, update := empty_update i\<rparr>"
    by (auto simp: restart_update_def split: prod.splits bool.splits)
  with append_update_statuses [OF q assms(2)] flush_statuses [of "out q" d] show ?thesis by simp
qed

lemma add_message_sel [simp]:
  "us_messages (update (add_message r (c, v, msg) p)) = us_messages (update p) @ [msg]"
  "us_removed (update (add_message r x p)) = us_removed (update p)"
  "statuses (out (add_message r x p)) = statuses (out p)"
  "facts (out (add_message r (c, v, msg) p)) = set_seen r c v (facts (out p))"
  by (cases x; simp add: add_message_def statuses_def)+

definition note_seen :: "string \<Rightarrow> (string \<times> nat \<times> robot_message) list \<Rightarrow> stream \<Rightarrow> stream" where
  "note_seen robot = fold (\<lambda>(c, v, _). set_seen robot c v)"

lemma pack_messages_statuses:
  "pack_messages sz limit robot i ups p = (None, p') \<Longrightarrow> \<not> us_removed (update p) \<Longrightarrow>
   messages_of (statuses (out p')) @ us_messages (update p') =
     messages_of (statuses (out p)) @ us_messages (update p) @ map (snd \<circ> snd) ups
   \<and> removed_of (statuses (out p')) = removed_of (statuses (out p)) \<and> \<not> us_removed (update p')
   \<and> facts (out p') = note_seen robot ups (facts (out p))"
proof (induction sz limit robot i ups p rule: pack_messages.induct)
  case (2 sz limit robot i c v msg rest p)
  obtain ok q where q: "restart_update sz limit i p = (ok, q)" by fastforce
  show ?case
  proof (cases "limit < status_bytes sz (update p) + (message_bytes sz msg + 16) + 16")
    case True
    with "2.prems"(1) q have ok: ok and rec: "pack_messages sz limit robot i rest (add_message robot (c, v, msg) q) = (None, p')"
      by (auto simp: Let_def split: if_splits bool.splits)
    from restart_update_statuses [of sz limit i p q] q ok "2.prems"(2)
    have "\<not> us_removed (update q)" by (simp add: empty_update_def)
    with 2 True q ok rec restart_update_statuses [of sz limit i p q] show ?thesis
      by (auto simp: Let_def note_seen_def empty_update_def split: if_splits)
  next
    case False
    with 2 show ?thesis by (auto simp: Let_def note_seen_def split: if_splits)
  qed
qed (simp add: note_seen_def)

lemma note_seen_version:
  "stream_ok st \<Longrightarrow> distinct (map fst ups) \<Longrightarrow>
   stream_ok (note_seen r ups st) \<and>
   seen_version r' c' (note_seen r ups st) =
     (case map_of ups c' of Some (v, _) \<Rightarrow> if r' = r then v else seen_version r' c' st | None \<Rightarrow> seen_version r' c' st)"
proof (induction ups arbitrary: st)
  case (Cons x ups)
  obtain c v msg where x: "x = (c, v, msg)" by (cases x)
  have "c \<notin> fst ` set ups" using Cons.prems(2) x by simp
  then have "map_of ups c = None" by (simp add: map_of_eq_None_iff)
  with Cons x show ?case
    by (auto simp: note_seen_def set_seen_ok set_seen_version split: option.splits)
qed (simp add: note_seen_def)

lemma entered_seen:
  assumes "stream_ok st"
  shows "stream_ok (entered sel r m st)" "seen_version r' c' (entered sel r m st) = seen_version r' c' st"
  using assms
  by (auto simp: entered_def Let_def stream_ok_def smap.ok_set smap.find_set seen_version_def seen_channels_def
      announces_presence_def split: option.splits if_splits)

text \<open>Whether a channel of a member counts as changed for a stream.\<close>

definition unseen :: "stream \<Rightarrow> string \<Rightarrow> (string \<times> nat \<times> robot_message) list \<Rightarrow> robot_message list" where
  "unseen st robot cs = map (snd \<circ> snd) (filter (\<lambda>(c, v, _). seen_version robot c st \<noteq> v) cs)"

definition all_seen :: "stream \<Rightarrow> string \<Rightarrow> (string \<times> nat \<times> robot_message) list \<Rightarrow> bool" where
  "all_seen st robot cs \<longleftrightarrow> (\<forall>(c, v, _) \<in> set cs. seen_version robot c st = v)"

lemma deliver_member_statuses:
  assumes "deliver_member sz limit sel robot m d = (None, d')" "stream_ok (facts d)"
    "distinct (map fst (candidates sel robot m))"
  shows "messages_of (statuses d') = messages_of (statuses d) @ unseen (facts d) robot (candidates sel robot m)"
    "removed_of (statuses d') = removed_of (statuses d)" "stream_ok (facts d')"
    "all_seen (facts d') robot (candidates sel robot m)"
    "r' \<noteq> robot \<Longrightarrow> seen_version r' c' (facts d') = seen_version r' c' (facts d)"
proof -
  let ?cs = "candidates sel robot m"
  from assms(1) obtain here ups st p p' where
    1: "changed_channels robot ?cs (entered sel robot m (facts d)) = (ups, st)"
    and 2: "pack_messages sz limit robot (identity m) ups
         \<lparr>update = empty_update (identity m), presence = here, out = d\<lparr>facts := st\<rparr>\<rparr> = (None, p)"
    and 3: "append_update sz limit p = (True, p')" and 4: "d' = out p'"
    by (cases rule: deliver_member_cases) auto
  note e = entered_seen [OF assms(2)]
  note ch = changed_channels_filter [OF e(1) 1]
  have ups: "ups = filter (\<lambda>(c, v, _). seen_version robot c (facts d) \<noteq> v) ?cs" using ch e(2) by simp
  have st: "stream_ok st" "\<And>r c. seen_version r c st = seen_version r c (facts d)" using ch e(2) by simp_all
  have dist: "distinct (map fst ups)" using assms(3) by (simp add: ups distinct_map_filter)
  note pk = pack_messages_statuses [OF 2]
  note ap = append_update_statuses [OF 3]
  show "messages_of (statuses d') = messages_of (statuses d) @ unseen (facts d) robot ?cs"
    "removed_of (statuses d') = removed_of (statuses d)"
    using pk ap 4 by (simp_all add: empty_update_def unseen_def ups)
  have f: "facts d' = note_seen robot ups st" using pk ap 4 by (simp add: empty_update_def)
  show "stream_ok (facts d')" using f note_seen_version [OF st(1) dist] by simp
  show "r' \<noteq> robot \<Longrightarrow> seen_version r' c' (facts d') = seen_version r' c' (facts d)"
    using f note_seen_version [OF st(1) dist] st(2) by (auto split: option.splits)
  have "seen_version robot c (facts d') = v" if "(c, v, msg) \<in> set ?cs" for c v msg
  proof (cases "seen_version robot c (facts d) = v")
    case True
    have "map_of ups c = None"
    proof (rule ccontr)
      assume "map_of ups c \<noteq> None"
      then obtain x where "map_of ups c = Some x" by blast
      then have x: "(c, x) \<in> set ups" by (rule map_of_SomeD)
      then have "(c, x) \<in> set ?cs" by (simp add: ups)
      with that assms(3) have "x = (v, msg)" by (meson eq_key_imp_eq_value)
      with x True show False by (simp add: ups)
    qed
    with True f note_seen_version [OF st(1) dist] st(2) show ?thesis by simp
  next
    case False
    with that have "(c, v, msg) \<in> set ups" by (simp add: ups)
    with dist have "map_of ups c = Some (v, msg)" by (rule map_of_is_SomeI)
    with f note_seen_version [OF st(1) dist] show ?thesis by simp
  qed
  then show "all_seen (facts d') robot ?cs" by (auto simp: all_seen_def)
qed

lemma deliver_members_statuses:
  assumes "deliver_members sz limit sel snapshot d = (None, d')" "stream_ok (facts d)" "distinct (map fst snapshot)"
    "\<And>robot m. (robot, m) \<in> set snapshot \<Longrightarrow> distinct (map fst (candidates sel robot m))"
  shows "messages_of (statuses d') = messages_of (statuses d)
        @ concat (map (\<lambda>(robot, m). unseen (facts d) robot (candidates sel robot m)) snapshot)
    \<and> removed_of (statuses d') = removed_of (statuses d) \<and> stream_ok (facts d')
    \<and> (\<forall>(robot, m) \<in> set snapshot. all_seen (facts d') robot (candidates sel robot m))
    \<and> (\<forall>r c. r \<notin> fst ` set snapshot \<longrightarrow> seen_version r c (facts d') = seen_version r c (facts d))"
  using assms
proof (induction sz limit sel snapshot d arbitrary: d' rule: deliver_members.induct)
  case (2 sz limit sel robot m rest d)
  from "2.prems"(1) obtain d1 where 1: "deliver_member sz limit sel robot m d = (None, d1)"
    and r: "deliver_members sz limit sel rest d1 = (None, d')" by (auto split: prod.splits option.splits)
  have fresh: "robot \<notin> fst ` set rest" using "2.prems"(3) by simp
  note one = deliver_member_statuses [OF 1 "2.prems"(2)]
  have dist: "distinct (map fst (candidates sel robot m))" by (rule "2.prems"(4)) simp
  note one = one [OF dist]
  have IH: "messages_of (statuses d') = messages_of (statuses d1)
        @ concat (map (\<lambda>(robot, m). unseen (facts d1) robot (candidates sel robot m)) rest)"
    "removed_of (statuses d') = removed_of (statuses d1)" "stream_ok (facts d')"
    "\<forall>(robot, m) \<in> set rest. all_seen (facts d') robot (candidates sel robot m)"
    "\<And>r c. r \<notin> fst ` set rest \<Longrightarrow> seen_version r c (facts d') = seen_version r c (facts d1)"
    using "2.IH" [OF 1 [symmetric] refl r one(3)] "2.prems"(3,4) by auto
  have others: "unseen (facts d1) x cs = unseen (facts d) x cs" if "x \<noteq> robot" for x cs
    using one(5) [OF that] by (simp add: unseen_def)
  have same: "map (\<lambda>(x, y). unseen (facts d1) x (candidates sel x y)) rest
      = map (\<lambda>(x, y). unseen (facts d) x (candidates sel x y)) rest"
  proof (rule map_cong [OF refl], clarify)
    fix x y
    assume "(x, y) \<in> set rest"
    with fresh have "x \<noteq> robot" by (metis fst_conv image_eqI)
    then show "unseen (facts d1) x (candidates sel x y) = unseen (facts d) x (candidates sel x y)" by (rule others)
  qed
  have keep: "all_seen (facts d') robot (candidates sel robot m)"
    using one(4) IH(5) [OF fresh] by (simp add: all_seen_def)
  show ?case
  proof (intro conjI allI impI)
    show "messages_of (statuses d') = messages_of (statuses d)
        @ concat (map (\<lambda>(x, y). unseen (facts d) x (candidates sel x y)) ((robot, m) # rest))"
      using one(1) IH(1) same by simp
    show "\<forall>(x, y) \<in> set ((robot, m) # rest). all_seen (facts d') x (candidates sel x y)"
      using keep IH(4) by simp
    show "seen_version x c (facts d') = seen_version x c (facts d)" if "x \<notin> fst ` set ((robot, m) # rest)" for x c
      using that IH(5) one(5) by simp
  qed (use one(2) IH(2,3) in simp_all)
qed simp

lemma erase_all:
  "sm_ok m \<Longrightarrow> sm_ok (fold sm_erase ks m) \<and> sm_find (fold sm_erase ks m) k = (if k \<in> set ks then None else sm_find m k)"
  by (induction ks arbitrary: m) (auto simp: smap.ok_erase smap.find_erase)

lemma forget_facts_ok: "stream_ok st \<Longrightarrow> stream_ok (forget_facts rs st)"
  by (auto simp: stream_ok_def forget_facts_def erase_all split: if_splits)

lemma removal_statuses [simp]:
  "messages_of (map (removal \<circ> f) xs) = []" "removed_of (map (removal \<circ> f) xs) = map f xs"
  by (induction xs) (simp_all add: messages_of_def removed_of_def removal_def)

lemma sm_ok_distinct: "sm_ok m \<Longrightarrow> distinct (map fst m)"
  by (simp add: sm_ok_def strict_sorted_iff)

lemma candidates_distinct:
  assumes "latest_ok m"
  shows "distinct (map fst (candidates sel robot m))"
proof -
  have "map fst (List.map_filter (\<lambda>c. map_option (Pair c) (f c)) cs) = filter (\<lambda>c. f c \<noteq> None) cs"
    for f :: "string \<Rightarrow> (nat \<times> robot_message) option" and cs
    by (induction cs) (auto simp: List.map_filter_def)
  then show ?thesis
    using assms sm_ok_distinct [of "latest m"] by (simp add: candidates_def latest_ok_def split: option.split)
qed


subsection \<open>A delivered frame\<close>

definition ex_sizes :: sizes where
  "ex_sizes = \<lparr>frame_bytes = (\<lambda>us. sum_list (map (\<lambda>u. 22 + 26 * length (us_messages u) + (if us_removed u then 2 else 0)) us)),
     status_bytes = (\<lambda>u. 16 + 26 * length (us_messages u) + (if us_removed u then 2 else 0)),
     message_bytes = (\<lambda>_. 20), identity_bytes = (\<lambda>_. 10)\<rparr>"

lemma ex_sizes_ok: "sizes_ok ex_sizes"
  by (simp add: sizes_ok_def ex_sizes_def empty_update_def)

definition ex_snapshot :: "(string, member) std_map" where
  "ex_snapshot = [(''b'', heap (emitTelemetry (\<lambda>_. 10) 0 (ex_message 4) (ex_status_server ex_config False)) 0)]"

definition ex_stream :: stream where
  "ex_stream = \<lparr>seen = [], identities = [(''a'', \<lparr>id_target = ''t'', id_run = ''r'', id_robot = ''a'', id_epoch = 3\<rparr>)]\<rparr>"

abbreviation "ex_all \<equiv> no_selection\<lparr>sel_all := True\<rparr>"

lemma ex_snapshot_latest: "latest (snd (ex_snapshot ! 0)) = [(''pose'', 1, ex_message 4)]"
  by (simp add: ex_snapshot_def emit_member Let_def ex_status_member newer_def)

lemma ex_round: "\<exists>d. deliver_round ex_sizes 1000 ex_all ex_snapshot [] ex_stream = (None, d)
    \<and> messages_of (concat (written d)) = [ex_message 4] \<and> length (written d) = 1"
  using ex_snapshot_latest
  by (simp add: deliver_round_def ex_snapshot_def ex_stream_def unselected_def departed_def no_selection_def
      ex_sizes_def removal_def add_status_def forget_robot_def deliver_member_def announces_presence_def
      candidates_def seen_version_def seen_channels_def set_seen_def empty_update_def add_message_def
      append_update_def stream_flush_def Let_def messages_of_def)

theorem frames_within_policy_witness:
  "\<exists>d. deliver_round ex_sizes 1000 ex_all ex_snapshot [] ex_stream = (None, d) \<and> written d \<noteq> []
     \<and> frame_bytes ex_sizes (hd (written d)) \<le> 1000"
proof -
  obtain d where d: "deliver_round ex_sizes 1000 ex_all ex_snapshot [] ex_stream = (None, d)" "length (written d) = 1"
    using ex_round by blast
  then have "hd (written d) \<in> set (written d)" by (cases "written d") simp_all
  with d frames_within_policy [OF ex_sizes_ok d(1)] show ?thesis by force
qed


end
