(* ===== verification/Commands.thy ===== *)
theory Commands
  imports Status "HOL-Library.Multiset"
begin

section \<open>Command scheduling\<close>

text \<open>
  The command scheduler of \<^verbatim>\<open>robot_server.cpp\<close>: admission to a member's queue, dispatch to the native robot, completion,
  cancellation, the fence that empties a removed member, one pass of \<^verbatim>\<open>commandLoop\<close> and its exit. Replies are
  recorded in order; \<^verbatim>\<open>Unary::finish\<close> keeps the first. What the native object does is given by arguments: whether
  its lock is free, how \<^verbatim>\<open>Execute\<close> starts a call, what \<^verbatim>\<open>CoreSilent\<close> answers. \<open>wall\<close> and \<open>now\<close> are readings of the
  system and the steady clock.
\<close>

subsection \<open>Replies\<close>

definition finishExecute :: "nat \<Rightarrow> operation_event \<Rightarrow> server \<Rightarrow> server" where
  "finishExecute c event s = (if c \<in> fst ` set (replies s) then s else s\<lparr>replies := replies s @ [(c, event)]\<rparr>)"

definition refuse :: "execute_call \<Rightarrow> error_class \<Rightarrow> string \<Rightarrow> string \<Rightarrow> int \<Rightarrow> server \<Rightarrow> server" where
  "refuse call cls code text wall s =
     finishExecute (call_number call) (CommandError (call_operation call) cls code text wall) s"

subsection \<open>Admission to the queue\<close>

definition enqueue :: "int \<Rightarrow> execute_call \<Rightarrow> server \<Rightarrow> server" where
  "enqueue wall call s =
     (case selectedMember (call_identity call) s of
        Some a \<Rightarrow>
          if closing (heap s a) \<or> commands_closed s
          then if commands_closed s
               then refuse call ERROR_CLASS_REJECTED ''server-draining'' ''not executed: server is draining'' wall s
               else refuse call ERROR_CLASS_REJECTED ''member-unavailable'' ''not executed: active member required'' wall s
          else if kMaximumCommandsPerRobot \<le> length (commands (heap s a))
          then refuse call ERROR_CLASS_RESOURCE_EXHAUSTED ''robot-queue-full''
                 ''not executed: native command queue is full'' wall s
          else put a ((heap s a)\<lparr>commands := commands (heap s a) @ [call]\<rparr>) s
      | None \<Rightarrow>
          if commands_closed s
          then refuse call ERROR_CLASS_REJECTED ''server-draining'' ''not executed: server is draining'' wall s
          else refuse call ERROR_CLASS_REJECTED ''member-unavailable'' ''not executed: active member required'' wall s)"

subsection \<open>Dispatch and completion\<close>

text \<open>The completion a dispatched call is given.\<close>

definition complete_command ::
    "nat \<Rightarrow> execute_call \<Rightarrow> bool \<Rightarrow> bool \<Rightarrow> operation_event \<Rightarrow> server \<Rightarrow> server" where
  "complete_command a call counted release result s =
     (let m = heap s a;
          succeeded = (ev_phase result = PHASE_SUCCEEDED \<and> ev_error result = None);
          s1 = put a (m\<lparr>native_call := 0, active_call := None,
                        uncertain := (uncertain m \<or> ev_phase result = PHASE_UNCERTAIN)\<rparr>) s;
          s2 = finishExecute (call_number call) result s1;
          s3 = (if counted then complete_control (release \<and> succeeded) a s2 else s2)
      in put a ((heap s3 a)\<lparr>in_flight := False\<rparr>) s3)"

text \<open>How \<^verbatim>\<open>NativeRobot::Execute\<close> starts: it may throw, return the number of a pending call, or complete at once.\<close>

datatype native_start = Throws "string option" | Started nat "operation_event option"

definition start_native :: "native_start \<Rightarrow> nat \<Rightarrow> execute_call \<Rightarrow> bool \<Rightarrow> bool \<Rightarrow> server \<Rightarrow> string option option \<times> server" where
  "start_native start a call counted release s =
     (let s1 = put a ((heap s a)\<lparr>in_flight := True, active_call := Some call, native_cancel_requested := False\<rparr>) s
      in case start of
           Throws what \<Rightarrow> (Some what, s1)
         | Started n None \<Rightarrow> (None, put a ((heap s1 a)\<lparr>native_call := n\<rparr>) s1)
         | Started n (Some result) \<Rightarrow>
             (let s2 = complete_command a call counted release result s1
              in (None, put a ((heap s2 a)\<lparr>native_call := n\<rparr>) s2)))"

datatype dispatch_result = Busy | Handled | Dispatched bool bool | Interrupted "string option"

text \<open>\<open>Dispatched counted release\<close>: the call was handed to the native robot; \<open>Busy\<close>: the native lock was taken and
  nothing happened; \<open>Interrupted\<close>: \<^verbatim>\<open>Execute\<close> threw.\<close>

definition dispatch ::
    "bool \<Rightarrow> (nat \<Rightarrow> bool) \<Rightarrow> native_start \<Rightarrow> int \<Rightarrow> int \<Rightarrow> nat \<Rightarrow> server \<Rightarrow> dispatch_result \<times> server" where
  "dispatch lock_free cancelled start wall now a s =
     (if \<not> lock_free then (Busy, s)
      else case commands (heap s a) of
             [] \<Rightarrow> (Handled, s)
           | call # rest \<Rightarrow>
               let s0 = put a ((heap s a)\<lparr>commands := rest\<rparr>) s; m = heap s0 a; request = call_operation call
               in if commands_closed s
                  then (Handled, refuse call ERROR_CLASS_CANCELLED ''server-draining'' ''not executed: server is draining'' wall s0)
                  else if uncertain m \<and> \<not> IsSafetyOperation (native m) request
                  then (Handled, refuse call ERROR_CLASS_REJECTED ''previous-result-unknown''
                         ''not executed: previous native result is unknown'' wall s0)
                  else if cancelled (call_number call)
                  then (Handled, refuse call ERROR_CLASS_CANCELLED ''operation-cancelled'' ''not executed: call cancelled'' wall s0)
                  else if op_deadline_unix_nanos request \<le> wall
                  then (Handled, refuse call ERROR_CLASS_DEADLINE ''deadline-exceeded''
                         ''not executed: operation deadline elapsed'' wall s0)
                  else let motion = RequiresControl (native m) request; release = IsControlRelease (native m) request
                       in case dispatch_control motion release (call_controller_grant call)
                                 (call_control_generation call) a now s0 of
                            (Inl (code, text), s1) \<Rightarrow> (Handled, refuse call ERROR_CLASS_REJECTED code text wall s1)
                          | (Inr counted, s1) \<Rightarrow>
                              (case start_native start a call counted release s1 of
                                 (None, s2) \<Rightarrow> (Dispatched counted release, s2)
                               | (Some what, s2) \<Rightarrow> (Interrupted what, s2)))"

subsection \<open>Cancellation and fences\<close>

definition cancelNative :: "nat \<Rightarrow> server \<Rightarrow> bool \<times> server" where
  "cancelNative a s =
     (let m = heap s a
      in if native_call m = 0 \<or> native_cancel_requested m then (False, s)
         else (True, put a (m\<lparr>native_cancel_requested := True\<rparr>) s))"

definition finish_queue :: "string \<Rightarrow> string \<Rightarrow> int \<Rightarrow> nat \<Rightarrow> server \<Rightarrow> server" where
  "finish_queue code text wall a s =
     (let s' = fold (\<lambda>call. refuse call ERROR_CLASS_CANCELLED code text wall) (commands (heap s a)) s
      in put a ((heap s' a)\<lparr>commands := []\<rparr>) s')"

definition finish_active :: "string \<Rightarrow> int \<Rightarrow> nat \<Rightarrow> server \<Rightarrow> server" where
  "finish_active text wall a s =
     (let s' = (case active_call (heap s a) of None \<Rightarrow> s
                | Some call \<Rightarrow> refuse call ERROR_CLASS_UNCERTAIN ''native-result-unknown'' text wall s)
      in put a ((heap s' a)\<lparr>active_call := None, native_call := 0, in_flight := False\<rparr>) s')"

text \<open>\<^verbatim>\<open>fenceCommands\<close>: run by the live scheduler, or directly once the scheduler is gone.\<close>

definition fence_member :: "int \<Rightarrow> nat \<Rightarrow> server \<Rightarrow> server" where
  "fence_member wall a s = finish_queue ''member-removed'' ''not executed: member removed'' wall a (snd (cancelNative a s))"

definition fence_member_dead :: "int \<Rightarrow> nat \<Rightarrow> server \<Rightarrow> server" where
  "fence_member_dead wall a s =
     finish_queue ''server-stopped'' ''not executed: native scheduler exited'' wall a
       (finish_active ''native scheduler exited; reconcile outcome'' wall a s)"

definition fenceCommands :: "int \<Rightarrow> nat list \<Rightarrow> server \<Rightarrow> server" where
  "fenceCommands wall as s =
     (if scheduler_alive (queues s) then fold (fence_member wall) as s else fold (fence_member_dead wall) as s)"

subsection \<open>The scheduler loop\<close>

record scheduler =
  sc_members :: "nat list"
  sc_revision :: "nat option"
  next_periodic :: int

definition abort_command :: "bool \<Rightarrow> int \<Rightarrow> execute_call \<Rightarrow> server \<Rightarrow> server" where
  "abort_command started wall call s =
     (if started
      then refuse call ERROR_CLASS_UNCERTAIN ''native-result-unknown'' ''command admission interrupted; reconcile outcome'' wall s
      else refuse call ERROR_CLASS_CANCELLED ''server-stopped'' ''not executed: server shutdown'' wall s)"

text \<open>The jobs posted since the last pass, then the fence.\<close>

definition run_jobs :: "int \<Rightarrow> server \<Rightarrow> server" where
  "run_jobs wall s =
     (let q = queues s; jobs = command_jobs q; fence = fence_job q;
          s0 = s\<lparr>queues := q\<lparr>command_jobs := [], fence_job := None\<rparr>\<rparr>;
          s1 = fold (\<lambda>call t. if shutdown t then abort_command False wall call t else enqueue wall call t) jobs s0
      in case fence of None \<Rightarrow> s1 | Some as \<Rightarrow> fold (fence_member wall) as s1)"

text \<open>The member list follows the table's revision; a removed member stays while its native call is in flight.\<close>

definition refresh_members :: "server \<Rightarrow> scheduler \<Rightarrow> scheduler" where
  "refresh_members s sc =
     (let table = map snd (members s);
          kept = filter (\<lambda>a. closing (heap s a) \<and> in_flight (heap s a) \<and> a \<notin> set table) (sc_members sc);
          sc' = (if sc_revision sc \<noteq> Some (members_revision s)
                 then sc\<lparr>sc_members := table @ remdups kept, sc_revision := Some (members_revision s)\<rparr> else sc)
      in sc'\<lparr>sc_members := filter (\<lambda>a. \<not> (closing (heap s a) \<and> \<not> in_flight (heap s a))) (sc_members sc')\<rparr>)"

text \<open>What the native objects answer in one pass, per member: lock free for the periodic work, \<^verbatim>\<open>CoreSilent\<close>'s answer
  to a silence, lock free for the dispatch, how \<^verbatim>\<open>Execute\<close> starts.\<close>

record native_answers =
  periodic_free :: "nat \<Rightarrow> bool"
  core_silent :: "nat \<Rightarrow> int \<Rightarrow> bool"
  dispatch_free :: "nat \<Rightarrow> bool"
  starts :: "nat \<Rightarrow> native_start"

definition periodic_member :: "native_answers \<Rightarrow> int \<Rightarrow> nat \<Rightarrow> server \<Rightarrow> server" where
  "periodic_member n now a s =
     (if periodic_free n a \<and> \<not> closing (heap s a) \<and> potential_motion (heap s a)
         \<and> 0 < memberSilence a now s \<and> core_silent n a (memberSilence a now s)
      then silence_released a s else s)"

definition visit_member ::
    "native_answers \<Rightarrow> (nat \<Rightarrow> bool) \<Rightarrow> bool \<Rightarrow> int \<Rightarrow> int \<Rightarrow> nat \<Rightarrow> server \<Rightarrow> dispatch_result \<times> server" where
  "visit_member n cancelled periodic wall now a s =
     (if closing (heap s a) then (Handled, snd (cancelNative a s))
      else let s1 = (case active_call (heap s a) of
                       Some call \<Rightarrow> if native_call (heap s a) \<noteq> 0 \<and> cancelled (call_number call)
                                    then snd (cancelNative a s) else s
                     | None \<Rightarrow> s);
               s2 = (if periodic \<and> \<not> shutdown s1 then periodic_member n now a s1 else s1)
           in if \<not> shutdown s2 \<and> \<not> in_flight (heap s2 a) \<and> commands (heap s2 a) \<noteq> []
              then dispatch (dispatch_free n a) cancelled (starts n a) wall now a s2
              else (Handled, s2))"

text \<open>The members in turn; an exception of \<^verbatim>\<open>Execute\<close> ends the loop (\<open>Some\<close>).\<close>

fun visit_members ::
    "native_answers \<Rightarrow> (nat \<Rightarrow> bool) \<Rightarrow> bool \<Rightarrow> int \<Rightarrow> int \<Rightarrow> nat list \<Rightarrow> server
      \<Rightarrow> string option option \<times> server" where
  "visit_members n cancelled periodic wall now [] s = (None, s)"
| "visit_members n cancelled periodic wall now (a # as) s =
     (case visit_member n cancelled periodic wall now a s of
        (Interrupted what, s') \<Rightarrow> (Some what, s')
      | (_, s') \<Rightarrow> visit_members n cancelled periodic wall now as s')"

definition commandLoop_pass ::
    "native_answers \<Rightarrow> (nat \<Rightarrow> bool) \<Rightarrow> int \<Rightarrow> int \<Rightarrow> scheduler \<Rightarrow> server
      \<Rightarrow> string option option \<times> scheduler \<times> server" where
  "commandLoop_pass n cancelled wall now sc s =
     (let s1 = run_jobs wall s; sc1 = refresh_members s1 sc; periodic = (next_periodic sc1 \<le> now);
          sc2 = (if periodic then sc1\<lparr>next_periodic := now + ms 100\<rparr> else sc1);
          (failure, s2) = visit_members n cancelled periodic wall now (sc_members sc2) s1
      in (failure, sc2, case failure of None \<Rightarrow> s2 | Some what \<Rightarrow> workerFailed ''commands'' what s2))"

text \<open>The end of the loop: the members of the scheduler and of the table lose their queues, native calls are
  cancelled, and a call still active has an unknown result.\<close>

definition exit_members :: "scheduler \<Rightarrow> server \<Rightarrow> nat list" where
  "exit_members sc s = sc_members sc @ filter (\<lambda>a. a \<notin> set (sc_members sc)) (map snd (members s))"

definition commandLoop_exit :: "int \<Rightarrow> scheduler \<Rightarrow> server \<Rightarrow> server" where
  "commandLoop_exit wall sc s =
     (let as = exit_members sc s;
          s1 = fold (\<lambda>a t. finish_queue ''server-stopped'' ''not executed: server shutdown'' wall a (snd (cancelNative a t))) as s;
          s2 = fold (finish_active ''native owner exited without a result; reconcile outcome'' wall) as s1
      in s2\<lparr>queues := (queues s2)\<lparr>scheduler_alive := False\<rparr>\<rparr>)"

subsection \<open>Every call is accounted for\<close>

text \<open>The calls a member still owes a reply, and all calls of the server: pending or answered.\<close>

definition pending_calls :: "member \<Rightarrow> execute_call list" where
  "pending_calls m = (case active_call m of None \<Rightarrow> [] | Some call \<Rightarrow> [call]) @ commands m"

definition pending_numbers :: "member \<Rightarrow> nat multiset" where
  "pending_numbers m = mset (map call_number (pending_calls m))"

definition replied :: "server \<Rightarrow> nat multiset" where
  "replied s = mset (map fst (replies s))"

definition accounts :: "server \<Rightarrow> nat multiset" where
  "accounts s = (\<Sum>a<fresh s. pending_numbers (heap s a)) + replied s"

definition once :: "server \<Rightarrow> bool" where
  "once s \<longleftrightarrow> (\<forall>c. count (accounts s) c \<le> 1)"

lemma pending_put:
  assumes "a < fresh s"
  shows "(\<Sum>b<fresh s. pending_numbers (heap (put a m s) b)) + pending_numbers (heap s a)
    = (\<Sum>b<fresh s. pending_numbers (heap s b)) + pending_numbers m"
proof -
  have "(\<Sum>b<fresh s. f b) = f a + (\<Sum>b \<in> {..<fresh s} - {a}. f b)" for f :: "nat \<Rightarrow> nat multiset"
    using assms by (subst sum.remove [of _ a]) auto
  moreover have "(\<Sum>b \<in> {..<fresh s} - {a}. pending_numbers (heap (put a m s) b))
      = (\<Sum>b \<in> {..<fresh s} - {a}. pending_numbers (heap s b))" by (intro sum.cong) auto
  ultimately show ?thesis by (simp add: put_def ac_simps)
qed

lemma replied_put [simp]: "replied (put a m s) = replied s"
  by (simp add: replied_def)

lemma accounts_put:
  "a < fresh s \<Longrightarrow> accounts (put a m s) + pending_numbers (heap s a) = accounts s + pending_numbers m"
  using pending_put [of a s m] by (simp add: accounts_def ac_simps)

lemma accounts_put_same:
  "a < fresh s \<Longrightarrow> pending_numbers m = pending_numbers (heap s a) \<Longrightarrow> accounts (put a m s) = accounts s"
  using accounts_put [of a s m] by simp

lemma finishExecute_sel [simp]:
  "heap (finishExecute c e s) = heap s" "fresh (finishExecute c e s) = fresh s" "members (finishExecute c e s) = members s"
  "commands_closed (finishExecute c e s) = commands_closed s" "queues (finishExecute c e s) = queues s"
  "shutdown (finishExecute c e s) = shutdown s" "controller_generation (finishExecute c e s) = controller_generation s"
  by (simp_all add: finishExecute_def)

lemma refuse_sel [simp]:
  "heap (refuse call k co t w s) = heap s" "fresh (refuse call k co t w s) = fresh s"
  "members (refuse call k co t w s) = members s" "commands_closed (refuse call k co t w s) = commands_closed s"
  "queues (refuse call k co t w s) = queues s" "shutdown (refuse call k co t w s) = shutdown s"
  by (simp_all add: refuse_def)

lemma accounts_finish:
  "c \<notin># replied s \<Longrightarrow> accounts (finishExecute c e s) = add_mset c (accounts s)"
  by (auto simp: accounts_def replied_def finishExecute_def)

lemma accounts_refuse:
  "call_number call \<notin># replied s \<Longrightarrow> accounts (refuse call k co t w s) = add_mset (call_number call) (accounts s)"
  by (simp add: refuse_def accounts_finish)

lemma replied_finish: "replied (finishExecute c e s) = (if c \<in># replied s then replied s else add_mset c (replied s))"
  by (auto simp: replied_def finishExecute_def)

lemma once_replied: "once s \<Longrightarrow> a < fresh s \<Longrightarrow> c \<in># pending_numbers (heap s a) \<Longrightarrow> c \<notin># replied s"
proof
  assume o: "once s" and a: "a < fresh s" and c: "c \<in># pending_numbers (heap s a)" and r: "c \<in># replied s"
  have "pending_numbers (heap s a) \<subseteq># (\<Sum>b<fresh s. pending_numbers (heap s b))"
    using a by (subst sum.remove [of _ a]) auto
  then have "1 \<le> count (\<Sum>b<fresh s. pending_numbers (heap s b)) c"
    using c by (metis One_nat_def Suc_leI count_greater_zero_iff mset_subset_eqD)
  moreover have "1 \<le> count (replied s) c" using r by (metis One_nat_def Suc_leI count_greater_zero_iff)
  moreover have "count (accounts s) c \<le> 1" using o by (simp add: once_def)
  moreover have "count (accounts s) c = count (\<Sum>b<fresh s. pending_numbers (heap s b)) c + count (replied s) c"
    by (simp add: accounts_def)
  ultimately show False by linarith
qed

text \<open>Sections that leave queues, active calls and replies alone.\<close>

lemma control_work_accounts:
  assumes "a < fresh s"
  shows "accounts (snd (dispatch_control mo re g n a now s)) = accounts s"
    "accounts (complete_control b a s) = accounts s" "accounts (silence_released a s) = accounts s"
    "accounts (snd (cancelNative a s)) = accounts s"
proof -
  have frame: "accounts (s'\<lparr>controller_work := w\<rparr>) = accounts s'" for s' w
    by (simp add: accounts_def replied_def)
  show "accounts (snd (dispatch_control mo re g n a now s)) = accounts s"
    "accounts (complete_control b a s) = accounts s" "accounts (silence_released a s) = accounts s"
    "accounts (snd (cancelNative a s)) = accounts s"
    using assms by (simp_all add: dispatch_control_def complete_control_def silence_released_def cancelNative_def Let_def
        frame accounts_put_same pending_numbers_def pending_calls_def)
qed

lemma control_work_commands [simp]:
  "commands (heap (snd (dispatch_control mo re g n a now s)) b) = commands (heap s b)"
  "active_call (heap (snd (dispatch_control mo re g n a now s)) b) = active_call (heap s b)"
  "fresh (snd (dispatch_control mo re g n a now s)) = fresh s"
  "replies (snd (dispatch_control mo re g n a now s)) = replies s"
  "fresh (complete_control x a s) = fresh s" "fresh (snd (cancelNative a s)) = fresh s"
  "fresh (silence_released a s) = fresh s" "replied (silence_released a s) = replied s"
  "replied (snd (cancelNative a s)) = replied s"
  "commands (heap (complete_control x a s) b) = commands (heap s b)"
  "active_call (heap (complete_control x a s) b) = active_call (heap s b)"
  "active_call (heap (silence_released a s) b) = active_call (heap s b)"
  "active_call (heap (snd (cancelNative a s)) b) = active_call (heap s b)"
  "commands (heap (snd (cancelNative a s)) b) = commands (heap s b)"
  "in_flight (heap (snd (cancelNative a s)) b) = in_flight (heap s b)"
  "in_flight (heap (silence_released a s) b) = in_flight (heap s b)"
  by (simp_all add: dispatch_control_def complete_control_def cancelNative_def silence_released_def replied_def Let_def)

lemma pending_member:
  "active_call m = Some call \<Longrightarrow> call_number call \<in># pending_numbers m"
  "call \<in> set (commands m) \<Longrightarrow> call_number call \<in># pending_numbers m"
  by (auto simp: pending_numbers_def pending_calls_def)

lemma accounts_complete:
  assumes "a < fresh s" "once s" "active_call (heap s a) = Some call"
  shows "accounts (complete_command a call counted release result s) = accounts s"
proof -
  let ?m = "(heap s a)\<lparr>native_call := 0, active_call := None,
      uncertain := (uncertain (heap s a) \<or> ev_phase result = PHASE_UNCERTAIN)\<rparr>"
  let ?s1 = "put a ?m s" and ?c = "call_number call"
  let ?s2 = "finishExecute ?c result ?s1"
  have "?c \<notin># replied s" using once_replied [OF assms(2,1)] pending_member(1) [OF assms(3)] by blast
  moreover have "add_mset ?c (accounts ?s1) = accounts s"
    using accounts_put [OF assms(1), of ?m] assms(3) by (simp add: pending_numbers_def pending_calls_def)
  ultimately have 2: "accounts ?s2 = accounts s" by (simp add: accounts_finish)
  let ?s3 = "if counted then complete_control (release \<and> ev_phase result = PHASE_SUCCEEDED \<and> ev_error result = None) a ?s2 else ?s2"
  have "accounts ?s3 = accounts s" using 2 assms(1) by (simp add: control_work_accounts)
  moreover have "accounts (put a ((heap ?s3 a)\<lparr>in_flight := False\<rparr>) ?s3) = accounts ?s3"
    using assms(1) by (intro accounts_put_same) (auto simp: pending_numbers_def pending_calls_def)
  ultimately show ?thesis by (simp add: complete_command_def Let_def)
qed

lemma start_native_accounts:
  assumes "a < fresh s" "active_call (heap s a) = None" "once (put a ((heap s a)\<lparr>active_call := Some call\<rparr>) s)"
  shows "accounts (snd (start_native start a call counted release s)) = add_mset (call_number call) (accounts s)"
proof -
  let ?m = "(heap s a)\<lparr>in_flight := True, active_call := Some call, native_cancel_requested := False\<rparr>"
  let ?s1 = "put a ?m s"
  have 1: "accounts ?s1 = add_mset (call_number call) (accounts s)"
    using accounts_put [OF assms(1), of ?m] assms(2) by (simp add: pending_numbers_def pending_calls_def)
  have "accounts (put a ((heap s a)\<lparr>active_call := Some call\<rparr>) s) = accounts ?s1"
    using accounts_put [OF assms(1), of ?m] accounts_put [OF assms(1), of "(heap s a)\<lparr>active_call := Some call\<rparr>"] assms(2)
    by (simp add: pending_numbers_def pending_calls_def)
  with assms(3) have o: "once ?s1" by (simp add: once_def)
  have same: "accounts (put a ((heap t a)\<lparr>native_call := n\<rparr>) t) = accounts t" if "a < fresh t" for t n
    using that by (intro accounts_put_same) (auto simp: pending_numbers_def pending_calls_def)
  show ?thesis
  proof (cases start)
    case (Started n result)
    show ?thesis
    proof (cases result)
      case None
      with Started 1 same [of ?s1 n] assms(1) show ?thesis by (simp add: start_native_def Let_def)
    next
      case (Some e)
      have "fresh (complete_command a call counted release e ?s1) = fresh s"
        by (simp add: complete_command_def Let_def)
      with Started Some 1 same [of "complete_command a call counted release e ?s1" n] assms(1)
        accounts_complete [of a ?s1 call counted release e] o show ?thesis
        by (simp add: start_native_def Let_def)
    qed
  qed (use 1 in \<open>simp add: start_native_def Let_def\<close>)
qed

text \<open>Taking the head of a queue moves its call: whatever happens to it, nothing is lost or answered twice.\<close>

lemma dispatch_accounts:
  assumes "a < fresh s" "once s" "active_call (heap s a) = None"
  shows "accounts (snd (dispatch lock_free cancelled start wall now a s)) = accounts s"
proof (cases "lock_free \<and> commands (heap s a) \<noteq> []")
  case False
  then show ?thesis by (auto simp: dispatch_def split: list.splits)
next
  case True
  then obtain call rest where q: "commands (heap s a) = call # rest" by (auto simp: neq_Nil_conv)
  let ?s0 = "put a ((heap s a)\<lparr>commands := rest\<rparr>) s" and ?c = "call_number call"
  have a0: "add_mset ?c (accounts ?s0) = accounts s"
    using accounts_put [OF assms(1), of "(heap s a)\<lparr>commands := rest\<rparr>"] q assms(3)
    by (simp add: pending_numbers_def pending_calls_def)
  have nr: "?c \<notin># replied s" using once_replied [OF assms(2,1)] pending_member(2) [of call] q by simp
  then have r0: "accounts (refuse call k co t wall ?s0) = accounts s" for k co t
    using a0 by (simp add: accounts_refuse)
  let ?m = "native (heap s a)" and ?q = "call_operation call"
  obtain r s1 where dc: "dispatch_control (RequiresControl ?m ?q) (IsControlRelease ?m ?q) (call_controller_grant call)
      (call_control_generation call) a now ?s0 = (r, s1)" by fastforce
  have s1: "accounts s1 = accounts ?s0" "fresh s1 = fresh s" "active_call (heap s1 a) = None" "replies s1 = replies s"
    "commands (heap s1 a) = rest"
    using control_work_accounts(1) [of a ?s0 "RequiresControl ?m ?q" "IsControlRelease ?m ?q" "call_controller_grant call"
        "call_control_generation call" now] assms(1,3)
      control_work_commands(1-4) [of "RequiresControl ?m ?q" "IsControlRelease ?m ?q" "call_controller_grant call"
        "call_control_generation call" a now ?s0] dc by (simp_all add: dc)
  then have r1: "accounts (refuse call k co t wall s1) = accounts s" for k co t
    using a0 nr by (simp add: accounts_refuse replied_def)
  have "accounts (put a ((heap s1 a)\<lparr>active_call := Some call\<rparr>) s1) = accounts s"
    using accounts_put [of a s1 "(heap s1 a)\<lparr>active_call := Some call\<rparr>"] s1 assms(1) a0
    by (simp add: pending_numbers_def pending_calls_def)
  then have "once (put a ((heap s1 a)\<lparr>active_call := Some call\<rparr>) s1)" using assms(2) by (simp add: once_def)
  then have st: "accounts s2 = accounts s" if "start_native start a call counted release s1 = (x, s2)" for counted release x s2
    using start_native_accounts [of a s1 call start counted release] s1 assms(1) a0 that by simp
  show ?thesis using True q r0 r1 dc
    by (auto dest: st simp: dispatch_def Let_def split: sum.splits prod.splits option.splits)
qed

lemma finish_calls_accounts:
  "distinct (map call_number calls) \<Longrightarrow> (\<And>call. call \<in> set calls \<Longrightarrow> call_number call \<notin># replied s) \<Longrightarrow>
   accounts (fold (\<lambda>call. refuse call k co t wall) calls s) = accounts s + mset (map call_number calls)
   \<and> heap (fold (\<lambda>call. refuse call k co t wall) calls s) = heap s
   \<and> fresh (fold (\<lambda>call. refuse call k co t wall) calls s) = fresh s"
proof (induction calls arbitrary: s)
  case (Cons call calls)
  have "call_number c \<notin># replied (refuse call k co t wall s)" if "c \<in> set calls" for c
  proof -
    have "call_number c \<noteq> call_number call" using Cons.prems(1) that by (metis distinct.simps(2) image_eqI list.set_map list.simps(9))
    with Cons.prems(2) [of c] that show ?thesis by (simp add: refuse_def replied_finish)
  qed
  with Cons show ?case by (simp add: accounts_refuse)
qed simp

lemma once_distinct:
  assumes "once s" "a < fresh s"
  shows "distinct (map call_number (pending_calls (heap s a)))"
proof -
  have "pending_numbers (heap s a) \<subseteq># accounts s"
    unfolding accounts_def using assms(2) by (subst sum.remove [of _ a]) auto
  then have le: "count (mset (map call_number (pending_calls (heap s a)))) c \<le> 1" for c
    using assms(1) unfolding pending_numbers_def by (meson mset_subset_eq_count once_def order_trans)
  show ?thesis
    unfolding distinct_count_atmost_1
  proof
    fix c
    let ?xs = "map call_number (pending_calls (heap s a))"
    show "count (mset ?xs) c = (if c \<in> set ?xs then 1 else 0)"
    proof (cases "c \<in> set ?xs")
      case True
      then have "0 < count (mset ?xs) c" by (simp only: count_greater_zero_iff set_mset_mset)
      with le [of c] have "count (mset ?xs) c = 1" by linarith
      with True show ?thesis by (simp only: if_True)
    next
      case False
      then show ?thesis by (simp only: count_mset_0_iff if_False not_False_eq_True)
    qed
  qed
qed

lemma finish_queue_accounts:
  assumes "a < fresh s" "once s"
  shows "accounts (finish_queue co t wall a s) = accounts s" "fresh (finish_queue co t wall a s) = fresh s"
    "heap (finish_queue co t wall a s) = (heap s)(a := (heap s a)\<lparr>commands := []\<rparr>)"
proof -
  let ?calls = "commands (heap s a)" and ?s' = "fold (\<lambda>call. refuse call ERROR_CLASS_CANCELLED co t wall) (commands (heap s a)) s"
  have d: "distinct (map call_number ?calls)" using once_distinct [OF assms(2,1)] by (simp add: pending_calls_def)
  have n: "call_number call \<notin># replied s" if "call \<in> set ?calls" for call
    using once_replied [OF assms(2,1)] pending_member(2) that by blast
  note f = finish_calls_accounts [OF d n, of ERROR_CLASS_CANCELLED co t wall]
  have "accounts (put a ((heap ?s' a)\<lparr>commands := []\<rparr>) ?s') + pending_numbers (heap s a)
      = accounts ?s' + pending_numbers ((heap s a)\<lparr>commands := []\<rparr>)"
    using accounts_put [of a ?s' "(heap ?s' a)\<lparr>commands := []\<rparr>"] f assms(1) by simp
  with f show "accounts (finish_queue co t wall a s) = accounts s"
    by (simp add: finish_queue_def Let_def pending_numbers_def pending_calls_def)
  show "fresh (finish_queue co t wall a s) = fresh s"
    "heap (finish_queue co t wall a s) = (heap s)(a := (heap s a)\<lparr>commands := []\<rparr>)"
    using f by (simp_all add: finish_queue_def Let_def)
qed

lemma finish_active_accounts:
  assumes "a < fresh s" "once s"
  shows "accounts (finish_active t wall a s) = accounts s" "fresh (finish_active t wall a s) = fresh s"
    "heap (finish_active t wall a s) = (heap s)(a := (heap s a)\<lparr>active_call := None, native_call := 0, in_flight := False\<rparr>)"
proof -
  let ?m = "(heap s a)\<lparr>active_call := None, native_call := 0, in_flight := False\<rparr>"
  show "fresh (finish_active t wall a s) = fresh s" "heap (finish_active t wall a s) = (heap s)(a := ?m)"
    by (simp_all add: finish_active_def Let_def split: option.split)
  show "accounts (finish_active t wall a s) = accounts s"
  proof (cases "active_call (heap s a)")
    case None
    with assms(1) show ?thesis
      by (simp add: finish_active_def accounts_put_same pending_numbers_def pending_calls_def)
  next
    case (Some call)
    let ?s' = "refuse call ERROR_CLASS_UNCERTAIN ''native-result-unknown'' t wall s"
    have "call_number call \<notin># replied s" using once_replied [OF assms(2,1)] pending_member(1) [OF Some] by blast
    then have "accounts ?s' = add_mset (call_number call) (accounts s)" by (rule accounts_refuse)
    with accounts_put [of a ?s' ?m] assms(1) Some show ?thesis
      by (simp add: finish_active_def pending_numbers_def pending_calls_def)
  qed
qed

subsection \<open>Steps and invariant\<close>

definition queue_ok :: "member \<Rightarrow> bool" where
  "queue_ok m \<longleftrightarrow> length (commands m) \<le> kMaximumCommandsPerRobot \<and> (in_flight m \<longleftrightarrow> active_call m \<noteq> None)"

definition command_inv :: "server \<Rightarrow> bool" where
  "command_inv s \<longleftrightarrow> once s \<and> (\<forall>a < fresh s. queue_ok (heap s a)) \<and> (\<forall>(robot, a) \<in> set (members s). a < fresh s)"

definition command_view :: "member \<Rightarrow> execute_call list \<times> bool \<times> execute_call option \<times> bool" where
  "command_view m = (commands m, in_flight m, active_call m, uncertain m)"

text \<open>What the other parts of the server may change: anything but queues, active calls and replies.\<close>

definition command_frame :: "server \<Rightarrow> server \<Rightarrow> bool" where
  "command_frame s s' \<longleftrightarrow> fresh s' = fresh s \<and> replies s' = replies s
     \<and> (\<forall>a < fresh s. command_view (heap s' a) = command_view (heap s a))
     \<and> (\<forall>(robot, a) \<in> set (members s'). a < fresh s')"

inductive command_step :: "server \<Rightarrow> server \<Rightarrow> bool" where
  enqueue: "call_number call \<notin># accounts s \<Longrightarrow> command_step s (enqueue wall call s)"
| dispatch: "a < fresh s \<Longrightarrow> \<not> in_flight (heap s a) \<Longrightarrow>
    command_step s (snd (dispatch lock_free cancelled start wall now a s))"
| complete: "a < fresh s \<Longrightarrow> active_call (heap s a) = Some call \<Longrightarrow>
    command_step s (complete_command a call counted release result s)"
| cancel: "a < fresh s \<Longrightarrow> command_step s (snd (cancelNative a s))"
| silence: "a < fresh s \<Longrightarrow> command_step s (silence_released a s)"
| fence: "a < fresh s \<Longrightarrow> command_step s (finish_queue code text wall a s)"
| lost: "a < fresh s \<Longrightarrow> command_step s (finish_active text wall a s)"
| other: "command_frame s s' \<Longrightarrow> command_step s s'"

lemma selectedMember_fresh: "command_inv s \<Longrightarrow> selectedMember i s = Some a \<Longrightarrow> a < fresh s"
  by (fastforce simp: command_inv_def selectedMember_def dest: sm_find_in split: option.splits if_splits)

lemma replied_accounts: "c \<notin># accounts s \<Longrightarrow> c \<notin># replied s"
  by (auto simp: accounts_def)

lemma enqueue_accounts:
  assumes "command_inv s" "call_number call \<notin># accounts s"
  shows "accounts (enqueue wall call s) = add_mset (call_number call) (accounts s)"
proof -
  have r: "accounts (refuse call k co t w s) = add_mset (call_number call) (accounts s)" for k co t w
    using accounts_refuse replied_accounts [OF assms(2)] by blast
  have "accounts (put a ((heap s a)\<lparr>commands := commands (heap s a) @ [call]\<rparr>) s) = add_mset (call_number call) (accounts s)"
    if "a < fresh s" for a
    using accounts_put [OF that, of "(heap s a)\<lparr>commands := commands (heap s a) @ [call]\<rparr>"]
    by (simp add: pending_numbers_def pending_calls_def)
  with r selectedMember_fresh [OF assms(1)] show ?thesis by (simp add: enqueue_def split: option.split)
qed

lemma frame_accounts: "command_frame s s' \<Longrightarrow> accounts s' = accounts s"
  unfolding accounts_def command_frame_def replied_def
  by (auto simp: command_view_def pending_numbers_def pending_calls_def intro!: sum.cong)

lemma command_invD:
  assumes "command_inv s"
  shows "once s" "a < fresh s \<Longrightarrow> queue_ok (heap s a)" "(robot, a) \<in> set (members s) \<Longrightarrow> a < fresh s"
  using assms by (auto simp: command_inv_def)

text \<open>A step may only add the call it admits.\<close>

lemma command_step_accounts:
  assumes "command_step s s'" "command_inv s"
  shows "accounts s' = accounts s \<or> (\<exists>c. c \<notin># accounts s \<and> accounts s' = add_mset c (accounts s))"
  using assms(1)
proof cases
  case (enqueue call wall)
  with enqueue_accounts [OF assms(2)] show ?thesis by blast
next
  case (dispatch a lock_free cancelled start wall now)
  have "active_call (heap s a) = None" using command_invD(2) [OF assms(2)] dispatch by (simp add: queue_ok_def)
  with dispatch dispatch_accounts [OF _ command_invD(1) [OF assms(2)]] show ?thesis by simp
next
  case (other)
  then show ?thesis using frame_accounts by blast
qed (use command_invD(1) [OF assms(2)] in \<open>simp_all add: accounts_complete control_work_accounts finish_queue_accounts finish_active_accounts\<close>)

lemma once_add: "once s \<Longrightarrow> accounts s' = accounts s \<or> (\<exists>c. c \<notin># accounts s \<and> accounts s' = add_mset c (accounts s)) \<Longrightarrow> once s'"
  by (auto simp: once_def not_in_iff)

subsection \<open>Queues stay well-formed\<close>

lemma complete_command_heap:
  "heap (complete_command a call counted release result s) = (heap s)(a := (heap (complete_command a call counted release result s) a))"
  "fresh (complete_command a call counted release result s) = fresh s"
  "members (complete_command a call counted release result s) = members s"
  "active_call (heap (complete_command a call counted release result s) a) = None"
  "in_flight (heap (complete_command a call counted release result s) a) = False"
  "commands (heap (complete_command a call counted release result s) a) = commands (heap s a)"
  "uncertain (heap (complete_command a call counted release result s) a) = (uncertain (heap s a) \<or> ev_phase result = PHASE_UNCERTAIN)"
  by (simp_all add: complete_command_def complete_control_def Let_def fun_eq_iff)

lemma start_native_heap:
  fixes start a call counted release s
  defines "s' \<equiv> snd (start_native start a call counted release s)"
  shows "b \<noteq> a \<Longrightarrow> heap s' b = heap s b" "fresh s' = fresh s" "members s' = members s"
    "commands (heap s' a) = commands (heap s a)" "in_flight (heap s' a) \<longleftrightarrow> active_call (heap s' a) \<noteq> None"
    "uncertain (heap s a) \<Longrightarrow> uncertain (heap s' a)"
proof -
  let ?s1 = "put a ((heap s a)\<lparr>in_flight := True, active_call := Some call, native_cancel_requested := False\<rparr>) s"
  note c = complete_command_heap [of a call counted release _ ?s1]
  show "b \<noteq> a \<Longrightarrow> heap s' b = heap s b"
    using c(1) by (auto simp: s'_def start_native_def Let_def split: native_start.split option.split) (metis fun_upd_other put_sel(1))
  show "fresh s' = fresh s" "members s' = members s" "commands (heap s' a) = commands (heap s a)"
    "in_flight (heap s' a) \<longleftrightarrow> active_call (heap s' a) \<noteq> None" "uncertain (heap s a) \<Longrightarrow> uncertain (heap s' a)"
    using c(2-7) by (auto simp: s'_def start_native_def Let_def split: native_start.split option.split)
qed

lemma dispatch_control_heap [simp]:
  "b \<noteq> a \<Longrightarrow> heap (snd (dispatch_control mo re g n a now s)) b = heap s b"
  "members (snd (dispatch_control mo re g n a now s)) = members s"
  "in_flight (heap (snd (dispatch_control mo re g n a now s)) b) = in_flight (heap s b)"
  "uncertain (heap (snd (dispatch_control mo re g n a now s)) b) = uncertain (heap s b)"
  by (simp_all add: dispatch_control_def Let_def)

text \<open>The ways through a dispatch.\<close>

lemma dispatch_cases:
  assumes "dispatch lock_free cancelled start wall now a s = (r, s')"
  obtains (idle) "s' = s" "r = Busy \<or> r = Handled"
  | (refused) call rest k co t where "commands (heap s a) = call # rest" "r = Handled"
      "s' = refuse call k co t wall (put a ((heap s a)\<lparr>commands := rest\<rparr>) s)"
  | (uncontrolled) call rest e s1 where "commands (heap s a) = call # rest" "r = Handled"
      "dispatch_control (RequiresControl (native (heap s a)) (call_operation call))
         (IsControlRelease (native (heap s a)) (call_operation call)) (call_controller_grant call)
         (call_control_generation call) a now (put a ((heap s a)\<lparr>commands := rest\<rparr>) s) = (Inl e, s1)"
      "s' = refuse call ERROR_CLASS_REJECTED (fst e) (snd e) wall s1"
  | (started) call rest counted s1 x where "commands (heap s a) = call # rest" "\<not> commands_closed s"
      "uncertain (heap s a) \<longrightarrow> IsSafetyOperation (native (heap s a)) (call_operation call)"
      "\<not> cancelled (call_number call)" "wall < op_deadline_unix_nanos (call_operation call)"
      "dispatch_control (RequiresControl (native (heap s a)) (call_operation call))
         (IsControlRelease (native (heap s a)) (call_operation call)) (call_controller_grant call)
         (call_control_generation call) a now (put a ((heap s a)\<lparr>commands := rest\<rparr>) s) = (Inr counted, s1)"
      "start_native start a call counted (IsControlRelease (native (heap s a)) (call_operation call)) s1 = (x, s')"
      "r = (case x of None \<Rightarrow> Dispatched counted (IsControlRelease (native (heap s a)) (call_operation call))
            | Some what \<Rightarrow> Interrupted what)"
proof (cases "lock_free \<and> commands (heap s a) \<noteq> []")
  case False
  with assms show thesis by (intro idle) (auto simp: dispatch_def split: list.splits if_splits)
next
  case True
  then obtain call rest where q: "commands (heap s a) = call # rest" by (auto simp: neq_Nil_conv)
  let ?s0 = "put a ((heap s a)\<lparr>commands := rest\<rparr>) s" and ?n = "native (heap s a)" and ?q = "call_operation call"
  obtain y s1 where y: "dispatch_control (RequiresControl ?n ?q) (IsControlRelease ?n ?q) (call_controller_grant call)
      (call_control_generation call) a now ?s0 = (y, s1)" by fastforce
  show thesis
  proof (cases "commands_closed s \<or> (uncertain (heap s a) \<and> \<not> IsSafetyOperation ?n ?q) \<or> cancelled (call_number call)
      \<or> op_deadline_unix_nanos ?q \<le> wall")
    case refusing: True
    with assms True q have "r = Handled \<and> (\<exists>k co t. s' = refuse call k co t wall ?s0)"
      by (auto simp: dispatch_def Let_def split: if_splits)
    then show thesis using refused [OF q] by blast
  next
    case admitted: False
    show thesis
    proof (cases y)
      case (Inl e)
      with assms True q admitted y show thesis
        by (intro uncontrolled [OF q]) (auto simp: dispatch_def Let_def split: prod.splits)
    next
      case (Inr counted)
      obtain x t where x: "start_native start a call counted (IsControlRelease ?n ?q) s1 = (x, t)" by fastforce
      with assms True q admitted y Inr
      have "t = s'" "r = (case x of None \<Rightarrow> Dispatched counted (IsControlRelease ?n ?q) | Some what \<Rightarrow> Interrupted what)"
        by (auto simp: dispatch_def Let_def split: option.splits)
      with admitted x y Inr show thesis
        by (intro started [OF q, where x = x and counted = counted and ?s1.0 = s1]) auto
    qed
  qed
qed

lemma dispatch_control_refused: "dispatch_control mo re g n a now s = (Inl e, s') \<Longrightarrow> s' = s"
  by (auto simp: dispatch_control_def Let_def split: if_splits)

lemma dispatch_heap:
  assumes "dispatch lock_free cancelled start wall now a s = (r, s')"
  shows "b \<noteq> a \<Longrightarrow> heap s' b = heap s b" "fresh s' = fresh s" "members s' = members s"
    "queue_ok (heap s a) \<Longrightarrow> queue_ok (heap s' a)" "uncertain (heap s a) \<Longrightarrow> uncertain (heap s' a)"
proof -
  have "(b \<noteq> a \<longrightarrow> heap s' b = heap s b) \<and> fresh s' = fresh s \<and> members s' = members s
      \<and> (queue_ok (heap s a) \<longrightarrow> queue_ok (heap s' a)) \<and> (uncertain (heap s a) \<longrightarrow> uncertain (heap s' a))"
    using assms
  proof (cases rule: dispatch_cases)
    case (uncontrolled call rest e s1)
    then show ?thesis using dispatch_control_refused [OF uncontrolled(3)] by (simp add: queue_ok_def)
  next
    case (started call rest counted s1 x)
    let ?s0 = "put a ((heap s a)\<lparr>commands := rest\<rparr>) s"
    let ?d = "dispatch_control (RequiresControl (native (heap s a)) (call_operation call))
         (IsControlRelease (native (heap s a)) (call_operation call)) (call_controller_grant call)
         (call_control_generation call) a now ?s0"
    have s1: "s1 = snd ?d" using started(6) by simp
    have s': "s' = snd (start_native start a call counted (IsControlRelease (native (heap s a)) (call_operation call)) s1)"
      using started(7) by simp
    have d: "b \<noteq> a \<Longrightarrow> heap s1 b = heap s b" "fresh s1 = fresh s" "members s1 = members s" "commands (heap s1 a) = rest"
      "uncertain (heap s1 a) = uncertain (heap s a)"
      unfolding s1 by simp_all
    note n = start_native_heap [where s = s1 and a = a and call = call and start = start and counted = counted
        and release = "IsControlRelease (native (heap s a)) (call_operation call)", folded s']
    show ?thesis using n d started(1) by (auto simp: queue_ok_def)
  qed (simp_all add: queue_ok_def)
  then show "b \<noteq> a \<Longrightarrow> heap s' b = heap s b" "fresh s' = fresh s" "members s' = members s"
    "queue_ok (heap s a) \<Longrightarrow> queue_ok (heap s' a)" "uncertain (heap s a) \<Longrightarrow> uncertain (heap s' a)" by blast+
qed

lemma enqueue_heap:
  "fresh (enqueue wall call s) = fresh s" "members (enqueue wall call s) = members s"
  "queue_ok (heap s a) \<Longrightarrow> queue_ok (heap (enqueue wall call s) a)"
  "uncertain (heap (enqueue wall call s) a) = uncertain (heap s a)"
  by (auto simp: enqueue_def queue_ok_def split: option.split)

lemma control_sections_queue:
  "queue_ok (heap (snd (cancelNative a s)) b) = queue_ok (heap s b)"
  "queue_ok (heap (silence_released a s) b) = queue_ok (heap s b)"
  "members (snd (cancelNative a s)) = members s" "members (silence_released a s) = members s"
  "uncertain (heap (snd (cancelNative a s)) b) = uncertain (heap s b)"
  "uncertain (heap (silence_released a s) b) = uncertain (heap s b)"
  by (simp_all add: cancelNative_def silence_released_def queue_ok_def Let_def)

lemma finish_members:
  "members (finish_queue co t wall a s) = members s" "members (finish_active t wall a s) = members s"
proof -
  have "members (fold (\<lambda>call. refuse call k co t wall) calls s) = members s" for k calls
    by (induction calls arbitrary: s) simp_all
  then show "members (finish_queue co t wall a s) = members s" by (simp add: finish_queue_def Let_def)
  show "members (finish_active t wall a s) = members s" by (simp add: finish_active_def Let_def split: option.split)
qed

lemma command_step_queue:
  assumes "command_step s s'" "command_inv s"
  shows "fresh s' = fresh s \<and> (\<forall>a < fresh s. queue_ok (heap s' a) \<and> (uncertain (heap s a) \<longrightarrow> uncertain (heap s' a)))
    \<and> (\<forall>(robot, b) \<in> set (members s'). b < fresh s')"
  using assms(1)
proof cases
  case (enqueue call wall)
  with assms(2) show ?thesis by (auto simp: enqueue_heap command_inv_def)
next
  case (dispatch a lock_free cancelled start wall now)
  then have "dispatch lock_free cancelled start wall now a s = (fst (dispatch lock_free cancelled start wall now a s), s')"
    by simp
  note h = dispatch_heap [OF this]
  have "queue_ok (heap s' b) \<and> (uncertain (heap s b) \<longrightarrow> uncertain (heap s' b))" if "b < fresh s" for b
    using h(1) [of b] h(4,5) command_invD(2) [OF assms(2) that] by (cases "b = a") auto
  with h(2,3) assms(2) show ?thesis by (simp add: command_inv_def)
next
  case (complete a call counted release result)
  note h = complete_command_heap [of a call counted release result s, unfolded complete(1) [symmetric]]
  have "queue_ok (heap s' b) \<and> (uncertain (heap s b) \<longrightarrow> uncertain (heap s' b))" if "b < fresh s" for b
  proof (cases "b = a")
    case True
    with h(4-7) command_invD(2) [OF assms(2) that] show ?thesis by (simp add: queue_ok_def)
  next
    case False
    then have "heap s' b = heap s b" by (subst h(1)) simp
    with command_invD(2) [OF assms(2) that] show ?thesis by simp
  qed
  with h(2,3) assms(2) show ?thesis by (simp add: command_inv_def)
next
  case (fence a co tx wall)
  with assms(2) finish_queue_accounts(2,3) [OF fence(2) command_invD(1) [OF assms(2)]] show ?thesis
    by (auto simp: command_inv_def queue_ok_def finish_members)
next
  case (lost a tx wall)
  with assms(2) finish_active_accounts(2,3) [OF lost(2) command_invD(1) [OF assms(2)]] show ?thesis
    by (auto simp: command_inv_def queue_ok_def finish_members)
next
  case other
  have "queue_ok (heap s' a) \<and> (uncertain (heap s a) \<longrightarrow> uncertain (heap s' a))" if "a < fresh s" for a
    using other that command_invD(2) [OF assms(2) that] by (simp add: command_frame_def command_view_def queue_ok_def)
  with other show ?thesis by (auto simp: command_frame_def)
qed (use assms(2) in \<open>simp_all add: command_inv_def control_sections_queue\<close>)

lemma command_step_inv: "command_step s s' \<Longrightarrow> command_inv s \<Longrightarrow> command_inv s'"
  using command_step_queue [of s s'] once_add [of s s'] command_step_accounts [of s s']
  by (auto simp: command_inv_def)

lemma command_steps:
  assumes "command_step\<^sup>*\<^sup>* s s'" "command_inv s"
  shows "command_inv s' \<and> accounts s \<subseteq># accounts s' \<and> fresh s' = fresh s
    \<and> (\<forall>a < fresh s. uncertain (heap s a) \<longrightarrow> uncertain (heap s' a))"
  using assms(1)
proof (induction rule: rtranclp_induct)
  case base
  then show ?case using assms(2) by simp
next
  case (step t u)
  then have t: "command_inv t" by blast
  have "accounts t \<subseteq># accounts u" using command_step_accounts [OF step.hyps(2) t] by auto
  with step command_step_inv [OF step.hyps(2) t] command_step_queue [OF step.hyps(2) t] show ?case
    by (metis subset_mset.order_trans)
qed

subsection \<open>The exit\<close>

lemma once_cong: "accounts s' = accounts s \<Longrightarrow> once s' = once s"
  by (simp add: once_def)

lemma cancel_heap: "b \<noteq> a \<Longrightarrow> heap (snd (cancelNative a s)) b = heap s b"
  by (simp add: cancelNative_def Let_def)

lemma exit_queues:
  assumes "once s" "set as \<subseteq> {..<fresh s}"
    "s' = fold (\<lambda>a t. finish_queue co tx wall a (snd (cancelNative a t))) as s"
  shows "accounts s' = accounts s \<and> fresh s' = fresh s \<and> (\<forall>a. active_call (heap s' a) = active_call (heap s a))
    \<and> (\<forall>a \<in> set as. commands (heap s' a) = []) \<and> (\<forall>a. commands (heap s a) = [] \<longrightarrow> commands (heap s' a) = [])"
  using assms
proof (induction as arbitrary: s)
  case (Cons a as)
  let ?c = "snd (cancelNative a s)"
  let ?t = "finish_queue co tx wall a ?c"
  have a: "a < fresh s" using Cons.prems(2) by simp
  have c: "accounts ?c = accounts s" "fresh ?c = fresh s" using a by (simp_all add: control_work_accounts)
  with Cons.prems(1) have o: "once ?c" using once_cong by blast
  note f = finish_queue_accounts [of a ?c co tx wall, unfolded c(2), OF a o]
  have "once ?t" using f(1) c(1) Cons.prems(1) once_cong by metis
  then have IH: "accounts s' = accounts ?t \<and> fresh s' = fresh ?t \<and> (\<forall>b. active_call (heap s' b) = active_call (heap ?t b))
      \<and> (\<forall>b \<in> set as. commands (heap s' b) = []) \<and> (\<forall>b. commands (heap ?t b) = [] \<longrightarrow> commands (heap s' b) = [])"
    using Cons.IH [of ?t] Cons.prems(2,3) f(2) by simp
  have "commands (heap ?t b) = (if b = a then [] else commands (heap s b))"
    "active_call (heap ?t b) = active_call (heap s b)" for b
    by (simp_all add: f(3))
  with IH f c show ?case by simp
qed simp

lemma exit_actives:
  assumes "once s" "set as \<subseteq> {..<fresh s}" "s' = fold (finish_active tx wall) as s"
  shows "accounts s' = accounts s \<and> fresh s' = fresh s \<and> (\<forall>a. commands (heap s' a) = commands (heap s a))
    \<and> (\<forall>a \<in> set as. active_call (heap s' a) = None) \<and> (\<forall>a. active_call (heap s a) = None \<longrightarrow> active_call (heap s' a) = None)"
  using assms
proof (induction as arbitrary: s)
  case (Cons a as)
  let ?t = "finish_active tx wall a s"
  have a: "a < fresh s" using Cons.prems(2) by simp
  note f = finish_active_accounts [OF a Cons.prems(1), of tx wall]
  have "once ?t" using f(1) Cons.prems(1) once_cong by blast
  then have IH: "accounts s' = accounts ?t \<and> fresh s' = fresh ?t \<and> (\<forall>b. commands (heap s' b) = commands (heap ?t b))
      \<and> (\<forall>b \<in> set as. active_call (heap s' b) = None) \<and> (\<forall>b. active_call (heap ?t b) = None \<longrightarrow> active_call (heap s' b) = None)"
    using Cons.IH [of ?t] Cons.prems(2,3) f(2) by simp
  have "active_call (heap ?t b) = (if b = a then None else active_call (heap s b))"
    "commands (heap ?t b) = commands (heap s b)" for b
    by (simp_all add: f(3))
  with IH f show ?case by simp
qed simp

subsection \<open>Properties\<close>

text \<open>C5: no command is lost and none is answered twice: once a call is admitted, after any sequence of scheduler
  steps it is in exactly one place: in one queue, active at one robot, or answered once.\<close>

theorem command_accounted_once:
  assumes "command_step\<^sup>*\<^sup>* s s'" "command_inv s" "c \<in># accounts s"
  shows "count (accounts s') c = 1"
proof -
  have "count (accounts s') c \<le> 1" using command_steps [OF assms(1,2)] by (simp add: command_inv_def once_def)
  moreover have "c \<in># accounts s'" using command_steps [OF assms(1,2)] assms(3) by (meson mset_subset_eqD)
  ultimately show ?thesis by (simp add: le_Suc_eq flip: count_greater_zero_iff)
qed




subsection \<open>A server with a queued command\<close>

definition ex_call :: "nat \<Rightarrow> execute_call" where
  "ex_call n = \<lparr>call_number = n, call_identity = \<lparr>id_target = ''t'', id_run = ''r'', id_robot = ''b'', id_epoch = 1\<rparr>,
     call_operation = \<lparr>op_work_id = ''w'', op_endpoint_id = ''move'', op_deadline_unix_nanos = 100,
       op_encoding = PAYLOAD_ENCODING_PROTOBUF,
       op_schema = \<lparr>ms_message_id = 1, ms_type_name = ''M'', ms_version = 1, ms_fingerprint = 7\<rparr>, op_value = []\<rparr>,
     call_controller_grant = replicate 32 CHR ''k'', call_control_generation = 1\<rparr>"

definition ex_driver :: native_robot where
  "ex_driver = \<lparr>RequiresControl = (\<lambda>_. True), IsControlRelease = (\<lambda>_. False), IsSafetyOperation = (\<lambda>_. False),
     ControlSilenceLimit = 0\<rparr>"

definition ex_holder :: member where
  "ex_holder = (new_member (call_identity (ex_call 1)) ex_config ex_driver 0 0)
     \<lparr>closing := False, commands := [ex_call 1], control_owner := 5, control_generation := 1, control_held := True\<rparr>"

definition ex_commands :: server where
  "ex_commands = (initial_server default_options [] [] ex_holder)\<lparr>fresh := 1, members := [(''b'', 0)],
     controller_generation := 5, controller_grant := replicate 32 CHR ''k'', control_members := {0},
     control_status := empty_slot\<lparr>active := Some 9, slot_generation := 1, ready := True\<rparr>\<rparr>"

lemma ex_commands_sel:
  "heap ex_commands 0 = ex_holder" "fresh ex_commands = 1" "members ex_commands = [(''b'', 0)]" "replies ex_commands = []"
  "commands ex_holder = [ex_call 1]" "active_call ex_holder = None" "in_flight ex_holder = False"
  "commands_closed ex_commands = False" "native ex_holder = ex_driver" "uncertain ex_holder = False"
  by (simp_all add: ex_commands_def initial_server_def ex_holder_def new_member_def)

lemma ex_commands_accounts: "accounts ex_commands = {#1#}"
  by (simp add: accounts_def replied_def pending_numbers_def pending_calls_def ex_commands_sel ex_call_def)

lemma ex_commands_inv: "command_inv ex_commands"
  by (simp add: command_inv_def once_def ex_commands_accounts queue_ok_def ex_commands_sel kMaximumCommandsPerRobot_def)

lemma ex_commands_dispatched:
  "fst (dispatch True (\<lambda>_. False) (Started 7 None) 0 0 0 ex_commands) = Dispatched True False"
  by (simp add: dispatch_def Let_def ex_commands_sel ex_call_def ex_driver_def dispatch_control_def controllerGrantLocked_def
      controllerCredentialLocked_def secretEqual_def control_stream_up_def ex_commands_def initial_server_def
      ex_holder_def new_member_def stale_heartbeat_def start_native_def empty_slot_def)

theorem command_accounted_once_witness:
  "count (accounts (snd (dispatch True (\<lambda>_. False) (Started 7 None) 0 0 0 ex_commands))) 1 = 1"
proof -
  have "command_step\<^sup>*\<^sup>* ex_commands (snd (dispatch True (\<lambda>_. False) (Started 7 None) 0 0 0 ex_commands))"
    by (intro r_into_rtranclp command_step.dispatch) (simp_all add: ex_commands_sel)
  from command_accounted_once [OF this ex_commands_inv] show ?thesis by (simp add: ex_commands_accounts)
qed




end
