(* ===== verification/Members.thy ===== *)
theory Members
  imports Commands
begin

section \<open>Membership\<close>

text \<open>
  Registration and removal of robots in \<^verbatim>\<open>robot_server.cpp\<close> (\<^verbatim>\<open>apply\<close>, \<^verbatim>\<open>remove\<close>, \<^verbatim>\<open>closeAllMembers\<close>), as the
  registration thread runs them. The robot factory and the native \<^verbatim>\<open>Stop\<close> are code of the robot type: their
  results are given by arguments (\<open>factory_result\<close>, the sets of members whose \<^verbatim>\<open>Stop\<close> throws). The one thing another
  thread may change in between that the code re-reads is the phase: \<open>drain_begins\<close> says that the drain starts
  while the native object is being created.
\<close>

subsection \<open>Registering one robot\<close>

datatype factory_result = Returned "native_robot option" string bool | Broke "string option"

text \<open>\<open>Returned native error failed\<close>: the factory's object and error text, and whether a master call of the budget
  failed; \<open>Broke\<close>: an exception (its text, or none for an unknown one).\<close>

record apply_env =
  work_cancelled :: bool
  binding_lanes :: nat
  created :: factory_result
  cleanup_throws :: "string option option"
  drain_begins :: bool
  late_stop_throws :: "string option option"
  created_at :: int
  demand_emits :: "robot_message list"

type_synonym item_error = "error_class \<times> string \<times> string"

definition member_namespace :: "robot_resource \<Rightarrow> string" where
  "member_namespace config = (case sm_find (rr_parameters config) ''namespace'' of Some v \<Rightarrow> v | None \<Rightarrow> [])"

definition crosses_environment :: "robot_config \<Rightarrow> string \<times> string \<Rightarrow> bool" where
  "crosses_environment config = (\<lambda>(name, own).
     case sm_find (cfg_parameters config) name of None \<Rightarrow> False | Some v \<Rightarrow> v \<noteq> [] \<and> v \<noteq> own)"

text \<open>The checks before the table is looked at; the empty text means none failed.\<close>

definition registration_error :: "bool \<Rightarrow> registration \<Rightarrow> server \<Rightarrow> string" where
  "registration_error cancelled r s =
     (let i = reg_identity r; config = configFrom (reg_configuration r); opts = options s
      in if cancelled \<or> shutdown s \<or> phase s \<noteq> Ready then ''member registration cancelled''
         else if \<not> validIdentity i \<or> id_target i \<noteq> target_id opts \<or> cfg_robot_id config \<noteq> id_robot i
         then ''invalid or cross-target member identity''
         else if id_run i \<noteq> run_id opts then ''member belongs to another Run''
         else if kMaximumChannelsPerRobot < length (rr_channels (reg_configuration r)) then ''native channel limit exceeded''
         else if (case sm_find (cfg_parameters config) ''namespace'' of None \<Rightarrow> True | Some v \<Rightarrow> v = [])
         then ''native namespace required''
         else if list_ex (crosses_environment config)
                   [(''ros_master_uri'', ros_master_uri opts), (''ros_ip'', ros_ip opts)]
         then ''member crosses server ROS environment''
         else [])"

datatype table_answer = AlreadyApplied | TableRefuses item_error | Lane nat

text \<open>The section under \<^verbatim>\<open>table_mutex_\<close>: an equal registration is already applied; a conflict or a full table is refused;
  otherwise the new member gets its callback lane.\<close>

definition apply_lookup :: "nat \<Rightarrow> registration \<Rightarrow> server \<Rightarrow> table_answer \<times> server" where
  "apply_lookup lanes_count r s =
     (let i = reg_identity r; ns = member_namespace (reg_configuration r)
      in case sm_find (members s) (id_robot i) of
           Some a \<Rightarrow>
             (if id_epoch (identity (heap s a)) \<noteq> id_epoch i
              then (TableRefuses (ERROR_CLASS_REJECTED, ''member-epoch-conflict'', ''active member connection epoch conflicts''), s)
              else if configuration (heap s a) \<noteq> reg_configuration r
              then (TableRefuses (ERROR_CLASS_REJECTED, ''member-configuration-conflict'',
                      ''member is registered with another configuration; remove it first''), s)
              else (AlreadyApplied, s))
         | None \<Rightarrow>
             (case sm_find (namespaces s) ns of
                Some owner \<Rightarrow> (TableRefuses (ERROR_CLASS_REJECTED, ''namespace-conflict'', ''ROS namespace is used by robot '' @ owner), s)
              | None \<Rightarrow>
                  if kMaximumRobots \<le> length (members s)
                  then (TableRefuses (ERROR_CLASS_RESOURCE_EXHAUSTED, ''member-registration-failed'',
                          ''native robot table capacity exhausted''), s)
                  else (Lane (next_lane s mod lanes_count), s\<lparr>next_lane := Suc (next_lane s)\<rparr>)))"

text \<open>Creating the native object: the address of the complete member, or the class and text of the error. A native
  object whose cleanup throws is retained.\<close>

definition creation_error :: "native_robot option \<Rightarrow> string \<Rightarrow> bool \<Rightarrow> string" where
  "creation_error n error failed =
     (let e1 = (if failed \<and> error = [] then ''ROS master registration did not complete'' else error)
      in if n = None \<and> e1 = [] then ''native resource creation failed'' else e1)"

definition apply_create :: "apply_env \<Rightarrow> registration \<Rightarrow> nat \<Rightarrow> server \<Rightarrow> (error_class \<times> string + nat) \<times> server" where
  "apply_create env r lane_number s =
     (case created env of
        Broke what \<Rightarrow>
          (Inl (ERROR_CLASS_UNCERTAIN,
                case what of Some w \<Rightarrow> ''native resource creation interrupted: '' @ w
                | None \<Rightarrow> ''native resource creation interrupted by an unknown exception''), s)
      | Returned n error failed \<Rightarrow>
          let e = creation_error n error failed
          in if e \<noteq> []
             then (case (n, cleanup_throws env) of
                     (Some robot, Some what) \<Rightarrow>
                       (Inl (ERROR_CLASS_UNCERTAIN, e), workerFailed ''failed factory cleanup'' what (s\<lparr>retained := retained s @ [robot]\<rparr>))
                   | _ \<Rightarrow> (Inl (ERROR_CLASS_REJECTED, e), s))
             else (case n of
                     None \<Rightarrow> (Inl (ERROR_CLASS_REJECTED, e), s)
                   | Some robot \<Rightarrow>
                       (Inr (fresh s),
                        (put (fresh s) (new_member (reg_identity r) (reg_configuration r) robot lane_number (created_at env)) s)
                          \<lparr>fresh := Suc (fresh s)\<rparr>)))"

text \<open>Publication under \<^verbatim>\<open>table_mutex_\<close>, unless the drain began.\<close>

definition apply_publish :: "registration \<Rightarrow> nat \<Rightarrow> server \<Rightarrow> bool \<times> server" where
  "apply_publish r a s =
     (let i = reg_identity r
      in if phase s \<noteq> Ready then (False, s)
         else (True, notifyStatus (Some i) None
                 ((put a ((heap s a)\<lparr>closing := False\<rparr>) s)
                    \<lparr>members := sm_set (id_robot i) a (members s),
                     namespaces := sm_set (member_namespace (reg_configuration r)) (id_robot i) (namespaces s),
                     members_revision := Suc (members_revision s)\<rparr>)))"

definition notifyCommandMemberChange :: "server \<Rightarrow> server" where
  "notifyCommandMemberChange s = s\<lparr>queues := (queues s)\<lparr>command_revision := Suc (command_revision (queues s))\<rparr>\<rparr>"

definition apply_one ::
    "(robot_message \<Rightarrow> nat) \<Rightarrow> apply_env \<Rightarrow> registration \<Rightarrow> server \<Rightarrow> (member_identity \<times> item_error option) \<times> server" where
  "apply_one bytes env r s =
     (let i = reg_identity r; e = registration_error (work_cancelled env) r s; code = ''member-registration-failed''
      in if e \<noteq> [] then ((i, Some (ERROR_CLASS_REJECTED, code, e)), s)
         else case apply_lookup (binding_lanes env) r s of
                (AlreadyApplied, s1) \<Rightarrow> ((i, None), s1)
              | (TableRefuses refusal, s1) \<Rightarrow> ((i, Some refusal), s1)
              | (Lane l, s1) \<Rightarrow>
                  (case apply_create env r l s1 of
                     (Inl (cls, text), s2) \<Rightarrow>
                       let s3 = (if drain_begins env then s2\<lparr>phase := Draining\<rparr> else s2);
                           s4 = (if retained s3 \<noteq> retained s \<and> phase s3 \<noteq> Ready
                                 then (case late_stop_throws env of
                                         Some what \<Rightarrow> workerFailed ''late member cleanup'' what s3 | None \<Rightarrow> s3)
                                 else s3)
                       in ((i, Some (cls, code, text)), s4)
                   | (Inr a, s2) \<Rightarrow>
                       let s3 = (if drain_begins env then s2\<lparr>phase := Draining\<rparr> else s2)
                       in case apply_publish r a s3 of
                            (True, s4) \<Rightarrow>
                              ((i, None), reconcileMemberStatus bytes (demand_emits env) a (notifyCommandMemberChange s4))
                          | (False, s4) \<Rightarrow>
                              ((i, Some (ERROR_CLASS_REJECTED, code, ''member registration cancelled'')),
                               case late_stop_throws env of
                                 Some what \<Rightarrow> workerFailed ''late member cleanup'' what s4
                               | None \<Rightarrow> stopMember a s4)))"

fun apply_members ::
    "(robot_message \<Rightarrow> nat) \<Rightarrow> (apply_env \<times> registration) list \<Rightarrow> server
      \<Rightarrow> (member_identity \<times> item_error option) list \<times> server" where
  "apply_members bytes [] s = ([], s)"
| "apply_members bytes ((env, r) # rest) s =
     (let (item, s1) = apply_one bytes env r s; (items, s2) = apply_members bytes rest s1 in (item # items, s2))"

subsection \<open>Removing one robot\<close>

datatype take_answer = Absent | TakeRefuses string | Taken nat

text \<open>The section under \<^verbatim>\<open>table_mutex_\<close>: a robot that is not registered for this Run needs no removal.\<close>

definition remove_take :: "member_identity \<Rightarrow> server \<Rightarrow> take_answer \<times> server" where
  "remove_take i s =
     (case sm_find (members s) (id_robot i) of
        None \<Rightarrow> (Absent, s)
      | Some a \<Rightarrow>
          let m = heap s a
          in if id_run (identity m) \<noteq> id_run i then (Absent, s)
             else if id_target (identity m) \<noteq> id_target i then (TakeRefuses ''member-target-conflict'', s)
             else if id_epoch (identity m) \<noteq> id_epoch i then (TakeRefuses ''member-epoch-conflict'', s)
             else (Taken a, notifyStatus (Some (identity m)) None
                     ((put a (m\<lparr>closing := True\<rparr>) s)
                        \<lparr>namespaces := sm_erase (member_namespace (configuration m)) (namespaces s),
                         members := sm_erase (id_robot i) (members s),
                         members_revision := Suc (members_revision s)\<rparr>)))"

text \<open>Removing one identity: after the fence the thread waits until no native call of the member is in flight
  (\<open>Waits\<close>), then stops it; an exception of \<^verbatim>\<open>Stop\<close> leaves \<open>remove\<close> (\<open>Raises\<close>).\<close>

datatype remove_progress = Item "(error_class \<times> string) option" | Stops nat | Waits nat | Raises "string option"

definition remove_one ::
    "bool \<Rightarrow> int \<Rightarrow> (nat \<Rightarrow> string option option) \<Rightarrow> member_identity \<Rightarrow> server \<Rightarrow> remove_progress \<times> server" where
  "remove_one cancelled wall stop_throws i s =
     (if cancelled then (Item (Some (ERROR_CLASS_CANCELLED, ''member-removal-cancelled'')), s)
      else case remove_take i s of
             (Absent, s1) \<Rightarrow> (Item None, s1)
           | (TakeRefuses code, s1) \<Rightarrow> (Item (Some (ERROR_CLASS_REJECTED, code)), s1)
           | (Taken a, s1) \<Rightarrow>
               (let s2 = fenceCommands wall [a] s1
                in if in_flight (heap s2 a) \<and> scheduler_alive (queues s2) then (Waits a, s2)
                   else case stop_throws a of
                          Some what \<Rightarrow> (Raises what, s2)
                        | None \<Rightarrow> (Stops a, stopMember a s2)))"

subsection \<open>Closing all members\<close>

definition close_table :: "server \<Rightarrow> nat list \<times> server" where
  "close_table s =
     (let as = map snd (members s)
      in (as, notifyStatus None None
                (s\<lparr>heap := (\<lambda>a. if a \<in> set as then (heap s a)\<lparr>closing := True\<rparr> else heap s a),
                   members := [], namespaces := [], members_revision := Suc (members_revision s)\<rparr>)))"

definition stop_or_fail :: "(nat \<Rightarrow> string option option) \<Rightarrow> nat \<Rightarrow> server \<Rightarrow> server" where
  "stop_or_fail stop_throws a s =
     (case stop_throws a of None \<Rightarrow> stopMember a s | Some what \<Rightarrow> workerFailed ''native stop'' what s)"

text \<open>The whole job when the fenced calls have joined: every member is stopped even if others fail, then the final
  publications are flushed.\<close>

definition closeAllMembers :: "int \<Rightarrow> (nat \<Rightarrow> string option option) \<Rightarrow> bool \<Rightarrow> server \<Rightarrow> server" where
  "closeAllMembers wall stop_throws flushed s =
     (let (as, s1) = close_table s;
          s2 = fenceCommands wall as s1;
          s3 = fold (stop_or_fail stop_throws) as s2
      in if as \<noteq> [] \<and> \<not> flushed
         then workerFailed ''publication flush'' (Some ''native publication flush did not complete'') s3 else s3)"

text \<open>The batch of a \<^verbatim>\<open>RemoveMembers\<close> call: one flush for all stopped robots.\<close>

datatype remove_end = RemoveEnds | RemoveWaits nat | RemoveRaises "string option"

fun remove_members ::
    "bool \<Rightarrow> int \<Rightarrow> (nat \<Rightarrow> string option option) \<Rightarrow> member_identity list \<Rightarrow> server
      \<Rightarrow> (member_identity \<times> (error_class \<times> string) option) list \<times> nat list \<times> remove_end \<times> server" where
  "remove_members cancelled wall stop_throws [] s = ([], [], RemoveEnds, s)"
| "remove_members cancelled wall stop_throws (i # is) s =
     (case remove_one cancelled wall stop_throws i s of
        (Item e, s1) \<Rightarrow>
          (let (items, stopped, r, s2) = remove_members cancelled wall stop_throws is s1 in ((i, e) # items, stopped, r, s2))
      | (Stops a, s1) \<Rightarrow>
          (let (items, stopped, r, s2) = remove_members cancelled wall stop_throws is s1 in ((i, None) # items, a # stopped, r, s2))
      | (Waits a, s1) \<Rightarrow> ([], [], RemoveWaits a, s1)
      | (Raises what, s1) \<Rightarrow> ([], [], RemoveRaises what, s1))"

definition remove ::
    "bool \<Rightarrow> int \<Rightarrow> (nat \<Rightarrow> string option option) \<Rightarrow> bool \<Rightarrow> member_identity list \<Rightarrow> server
      \<Rightarrow> (member_identity \<times> (error_class \<times> string) option) list \<times> remove_end \<times> server" where
  "remove cancelled wall stop_throws flushed is s =
     (let (items, stopped, r, s') = remove_members cancelled wall stop_throws is s
      in if r = RemoveEnds \<and> stopped \<noteq> [] \<and> \<not> flushed
         then (items, RemoveRaises (Some ''native publication flush did not complete''), s')
         else (items, r, s'))"

subsection \<open>The member table\<close>

text \<open>Every registered robot is an open member of this Run and owns its namespace; every reserved namespace belongs
  to a registered robot.\<close>

definition entry_ok :: "server \<Rightarrow> string \<Rightarrow> nat \<Rightarrow> bool" where
  "entry_ok s robot a \<longleftrightarrow> a < fresh s \<and> id_robot (identity (heap s a)) = robot
     \<and> id_run (identity (heap s a)) = run_id (options s) \<and> id_target (identity (heap s a)) = target_id (options s)
     \<and> \<not> closing (heap s a) \<and> member_namespace (configuration (heap s a)) \<noteq> []
     \<and> sm_find (namespaces s) (member_namespace (configuration (heap s a))) = Some robot"

definition table_ok :: "server \<Rightarrow> bool" where
  "table_ok s \<longleftrightarrow> sm_ok (members s) \<and> sm_ok (namespaces s) \<and> length (members s) \<le> kMaximumRobots
     \<and> (\<forall>robot a. sm_find (members s) robot = Some a \<longrightarrow> entry_ok s robot a)
     \<and> (\<forall>ns robot. sm_find (namespaces s) ns = Some robot \<longrightarrow>
          (\<exists>a. sm_find (members s) robot = Some a \<and> member_namespace (configuration (heap s a)) = ns))"

text \<open>Sections that leave the table and the fixed part of the members alone.\<close>

definition table_frame :: "server \<Rightarrow> server \<Rightarrow> bool" where
  "table_frame s s' \<longleftrightarrow> members s' = members s \<and> namespaces s' = namespaces s \<and> options s' = options s
     \<and> fresh s \<le> fresh s' \<and> (\<forall>a < fresh s. identity (heap s' a) = identity (heap s a)
         \<and> configuration (heap s' a) = configuration (heap s a) \<and> closing (heap s' a) = closing (heap s a))"

named_theorems table_frames

lemma table_frame_refl [table_frames]: "table_frame s s"
  by (simp add: table_frame_def)

lemma table_frame_trans: "table_frame s t \<Longrightarrow> table_frame t u \<Longrightarrow> table_frame s u"
  by (auto simp: table_frame_def)

lemma table_okD:
  assumes "table_ok s"
  shows "sm_ok (members s)" "sm_ok (namespaces s)" "length (members s) \<le> kMaximumRobots"
    "sm_find (members s) robot = Some a \<Longrightarrow> entry_ok s robot a"
    "sm_find (namespaces s) ns = Some robot \<Longrightarrow>
       \<exists>a. sm_find (members s) robot = Some a \<and> member_namespace (configuration (heap s a)) = ns"
  using assms by (simp_all add: table_ok_def)

lemma table_frame_ok:
  assumes "table_frame s s'" "table_ok s"
  shows "table_ok s'"
proof -
  have e: "entry_ok s' robot a" if "sm_find (members s) robot = Some a" for robot a
    using table_okD(4) [OF assms(2) that] assms(1) by (simp add: entry_ok_def table_frame_def)
  have n: "\<exists>a. sm_find (members s) robot = Some a \<and> member_namespace (configuration (heap s' a)) = ns"
    if found: "sm_find (namespaces s) ns = Some robot" for ns robot
  proof -
    obtain a where a: "sm_find (members s) robot = Some a" "member_namespace (configuration (heap s a)) = ns"
      using table_okD(5) [OF assms(2) found] by blast
    with table_okD(4) [OF assms(2) a(1)] assms(1) show ?thesis by (auto simp: entry_ok_def table_frame_def)
  qed
  show ?thesis using e n table_okD(1-3) [OF assms(2)] assms(1) by (simp add: table_ok_def table_frame_def)
qed

lemma table_frame_fold: "(\<And>x t. x \<in> set xs \<Longrightarrow> table_frame t (f x t)) \<Longrightarrow> table_frame s (fold f xs s)"
proof (induction xs arbitrary: s)
  case (Cons x xs)
  then show ?case using table_frame_trans [of s "f x s"] by simp
qed (simp add: table_frame_refl)

lemma notifyStatus_frame [table_frames]: "table_frame s (notifyStatus w c s)"
  by (simp add: table_frame_def)

lemma workerFailed_frame [table_frames]: "table_frame s (workerFailed o1 w s)"
  by (simp add: table_frame_def workerFailed_def requestStop_def setDetail_def)

lemma stopMember_frame [table_frames]: "table_frame s (stopMember a s)"
  by (simp add: table_frame_def stopMember_def stop_control_def Let_def put_def)

lemma refuse_frame [table_frames]: "table_frame s (refuse call k co t w s)"
  by (simp add: table_frame_def refuse_def finishExecute_def)

lemma cancelNative_frame [table_frames]: "table_frame s (snd (cancelNative a s))"
  by (simp add: table_frame_def cancelNative_def Let_def)

lemma put_frame: "identity m = identity (heap s a) \<Longrightarrow> configuration m = configuration (heap s a) \<Longrightarrow>
    closing m = closing (heap s a) \<Longrightarrow> table_frame s (put a m s)"
  by (simp add: table_frame_def)

lemma finish_queue_frame [table_frames]: "table_frame s (finish_queue co t w a s)"
proof -
  have "table_frame s (fold (\<lambda>call. refuse call ERROR_CLASS_CANCELLED co t w) (commands (heap s a)) s)"
    by (intro table_frame_fold refuse_frame)
  then show ?thesis
    unfolding finish_queue_def Let_def by (rule table_frame_trans) (simp add: put_frame)
qed

lemma finish_active_frame [table_frames]: "table_frame s (finish_active t w a s)"
  by (simp add: table_frame_def finish_active_def Let_def refuse_def finishExecute_def split: option.split)

lemma fenceCommands_frame [table_frames]: "table_frame s (fenceCommands w as s)"
  unfolding fenceCommands_def fence_member_def fence_member_dead_def
  by (auto intro!: table_frame_fold intro: table_frame_trans [OF cancelNative_frame finish_queue_frame]
      table_frame_trans [OF finish_active_frame finish_queue_frame])

lemma emitTelemetry_frame [table_frames]: "table_frame s (emitTelemetry bytes a msg s)"
  by (simp add: table_frame_def emitTelemetry_def Let_def)

lemma reconcileMemberStatus_frame [table_frames]: "table_frame s (reconcileMemberStatus bytes emitted a s)"
proof -
  let ?m = "(heap s a)\<lparr>latest := forget (wanted_channels (heap s a) (subscribers s) - status_channels (heap s a)) (latest (heap s a))\<rparr>"
  have "table_frame s (put a ?m s)" by (simp add: put_frame)
  moreover have "table_frame (put a ?m s) (fold (emitTelemetry bytes a) emitted (put a ?m s))"
    by (intro table_frame_fold emitTelemetry_frame)
  ultimately have "table_frame s (fold (emitTelemetry bytes a) emitted (put a ?m s))" by (rule table_frame_trans)
  then show ?thesis
    unfolding reconcileMemberStatus_def Let_def
    using table_frame_trans [OF _ put_frame] by (auto simp: table_frame_refl)
qed

subsection \<open>Registration keeps the table\<close>

lemma publish_ok:
  assumes ok: "table_ok s" and a: "a < fresh s" "a \<notin> snd ` set (members s)"
    and new: "sm_find (members s) (id_robot (reg_identity r)) = None"
      "sm_find (namespaces s) (member_namespace (reg_configuration r)) = None" "length (members s) < kMaximumRobots"
    and m: "identity (heap s a) = reg_identity r" "configuration (heap s a) = reg_configuration r"
      "id_run (reg_identity r) = run_id (options s)" "id_target (reg_identity r) = target_id (options s)"
      "member_namespace (reg_configuration r) \<noteq> []"
  shows "table_ok (snd (apply_publish r a s))"
proof -
  let ?i = "reg_identity r" and ?ns = "member_namespace (reg_configuration r)"
  let ?s = "(put a ((heap s a)\<lparr>closing := False\<rparr>) s)\<lparr>members := sm_set (id_robot ?i) a (members s),
      namespaces := sm_set ?ns (id_robot ?i) (namespaces s), members_revision := Suc (members_revision s)\<rparr>"
  note t = table_okD [OF ok]
  have other: "b \<noteq> a" if "sm_find (members s) robot = Some b" for robot b
    using sm_find_in [OF that] a(2) by force
  have e: "entry_ok ?s robot b" if found: "sm_find (members ?s) robot = Some b" for robot b
  proof (cases "robot = id_robot ?i")
    case True
    with found t(1,2) a(1) m show ?thesis by (simp add: entry_ok_def smap.find_set)
  next
    case False
    with found t(1) have b: "sm_find (members s) robot = Some b" by (simp add: smap.find_set)
    with t(4) [OF b] other [OF b] t(2) new(2) show ?thesis by (auto simp: entry_ok_def smap.find_set)
  qed
  have n: "\<exists>b. sm_find (members ?s) robot = Some b \<and> member_namespace (configuration (heap ?s b)) = ns"
    if found: "sm_find (namespaces ?s) ns = Some robot" for ns robot
  proof (cases "ns = ?ns")
    case True
    with found t(1,2) m(2) show ?thesis by (simp add: smap.find_set)
  next
    case False
    with found t(2) have "sm_find (namespaces s) ns = Some robot" by (simp add: smap.find_set)
    then obtain b where b: "sm_find (members s) robot = Some b" "member_namespace (configuration (heap s b)) = ns"
      using t(5) by blast
    with other [OF b(1)] new(1) t(1) show ?thesis by (auto simp: smap.find_set)
  qed
  have "table_ok ?s"
    unfolding table_ok_def using t(1,2) new(1,3) e n by (simp add: smap.ok_set smap.size_set)
  then show ?thesis using ok table_frame_ok [OF notifyStatus_frame] by (simp add: apply_publish_def Let_def)
qed

lemma registration_checked:
  assumes "registration_error c r s = []"
  shows "phase s = Ready" "validIdentity (reg_identity r)" "id_run (reg_identity r) = run_id (options s)"
    "id_target (reg_identity r) = target_id (options s)" "rr_robot_id (reg_configuration r) = id_robot (reg_identity r)"
    "member_namespace (reg_configuration r) \<noteq> []" "length (rr_channels (reg_configuration r)) \<le> kMaximumChannelsPerRobot"
  using assms
  by (auto simp: registration_error_def Let_def member_namespace_def configFrom_def split: if_splits option.splits)

lemma apply_create_cases:
  assumes "apply_create env r l s = (x, s')"
  obtains (failed) cls e where "x = Inl (cls, e)" "table_frame s s'" "phase s' = phase s" "fresh s' = fresh s"
  | (made) robot where "x = Inr (fresh s)"
      "s' = (put (fresh s) (new_member (reg_identity r) (reg_configuration r) robot l (created_at env)) s)\<lparr>fresh := Suc (fresh s)\<rparr>"
proof (cases "created env")
  case (Broke what)
  with assms failed show thesis by (auto simp: apply_create_def table_frame_refl)
next
  case (Returned n error bad)
  have wf: "table_frame s (workerFailed w o1 (s\<lparr>retained := rs\<rparr>))" "phase (workerFailed w o1 (s\<lparr>retained := rs\<rparr>)) = phase s"
    "fresh (workerFailed w o1 (s\<lparr>retained := rs\<rparr>)) = fresh s" for w o1 rs
    by (simp_all add: table_frame_def workerFailed_def requestStop_def setDetail_def)
  show thesis
  proof (cases "creation_error n error bad = []")
    case True
    then obtain robot where "n = Some robot" by (cases n) (auto simp: creation_error_def Let_def split: if_splits)
    with assms Returned True show thesis by (intro made [of robot]) (auto simp: apply_create_def)
  next
    case False
    show thesis
    proof (cases n)
      case None
      with assms Returned False show thesis by (intro failed) (auto simp: apply_create_def table_frame_refl)
    next
      case (Some robot)
      with assms Returned False have "\<exists>cls. x = Inl (cls, creation_error n error bad)" "table_frame s s'"
        "phase s' = phase s" "fresh s' = fresh s"
        by (cases "cleanup_throws env"; auto simp: apply_create_def table_frame_refl wf)+
      then show thesis using failed by blast
    qed
  qed
qed

lemma lookup_cases:
  assumes "apply_lookup lc r s = (x, s')"
  obtains (known) a where "x = AlreadyApplied" "s' = s" "sm_find (members s) (id_robot (reg_identity r)) = Some a"
      "id_epoch (identity (heap s a)) = id_epoch (reg_identity r)" "configuration (heap s a) = reg_configuration r"
  | (conflict) e where "x = TableRefuses e" "s' = s"
  | (admitted) l where "x = Lane l" "s' = s\<lparr>next_lane := Suc (next_lane s)\<rparr>"
      "sm_find (members s) (id_robot (reg_identity r)) = None"
      "sm_find (namespaces s) (member_namespace (reg_configuration r)) = None" "length (members s) < kMaximumRobots"
  using assms by (auto simp: apply_lookup_def Let_def split: if_splits option.splits)

lemma phase_frame [table_frames]: "table_frame s (s\<lparr>phase := p\<rparr>)"
  by (simp add: table_frame_def)

lemma make_member_ok:
  assumes "table_ok s"
  shows "table_ok ((put (fresh s) m s)\<lparr>fresh := Suc (fresh s)\<rparr>)"
  by (rule table_frame_ok [OF _ assms]) (simp add: table_frame_def)

lemma table_addresses: "table_ok s \<Longrightarrow> a \<in> snd ` set (members s) \<Longrightarrow> a < fresh s"
  using table_okD(1,4) sm_in_find by (fastforce simp: entry_ok_def)

lemma apply_one_ok:
  assumes ok: "table_ok s"
  shows "table_ok (snd (apply_one bytes env r s))"
proof (cases "registration_error (work_cancelled env) r s = []")
  case False
  then show ?thesis using ok by (simp add: apply_one_def Let_def)
next
  case True
  note checked = registration_checked [OF True]
  obtain x s1 where x: "apply_lookup (binding_lanes env) r s = (x, s1)" by fastforce
  then show ?thesis
  proof (cases rule: lookup_cases)
    case (admitted l)
    have ok1: "table_ok s1" using ok admitted(2) by (simp add: table_ok_def entry_ok_def)
    obtain y s2 where y: "apply_create env r l s1 = (y, s2)" by fastforce
    then show ?thesis
    proof (cases rule: apply_create_cases)
      case (failed cls e)
      have "table_ok s2" "table_ok (s2\<lparr>phase := Draining\<rparr>)"
        using table_frame_ok [OF failed(2) ok1] table_frame_ok [OF phase_frame] by simp_all
      moreover have "table_ok (workerFailed o1 w s2)" "table_ok (workerFailed o1 w (s2\<lparr>phase := Draining\<rparr>))" for o1 w
        using calculation table_frame_ok [OF workerFailed_frame] by simp_all
      ultimately show ?thesis
        using True x y failed(1) unfolding admitted(1) by (simp add: apply_one_def Let_def split: option.split)
    next
      case (made robot)
      let ?s3 = "if drain_begins env then s2\<lparr>phase := Draining\<rparr> else s2" and ?a = "fresh s1"
      have ok2: "table_ok s2" using make_member_ok [OF ok1] made(2) by simp
      then have ok3: "table_ok ?s3" using table_frame_ok [OF phase_frame] by simp
      have "table_ok (snd (apply_publish r ?a ?s3))"
      proof (rule publish_ok [OF ok3])
        show "?a \<notin> snd ` set (members ?s3)"
          using table_addresses [OF ok1, of ?a] made(2) by auto
      qed (use admitted checked made in \<open>simp_all add: new_member_def\<close>)
      moreover have "table_ok (notifyCommandMemberChange t)" if "table_ok t" for t
        using that by (simp add: notifyCommandMemberChange_def table_ok_def entry_ok_def)
      ultimately have pub: "table_ok (reconcileMemberStatus bytes em ?a (notifyCommandMemberChange (snd (apply_publish r ?a ?s3))))"
        for em using table_frame_ok [OF reconcileMemberStatus_frame] by blast
      have late: "table_ok (stopMember ?a ?s3)" "table_ok (workerFailed o1 w ?s3)" for o1 w
        using table_frame_ok [OF stopMember_frame ok3] table_frame_ok [OF workerFailed_frame ok3] by simp_all
      show ?thesis
      proof (cases "phase ?s3 = Ready")
        case ready: True
        then have "fst (apply_publish r ?a ?s3)" by (simp add: apply_publish_def Let_def)
        with pub True x admitted y made(1) show ?thesis
          by (cases "apply_publish r ?a ?s3") (simp add: apply_one_def Let_def)
      next
        case False
        then have "apply_publish r ?a ?s3 = (False, ?s3)" by (simp add: apply_publish_def Let_def)
        with late True x admitted y made(1) show ?thesis
          by (cases "drain_begins env") (simp_all add: apply_one_def Let_def split: option.split)
      qed
    qed
  qed (use True x ok in \<open>simp_all add: apply_one_def Let_def\<close>)
qed

subsection \<open>Removal keeps the table\<close>

lemma apply_members_ok: "table_ok s \<Longrightarrow> table_ok (snd (apply_members bytes batch s))"
proof (induction bytes batch s rule: apply_members.induct)
  case (2 bytes env r rest s)
  with apply_one_ok [of s bytes env r] show ?case
    by (cases "apply_one bytes env r s") (auto simp: Let_def split: prod.splits)
qed simp

lemma namespace_owner:
  assumes "table_ok s" "sm_find (members s) robot = Some a" "sm_find (members s) robot' = Some b" "robot \<noteq> robot'"
  shows "member_namespace (configuration (heap s a)) \<noteq> member_namespace (configuration (heap s b))" "a \<noteq> b"
  using table_okD(4) [OF assms(1,2)] table_okD(4) [OF assms(1,3)] assms(4) by (auto simp: entry_ok_def)

lemma remove_take_ok:
  assumes ok: "table_ok s"
  shows "table_ok (snd (remove_take i s))"
proof (cases "remove_take i s")
  case (Pair x s')
  show ?thesis
  proof (cases x)
    case (Taken a)
    let ?m = "heap s a"
    let ?s = "(put a (?m\<lparr>closing := True\<rparr>) s)\<lparr>namespaces := sm_erase (member_namespace (configuration ?m)) (namespaces s),
        members := sm_erase (id_robot i) (members s), members_revision := Suc (members_revision s)\<rparr>"
    have found: "sm_find (members s) (id_robot i) = Some a" and s': "s' = notifyStatus (Some (identity ?m)) None ?s"
      using Pair Taken by (auto simp: remove_take_def Let_def split: option.splits if_splits)
    note t = table_okD [OF ok]
    have ns: "sm_find (namespaces s) (member_namespace (configuration ?m)) = Some (id_robot i)"
      using t(4) [OF found] by (simp add: entry_ok_def)
    have e: "entry_ok ?s robot b" if fb: "sm_find (members ?s) robot = Some b" for robot b
    proof -
      have r: "robot \<noteq> id_robot i" "sm_find (members s) robot = Some b"
        using fb t(1) by (auto simp: smap.find_erase split: if_splits)
      with namespace_owner [OF ok r(2) found r(1)] t(4) [OF r(2)] t(2) show ?thesis
        by (auto simp: entry_ok_def smap.find_erase)
    qed
    have n: "\<exists>b. sm_find (members ?s) robot = Some b \<and> member_namespace (configuration (heap ?s b)) = x"
      if fn: "sm_find (namespaces ?s) x = Some robot" for x robot
    proof -
      have x: "x \<noteq> member_namespace (configuration ?m)" "sm_find (namespaces s) x = Some robot"
        using fn t(2) by (auto simp: smap.find_erase split: if_splits)
      then obtain b where b: "sm_find (members s) robot = Some b" "member_namespace (configuration (heap s b)) = x"
        using t(5) by blast
      with x(1) found have "robot \<noteq> id_robot i" "b \<noteq> a" by auto
      with b t(1) show ?thesis by (auto simp: smap.find_erase)
    qed
    have "table_ok ?s"
      unfolding table_ok_def using t(1-3) e n le_trans [OF smap.size_erase_le] by (simp add: smap.ok_erase)
    then show ?thesis using table_frame_ok [OF notifyStatus_frame] s' Pair by simp
  qed (use Pair ok in \<open>auto simp: remove_take_def Let_def split: option.splits if_splits\<close>)
qed

lemma remove_one_ok: "table_ok s \<Longrightarrow> table_ok (snd (remove_one cancelled wall throws i s))"
  using remove_take_ok [of s i] table_frame_ok [OF fenceCommands_frame] table_frame_ok [OF stopMember_frame]
  by (auto simp: remove_one_def Let_def split: prod.splits take_answer.splits option.splits)

lemma remove_members_ok: "table_ok s \<Longrightarrow> table_ok (snd (snd (snd (remove_members cancelled wall throws is s))))"
proof (induction cancelled wall throws "is" s rule: remove_members.induct)
  case (2 cancelled wall throws i "is" s)
  with remove_one_ok [of s cancelled wall throws i] show ?case
    by (cases "remove_one cancelled wall throws i s") (auto simp: Let_def split: remove_progress.splits prod.splits)
qed simp

lemma stop_or_fail_frame: "table_frame s (stop_or_fail throws a s)"
  by (simp add: stop_or_fail_def stopMember_frame workerFailed_frame split: option.split)

lemma closeAllMembers_ok: "table_ok (closeAllMembers wall throws flushed s)" "members (closeAllMembers wall throws flushed s) = []"
proof -
  obtain as s1 where c: "close_table s = (as, s1)" by fastforce
  have s1: "members s1 = []" "namespaces s1 = []" using c by (auto simp: close_table_def Let_def)
  then have "table_ok s1" by (simp add: table_ok_def)
  moreover have "table_frame s1 (fenceCommands wall as s1)" by (rule fenceCommands_frame)
  moreover have "table_frame (fenceCommands wall as s1) (fold (stop_or_fail throws) as (fenceCommands wall as s1))"
    by (intro table_frame_fold stop_or_fail_frame)
  ultimately have f: "table_frame s1 (fold (stop_or_fail throws) as (fenceCommands wall as s1))"
    by (meson table_frame_trans)
  then have g: "table_frame s1 (workerFailed w o1 (fold (stop_or_fail throws) as (fenceCommands wall as s1)))" for w o1
    using table_frame_trans workerFailed_frame by blast
  show "table_ok (closeAllMembers wall throws flushed s)"
    using table_frame_ok [OF f \<open>table_ok s1\<close>] table_frame_ok [OF g \<open>table_ok s1\<close>] c
    by (simp add: closeAllMembers_def Let_def)
  show "members (closeAllMembers wall throws flushed s) = []"
    using f g c s1 by (simp add: closeAllMembers_def Let_def table_frame_def)
qed

subsection \<open>Runs of the registration thread\<close>

text \<open>The jobs of the registration thread in any order, with everything else the server does in between.\<close>

inductive member_step :: "server \<Rightarrow> server \<Rightarrow> bool" where
  applies: "member_step s (snd (apply_members bytes batch s))"
| removes: "member_step s (snd (snd (snd (remove_members cancelled wall stop_throws is s))))"
| stops: "member_step s (stopMember a s)"
| closes: "member_step s (closeAllMembers wall stop_throws flushed s)"
| other: "table_frame s s' \<Longrightarrow> member_step s s'"

lemma member_step_ok: "member_step s s' \<Longrightarrow> table_ok s \<Longrightarrow> table_ok s'"
  by (induction rule: member_step.induct)
     (simp_all add: apply_members_ok remove_members_ok closeAllMembers_ok table_frame_ok [OF stopMember_frame] table_frame_ok)

lemma initial_table_ok: "table_ok (initial_server opts inst owner d)"
  by (simp add: table_ok_def initial_server_def)

lemma member_steps_ok: "member_step\<^sup>*\<^sup>* s s' \<Longrightarrow> table_ok s \<Longrightarrow> table_ok s'"
  by (induction rule: rtranclp_induct) (auto intro: member_step_ok)

subsection \<open>Properties\<close>

lemma reconcile_revision: "members_revision (reconcileMemberStatus bytes emitted a (notifyCommandMemberChange s)) = members_revision s"
proof -
  have "members_revision (fold (emitTelemetry bytes a) emitted t) = members_revision t" for t
    by (induction emitted arbitrary: t) (simp_all add: emitTelemetry_def Let_def)
  then show ?thesis by (simp add: reconcileMemberStatus_def notifyCommandMemberChange_def Let_def)
qed

text \<open>C9: whatever batches are applied and removed, at most 256 robots are registered, every registered robot is an
  open member of this Run under its own id, and no two registered robots share a ROS namespace.\<close>

theorem member_table_invariant:
  assumes "member_step\<^sup>*\<^sup>* (initial_server opts inst owner d) s"
  shows "length (members s) \<le> 256
    \<and> (\<forall>robot a. sm_find (members s) robot = Some a \<longrightarrow> \<not> closing (heap s a) \<and> id_robot (identity (heap s a)) = robot
          \<and> id_run (identity (heap s a)) = run_id (options s) \<and> id_target (identity (heap s a)) = target_id (options s))
    \<and> (\<forall>robot robot' a b. sm_find (members s) robot = Some a \<longrightarrow> sm_find (members s) robot' = Some b \<longrightarrow> robot \<noteq> robot' \<longrightarrow>
          a \<noteq> b \<and> member_namespace (configuration (heap s a)) \<noteq> member_namespace (configuration (heap s b)))"
proof -
  have ok: "table_ok s" by (rule member_steps_ok [OF assms initial_table_ok])
  then show ?thesis
    using table_okD(3) [OF ok] table_okD(4) [OF ok] namespace_owner [OF ok]
    by (auto simp: kMaximumRobots_def entry_ok_def)
qed

text \<open>applying a registration that is in place already succeeds and changes nothing.\<close>

theorem apply_idempotent:
  assumes "registration_error (work_cancelled env) r s = []" "sm_find (members s) (id_robot (reg_identity r)) = Some a"
    "id_epoch (identity (heap s a)) = id_epoch (reg_identity r)" "configuration (heap s a) = reg_configuration r"
  shows "apply_one bytes env r s = ((reg_identity r, None), s)"
  using assms by (simp add: apply_one_def apply_lookup_def Let_def)

text \<open>a registration that succeeds for a robot not yet registered makes exactly this identity selectable, as an
  open member with no command, no control and the requested configuration, and reserves its namespace.\<close>

theorem apply_publishes:
  assumes "table_ok s" "sm_find (members s) (id_robot (reg_identity r)) = None"
    "apply_one bytes env r s = ((i, None), s')"
  shows "\<exists>a. selectedMember (reg_identity r) s' = Some a \<and> \<not> closing (heap s' a)
    \<and> configuration (heap s' a) = reg_configuration r
    \<and> sm_find (namespaces s') (member_namespace (reg_configuration r)) = Some (id_robot (reg_identity r))
    \<and> members_revision s' = Suc (members_revision s)"
proof -
  let ?i = "reg_identity r" and ?ns = "member_namespace (reg_configuration r)"
  have e: "registration_error (work_cancelled env) r s = []"
    using assms(3) by (auto simp: apply_one_def Let_def split: if_splits)
  obtain l where l: "apply_lookup (binding_lanes env) r s = (Lane l, s\<lparr>next_lane := Suc (next_lane s)\<rparr>)"
    using assms(2,3) e by (auto simp: apply_one_def apply_lookup_def Let_def split: option.splits if_splits)
  let ?s1 = "s\<lparr>next_lane := Suc (next_lane s)\<rparr>"
  obtain y s2 where y: "apply_create env r l ?s1 = (y, s2)" by fastforce
  then show ?thesis
  proof (cases rule: apply_create_cases)
    case (failed cls tx)
    with assms(3) e l y show ?thesis by (simp add: apply_one_def Let_def)
  next
    case (made robot)
    let ?s3 = "if drain_begins env then s2\<lparr>phase := Draining\<rparr> else s2" and ?a = "fresh s"
    have ready: "phase ?s3 = Ready"
      using assms(3) e l y made by (auto simp: apply_one_def Let_def apply_publish_def split: if_splits)
    let ?p = "snd (apply_publish r ?a ?s3)"
    have s': "s' = reconcileMemberStatus bytes (demand_emits env) ?a (notifyCommandMemberChange ?p)"
      using assms(3) e l y made ready by (cases "apply_publish r ?a ?s3") (auto simp: apply_one_def Let_def apply_publish_def)
    have p: "heap ?p ?a = (new_member ?i (reg_configuration r) robot l (created_at env))\<lparr>closing := False\<rparr>"
      "members ?p = sm_set (id_robot ?i) ?a (members s)" "namespaces ?p = sm_set ?ns (id_robot ?i) (namespaces s)"
      "members_revision ?p = Suc (members_revision s)" "fresh ?p = Suc (fresh s)"
      using ready made by (auto simp: apply_publish_def Let_def)
    have f: "table_frame (notifyCommandMemberChange ?p) s'" unfolding s' by (rule reconcileMemberStatus_frame)
    then have f': "heap s' ?a = heap s' ?a" "members s' = members ?p" "namespaces s' = namespaces ?p"
      "identity (heap s' ?a) = ?i" "configuration (heap s' ?a) = reg_configuration r" "\<not> closing (heap s' ?a)"
      using p by (auto simp: table_frame_def notifyCommandMemberChange_def new_member_def)
    have "members_revision s' = members_revision ?p"
      unfolding s' by (rule reconcile_revision)
    with f' p table_okD(1,2) [OF assms(1)] show ?thesis
      by (simp add: selectedMember_def smap.find_set)
  qed
qed

lemma fence_clears:
  assumes "once s" "a < fresh s"
  shows "commands (heap (fenceCommands wall [a] s) a) = []"
    "accounts (fenceCommands wall [a] s) = accounts s"
    "\<not> scheduler_alive (queues s) \<Longrightarrow> active_call (heap (fenceCommands wall [a] s) a) = None"
proof -
  let ?c = "snd (cancelNative a s)" and ?f = "finish_active ''native scheduler exited; reconcile outcome'' wall a s"
  have c: "accounts ?c = accounts s" "fresh ?c = fresh s" using assms(2) by (simp_all add: control_work_accounts)
  then have oc: "once ?c" using assms(1) once_cong by blast
  have f: "accounts ?f = accounts s" "fresh ?f = fresh s" "active_call (heap ?f a) = None"
    using finish_active_accounts [OF assms(2,1)] by simp_all
  then have "once ?f" using assms(1) once_cong by blast
  note fq = finish_queue_accounts [of a ?f "''server-stopped''" "''not executed: native scheduler exited''" wall]
  note cq = finish_queue_accounts [of a ?c "''member-removed''" "''not executed: member removed''" wall]
  from fq cq c f oc \<open>once ?f\<close> assms(2) show "commands (heap (fenceCommands wall [a] s) a) = []"
    "accounts (fenceCommands wall [a] s) = accounts s"
    "\<not> scheduler_alive (queues s) \<Longrightarrow> active_call (heap (fenceCommands wall [a] s) a) = None"
    by (auto simp: fenceCommands_def fence_member_def fence_member_dead_def)
qed


text \<open>once the server is not ready any more, no robot appears: a registration is refused and the table stays as
  it is, also when the drain begins while the robot's native object is being created.\<close>

theorem no_member_after_drain:
  assumes "phase s \<noteq> Ready \<or> drain_begins env"
  shows "members (snd (apply_one bytes env r s)) = members s
    \<and> (snd (fst (apply_one bytes env r s)) = None \<longrightarrow>
        phase s = Ready \<and> (\<exists>a. sm_find (members s) (id_robot (reg_identity r)) = Some a))"
proof (cases "registration_error (work_cancelled env) r s = []")
  case False
  then show ?thesis by (simp add: apply_one_def Let_def)
next
  case True
  then have ready: "phase s = Ready" and d: "drain_begins env" using registration_checked(1) [OF True] assms by auto
  obtain x s1 where x: "apply_lookup (binding_lanes env) r s = (x, s1)" by fastforce
  then show ?thesis
  proof (cases rule: lookup_cases)
    case (admitted l)
    obtain y s2 where y: "apply_create env r l s1 = (y, s2)" by fastforce
    have wf: "members (workerFailed o1 w t) = members t" "members (stopMember a t) = members t" for o1 w a t
      by (simp_all add: workerFailed_def requestStop_def setDetail_def stopMember_def stop_control_def Let_def)
    from y have m: "members s2 = members s" using admitted(2)
      by (cases rule: apply_create_cases) (auto simp: table_frame_def)
    show ?thesis
    proof (cases y)
      case (Inl e)
      with True x y admitted(1) m d show ?thesis
        by (cases e) (simp add: apply_one_def Let_def wf split: option.split)
    next
      case (Inr a)
      with True x y admitted(1) m d show ?thesis
        by (simp add: apply_one_def Let_def apply_publish_def wf split: option.split)
    qed
  qed (use True x ready in \<open>simp_all add: apply_one_def Let_def\<close>)
qed

subsection \<open>A registered robot\<close>

definition ex_ready :: server where
  "ex_ready = (initial_server (example_options ''r'' ''nr'') [] [] ex_holder)\<lparr>phase := Ready\<rparr>"

definition ex_reg :: registration where
  "ex_reg = \<lparr>reg_identity = \<lparr>id_target = ''t'', id_run = ''r'', id_robot = ''b'', id_epoch = 1\<rparr>, reg_configuration = ex_config\<rparr>"

definition ex_env :: apply_env where
  "ex_env = \<lparr>work_cancelled = False, binding_lanes = 2, created = Returned (Some ex_driver) [] False, cleanup_throws = None,
     drain_begins = False, late_stop_throws = None, created_at = 0, demand_emits = []\<rparr>"

lemma ex_reg_checked: "registration_error False ex_reg ex_ready = []"
  by (simp add: registration_error_def Let_def ex_ready_def initial_server_def ex_reg_def configFrom_def ex_config_def
      validIdentity_def ValidRobotIdentity_def validRobotId_def char_tests example_options_def kMaximumChannelsPerRobot_def
      crosses_environment_def)

definition ex_registry :: server where
  "ex_registry = snd (apply_one (\<lambda>_. 10) ex_env ex_reg ex_ready)"

lemma ex_env_sel: "work_cancelled ex_env = False" "drain_begins ex_env = False"
  by (simp_all add: ex_env_def)

lemma ex_registry_item: "fst (apply_one (\<lambda>_. 10) ex_env ex_reg ex_ready) = (reg_identity ex_reg, None)"
  using ex_reg_checked
  by (simp add: apply_one_def Let_def apply_lookup_def ex_env_def apply_create_def creation_error_def apply_publish_def
      ex_ready_def initial_server_def kMaximumRobots_def)

lemma ex_registry_members: "members ex_registry = [(''b'', 0)]" "phase ex_registry = Ready"
  using ex_reg_checked
  by (simp_all add: ex_registry_def apply_one_def Let_def apply_lookup_def ex_env_def apply_create_def creation_error_def
      apply_publish_def ex_ready_def initial_server_def kMaximumRobots_def reconcileMemberStatus_def notifyStatus_def
      notifyCommandMemberChange_def ex_reg_def wanted_channels_def new_member_def)

lemma ex_registry_member: "identity (heap ex_registry 0) = reg_identity ex_reg" "configuration (heap ex_registry 0) = ex_config"
  using ex_reg_checked
  by (simp_all add: ex_registry_def apply_one_def Let_def apply_lookup_def ex_env_def apply_create_def creation_error_def
      apply_publish_def ex_ready_def initial_server_def kMaximumRobots_def reconcileMemberStatus_def notifyStatus_def
      notifyCommandMemberChange_def ex_reg_def wanted_channels_def new_member_def)

lemma ex_ready_ok: "table_ok ex_ready"
  using table_frame_ok [OF phase_frame initial_table_ok] by (simp add: ex_ready_def)

theorem member_table_invariant_witness: "length (members ex_registry) = 1 \<and> id_robot (identity (heap ex_registry 0)) = ''b''"
proof -
  have "member_step (initial_server (example_options ''r'' ''nr'') [] [] ex_holder) ex_ready"
    unfolding ex_ready_def by (intro member_step.other phase_frame)
  moreover have "member_step ex_ready ex_registry"
    using member_step.applies [of ex_ready "\<lambda>_. 10" "[(ex_env, ex_reg)]"] by (simp add: ex_registry_def case_prod_unfold Let_def)
  ultimately have "member_step\<^sup>*\<^sup>* (initial_server (example_options ''r'' ''nr'') [] [] ex_holder) ex_registry"
    by (meson rtranclp.rtrancl_into_rtrancl rtranclp.rtrancl_refl)
  from member_table_invariant [OF this] show ?thesis by (simp add: ex_registry_members)
qed

theorem apply_idempotent_witness:
  "apply_one (\<lambda>_. 10) ex_env ex_reg ex_registry = ((reg_identity ex_reg, None), ex_registry)"
proof (rule apply_idempotent)
  have "options ex_registry = options ex_ready" "shutdown ex_registry = shutdown ex_ready"
    using ex_reg_checked
    by (simp_all add: ex_registry_def apply_one_def Let_def apply_lookup_def ex_env_def apply_create_def creation_error_def
        apply_publish_def ex_ready_def initial_server_def kMaximumRobots_def reconcileMemberStatus_def notifyStatus_def
        notifyCommandMemberChange_def wanted_channels_def new_member_def)
  then show "registration_error (work_cancelled ex_env) ex_reg ex_registry = []"
    using ex_reg_checked ex_registry_members(2)
    by (simp add: registration_error_def Let_def ex_env_sel ex_ready_def split: if_splits)
  show "sm_find (members ex_registry) (id_robot (reg_identity ex_reg)) = Some 0"
    by (simp add: ex_registry_members ex_reg_def)
qed (simp_all add: ex_registry_member ex_reg_def)

theorem apply_publishes_witness: "\<exists>a. selectedMember (reg_identity ex_reg) ex_registry = Some a \<and> \<not> closing (heap ex_registry a)"
proof -
  have "apply_one (\<lambda>_. 10) ex_env ex_reg ex_ready = ((reg_identity ex_reg, None), ex_registry)"
    using ex_registry_item by (simp add: ex_registry_def prod_eq_iff)
  from apply_publishes [OF ex_ready_ok _ this] show ?thesis
    by (auto simp: ex_ready_def initial_server_def)
qed

text \<open>A registered robot with a queued command is removed while the scheduler runs.\<close>

definition ex_removable :: server where
  "ex_removable = ex_commands\<lparr>namespaces := [(''/b'', ''b'')], options := example_options ''r'' ''nr'',
     queues := idle_queues\<lparr>scheduler_alive := True\<rparr>\<rparr>"

lemma ex_removable_sel:
  "heap ex_removable 0 = ex_holder" "fresh ex_removable = 1" "members ex_removable = [(''b'', 0)]"
  "identity ex_holder = reg_identity ex_reg" "configuration ex_holder = ex_config" "closing ex_holder = False"
  "native_call ex_holder = 0"
  by (simp_all add: ex_removable_def ex_commands_sel ex_holder_def new_member_def ex_call_def ex_reg_def)

lemma ex_removable_ok: "table_ok ex_removable" "command_inv ex_removable"
proof -
  have "accounts ex_removable = accounts ex_commands" by (simp add: ex_removable_def accounts_def replied_def)
  with ex_commands_inv show "command_inv ex_removable"
    by (simp add: command_inv_def once_def ex_removable_def)
  show "table_ok ex_removable"
    by (simp add: table_ok_def entry_ok_def ex_removable_sel sm_ok_def kMaximumRobots_def ex_reg_def member_namespace_def
        ex_config_def) (simp add: ex_removable_def example_options_def)
qed


theorem no_member_after_drain_witness:
  "members (snd (apply_one (\<lambda>_. 10) (ex_env\<lparr>drain_begins := True\<rparr>) ex_reg ex_ready)) = []"
  using no_member_after_drain [of ex_ready "ex_env\<lparr>drain_begins := True\<rparr>" "\<lambda>_. 10" ex_reg]
  by (simp add: ex_ready_def initial_server_def)

end
