(* ===== verification/Status_Calls.thy ===== *)
theory Status_Calls
  imports Status
begin

section \<open>Calls of the status stream\<close>

text \<open>
  The completion queue of \<^verbatim>\<open>SubscribeStatus\<close> in \<^verbatim>\<open>robot_server.cpp\<close> (\<^verbatim>\<open>postStatusAccept\<close>,
  \<^verbatim>\<open>startStatusCompletion\<close>, \<^verbatim>\<open>finishDirectStatusIfJoined\<close>, the counters of \<^verbatim>\<open>releaseStatus\<close>). One completion thread
  takes the tags of all calls in turn, so a tag is one step on the table of calls and the server. A
  call is waiting for a client, served by its own worker thread, or finished directly when no thread
  could be started. What gRPC reports (a client, a lost connection) and the transport's admission are
  arguments.
\<close>

datatype call_stage = AwaitsClient | HasWorker | FinishesDirectly

record status_call =
  sc_stage :: call_stage
  sc_counted :: bool
  sc_optional :: bool
  sc_owned :: bool
  sc_control :: bool
  sc_cancelled :: bool
  sc_io_done :: bool
  sc_io_ok :: bool
  sc_done_received :: bool

definition new_status_call :: status_call where
  "new_status_call = \<lparr>sc_stage = AwaitsClient, sc_counted = False, sc_optional = False, sc_owned = False,
     sc_control = False, sc_cancelled = False, sc_io_done = False, sc_io_ok = False, sc_done_received = False\<rparr>"

record status_world =
  sw_server :: server
  sw_calls :: "nat \<Rightarrow> status_call option"
  sw_next :: nat

text \<open>\<open>fails\<close>: posting threw, which ends the server.\<close>

definition postStatusAccept :: "string option option \<Rightarrow> status_world \<Rightarrow> status_world" where
  "postStatusAccept fails w =
     (case fails of
        None \<Rightarrow> w\<lparr>sw_calls := (sw_calls w)(sw_next w \<mapsto> new_status_call), sw_next := sw_next w + 1\<rparr>
      | Some what \<Rightarrow> w\<lparr>sw_server := workerFailed ''status admission'' what (sw_server w)\<rparr>)"

text \<open>Admission of a client: the transport's answer, the selection, the capacity of optional views and the
  ownership of the stream.\<close>

definition status_admit ::
    "refusal option \<Rightarrow> nat \<Rightarrow> status_request \<Rightarrow> status_call \<Rightarrow> server \<Rightarrow> refusal option \<times> status_call \<times> server" where
  "status_admit scope c request call s =
     (case scope of
        Some e \<Rightarrow> (Some e, call, s)
      | None \<Rightarrow>
          (case validateStatusSelection (options s) request of
             Inl e \<Rightarrow> (Some e, call, s)
           | Inr selection \<Rightarrow>
               let control = sel_control selection; optional = \<not> control;
                   call = call\<lparr>sc_control := control, sc_optional := optional\<rparr> in
               if optional \<and> optional_status_subscribers s \<ge> kMaximumStatusSubscribers - 1
               then (Some (RESOURCE_EXHAUSTED, ''optional status subscriber capacity exhausted''), call, s)
               else let n = optional_status_subscribers s;
                        s = (if optional then s\<lparr>optional_status_subscribers := n + 1\<rparr> else s) in
                    (case admitOwnedStatus c control (st_owner request) s of
                       (Inr owned, s) \<Rightarrow>
                         (None, call\<lparr>sc_counted := True, sc_owned := owned\<rparr>,
                          s\<lparr>status_subscribers := status_subscribers s + 1\<rparr>)
                     | (Inl e, s) \<Rightarrow>
                         (Some e, call,
                          if optional then s\<lparr>optional_status_subscribers := optional_status_subscribers s - 1\<rparr> else s))))"

text \<open>A counted call is followed by the next accept at once, any other only when it has ended.\<close>

definition accept_tag ::
    "bool \<Rightarrow> refusal option \<Rightarrow> status_request \<Rightarrow> bool \<Rightarrow> string option option \<Rightarrow> nat \<Rightarrow> status_world \<Rightarrow> status_world" where
  "accept_tag ok scope request thread fails c w =
     (case sw_calls w c of
        None \<Rightarrow> w
      | Some call \<Rightarrow>
          if \<not> ok then w\<lparr>sw_calls := (sw_calls w)(c := None)\<rparr>
          else let (result, call, s) = status_admit scope c request call (sw_server w);
                   call = call\<lparr>sc_stage := (if thread then HasWorker else FinishesDirectly)\<rparr>;
                   w = w\<lparr>sw_server := s, sw_calls := (sw_calls w)(c \<mapsto> call)\<rparr>
               in if sc_counted call \<and> \<not> shutdown s then postStatusAccept fails w else w)"

text \<open>The counters of \<^verbatim>\<open>releaseStatus\<close>, then the slot of an owned stream.\<close>

definition release_call :: "nat \<Rightarrow> status_call \<Rightarrow> server \<Rightarrow> server" where
  "release_call c call s =
     (let s = (if sc_counted call
               then s\<lparr>status_subscribers := status_subscribers s - 1,
                      optional_status_subscribers :=
                        (if sc_optional call then optional_status_subscribers s - 1 else optional_status_subscribers s)\<rparr>
               else s)
      in if sc_owned call then releaseStatus c (sc_control call) s else s)"

definition end_call :: "string option option \<Rightarrow> nat \<Rightarrow> status_call \<Rightarrow> status_world \<Rightarrow> status_world" where
  "end_call fails c call w =
     (let w = w\<lparr>sw_calls := (sw_calls w)(c := None), sw_server := release_call c call (sw_server w)\<rparr>
      in if \<not> sc_counted call \<and> \<not> shutdown (sw_server w) then postStatusAccept fails w else w)"

definition finishDirectStatusIfJoined :: "string option option \<Rightarrow> nat \<Rightarrow> status_world \<Rightarrow> status_world" where
  "finishDirectStatusIfJoined fails c w =
     (case sw_calls w c of
        None \<Rightarrow> w
      | Some call \<Rightarrow>
          if sc_stage call \<noteq> FinishesDirectly \<or> \<not> sc_io_done call \<or> \<not> sc_done_received call then w
          else end_call fails c call w)"

definition done_tag :: "bool \<Rightarrow> string option option \<Rightarrow> nat \<Rightarrow> status_world \<Rightarrow> status_world" where
  "done_tag cancelled fails c w =
     (case sw_calls w c of
        None \<Rightarrow> w
      | Some call \<Rightarrow>
          let s = (if sc_owned call \<and> sc_control call then status_done c (sw_server w) else sw_server w);
              call = call\<lparr>sc_cancelled := cancelled, sc_done_received := True\<rparr>
          in finishDirectStatusIfJoined fails c (w\<lparr>sw_server := s, sw_calls := (sw_calls w)(c \<mapsto> call)\<rparr>))"

definition io_tag :: "bool \<Rightarrow> string option option \<Rightarrow> nat \<Rightarrow> status_world \<Rightarrow> status_world" where
  "io_tag ok fails c w =
     (case sw_calls w c of
        None \<Rightarrow> w
      | Some call \<Rightarrow>
          finishDirectStatusIfJoined fails c
            (w\<lparr>sw_calls := (sw_calls w)(c \<mapsto> call\<lparr>sc_io_done := True, sc_io_ok := ok\<rparr>)\<rparr>))"

definition join_tag :: "string option option \<Rightarrow> nat \<Rightarrow> status_world \<Rightarrow> status_world" where
  "join_tag fails c w =
     (case sw_calls w c of None \<Rightarrow> w | Some call \<Rightarrow> end_call fails c call w)"

subsection \<open>Counting the calls\<close>

definition calls_where :: "(status_call \<Rightarrow> bool) \<Rightarrow> status_world \<Rightarrow> nat set" where
  "calls_where P w = {c. \<exists>call. sw_calls w c = Some call \<and> P call}"

text \<open>Tags of a call come in their order: Accept for a waiting call, the others afterwards, Join from the
  call's worker. Other threads leave the counters of the streams alone.\<close>

inductive status_step :: "status_world \<Rightarrow> status_world \<Rightarrow> bool" where
  accepts: "sw_calls w c = Some call \<Longrightarrow> sc_stage call = AwaitsClient \<Longrightarrow> (\<not> ok \<Longrightarrow> shutdown (sw_server w)) \<Longrightarrow>
    status_step w (accept_tag ok scope request thread fails c w)"
| dones: "sw_calls w c = Some call \<Longrightarrow> sc_stage call \<noteq> AwaitsClient \<Longrightarrow> status_step w (done_tag cancelled fails c w)"
| ios: "sw_calls w c = Some call \<Longrightarrow> sc_stage call \<noteq> AwaitsClient \<Longrightarrow> status_step w (io_tag ok fails c w)"
| joins: "sw_calls w c = Some call \<Longrightarrow> sc_stage call = HasWorker \<Longrightarrow> status_step w (join_tag fails c w)"
| works: "status_subscribers s = status_subscribers (sw_server w) \<Longrightarrow>
    optional_status_subscribers s = optional_status_subscribers (sw_server w) \<Longrightarrow>
    (shutdown (sw_server w) \<Longrightarrow> shutdown s) \<Longrightarrow> status_step w (w\<lparr>sw_server := s\<rparr>)"

definition status_start :: "server \<Rightarrow> status_world" where
  "status_start s = postStatusAccept None \<lparr>sw_server = s, sw_calls = (\<lambda>_. None), sw_next = 0\<rparr>"

definition status_ok :: "status_world \<Rightarrow> bool" where
  "status_ok w \<longleftrightarrow> (\<forall>c \<ge> sw_next w. sw_calls w c = None) \<and>
     status_subscribers (sw_server w) = card (calls_where sc_counted w) \<and>
     optional_status_subscribers (sw_server w) = card (calls_where (\<lambda>k. sc_counted k \<and> sc_optional k) w) \<and>
     optional_status_subscribers (sw_server w) \<le> 3 \<and>
     (\<forall>c call. sw_calls w c = Some call \<longrightarrow> sc_stage call = AwaitsClient \<longrightarrow> \<not> sc_counted call) \<and>
     card (calls_where (\<lambda>k. \<not> sc_counted k) w) \<le> 1"

text \<open>The calls of a table with a property, and how an update of one call changes them.\<close>

definition having :: "(status_call \<Rightarrow> bool) \<Rightarrow> (nat \<Rightarrow> status_call option) \<Rightarrow> nat set" where
  "having P m = {c. \<exists>call. m c = Some call \<and> P call}"

lemma calls_where_having: "calls_where P w = having P (sw_calls w)"
  by (simp add: calls_where_def having_def)

lemma having_set: "having P (m(c \<mapsto> call)) = (if P call then insert c (having P m) else having P m - {c})"
  by (auto simp: having_def)

lemma having_erase: "having P (m(c := None)) = having P m - {c}"
  by (auto simp: having_def)

lemma having_in: "m c = Some call \<Longrightarrow> c \<in> having P m \<longleftrightarrow> P call"
  by (simp add: having_def)

abbreviation uncounted :: "status_call \<Rightarrow> bool" where "uncounted k \<equiv> \<not> sc_counted k"
abbreviation viewer :: "status_call \<Rightarrow> bool" where "viewer k \<equiv> sc_counted k \<and> sc_optional k"

text \<open>\<open>tally m n s\<close>: the counters of the server agree with the table, and at most one call is not counted.\<close>

definition tally :: "(nat \<Rightarrow> status_call option) \<Rightarrow> nat \<Rightarrow> server \<Rightarrow> bool" where
  "tally m n s \<longleftrightarrow> (\<forall>c \<ge> n. m c = None) \<and> status_subscribers s = card (having sc_counted m) \<and>
     optional_status_subscribers s = card (having viewer m) \<and> optional_status_subscribers s \<le> 3 \<and>
     (\<forall>c call. m c = Some call \<longrightarrow> sc_stage call = AwaitsClient \<longrightarrow> uncounted call)"

lemma status_ok_iff:
  "status_ok w \<longleftrightarrow> tally (sw_calls w) (sw_next w) (sw_server w) \<and> card (having uncounted (sw_calls w)) \<le> 1"
  by (auto simp: status_ok_def tally_def calls_where_having)

lemma tally_finite: "tally m n s \<Longrightarrow> finite (having P m)"
  by (rule finite_subset [of _ "{..<n}"]) (auto simp: tally_def having_def not_less [symmetric])

lemma tally_same:
  "tally m n s \<Longrightarrow> status_subscribers s' = status_subscribers s \<Longrightarrow>
   optional_status_subscribers s' = optional_status_subscribers s \<Longrightarrow> tally m n s'"
  by (simp add: tally_def)

lemma having_fresh: "tally m n s \<Longrightarrow> n \<notin> having P m"
  by (auto simp: tally_def having_def)

lemma workerFailed_counters [simp]:
  "status_subscribers (workerFailed o1 w s) = status_subscribers s"
  "optional_status_subscribers (workerFailed o1 w s) = optional_status_subscribers s"
  by (simp_all add: workerFailed_def requestStop_def setDetail_def)

lemma post_ok:
  assumes "tally (sw_calls w) (sw_next w) (sw_server w)" "having uncounted (sw_calls w) = {}"
  shows "status_ok (postStatusAccept fails w)"
proof (cases fails)
  case None
  have "having sc_counted ((sw_calls w)(sw_next w \<mapsto> new_status_call)) = having sc_counted (sw_calls w)"
    "having viewer ((sw_calls w)(sw_next w \<mapsto> new_status_call)) = having viewer (sw_calls w)"
    "having uncounted ((sw_calls w)(sw_next w \<mapsto> new_status_call)) = {sw_next w}"
    using having_fresh [OF assms(1)] assms(2) by (simp_all add: having_set new_status_call_def)
  then show ?thesis
    using assms(1) None by (simp add: status_ok_iff postStatusAccept_def tally_def new_status_call_def)
next
  case (Some what)
  then show ?thesis
    using assms by (simp add: status_ok_iff postStatusAccept_def tally_same [OF assms(1)])
qed

lemma releaseStatus_counters [simp]:
  "status_subscribers (releaseStatus c k s) = status_subscribers s"
  "optional_status_subscribers (releaseStatus c k s) = optional_status_subscribers s"
  "shutdown (releaseStatus c k s) = shutdown s"
  by (simp_all add: releaseStatus_def set_slot_def Let_def)

lemma release_call_counters:
  "status_subscribers (release_call c call s) = (if sc_counted call then status_subscribers s - 1 else status_subscribers s)"
  "optional_status_subscribers (release_call c call s) =
     (if viewer call then optional_status_subscribers s - 1 else optional_status_subscribers s)"
  "shutdown (release_call c call s) = shutdown s"
  by (simp_all add: release_call_def Let_def)

lemma tally_erase:
  assumes "tally m n s" "m c = Some call"
  shows "tally (m(c := None)) n (release_call c call s)"
proof -
  have "card (having P m - {c}) = (if P call then card (having P m) - 1 else card (having P m))" for P
    using assms(2) tally_finite [OF assms(1), of P] by (simp add: having_in card_Diff_singleton_if)
  then show ?thesis
    using assms by (auto simp: tally_def having_erase release_call_counters)
qed

lemma uncounted_alone:
  assumes "card (having uncounted m) \<le> 1" "finite (having uncounted m)" "m c = Some call" "uncounted call"
  shows "having uncounted m = {c}"
proof -
  have "c \<in> having uncounted m" using assms by (simp add: having_in)
  then show ?thesis
    using assms(1,2) by (metis card_le_Suc0_iff_eq One_nat_def is_singletonI' is_singleton_the_elem singletonD empty_iff)
qed

lemma end_call_ok:
  assumes "status_ok w" "sw_calls w c = Some call"
  shows "status_ok (end_call fails c call w)"
proof -
  let ?m = "(sw_calls w)(c := None)"
  have t: "tally (sw_calls w) (sw_next w) (sw_server w)" and u: "card (having uncounted (sw_calls w)) \<le> 1"
    using assms(1) by (simp_all add: status_ok_iff)
  have t': "tally ?m (sw_next w) (release_call c call (sw_server w))"
    using tally_erase [OF t assms(2)] .
  have u': "card (having uncounted ?m) \<le> 1"
    using u card_Diff1_le [of "having uncounted (sw_calls w)" c] by (simp add: having_erase)
  have "having uncounted ?m = {}" if "uncounted call"
    using uncounted_alone [OF u tally_finite [OF t] assms(2) that] by (simp add: having_erase)
  then show ?thesis
    using t' u' post_ok [of "w\<lparr>sw_calls := ?m, sw_server := release_call c call (sw_server w)\<rparr>" fails]
    by (auto simp: end_call_def Let_def status_ok_iff)
qed

lemma flags_ok:
  assumes "status_ok w" "sw_calls w c = Some call" "sc_counted call' = sc_counted call" "sc_optional call' = sc_optional call"
    and "sc_stage call' = AwaitsClient \<Longrightarrow> sc_stage call = AwaitsClient"
    and "status_subscribers s = status_subscribers (sw_server w)"
    and "optional_status_subscribers s = optional_status_subscribers (sw_server w)"
  shows "status_ok (w\<lparr>sw_server := s, sw_calls := (sw_calls w)(c \<mapsto> call')\<rparr>)"
proof -
  have "having P ((sw_calls w)(c \<mapsto> call')) = having P (sw_calls w)" if "P call' = P call" for P
    using assms(2) that by (auto simp: having_def)
  then have "having sc_counted ((sw_calls w)(c \<mapsto> call')) = having sc_counted (sw_calls w)"
    "having viewer ((sw_calls w)(c \<mapsto> call')) = having viewer (sw_calls w)"
    "having uncounted ((sw_calls w)(c \<mapsto> call')) = having uncounted (sw_calls w)"
    using assms(3,4) by simp_all
  then show ?thesis
    using assms by (auto simp: status_ok_iff tally_def)
qed

lemma direct_ok: "status_ok w \<Longrightarrow> status_ok (finishDirectStatusIfJoined fails c w)"
  by (simp add: finishDirectStatusIfJoined_def end_call_ok split: option.split)

lemma status_done_counters [simp]:
  "status_subscribers (status_done c s) = status_subscribers s"
  "optional_status_subscribers (status_done c s) = optional_status_subscribers s"
  by (simp_all add: status_done_def markControlDownLocked_def)

lemma admit_counters:
  "status_subscribers (snd (admitOwnedStatus c k o1 s)) = status_subscribers s"
  "optional_status_subscribers (snd (admitOwnedStatus c k o1 s)) = optional_status_subscribers s"
  by (cases o1; simp add: admitOwnedStatus_def set_slot_def Let_def)+

lemma status_admit_cases:
  assumes "status_admit scope c request call s = (result, call', s')"
  obtains (refused) e where "result = Some e" "sc_counted call' = sc_counted call" "sc_stage call' = sc_stage call"
      "status_subscribers s' = status_subscribers s"
      "optional_status_subscribers s' = optional_status_subscribers s"
  | (admitted) "result = None" "sc_counted call'" "sc_stage call' = sc_stage call"
      "status_subscribers s' = status_subscribers s + 1"
      "optional_status_subscribers s' = (if sc_optional call' then optional_status_subscribers s + 1 else optional_status_subscribers s)"
      "sc_optional call' \<longrightarrow> optional_status_subscribers s < 3"
proof (cases "scope \<noteq> None \<or> (\<exists>e. validateStatusSelection (options s) request = Inl e)")
  case True
  with assms show ?thesis
    by (auto simp: status_admit_def intro: refused split: option.splits sum.splits)
next
  case False
  then obtain sel where v: "scope = None" "validateStatusSelection (options s) request = Inr sel"
    by (cases scope; cases "validateStatusSelection (options s) request") simp_all
  define s1 where "s1 = (if sel_control sel then s else s\<lparr>optional_status_subscribers := optional_status_subscribers s + 1\<rparr>)"
  obtain r s2 where a: "admitOwnedStatus c (sel_control sel) (st_owner request) s1 = (r, s2)" by fastforce
  note k = admit_counters [of c "sel_control sel" "st_owner request" s1, unfolded a snd_conv]
  show ?thesis
  proof (cases "\<not> sel_control sel \<and> 3 \<le> optional_status_subscribers s")
    case True
    with assms v show ?thesis
      by (auto simp: status_admit_def Let_def kMaximumStatusSubscribers_def intro: refused)
  next
    case False
    show ?thesis
    proof (cases r)
      case (Inl e)
      with assms v False a k s1_def show ?thesis
        by (intro refused) (auto simp: status_admit_def Let_def kMaximumStatusSubscribers_def split: if_splits)
    next
      case (Inr owned)
      with assms v False a k s1_def show ?thesis
        by (intro admitted) (auto simp: status_admit_def Let_def kMaximumStatusSubscribers_def split: if_splits)
    qed
  qed
qed

lemma tally_count:
  assumes "tally m n s" "m c = Some call" "uncounted call" "sc_counted call'" "sc_stage call' \<noteq> AwaitsClient"
    and "status_subscribers s' = status_subscribers s + 1"
    and "optional_status_subscribers s' = (if sc_optional call' then optional_status_subscribers s + 1 else optional_status_subscribers s)"
    and "sc_optional call' \<longrightarrow> optional_status_subscribers s < 3"
  shows "tally (m(c \<mapsto> call')) n s'"
proof -
  have "c \<notin> having sc_counted m" "c \<notin> having viewer m"
    using assms(2,3) by (simp_all add: having_in)
  then show ?thesis
    using assms tally_finite [OF assms(1)] by (auto simp: tally_def having_set)
qed

lemma accept_ok:
  assumes "status_ok w" "sw_calls w c = Some call" "sc_stage call = AwaitsClient"
  shows "status_ok (accept_tag ok scope request thread fails c w)"
proof -
  have t: "tally (sw_calls w) (sw_next w) (sw_server w)" and u: "card (having uncounted (sw_calls w)) \<le> 1"
    using assms(1) by (simp_all add: status_ok_iff)
  have un: "uncounted call"
    using t assms(2,3) by (auto simp: tally_def)
  have alone: "having uncounted (sw_calls w) = {c}"
    using uncounted_alone [OF u tally_finite [OF t] assms(2) un] .
  show ?thesis
  proof (cases ok)
    case False
    have "tally ((sw_calls w)(c := None)) (sw_next w) (sw_server w)"
      using tally_same [OF tally_erase [OF t assms(2)], of "sw_server w"] un by (simp add: release_call_counters)
    then show ?thesis
      using False assms(2) alone by (simp add: accept_tag_def status_ok_iff having_erase)
  next
    case True
    obtain result call1 s1 where a: "status_admit scope c request call (sw_server w) = (result, call1, s1)"
      by (metis prod_cases3)
    define call2 where "call2 = call1\<lparr>sc_stage := (if thread then HasWorker else FinishesDirectly)\<rparr>"
    let ?w = "w\<lparr>sw_server := s1, sw_calls := (sw_calls w)(c \<mapsto> call2)\<rparr>"
    have tag: "accept_tag ok scope request thread fails c w
        = (if sc_counted call2 \<and> \<not> shutdown s1 then postStatusAccept fails ?w else ?w)"
      using True assms(2) a by (simp add: accept_tag_def Let_def call2_def)
    from a show ?thesis
    proof (cases rule: status_admit_cases)
      case (refused e)
      then have c2: "uncounted call2" "sc_stage call2 \<noteq> AwaitsClient" using un by (simp_all add: call2_def)
      have h: "having sc_counted ((sw_calls w)(c \<mapsto> call2)) = having sc_counted (sw_calls w)"
        "having viewer ((sw_calls w)(c \<mapsto> call2)) = having viewer (sw_calls w)"
        "having uncounted ((sw_calls w)(c \<mapsto> call2)) = having uncounted (sw_calls w)"
        using assms(2) un c2 by (auto simp: having_def)
      then have "status_ok ?w"
        using assms(1) refused c2 assms(2) by (auto simp: status_ok_iff tally_def)
      then show ?thesis using tag c2 by simp
    next
      case admitted
      then have c2: "sc_counted call2" "sc_stage call2 \<noteq> AwaitsClient" by (simp_all add: call2_def)
      have "tally ((sw_calls w)(c \<mapsto> call2)) (sw_next w) s1"
        by (rule tally_count [OF t assms(2) un]) (use admitted c2 in \<open>simp_all add: call2_def\<close>)
      moreover have "having uncounted ((sw_calls w)(c \<mapsto> call2)) = {}"
        using alone c2 by (simp add: having_set)
      ultimately show ?thesis
        using tag post_ok [of ?w fails] by (simp add: status_ok_iff)
    qed
  qed
qed

lemma status_ok_step: "status_step w w' \<Longrightarrow> status_ok w \<Longrightarrow> status_ok w'"
proof (induction rule: status_step.induct)
  case (accepts w c call ok scope request thread fails)
  then show ?case by (intro accept_ok)
next
  case (dones w c call cancelled fails)
  let ?s = "if sc_owned call \<and> sc_control call then status_done c (sw_server w) else sw_server w"
  have "status_ok (w\<lparr>sw_server := ?s, sw_calls := (sw_calls w)(c \<mapsto> call\<lparr>sc_cancelled := cancelled, sc_done_received := True\<rparr>)\<rparr>)"
    using dones by (intro flags_ok) simp_all
  then show ?case using dones by (simp only: done_tag_def Let_def option.case direct_ok)
next
  case (ios w c call ok fails)
  have "status_ok (w\<lparr>sw_server := sw_server w, sw_calls := (sw_calls w)(c \<mapsto> call\<lparr>sc_io_done := True, sc_io_ok := ok\<rparr>)\<rparr>)"
    using ios by (intro flags_ok) simp_all
  then show ?case using ios by (simp add: io_tag_def direct_ok)
next
  case (joins w c call fails)
  then show ?case by (simp add: join_tag_def end_call_ok)
next
  case (works s w)
  then show ?case by (auto simp: status_ok_iff tally_def)
qed

lemma status_ok_reach: "status_step\<^sup>*\<^sup>* w w' \<Longrightarrow> status_ok w \<Longrightarrow> status_ok w'"
  by (induction rule: rtranclp_induct) (auto intro: status_ok_step)

lemma status_ok_start:
  assumes "status_subscribers s = 0" "optional_status_subscribers s = 0"
  shows "status_ok (status_start s)"
  unfolding status_start_def by (rule post_ok) (use assms in \<open>simp_all add: tally_def having_def\<close>)

text \<open>Whatever order the completion queue delivers the tags of the status calls in, the counters of
  subscribers agree with the calls that hold a place, at most three optional views are served at a time, and
  besides the served calls there is at most one more: the server's work is bounded.\<close>

theorem status_streams_bounded:
  assumes "status_step\<^sup>*\<^sup>* (status_start s) w" "status_subscribers s = 0" "optional_status_subscribers s = 0"
  shows "status_subscribers (sw_server w) = card (calls_where sc_counted w) \<and>
    card (calls_where (\<lambda>k. sc_counted k \<and> sc_optional k) w) \<le> 3 \<and>
    card (calls_where (\<lambda>k. \<not> sc_counted k) w) \<le> 1"
  using status_ok_reach [OF assms(1) status_ok_start [OF assms(2,3)]] by (auto simp: status_ok_def)

lemma ex_status_accept:
  "sw_calls (status_start ex_idle) 0 = Some new_status_call" if "ex_idle = initial_server default_options [] [] d"
  by (simp add: status_start_def postStatusAccept_def)

theorem status_streams_bounded_witness:
  "\<forall>d. card (calls_where (\<lambda>k. \<not> sc_counted k) (accept_tag True None \<lparr>st_selection = SelectAll True, st_owner = None\<rparr> True None 0
     (status_start (initial_server default_options [] [] d)))) \<le> 1"
proof
  fix d
  let ?s = "initial_server default_options [] [] d"
  have "status_step (status_start ?s) (accept_tag True None \<lparr>st_selection = SelectAll True, st_owner = None\<rparr> True None 0 (status_start ?s))"
    by (rule status_step.accepts [OF ex_status_accept [OF refl]]) (simp_all add: new_status_call_def)
  from status_streams_bounded [OF r_into_rtranclp [where r = status_step, OF this]]
  show "card (calls_where (\<lambda>k. \<not> sc_counted k) (accept_tag True None \<lparr>st_selection = SelectAll True, st_owner = None\<rparr> True None 0
     (status_start ?s))) \<le> 1"
    by (simp add: initial_server_def)
qed

end
