(* ===== verification/Admission.thy ===== *)
theory Admission
  imports Members "HOL-Library.Multiset"
begin

section \<open>Admission of calls\<close>

text \<open>
  What stands between a gRPC call and the work it asks for in \<^verbatim>\<open>robot_server.cpp\<close>: the phase checks
  (\<^verbatim>\<open>requireStarted\<close>, \<^verbatim>\<open>requireReady\<close>), the bounded lanes of blocking calls (\<^verbatim>\<open>BoundedWaiter\<close>), the job
  queues of the registration thread and of the command scheduler, and the handlers of the
  service that compose them. Transport admission (\<^verbatim>\<open>xrpc\<close>) is code outside the program: its answer is
  the argument \<open>admit\<close> of a handler, \<open>None\<close> when the call was admitted.
\<close>

subsection \<open>Phase checks\<close>

definition requireStarted :: "server \<Rightarrow> refusal option" where
  "requireStarted s =
     (if phase s = Starting then Some (FAILED_PRECONDITION, ''server is not ready'') else None)"

definition requireReady :: "server \<Rightarrow> refusal option" where
  "requireReady s =
     (case phase s of
        Ready \<Rightarrow> None
      | Starting \<Rightarrow> Some (FAILED_PRECONDITION, ''server is not ready'')
      | _ \<Rightarrow> Some (FAILED_PRECONDITION, ''server is draining''))"

subsection \<open>BoundedWaiter\<close>

text \<open>\<^verbatim>\<open>take\<close> is two atomic operations: it raises the counter, and lowers it again when the value it
  found was not below the maximum. \<open>waiters\<close> keeps the counter, the permits handed out and the refused
  callers that have not lowered the counter yet.\<close>

record waiters =
  wt_count :: nat
  wt_holders :: nat
  wt_refusing :: nat

definition fetch_add :: "nat \<Rightarrow> waiters \<Rightarrow> bool \<times> waiters" where
  "fetch_add maximum w =
     (if wt_count w < maximum then (True, w\<lparr>wt_count := wt_count w + 1, wt_holders := wt_holders w + 1\<rparr>)
      else (False, w\<lparr>wt_count := wt_count w + 1, wt_refusing := wt_refusing w + 1\<rparr>))"

definition fetch_sub_refused :: "waiters \<Rightarrow> waiters" where
  "fetch_sub_refused w = w\<lparr>wt_count := wt_count w - 1, wt_refusing := wt_refusing w - 1\<rparr>"

definition fetch_sub_release :: "waiters \<Rightarrow> waiters" where
  "fetch_sub_release w = w\<lparr>wt_count := wt_count w - 1, wt_holders := wt_holders w - 1\<rparr>"

inductive waiter_step :: "nat \<Rightarrow> waiters \<Rightarrow> waiters \<Rightarrow> bool" for maximum where
  takes: "waiter_step maximum w (snd (fetch_add maximum w))"
| undoes: "0 < wt_refusing w \<Longrightarrow> waiter_step maximum w (fetch_sub_refused w)"
| releases: "0 < wt_holders w \<Longrightarrow> waiter_step maximum w (fetch_sub_release w)"

inductive waiter_reach :: "nat \<Rightarrow> waiters \<Rightarrow> bool" for maximum where
  start: "waiter_reach maximum \<lparr>wt_count = 0, wt_holders = 0, wt_refusing = 0\<rparr>"
| step: "waiter_reach maximum w \<Longrightarrow> waiter_step maximum w w' \<Longrightarrow> waiter_reach maximum w'"

inductive_cases waiter_stepE: "waiter_step maximum w w'"

text \<open>Under every interleaving of callers that take, are refused and release, no more permits are
  out than the lane allows, and the counter always returns to the permits in use.\<close>

theorem lane_capacity_respected:
  assumes "waiter_reach maximum w"
  shows "wt_holders w \<le> maximum \<and> wt_count w = wt_holders w + wt_refusing w"
  using assms
  by (induction rule: waiter_reach.induct)
     (auto elim!: waiter_stepE simp: fetch_add_def fetch_sub_refused_def fetch_sub_release_def)

theorem lane_capacity_respected_witness:
  "waiter_reach 1 \<lparr>wt_count = 2, wt_holders = 1, wt_refusing = 1\<rparr> \<and>
   wt_holders \<lparr>wt_count = 2, wt_holders = 1, wt_refusing = 1\<rparr> \<le> 1"
proof -
  have "waiter_reach 1 (snd (fetch_add 1 (snd (fetch_add 1 \<lparr>wt_count = 0, wt_holders = 0, wt_refusing = 0\<rparr>))))"
    by (intro waiter_reach.step [OF _ waiter_step.takes] waiter_reach.start)
  then have "waiter_reach 1 \<lparr>wt_count = 2, wt_holders = 1, wt_refusing = 1\<rparr>"
    by (simp add: fetch_add_def numeral_2_eq_2)
  then show ?thesis
    using lane_capacity_respected by blast
qed

subsection \<open>Lanes of blocking calls\<close>

text \<open>In the handlers a completed \<^verbatim>\<open>take\<close> is one step: it takes a permit or leaves the counter.\<close>

datatype wait_lane = BlockingLane | MembershipLane | SafetyLane | ControlLane | ReadinessLane

fun lane_maximum :: "wait_lane \<Rightarrow> nat" where
  "lane_maximum BlockingLane = kMaximumBlockingCalls"
| "lane_maximum MembershipLane = kMaximumMembershipWaits"
| "lane_maximum SafetyLane = kMaximumSafetyWaits"
| "lane_maximum ControlLane = kMaximumControlWaits"
| "lane_maximum ReadinessLane = kMaximumReadinessWaits"

fun lane_count :: "wait_lane \<Rightarrow> work_lanes \<Rightarrow> nat" where
  "lane_count BlockingLane l = blocking_calls l"
| "lane_count MembershipLane l = membership_blocking_calls l"
| "lane_count SafetyLane l = safety_blocking_calls l"
| "lane_count ControlLane l = control_blocking_calls l"
| "lane_count ReadinessLane l = readiness_waits l"

fun lane_set :: "wait_lane \<Rightarrow> nat \<Rightarrow> work_lanes \<Rightarrow> work_lanes" where
  "lane_set BlockingLane n l = l\<lparr>blocking_calls := n\<rparr>"
| "lane_set MembershipLane n l = l\<lparr>membership_blocking_calls := n\<rparr>"
| "lane_set SafetyLane n l = l\<lparr>safety_blocking_calls := n\<rparr>"
| "lane_set ControlLane n l = l\<lparr>control_blocking_calls := n\<rparr>"
| "lane_set ReadinessLane n l = l\<lparr>readiness_waits := n\<rparr>"

definition take_lane :: "wait_lane \<Rightarrow> server \<Rightarrow> bool \<times> server" where
  "take_lane w s =
     (if lane_count w (lanes s) < lane_maximum w
      then (True, s\<lparr>lanes := lane_set w (lane_count w (lanes s) + 1) (lanes s)\<rparr>) else (False, s))"

definition release_lane :: "wait_lane \<Rightarrow> server \<Rightarrow> server" where
  "release_lane w s = s\<lparr>lanes := lane_set w (lane_count w (lanes s) - 1) (lanes s)\<rparr>"

datatype wait_class = SafetyCandidate | Membership

definition isSafetyRequest :: "member_identity option \<Rightarrow> operation_request option \<Rightarrow> server \<Rightarrow> bool" where
  "isSafetyRequest who op s =
     (case (who, op) of
        (Some i, Some request) \<Rightarrow>
          (case selectedMember i s of
             None \<Rightarrow> False
           | Some a \<Rightarrow> \<not> closing (heap s a) \<and> IsSafetyOperation (native (heap s a)) request)
      | _ \<Rightarrow> False)"

text \<open>The lane \<^verbatim>\<open>invoke\<close> charges: the ordinary one, else the reserved one of the call's class.\<close>

definition invoke_lane :: "wait_class \<Rightarrow> bool \<Rightarrow> server \<Rightarrow> wait_lane option \<times> server" where
  "invoke_lane cls safety s =
     (case take_lane BlockingLane s of
        (True, s) \<Rightarrow> (Some BlockingLane, s)
      | (False, s) \<Rightarrow>
          if cls = Membership then
            (case take_lane MembershipLane s of
               (True, s) \<Rightarrow> (Some MembershipLane, s) | (False, s) \<Rightarrow> (None, s))
          else if safety then
            (case take_lane SafetyLane s of
               (True, s) \<Rightarrow> (Some SafetyLane, s) | (False, s) \<Rightarrow> (None, s))
          else (None, s))"

text \<open>The admission half of \<^verbatim>\<open>invoke\<close>; the permit of a call whose job was refused is given back with it.
  The admitted call waits for \<^verbatim>\<open>finish\<close>, and its permit is released when the work really ended.\<close>

definition invoke ::
    "wait_class \<Rightarrow> bool \<Rightarrow> (server \<Rightarrow> bool \<times> server) \<Rightarrow> server \<Rightarrow> wait_lane rpc \<times> server" where
  "invoke cls safety submit s =
     (case invoke_lane cls safety s of
        (None, s) \<Rightarrow> (Inl (RESOURCE_EXHAUSTED, ''native blocking call capacity exhausted''), s)
      | (Some w, s) \<Rightarrow>
          (case submit s of
             (False, s) \<Rightarrow> (Inl (RESOURCE_EXHAUSTED, ''native dispatch queue is full''), release_lane w s)
           | (True, s) \<Rightarrow> (Inr w, s)))"

text \<open>What the caller gets while it waits: \<open>None\<close> keeps waiting.\<close>

definition invoke_wait :: "'r rpc option \<Rightarrow> bool \<Rightarrow> bool \<Rightarrow> 'r rpc option" where
  "invoke_wait finished cancelled expired =
     (case finished of
        Some r \<Rightarrow> Some r
      | None \<Rightarrow>
          if cancelled
          then Some (Inl (if expired then DEADLINE_EXCEEDED else CANCELLED,
                          ''native call cancelled or expired; reconcile its outcome''))
          else None)"

text \<open>\<^verbatim>\<open>Unary::finish\<close> keeps the first result.\<close>

definition unary_finish :: "'r rpc \<Rightarrow> 'r rpc option \<Rightarrow> 'r rpc option" where
  "unary_finish result call = (case call of Some r \<Rightarrow> Some r | None \<Rightarrow> Some result)"

subsection \<open>Job queues\<close>

definition postRegistration :: "member_job \<Rightarrow> bool \<Rightarrow> server \<Rightarrow> bool \<times> server" where
  "postRegistration job privileged s =
     (let q = queues s in
      if \<not> registration_alive q \<or> management_stopping q \<or> shutdown s
         \<or> (\<not> privileged \<and> kMaximumRegistrationJobs \<le> length (registration_jobs q))
      then (False, s)
      else (True, s\<lparr>queues := q\<lparr>registration_jobs :=
        (if privileged then job # registration_jobs q else registration_jobs q @ [job])\<rparr>\<rparr>))"

definition postCommand :: "execute_call \<Rightarrow> server \<Rightarrow> bool \<times> server" where
  "postCommand job s =
     (let q = queues s in
      if stopping q \<or> shutdown s \<or> kMaximumCommandJobs \<le> length (command_jobs q) then (False, s)
      else (True, s\<lparr>queues := q\<lparr>command_jobs := command_jobs q @ [job],
                                command_revision := command_revision q + 1\<rparr>\<rparr>))"

text \<open>A fence is refused by an exception, which ends the registration thread.\<close>

definition postFence :: "nat list \<Rightarrow> server \<Rightarrow> string + server" where
  "postFence job s =
     (let q = queues s in
      if \<not> scheduler_alive q then Inl ''native scheduler exited''
      else if fence_job q \<noteq> None then Inl ''overlapping native lifecycle barriers''
      else Inr (s\<lparr>queues := q\<lparr>fence_job := Some job, command_revision := command_revision q + 1\<rparr>\<rparr>))"

text \<open>One turn of the registration loop: \<open>None\<close> while it waits, \<open>Some None\<close> when it ends.\<close>

definition registrationLoop_take :: "server \<Rightarrow> member_job option option \<times> server" where
  "registrationLoop_take s =
     (let q = queues s in
      if management_stopping q \<or> shutdown s then (Some None, s)
      else case registration_jobs q of
        [] \<Rightarrow> (None, s)
      | job # rest \<Rightarrow> (Some (Some job), s\<lparr>queues := q\<lparr>registration_jobs := rest\<rparr>\<rparr>))"

text \<open>The end of the thread refuses later jobs and hands over what is queued to be aborted.\<close>

definition registration_exit :: "server \<Rightarrow> member_job list \<times> server" where
  "registration_exit s =
     (registration_jobs (queues s),
      s\<lparr>queues := (queues s)\<lparr>registration_alive := False, registration_jobs := []\<rparr>\<rparr>)"

definition abortQueuedJobs :: "server \<Rightarrow> (member_job list \<times> execute_call list \<times> nat list option) \<times> server" where
  "abortQueuedJobs s =
     ((registration_jobs (queues s), command_jobs (queues s), fence_job (queues s)),
      s\<lparr>queues := (queues s)\<lparr>registration_jobs := [], command_jobs := [], fence_job := None\<rparr>\<rparr>)"

text \<open>What the abort of a member job answers to its caller; the drain's own job answers a promise.\<close>

fun abortJob :: "bool \<Rightarrow> member_job \<Rightarrow> refusal option" where
  "abortJob started (ApplyJob _ _) =
     Some (if started then (UNKNOWN, ''native registration interrupted; reconcile outcome'')
           else (CANCELLED, ''registration did not start: server stopped''))"
| "abortJob started (RemoveJob _ _) =
     Some (if started then (UNKNOWN, ''native removal interrupted; reconcile outcome'')
           else (CANCELLED, ''removal did not start: server stopped''))"
| "abortJob started CloseAllJob = None"

subsection \<open>The handlers\<close>

text \<open>Every handler begins with the transport's admission and the phase check it needs.\<close>

definition guarded ::
    "refusal option \<Rightarrow> (server \<Rightarrow> refusal option) \<Rightarrow> (server \<Rightarrow> 'r rpc \<times> server) \<Rightarrow> server \<Rightarrow> 'r rpc \<times> server" where
  "guarded admit require body s =
     (case admit of
        Some refusal \<Rightarrow> (Inl refusal, s)
      | None \<Rightarrow> (case require s of Some refusal \<Rightarrow> (Inl refusal, s) | None \<Rightarrow> body s))"

definition ApplyMembers :: "refusal option \<Rightarrow> nat \<Rightarrow> registration list \<Rightarrow> server \<Rightarrow> wait_lane rpc \<times> server" where
  "ApplyMembers admit call request =
     guarded admit requireReady (\<lambda>s.
       if length request > kMaximumBatchMembers
       then (Inl (RESOURCE_EXHAUSTED, ''member batch exceeds 256''), s)
       else invoke Membership False (postRegistration (ApplyJob call request) False) s)"

definition RemoveMembers :: "refusal option \<Rightarrow> nat \<Rightarrow> member_identity list \<Rightarrow> server \<Rightarrow> wait_lane rpc \<times> server" where
  "RemoveMembers admit call request =
     guarded admit requireStarted (\<lambda>s.
       if length request > kMaximumBatchMembers
       then (Inl (RESOURCE_EXHAUSTED, ''member batch exceeds 256''), s)
       else invoke Membership False (postRegistration (RemoveJob call request) False) s)"

definition Execute :: "refusal option \<Rightarrow> execute_call \<Rightarrow> server \<Rightarrow> wait_lane rpc \<times> server" where
  "Execute admit call =
     guarded admit requireReady (\<lambda>s.
       invoke SafetyCandidate (isSafetyRequest (Some (call_identity call)) (Some (call_operation call)) s)
         (postCommand call) s)"

definition InstallController :: "refusal option \<Rightarrow> install_request \<Rightarrow> server \<Rightarrow> (nat \<times> string) rpc \<times> server" where
  "InstallController admit request = guarded admit requireReady (installController request)"

text \<open>The retirements wait in the control lane; the permit lasts for the handler, so a call that answers
  gives it back and one that waits keeps it.\<close>

definition in_lane ::
    "wait_lane \<Rightarrow> string \<Rightarrow> (server \<Rightarrow> 'r progress \<times> server) \<Rightarrow> server \<Rightarrow> 'r progress \<times> server" where
  "in_lane w full body s =
     (case take_lane w s of
        (False, s) \<Rightarrow> (Answer (Inl (RESOURCE_EXHAUSTED, full)), s)
      | (True, s) \<Rightarrow>
          (case body s of
             (Answer r, s) \<Rightarrow> (Answer r, release_lane w s)
           | (Pending, s) \<Rightarrow> (Pending, s)))"

definition guarded_wait ::
    "refusal option \<Rightarrow> (server \<Rightarrow> refusal option) \<Rightarrow> (server \<Rightarrow> 'r progress \<times> server) \<Rightarrow> server \<Rightarrow> 'r progress \<times> server" where
  "guarded_wait admit require body s =
     (case admit of
        Some refusal \<Rightarrow> (Answer (Inl refusal), s)
      | None \<Rightarrow> (case require s of Some refusal \<Rightarrow> (Answer (Inl refusal), s) | None \<Rightarrow> body s))"

definition RetireController :: "refusal option \<Rightarrow> retire_request \<Rightarrow> server \<Rightarrow> (nat \<times> string) progress \<times> server" where
  "RetireController admit request =
     guarded_wait admit requireStarted
       (in_lane ControlLane ''controller retirement capacity exhausted'' (retireController_begin request))"

definition RetireStatus ::
    "refusal option \<Rightarrow> bool \<Rightarrow> status_owner option \<Rightarrow> server \<Rightarrow> (nat \<times> string) progress \<times> server" where
  "RetireStatus admit control owner =
     guarded_wait admit requireStarted
       (in_lane ControlLane ''status retirement capacity exhausted'' (retireStatus_begin control owner))"

definition ReleaseControl ::
    "refusal option \<Rightarrow> bool \<Rightarrow> bool \<Rightarrow> bool \<Rightarrow> control_request \<Rightarrow> int \<Rightarrow> server \<Rightarrow> control_response progress \<times> server" where
  "ReleaseControl admit cancelled expired native_result request now =
     guarded_wait admit requireStarted (\<lambda>s.
       let body = releaseControl cancelled expired native_result request now in
       if lane_count ControlLane (lanes s) < lane_maximum ControlLane then in_lane ControlLane [] body s
       else case requireIndependentRelease cancelled request s s s of
         Some refusal \<Rightarrow> (Answer (Inl refusal), s)
       | None \<Rightarrow> in_lane SafetyLane ''control retirement capacity exhausted'' body s)"

definition AcquireControl ::
    "refusal option \<Rightarrow> bool \<Rightarrow> control_request \<Rightarrow> int \<Rightarrow> server \<Rightarrow> control_response rpc \<times> server" where
  "AcquireControl admit cancelled request now =
     guarded admit requireReady (\<lambda>s. acquireControl cancelled request now s s s)"

text \<open>The counters of a renewal: accepted, rejected, request and response bytes.\<close>

record renewal_counters =
  rw_renewals :: nat
  rw_rejections :: nat
  rw_request_bytes :: nat
  rw_response_bytes :: nat

definition RenewControl ::
    "refusal option \<Rightarrow> nat \<Rightarrow> ('r \<Rightarrow> nat) \<Rightarrow> (server \<Rightarrow> 'r rpc \<times> server) \<Rightarrow> renewal_counters \<Rightarrow> server
      \<Rightarrow> 'r rpc \<times> renewal_counters \<times> server" where
  "RenewControl admit request_bytes response_bytes renew k s =
     (let k = k\<lparr>rw_request_bytes := rw_request_bytes k + request_bytes\<rparr>;
          (r, s') = guarded admit requireReady renew s
      in case r of
           Inl e \<Rightarrow> (Inl e, k\<lparr>rw_rejections := rw_rejections k + 1\<rparr>, s')
         | Inr a \<Rightarrow> (Inr a, k\<lparr>rw_response_bytes := rw_response_bytes k + response_bytes a,
                            rw_renewals := rw_renewals k + 1\<rparr>, s'))"

record health_response =
  hr_serving :: bool
  hr_instance_id :: string
  hr_robots :: nat
  hr_members :: nat

definition Health :: "refusal option \<Rightarrow> server \<Rightarrow> health_response rpc \<times> server" where
  "Health admit = guarded admit (\<lambda>_. None) (\<lambda>s. (Inr \<lparr>hr_serving = (phase s = Ready),
     hr_instance_id = instance_id s, hr_robots = length (members s), hr_members = length (members s)\<rparr>, s))"

subsection \<open>Capacity of the lanes and queues\<close>

definition lanes_ok :: "server \<Rightarrow> bool" where
  "lanes_ok s \<longleftrightarrow> list_all (\<lambda>w. lane_count w (lanes s) \<le> lane_maximum w)
     [BlockingLane, MembershipLane, SafetyLane, ControlLane, ReadinessLane]"

lemma lanes_ok_iff: "lanes_ok s \<longleftrightarrow> (\<forall>w. lane_count w (lanes s) \<le> lane_maximum w)"
proof
  assume ok: "lanes_ok s"
  show "\<forall>w. lane_count w (lanes s) \<le> lane_maximum w"
  proof
    fix w show "lane_count w (lanes s) \<le> lane_maximum w"
      using ok by (cases w) (simp_all add: lanes_ok_def)
  qed
next
  assume "\<forall>w. lane_count w (lanes s) \<le> lane_maximum w"
  then show "lanes_ok s"
    unfolding lanes_ok_def list_all_iff by blast
qed

lemma lane_set_sel [simp]: "lane_count v (lane_set w n l) = (if v = w then n else lane_count v l)"
  by (cases v; cases w) auto

lemma take_lane_le:
  "lane_count v (lanes s) \<le> lane_maximum v \<Longrightarrow> lane_count v (lanes (snd (take_lane w s))) \<le> lane_maximum v"
  by (simp add: take_lane_def)

lemma lanes_ok_take: "lanes_ok s \<Longrightarrow> lanes_ok (snd (take_lane w s))"
  unfolding lanes_ok_iff using take_lane_le by blast

lemma lanes_ok_release: "lanes_ok s \<Longrightarrow> lanes_ok (release_lane w s)"
  by (simp add: lanes_ok_iff release_lane_def le_trans [OF diff_le_self])

lemma lanes_ok_invoke_lane: "lanes_ok s \<Longrightarrow> lanes_ok (snd (invoke_lane cls safety s))"
  using lanes_ok_take [of s BlockingLane] lanes_ok_take [of "snd (take_lane BlockingLane s)" MembershipLane]
    lanes_ok_take [of "snd (take_lane BlockingLane s)" SafetyLane]
  by (auto simp: invoke_lane_def split: prod.splits bool.splits)

lemma post_lanes [simp]:
  "lanes (snd (postRegistration job privileged s)) = lanes s" "lanes (snd (postCommand call s)) = lanes s"
  by (simp_all add: postRegistration_def postCommand_def Let_def)

lemma lanes_ok_invoke:
  assumes "lanes_ok s" "\<And>s. lanes (snd (submit s)) = lanes s"
  shows "lanes_ok (snd (invoke cls safety submit s))"
proof -
  obtain w s1 where i: "invoke_lane cls safety s = (w, s1)" by fastforce
  obtain ok s2 where u: "submit s1 = (ok, s2)" by fastforce
  have ok1: "lanes_ok s1"
    using lanes_ok_invoke_lane [OF assms(1), of cls safety] i by simp
  then have ok2: "lanes_ok s2"
    using assms(2) [of s1] u by (simp add: lanes_ok_def)
  show ?thesis
  proof (cases w)
    case None
    then show ?thesis using i ok1 by (simp add: invoke_def)
  next
    case (Some w')
    then show ?thesis
      using i u ok2 lanes_ok_release [OF ok2, of w'] by (cases ok) (simp_all add: invoke_def)
  qed
qed

lemma invoke_lane_reserved:
  "cls = Membership \<Longrightarrow> lane_count MembershipLane (lanes s) = 0 \<Longrightarrow> fst (invoke_lane cls safety s) \<noteq> None"
  "cls = SafetyCandidate \<Longrightarrow> safety \<Longrightarrow> lane_count SafetyLane (lanes s) = 0 \<Longrightarrow> fst (invoke_lane cls safety s) \<noteq> None"
  by (simp_all add: invoke_lane_def take_lane_def kMaximumMembershipWaits_def kMaximumSafetyWaits_def)

lemma invoke_queued:
  assumes "fst (invoke_lane cls safety s) \<noteq> None" "fst (submit (snd (invoke_lane cls safety s)))"
  shows "\<exists>w. fst (invoke cls safety submit s) = Inr w"
  using assms by (auto simp: invoke_def split: prod.splits)

lemma invoke_lane_queues:
  "queues (snd (invoke_lane cls safety s)) = queues s" "shutdown (snd (invoke_lane cls safety s)) = shutdown s"
  by (simp_all add: invoke_lane_def take_lane_def)

text \<open>The calls that make a robot safe cannot be starved by ordinary ones: whatever fills the lane of
  blocking calls, a removal and a safety command are queued as long as their reserved permit is
  free and the worker takes jobs.\<close>

theorem reserved_lanes_admit:
  assumes "phase s = Ready" "\<not> shutdown s" "membership_blocking_calls (lanes s) = 0" "safety_blocking_calls (lanes s) = 0"
    and "registration_alive (queues s)" "\<not> management_stopping (queues s)" "length (registration_jobs (queues s)) < 32"
    and "\<not> stopping (queues s)" "length (command_jobs (queues s)) < 32"
    and "length request \<le> 256" "isSafetyRequest (Some (call_identity c)) (Some (call_operation c)) s"
  shows "(\<exists>w. fst (RemoveMembers None n request s) = Inr w) \<and> (\<exists>w. fst (Execute None c s) = Inr w)"
proof
  show "\<exists>w. fst (RemoveMembers None n request s) = Inr w"
    using invoke_queued [OF invoke_lane_reserved(1) [OF refl], of s "postRegistration (RemoveJob n request) False" False] assms
    by (simp add: RemoveMembers_def guarded_def requireStarted_def postRegistration_def invoke_lane_queues
        kMaximumBatchMembers_def kMaximumRegistrationJobs_def Let_def)
  show "\<exists>w. fst (Execute None c s) = Inr w"
    using invoke_queued [OF invoke_lane_reserved(2) [OF refl], of True s "postCommand c"] assms
    by (simp add: Execute_def guarded_def requireReady_def postCommand_def invoke_lane_queues
        kMaximumCommandJobs_def Let_def)
qed

subsection \<open>Every accepted member job is answered\<close>

text \<open>The registration thread and its queue with a ledger of the jobs: those accepted, the one that runs,
  those that ran to their end and those that were aborted.\<close>

record job_ledger =
  jl_server :: server
  jl_posted :: "member_job multiset"
  jl_running :: "member_job option"
  jl_ran :: "member_job multiset"
  jl_aborted :: "member_job multiset"

definition registration_part :: "server \<Rightarrow> member_job list \<times> bool" where
  "registration_part s = (registration_jobs (queues s), registration_alive (queues s))"

inductive job_step :: "job_ledger \<Rightarrow> job_ledger \<Rightarrow> bool" where
  starts: "registration_jobs (queues (jl_server l)) = [] \<Longrightarrow> jl_running l = None \<Longrightarrow>
    job_step l (l\<lparr>jl_server := (jl_server l)\<lparr>queues := (queues (jl_server l))\<lparr>registration_alive := True\<rparr>\<rparr>\<rparr>)"
| posts: "postRegistration job privileged (jl_server l) = (True, s) \<Longrightarrow> privileged = (job = CloseAllJob) \<Longrightarrow>
    job_step l (l\<lparr>jl_server := s, jl_posted := add_mset job (jl_posted l)\<rparr>)"
| takes: "jl_running l = None \<Longrightarrow> registrationLoop_take (jl_server l) = (Some (Some job), s) \<Longrightarrow>
    job_step l (l\<lparr>jl_server := s, jl_running := Some job\<rparr>)"
| works: "registration_part s = registration_part (jl_server l) \<Longrightarrow> job_step l (l\<lparr>jl_server := s\<rparr>)"
| finishes: "jl_running l = Some job \<Longrightarrow>
    job_step l (l\<lparr>jl_running := None, jl_ran := add_mset job (jl_ran l)\<rparr>)"
| breaks: "jl_running l = Some job \<Longrightarrow> registration_exit (jl_server l) = (abandoned, s) \<Longrightarrow>
    job_step l (l\<lparr>jl_server := s, jl_running := None,
      jl_aborted := add_mset job (mset abandoned + jl_aborted l)\<rparr>)"
| exits: "jl_running l = None \<Longrightarrow> registration_exit (jl_server l) = (abandoned, s) \<Longrightarrow>
    job_step l (l\<lparr>jl_server := s, jl_aborted := mset abandoned + jl_aborted l\<rparr>)"
| aborts: "abortQueuedJobs (jl_server l) = ((abandoned, rest), s) \<Longrightarrow>
    job_step l (l\<lparr>jl_server := s, jl_aborted := mset abandoned + jl_aborted l\<rparr>)"

definition ledger_start :: "server \<Rightarrow> job_ledger" where
  "ledger_start s = \<lparr>jl_server = s, jl_posted = {#}, jl_running = None, jl_ran = {#}, jl_aborted = {#}\<rparr>"

definition running_jobs :: "job_ledger \<Rightarrow> member_job multiset" where
  "running_jobs l = (case jl_running l of None \<Rightarrow> {#} | Some job \<Rightarrow> {#job#})"

definition ledger_ok :: "job_ledger \<Rightarrow> bool" where
  "ledger_ok l \<longleftrightarrow>
     jl_posted l = mset (registration_jobs (queues (jl_server l))) + running_jobs l + jl_ran l + jl_aborted l \<and>
     (\<not> registration_alive (queues (jl_server l)) \<longrightarrow> registration_jobs (queues (jl_server l)) = []) \<and>
     length (filter (\<lambda>j. j \<noteq> CloseAllJob) (registration_jobs (queues (jl_server l)))) \<le> kMaximumRegistrationJobs"

lemma ledger_ok_split:
  assumes "jl_posted l = mset q + running_jobs l + jl_ran l + jl_aborted l"
    and "q = registration_jobs (queues (jl_server l))"
    and "\<not> registration_alive (queues (jl_server l)) \<Longrightarrow> q = []"
    and "length (filter (\<lambda>j. j \<noteq> CloseAllJob) q) \<le> kMaximumRegistrationJobs"
  shows "ledger_ok l"
  using assms by (simp add: ledger_ok_def)

lemma ledger_ok_post:
  assumes "ledger_ok l" "postRegistration job privileged (jl_server l) = (True, s)" "privileged = (job = CloseAllJob)"
  shows "ledger_ok (l\<lparr>jl_server := s, jl_posted := add_mset job (jl_posted l)\<rparr>)"
proof -
  let ?q = "registration_jobs (queues (jl_server l))"
  have q: "registration_jobs (queues s) = (if privileged then job # ?q else ?q @ [job])"
      "registration_alive (queues s)" "\<not> privileged \<longrightarrow> length ?q < kMaximumRegistrationJobs"
    using assms(2) by (auto simp: postRegistration_def Let_def split: if_splits)
  have "\<not> privileged \<longrightarrow> length (filter (\<lambda>j. j \<noteq> CloseAllJob) ?q) < kMaximumRegistrationJobs"
    using q(3) by (meson le_less_trans length_filter_le)
  with q assms(1,3) show ?thesis
    by (intro ledger_ok_split [OF _ refl]) (auto simp: ledger_ok_def running_jobs_def)
qed

lemma ledger_ok_step:
  assumes "ledger_ok l" "job_step l l'"
  shows "ledger_ok l'"
  using assms(2)
proof cases
  case posts
  with ledger_ok_post [OF assms(1)] show ?thesis by simp
next
  case (takes job s)
  then have "registration_jobs (queues (jl_server l)) = job # registration_jobs (queues s)"
      "registration_alive (queues s) = registration_alive (queues (jl_server l))"
    by (auto simp: registrationLoop_take_def Let_def split: if_splits list.splits)
  with takes assms(1) show ?thesis
    by (auto simp: ledger_ok_def running_jobs_def split: if_splits)
qed (use assms(1) in \<open>auto simp: ledger_ok_def running_jobs_def registration_part_def registration_exit_def
      abortQueuedJobs_def kMaximumRegistrationJobs_def\<close>)

lemma ledger_ok_reach: "job_step\<^sup>*\<^sup>* l l' \<Longrightarrow> ledger_ok l \<Longrightarrow> ledger_ok l'"
  by (induction rule: rtranclp_induct) (auto intro: ledger_ok_step)


subsection \<open>A busy server\<close>

text \<open>All eighteen ordinary permits are out and the robot's driver calls every operation safe.\<close>

definition ex_busy :: server where
  "ex_busy = ex_commands\<lparr>phase := Ready, heap := (\<lambda>_. ex_holder\<lparr>native := ex_driver\<lparr>IsSafetyOperation := (\<lambda>_. True)\<rparr>\<rparr>),
     lanes := free_lanes\<lparr>blocking_calls := 18\<rparr>, queues := idle_queues\<lparr>registration_alive := True\<rparr>\<rparr>"

lemma ex_busy_sel:
  "phase ex_busy = Ready" "\<not> shutdown ex_busy" "lanes ex_busy = free_lanes\<lparr>blocking_calls := 18\<rparr>"
  "queues ex_busy = idle_queues\<lparr>registration_alive := True\<rparr>" "members ex_busy = [(''b'', 0)]"
  "identity (heap ex_busy a) = call_identity (ex_call 1)" "\<not> closing (heap ex_busy a)"
  "IsSafetyOperation (native (heap ex_busy a)) = (\<lambda>_. True)"
  by (simp_all add: ex_busy_def ex_commands_def initial_server_def ex_holder_def new_member_def)

theorem reserved_lanes_admit_witness:
  "(\<exists>w. fst (RemoveMembers None 7 [] ex_busy) = Inr w) \<and> (\<exists>w. fst (Execute None (ex_call 1) ex_busy) = Inr w)"
  by (rule reserved_lanes_admit)
     (simp_all add: ex_busy_sel idle_queues_def free_lanes_def isSafetyRequest_def selectedMember_def ex_call_def
       sameIdentity_def)

lemma ex_close_posted:
  "postRegistration CloseAllJob True ex_busy =
     (True, ex_busy\<lparr>queues := (queues ex_busy)\<lparr>registration_jobs := [CloseAllJob]\<rparr>\<rparr>)"
  by (simp add: postRegistration_def ex_busy_sel idle_queues_def)


end
