(* ===== verification/Backoff.thy ===== *)
theory Backoff
  imports Prelude
begin

section \<open>Retry delays and the silence of Core\<close>

text \<open>
  The three small clocks of the adapters. \<^verbatim>\<open>MasterRetry\<close> (\<^verbatim>\<open>master_retry.hpp\<close>) spaces the probes of an
  unreachable ROS master, \<^verbatim>\<open>PeerBackoff\<close> (\<^verbatim>\<open>peer_backoff.hpp\<close>) the reconnections of the scene adapter
  and \<^verbatim>\<open>CoreSilence\<close> (\<^verbatim>\<open>core_silence.hpp\<close>) measures how long no status stream was open. The clock
  reading and the draw of the random engine are arguments; a draw lies in the range the
  distribution was built with. Instants are nanoseconds, delays milliseconds.
  The locale \<open>retry_clock\<close> is what a retry loop relies on; both classes provide it.
\<close>

subsection \<open>MasterRetry\<close>

record master_retry =
  mr_initial :: int
  mr_ceiling :: int
  mr_attempts :: nat
  mr_suppressed :: nat
  mr_last_log :: int

datatype retry_log =
    Unavailable
  | StillUnavailable nat nat
  | PeerWaiting string string
  | PeerSuppressed string nat

definition MasterRetry :: "int \<Rightarrow> master_retry" where
  "MasterRetry initial = \<lparr>mr_initial = initial, mr_ceiling = initial, mr_attempts = 0,
     mr_suppressed = 0, mr_last_log = 0\<rparr>"

text \<open>The bookkeeping of the outage and the line it logs, then the delay and the next ceiling.\<close>

definition retry_note :: "int \<Rightarrow> master_retry \<Rightarrow> master_retry \<times> retry_log list" where
  "retry_note now r =
     (let r = r\<lparr>mr_attempts := Suc (mr_attempts r)\<rparr> in
      if mr_attempts r = 1 then (r\<lparr>mr_last_log := now\<rparr>, [Unavailable])
      else
        let r = r\<lparr>mr_suppressed := Suc (mr_suppressed r)\<rparr> in
        if now - mr_last_log r \<ge> ms 10000
        then (r\<lparr>mr_suppressed := 0, mr_last_log := now\<rparr>,
              [StillUnavailable (mr_suppressed r) (mr_attempts r)])
        else (r, []))"

definition retry_failed :: "int \<Rightarrow> int \<Rightarrow> master_retry \<Rightarrow> master_retry \<times> int \<times> retry_log list" where
  "retry_failed now draw r =
     (let (r, log) = retry_note now r
      in (r\<lparr>mr_ceiling := min (mr_ceiling r * 2) 10000\<rparr>, draw, log))"

definition retry_reset :: "master_retry \<Rightarrow> master_retry" where
  "retry_reset r = r\<lparr>mr_ceiling := mr_initial r, mr_attempts := 0, mr_suppressed := 0\<rparr>"

subsection \<open>PeerBackoff\<close>

record peer_backoff =
  pb_cap :: int
  pb_attempts :: nat
  pb_suppressed :: nat
  pb_outage :: bool
  pb_summary :: int
  pb_failures :: "int list"
  pb_next :: nat

definition PeerBackoff :: peer_backoff where
  "PeerBackoff = \<lparr>pb_cap = 250, pb_attempts = 0, pb_suppressed = 0, pb_outage = False,
     pb_summary = 0, pb_failures = replicate 15 0, pb_next = 0\<rparr>"

definition peer_note :: "string \<Rightarrow> string \<Rightarrow> int \<Rightarrow> peer_backoff \<Rightarrow> peer_backoff \<times> retry_log list" where
  "peer_note peer reason now p =
     (if \<not> pb_outage p then (p\<lparr>pb_outage := True, pb_summary := now\<rparr>, [PeerWaiting peer reason])
      else if now - pb_summary p \<ge> ms 10000
      then (p\<lparr>pb_summary := now, pb_suppressed := 0\<rparr>, [PeerSuppressed peer (pb_suppressed p)])
      else (p\<lparr>pb_suppressed := Suc (pb_suppressed p)\<rparr>, []))"

text \<open>The ring of the last fifteen failures: the new instant overwrites the slot at \<^verbatim>\<open>next_\<close>.\<close>

definition peer_record :: "int \<Rightarrow> peer_backoff \<Rightarrow> peer_backoff" where
  "peer_record now p = p\<lparr>pb_failures := (pb_failures p)[pb_next p := now],
     pb_next := (pb_next p + 1) mod length (pb_failures p),
     pb_attempts := min (pb_attempts p + 1) (length (pb_failures p))\<rparr>"

definition peer_failed ::
    "string \<Rightarrow> string \<Rightarrow> int \<Rightarrow> int \<Rightarrow> peer_backoff \<Rightarrow> peer_backoff \<times> int \<times> retry_log list" where
  "peer_failed peer reason now draw p =
     (let (p, log) = peer_note peer reason now p;
          p = peer_record now p;
          delay = max draw 1;
          p = p\<lparr>pb_cap := min (pb_cap p * 2) 10000\<rparr>;
          delay = (if pb_attempts p = length (pb_failures p)
                   then max delay (to_ms (pb_failures p ! pb_next p + ms 60000 - now) + 1)
                   else delay)
      in (p, delay, log))"

definition peer_success :: "peer_backoff \<Rightarrow> peer_backoff" where
  "peer_success p = p\<lparr>pb_cap := 250, pb_outage := False, pb_attempts := 0, pb_suppressed := 0,
     pb_next := 0\<rparr>"

subsection \<open>CoreSilence\<close>

record core_silence =
  cs_streams :: nat
  cs_since :: int

definition CoreSilence :: "int \<Rightarrow> core_silence" where
  "CoreSilence now = \<lparr>cs_streams = 0, cs_since = now\<rparr>"

definition Opened :: "core_silence \<Rightarrow> core_silence" where
  "Opened c = c\<lparr>cs_streams := Suc (cs_streams c)\<rparr>"

definition Closed :: "int \<Rightarrow> core_silence \<Rightarrow> core_silence" where
  "Closed now c =
     (if cs_streams c > 0
      then let c = c\<lparr>cs_streams := cs_streams c - 1\<rparr>
           in if cs_streams c = 0 then c\<lparr>cs_since := now\<rparr> else c
      else c)"

definition SilentFor :: "int \<Rightarrow> core_silence \<Rightarrow> int" where
  "SilentFor now c = (if cs_streams c > 0 then 0 else to_ms (now - cs_since c))"

subsection \<open>What a retry loop relies on\<close>

text \<open>The loop from state \<open>s\<close> at instant \<open>t\<close>: each entry is the time the attempt itself takes and the
  draw of its delay. The result is the instant of every failure, the final wake-up and the state.\<close>

fun retry_loop ::
    "(int \<Rightarrow> int \<Rightarrow> 's \<Rightarrow> 's \<times> int \<times> 'l) \<Rightarrow> int \<Rightarrow> 's \<Rightarrow> (int \<times> int) list \<Rightarrow> int list \<times> int \<times> 's" where
  "retry_loop failed t s [] = ([], t, s)"
| "retry_loop failed t s ((cost, draw) # rest) =
     (let (s', delay, _) = failed (t + cost) draw s;
          (ts, end_time, s'') = retry_loop failed (t + cost + ms delay) s' rest
      in ((t + cost) # ts, end_time, s''))"

fun admissible ::
    "(int \<Rightarrow> int \<Rightarrow> 's \<Rightarrow> 's \<times> int \<times> 'l) \<Rightarrow> ('s \<Rightarrow> int \<Rightarrow> bool) \<Rightarrow> int \<Rightarrow> 's \<Rightarrow> (int \<times> int) list \<Rightarrow> bool" where
  "admissible failed allowed t s [] \<longleftrightarrow> True"
| "admissible failed allowed t s ((cost, draw) # rest) \<longleftrightarrow> 0 \<le> cost \<and> allowed s draw \<and>
     (let (s', delay, _) = failed (t + cost) draw s
      in admissible failed allowed (t + cost + ms delay) s' rest)"

lemma retry_loop_Cons:
  assumes "failed (t + cost) draw s = (s', delay, l)"
  shows "fst (retry_loop failed t s ((cost, draw) # rest))
           = (t + cost) # fst (retry_loop failed (t + cost + ms delay) s' rest)"
    and "snd (retry_loop failed t s ((cost, draw) # rest))
           = snd (retry_loop failed (t + cost + ms delay) s' rest)"
    and "admissible failed allowed t s ((cost, draw) # rest) \<longleftrightarrow>
           0 \<le> cost \<and> allowed s draw \<and> admissible failed allowed (t + cost + ms delay) s' rest"
  using assms by (simp_all add: Let_def split: prod.split)

text \<open>A retry loop records a failure and sleeps the delay it gets. Whatever is drawn, it must neither
  spin nor sleep beyond a bound, and a success must forget the outage.\<close>

locale retry_clock =
  fixes failed :: "int \<Rightarrow> int \<Rightarrow> 's \<Rightarrow> 's \<times> int \<times> 'l"
    and allowed :: "'s \<Rightarrow> int \<Rightarrow> bool"
    and good :: "int \<Rightarrow> 's \<Rightarrow> bool"
    and bound :: int
  assumes failed_good: "good t s \<Longrightarrow> t \<le> now \<Longrightarrow> allowed s draw \<Longrightarrow> good now (fst (failed now draw s))"
    and failed_delay: "good t s \<Longrightarrow> t \<le> now \<Longrightarrow> allowed s draw \<Longrightarrow>
      fst (snd (failed now draw s)) \<in> {1..bound}"
begin

text \<open>The loop never spins: the attempts are at least a millisecond apart each.\<close>

lemma loop_time:
  assumes "good t0 s" "t0 \<le> t" "admissible failed allowed t s work"
  shows "t + ms (int (length work)) \<le> fst (snd (retry_loop failed t s work))"
  using assms
proof (induction work arbitrary: t0 t s)
  case (Cons w rest)
  obtain cost draw where w: "w = (cost, draw)"
    by fastforce
  obtain s' delay l where f: "failed (t + cost) draw s = (s', delay, l)"
    by (metis prod_cases3)
  note L = retry_loop_Cons [where failed = failed, OF f]
  have a: "0 \<le> cost" "allowed s draw" "admissible failed allowed (t + cost + ms delay) s' rest"
    using Cons.prems(3) L(3) w by auto
  have g: "good (t + cost) s'" "1 \<le> delay"
    using failed_good [of t0 s "t + cost" draw] failed_delay [of t0 s "t + cost" draw] Cons.prems a f
    by auto
  have "t + cost + ms delay + ms (int (length rest))
      \<le> fst (snd (retry_loop failed (t + cost + ms delay) s' rest))"
    using Cons.IH [OF g(1) _ a(3)] g(2) by (simp add: ms_def)
  then show ?case
    using a g L(2) [of rest] by (simp add: ms_def w)
qed (simp add: ms_def)

end

subsection \<open>The two clocks keep the contract\<close>

definition retry_allowed :: "master_retry \<Rightarrow> int \<Rightarrow> bool" where
  "retry_allowed r draw \<longleftrightarrow> 1 \<le> draw \<and> draw \<le> mr_ceiling r"

definition retry_ok :: "int \<Rightarrow> master_retry \<Rightarrow> bool" where
  "retry_ok t r \<longleftrightarrow> 1 \<le> mr_initial r \<and> mr_initial r \<le> 10000 \<and>
     mr_initial r \<le> mr_ceiling r \<and> mr_ceiling r \<le> 10000 \<and> mr_suppressed r \<le> mr_attempts r - 1"

lemma retry_failed_sel [simp]:
  "mr_initial (fst (retry_failed now draw r)) = mr_initial r"
  "mr_ceiling (fst (retry_failed now draw r)) = min (mr_ceiling r * 2) 10000"
  "mr_attempts (fst (retry_failed now draw r)) = Suc (mr_attempts r)"
  "fst (snd (retry_failed now draw r)) = draw"
  by (simp_all add: retry_failed_def retry_note_def Let_def)

lemma retry_suppressed:
  "mr_suppressed r \<le> mr_attempts r - 1 \<Longrightarrow> mr_suppressed (fst (retry_failed now draw r)) \<le> mr_attempts r"
  by (auto simp: retry_failed_def retry_note_def Let_def)

interpretation mr: retry_clock retry_failed retry_allowed retry_ok 10000
  by unfold_locales (auto simp: retry_ok_def retry_allowed_def retry_suppressed)

definition peer_allowed :: "peer_backoff \<Rightarrow> int \<Rightarrow> bool" where
  "peer_allowed p draw \<longleftrightarrow> 0 \<le> draw \<and> draw \<le> pb_cap p"

text \<open>\<open>h\<close> lists the failures since the last success, oldest first; the ring holds the last fifteen.\<close>

definition peer_ring :: "int list \<Rightarrow> peer_backoff \<Rightarrow> bool" where
  "peer_ring h p \<longleftrightarrow> length (pb_failures p) = 15 \<and> pb_next p = length h mod 15 \<and>
     pb_attempts p = min (length h) 15 \<and> 250 \<le> pb_cap p \<and> pb_cap p \<le> 10000 \<and>
     (\<forall>i < length h. length h \<le> i + 15 \<longrightarrow> pb_failures p ! (i mod 15) = h ! i)"

definition peer_ok :: "int \<Rightarrow> peer_backoff \<Rightarrow> bool" where
  "peer_ok t p \<longleftrightarrow> (\<exists>h. peer_ring h p \<and> (\<forall>x \<in> set h. x \<le> t))"

lemma peer_note_sel [simp]:
  "pb_cap (fst (peer_note peer reason now p)) = pb_cap p"
  "pb_attempts (fst (peer_note peer reason now p)) = pb_attempts p"
  "pb_failures (fst (peer_note peer reason now p)) = pb_failures p"
  "pb_next (fst (peer_note peer reason now p)) = pb_next p"
  by (simp_all add: peer_note_def)

lemma peer_failed_sel:
  "pb_cap (fst (peer_failed peer reason now draw p)) = min (pb_cap p * 2) 10000"
  "pb_attempts (fst (peer_failed peer reason now draw p)) = min (pb_attempts p + 1) (length (pb_failures p))"
  "pb_failures (fst (peer_failed peer reason now draw p)) = (pb_failures p)[pb_next p := now]"
  "pb_next (fst (peer_failed peer reason now draw p)) = (pb_next p + 1) mod length (pb_failures p)"
  "fst (snd (peer_failed peer reason now draw p)) =
     (let q = peer_record now p in
      if pb_attempts q = length (pb_failures q)
      then max (max draw 1) (to_ms (pb_failures q ! pb_next q + ms 60000 - now) + 1) else max draw 1)"
  by (simp_all add: peer_failed_def peer_record_def Let_def split_beta)

lemma peer_ring_fresh [simp]: "peer_ring [] PeerBackoff"
  by (simp add: peer_ring_def PeerBackoff_def)

lemma peer_ring_success: "peer_ring h p \<Longrightarrow> peer_ring [] (peer_success p)"
  by (simp add: peer_ring_def peer_success_def)

lemma mod_15_eq: "i mod 15 = n mod 15 \<Longrightarrow> i < n \<Longrightarrow> n < i + 15 \<Longrightarrow> False" for i n :: nat
  using nat_dvd_not_less [of "n - i" 15] mod_eq_dvd_iff_nat [of i n 15] by auto

lemma peer_ring_failed:
  assumes "peer_ring h p"
  shows "peer_ring (h @ [now]) (fst (peer_failed peer reason now draw p))"
proof -
  have "(pb_failures p)[pb_next p := now] ! (i mod 15) = (h @ [now]) ! i"
    if "i < Suc (length h)" "Suc (length h) \<le> i + 15" for i
    using assms that mod_15_eq [of i "length h"]
    by (cases "i = length h") (auto simp: peer_ring_def nth_append nth_list_update)
  then show ?thesis
    using assms by (auto simp: peer_ring_def peer_failed_sel mod_Suc_eq)
qed

text \<open>With a full ring the slot after the newest failure holds the oldest of the last fifteen.\<close>

lemma peer_oldest:
  assumes "peer_ring h p" "15 \<le> length h"
  shows "pb_failures p ! pb_next p = h ! (length h - 15)"
proof -
  have "length h mod 15 = (length h - 15) mod 15"
    using assms(2) by (simp add: le_mod_geq)
  then show ?thesis
    using assms by (auto simp: peer_ring_def)
qed

lemma peer_delay:
  assumes "peer_ring h p"
  shows "fst (snd (peer_failed peer reason now draw p)) =
     (if 14 \<le> length h
      then max (max draw 1) (to_ms ((h @ [now]) ! (length h - 14) + ms 60000 - now) + 1)
      else max draw 1)"
proof -
  let ?q = "fst (peer_failed peer reason now draw p)"
  have q: "peer_ring (h @ [now]) ?q"
    using assms by (rule peer_ring_failed)
  have "pb_attempts ?q = length (pb_failures ?q) \<longleftrightarrow> 14 \<le> length h"
    using q by (auto simp: peer_ring_def)
  moreover have "pb_failures ?q ! pb_next ?q = (h @ [now]) ! (length h - 14)" if "14 \<le> length h"
    using peer_oldest [OF q] that by simp
  ultimately show ?thesis
    by (auto simp: peer_failed_sel peer_record_def Let_def)
qed

lemma to_ms_upper: "x < ms (to_ms x) + ms 1"
proof (cases "0 \<le> x")
  case False
  then have "sgn x = -1" "\<bar>x\<bar> = - x"
    by auto
  then show ?thesis
    by (simp add: to_ms_def ms_def)
qed (simp add: ms_def)

lemma peer_delay_bound:
  assumes "peer_ring h p" "\<forall>x \<in> set h. x \<le> now" "peer_allowed p draw"
  shows "fst (snd (peer_failed peer reason now draw p)) \<in> {1..60001}"
proof -
  have d: "draw \<le> 10000"
    using assms by (auto simp: peer_ring_def peer_allowed_def)
  have "to_ms (x + ms 60000 - now) \<le> 60000" if "x \<le> now" for x
  proof (cases "0 \<le> x + ms 60000 - now")
    case True
    then show ?thesis using that to_ms_mono [of "x + ms 60000 - now" "ms 60000"] by simp
  next
    case False
    then show ?thesis by (simp add: to_ms_def)
  qed
  moreover have "(h @ [now]) ! (length h - 14) \<le> now" if "14 \<le> length h"
    using assms(2) that by (auto simp: nth_append)
  ultimately show ?thesis
    using d by (auto simp: peer_delay [OF assms(1)])
qed

interpretation pb: retry_clock "peer_failed peer reason" peer_allowed peer_ok 60001
proof unfold_locales
  fix t s now draw
  assume "peer_ok t s" "t \<le> now" "peer_allowed s draw"
  then obtain h where h: "peer_ring h s" "\<forall>x \<in> set h. x \<le> now"
    by (force simp: peer_ok_def)
  show "peer_ok now (fst (peer_failed peer reason now draw s))"
    using peer_ring_failed [OF h(1)] h(2) by (force simp: peer_ok_def)
  show "fst (snd (peer_failed peer reason now draw s)) \<in> {1..60001}"
    using peer_delay_bound [OF h] \<open>peer_allowed s draw\<close> by blast
qed

lemma peer_rate_step:
  assumes "peer_ring h p" "14 \<le> length h"
  shows "(h @ [now]) ! (length h - 14) + ms 60000 < now + ms (fst (snd (peer_failed peer reason now draw p)))"
    (is "?x + _ < _ + ms ?d")
proof -
  have "to_ms (?x + ms 60000 - now) + 1 \<le> ?d"
    using assms by (simp add: peer_delay)
  then show ?thesis
    using to_ms_upper [of "?x + ms 60000 - now"] by (simp add: ms_def)
qed

text \<open>\<open>spread h\<close>: any failure comes more than a minute after the fifteenth before it.\<close>

definition spread :: "int list \<Rightarrow> bool" where
  "spread h \<longleftrightarrow> (\<forall>i. i + 15 < length h \<longrightarrow> h ! i + ms 60000 < h ! (i + 15))"

lemma spread_snoc:
  assumes "spread h" "15 \<le> length h \<Longrightarrow> h ! (length h - 15) + ms 60000 < now"
  shows "spread (h @ [now])"
  unfolding spread_def
proof safe
  fix i assume i: "i + 15 < length (h @ [now])"
  show "(h @ [now]) ! i + ms 60000 < (h @ [now]) ! (i + 15)"
  proof (cases "i + 15 = length h")
    case True
    then have "i = length h - 15" by simp
    with True assms(2) show ?thesis by (simp add: nth_append)
  next
    case False
    with i assms(1) show ?thesis by (simp add: spread_def nth_append)
  qed
qed

lemma peer_loop_spread:
  assumes "peer_ring h p" "spread h" "15 \<le> length h \<Longrightarrow> h ! (length h - 15) + ms 60000 < t"
    and "admissible (peer_failed peer reason) peer_allowed t p work"
  shows "spread (h @ fst (retry_loop (peer_failed peer reason) t p work))"
  using assms
proof (induction work arbitrary: h t p)
  case (Cons w rest)
  obtain cost draw where w: "w = (cost, draw)"
    by fastforce
  define now where "now = t + cost"
  obtain q delay l where f: "peer_failed peer reason now draw p = (q, delay, l)"
    by (metis prod_cases3)
  note L = retry_loop_Cons [where failed = "peer_failed peer reason", OF f [unfolded now_def]]
  have a: "0 \<le> cost" "admissible (peer_failed peer reason) peer_allowed (now + ms delay) q rest"
    using Cons.prems(4) L(3) w by (auto simp: now_def)
  have q: "peer_ring (h @ [now]) q"
    using peer_ring_failed [OF Cons.prems(1), of now peer reason draw] f by simp
  have s: "spread (h @ [now])"
    using Cons.prems(2,3) a(1) by (intro spread_snoc) (auto simp: now_def)
  have r: "(h @ [now]) ! (length (h @ [now]) - 15) + ms 60000 < now + ms delay"
    if "15 \<le> length (h @ [now])"
    using peer_rate_step [OF Cons.prems(1), of now peer reason draw] that f by simp
  show ?case
    using Cons.IH [OF q s r a(2)] L(1) [of rest] w by (simp add: now_def)
qed simp

lemma peer_ring_ok: "peer_ring [] p \<Longrightarrow> peer_ok t p"
  by (force simp: peer_ok_def)

text \<open>The scene adapter never hammers an unreachable peer: however small the random delays are, the
  fifteenth retry after any failure of an outage comes more than a minute after it.\<close>

theorem peer_failure_rate:
  assumes "peer_ring h0 p0"
    and "admissible (peer_failed peer reason) peer_allowed t (peer_success p0) work"
    and "fst (retry_loop (peer_failed peer reason) t (peer_success p0) work) = ts"
    and "i + 15 < length ts"
  shows "ts ! (i + 15) - ts ! i > ms 60000"
  using peer_loop_spread [of "[]" "peer_success p0" t peer reason work]
    peer_ring_success [OF assms(1)] assms
  by (simp add: spread_def) (metis less_diff_eq add.commute)

lemma sixteen_attempts:
  "admissible (peer_failed ''core'' ''refused'') peer_allowed 0 (peer_success PeerBackoff) (replicate 16 (0, 0))"
  "fst (retry_loop (peer_failed ''core'' ''refused'') 0 (peer_success PeerBackoff) (replicate 16 (0, 0)))
     = map (\<lambda>i. ms (int i)) [0..<15] @ [ms 60001]"
  by code_simp+

theorem peer_failure_rate_witness:
  "ms 60001 - ms 0 > ms 60000 \<and>
   fst (retry_loop (peer_failed ''core'' ''refused'') 0 (peer_success PeerBackoff) (replicate 16 (0, 0))) ! 15
     = ms 60001"
  using peer_failure_rate [OF peer_ring_fresh sixteen_attempts(1) sixteen_attempts(2), of 0]
    sixteen_attempts(2)
  by (simp add: nth_append)

text \<open>Neither retry loop can spin: after \<open>n\<close> failed attempts of the master probe or of a peer
  connection at least \<open>n\<close> milliseconds have passed, whatever was drawn.\<close>

theorem retries_never_spin:
  assumes "1 \<le> initial" "initial \<le> 10000"
    and "admissible retry_failed retry_allowed t (MasterRetry initial) work"
    and "admissible (peer_failed peer reason) peer_allowed t PeerBackoff work'"
  shows "t + ms (int (length work)) \<le> fst (snd (retry_loop retry_failed t (MasterRetry initial) work)) \<and>
    t + ms (int (length work')) \<le> fst (snd (retry_loop (peer_failed peer reason) t PeerBackoff work'))"
proof -
  have "retry_ok t (MasterRetry initial)"
    using assms(1,2) by (simp add: retry_ok_def MasterRetry_def)
  then have "t + ms (int (length work)) \<le> fst (snd (retry_loop retry_failed t (MasterRetry initial) work))"
    using mr.loop_time assms(3) by blast
  moreover have "t + ms (int (length work')) \<le> fst (snd (retry_loop (peer_failed peer reason) t PeerBackoff work'))"
    using pb.loop_time [OF peer_ring_ok [OF peer_ring_fresh]] assms(4) by blast
  ultimately show ?thesis ..
qed

theorem retries_never_spin_witness:
  "ms 2 \<le> fst (snd (retry_loop retry_failed 0 (MasterRetry 250) [(0, 1), (5, 500)])) \<and>
   ms 1 \<le> fst (snd (retry_loop (peer_failed ''core'' ''refused'') 0 PeerBackoff [(7, 0)]))"
  using retries_never_spin [of 250 0 "[(0, 1), (5, 500)]" "''core''" "''refused''" "[(7, 0)]"]
  by (simp add: retry_failed_def retry_note_def MasterRetry_def retry_allowed_def
      peer_allowed_def PeerBackoff_def peer_failed_def peer_note_def)

end
