(* ===== verification/Lifecycle.thy ===== *)
theory Lifecycle
  imports Admission Backoff Decimal
begin

section \<open>Life of the server process\<close>

text \<open>
  Startup, service, drain and exit of \<^verbatim>\<open>RobotServer::Impl\<close> (\<^verbatim>\<open>robot_server.cpp\<close>): the process owner secret, the
  workers, the binding to the ROS master and its watch, \<^verbatim>\<open>serve\<close>, \<^verbatim>\<open>drain\<close>, \<^verbatim>\<open>finish\<close>, the exit code, and the
  calls that report or end the process (\<^verbatim>\<open>Describe\<close>, \<^verbatim>\<open>Shutdown\<close>). The steps of the main thread carry
  its program counter; the other threads are the \<open>environment\<close> steps between them.
\<close>

subsection \<open>The process owner's secret\<close>

text \<open>What one \<^verbatim>\<open>read\<close> of the inherited descriptor does, after the checks of the descriptor passed.\<close>

datatype read_result = Bytes string | EndOfFile | ReadInterrupted | ReadError

definition owner_descriptor :: "string option \<Rightarrow> string + nat" where
  "owner_descriptor value =
     (case value of
        None \<Rightarrow> Inl ''private process owner descriptor is required''
      | Some descriptor \<Rightarrow>
          if descriptor = [] then Inl ''private process owner descriptor is required''
          else if length descriptor > 9 \<or> \<not> list_all digit descriptor
          then Inl ''invalid private process owner descriptor''
          else let number = digits_value descriptor in
               if number < 3 \<or> number > 2147483647 then Inl ''invalid private process owner descriptor''
               else Inr number)"

text \<open>The loop that fills the 32 bytes; the descriptor gives at most the bytes asked for.\<close>

fun read_owner :: "string \<Rightarrow> read_result list \<Rightarrow> (string + string \<times> read_result list) option" where
  "read_owner owner reads =
     (if length owner \<ge> 32 then Some (Inr (owner, reads))
      else case reads of
        [] \<Rightarrow> None
      | ReadInterrupted # rest \<Rightarrow> read_owner owner rest
      | Bytes b # rest \<Rightarrow> if b = [] then Some (Inl ''incomplete private process owner input'')
                          else read_owner (owner @ take (32 - length owner) b) rest
      | _ # rest \<Rightarrow> Some (Inl ''incomplete private process owner input''))"

fun read_end :: "read_result list \<Rightarrow> bool option" where
  "read_end [] = None"
| "read_end (ReadInterrupted # rest) = read_end rest"
| "read_end (r # rest) = Some (r = EndOfFile \<or> r = Bytes [])"

text \<open>\<open>fifo\<close> says that the descriptor is a pipe and could be made non-blocking; \<open>None\<close> is a pipe whose
  results ran out, \<open>Some (Inl message)\<close> the exception.\<close>

definition readProcessOwner :: "string option \<Rightarrow> bool \<Rightarrow> read_result list \<Rightarrow> (string + string) option" where
  "readProcessOwner value fifo reads =
     (case owner_descriptor value of
        Inl e \<Rightarrow> Some (Inl e)
      | Inr fd \<Rightarrow>
          if \<not> fifo then Some (Inl ''invalid private process owner input'')
          else case read_owner [] reads of
            None \<Rightarrow> None
          | Some (Inl e) \<Rightarrow> Some (Inl e)
          | Some (Inr (owner, rest)) \<Rightarrow>
              (case read_end rest of
                 None \<Rightarrow> None
               | Some False \<Rightarrow> Some (Inl ''invalid private process owner input length'')
               | Some True \<Rightarrow> Some (Inr owner)))"

subsection \<open>Startup\<close>

record server_timings =
  master_probe_interval :: int
  master_unreachable_after :: int
  member_removal :: int
  command_drain :: int
  member_drain :: int
  status_flush :: int
  publication_flush :: int
  rpc_drain :: int

definition default_timings :: server_timings where
  "default_timings = \<lparr>master_probe_interval = 1000, master_unreachable_after = 5000, member_removal = 10000,
     command_drain = 2000, member_drain = 15000, status_flush = 500, publication_flush = 500, rpc_drain = 5000\<rparr>"

text \<open>Two callback lanes are pumped by one thread each.\<close>

definition callback_threads :: nat where "callback_threads = 2"

definition sameMaster :: "master_identity \<Rightarrow> master_identity \<Rightarrow> bool" where
  "sameMaster a b \<longleftrightarrow> mi_uri a = mi_uri b \<and> mi_pid a = mi_pid b \<and>
     (mi_run_id a = [] \<or> mi_run_id b = [] \<or> mi_run_id a = mi_run_id b)"

definition startWorkers :: "server \<Rightarrow> server" where
  "startWorkers s = s\<lparr>queues := (queues s)\<lparr>registration_alive := True\<rparr>\<rparr>"

definition workerReady :: "server \<Rightarrow> server" where
  "workerReady s = s\<lparr>startup := (startup s)\<lparr>ready_workers := ready_workers (startup s) + 1\<rparr>\<rparr>"

definition startupComplete :: "server \<Rightarrow> bool" where
  "startupComplete s \<longleftrightarrow> ready_workers (startup s) = 2 + callback_threads \<and> master_pinned (startup s)"

text \<open>One attempt to bind to the master: the probe, the registration of the node and the budget of the
  master calls. \<open>Some\<close> is the identity to pin.\<close>

definition bind_attempt :: "master_identity option \<Rightarrow> bool \<Rightarrow> bool \<Rightarrow> string \<Rightarrow> master_identity option" where
  "bind_attempt probe failed_before failed_after rid =
     (case probe of
        None \<Rightarrow> None
      | Some master \<Rightarrow>
          if failed_before \<or> failed_after then None else Some (master\<lparr>mi_run_id := rid\<rparr>))"

datatype bind_result = BindStops | BindRetries int master_retry | Bound master_identity

definition bind_turn ::
    "int \<Rightarrow> int \<Rightarrow> master_identity option \<Rightarrow> bool \<Rightarrow> bool \<Rightarrow> string \<Rightarrow> master_retry \<Rightarrow> server \<Rightarrow> bind_result" where
  "bind_turn now draw probe failed_before failed_after rid retry s =
     (if shutdown s \<or> stop_reason s \<noteq> NoStop then BindStops
      else case bind_attempt probe failed_before failed_after rid of
        Some master \<Rightarrow> Bound master
      | None \<Rightarrow> let (retry, delay, _) = retry_failed now draw retry in BindRetries delay retry)"

definition pin_master :: "master_identity \<Rightarrow> server \<Rightarrow> server" where
  "pin_master master s = workerReady (s\<lparr>startup := (startup s)\<lparr>pinned := master, master_pinned := True\<rparr>\<rparr>)"

subsection \<open>The watch of the master\<close>

record watch =
  w_unreachable :: bool
  w_since :: int
  w_retry :: master_retry

definition watch_start :: "server_timings \<Rightarrow> watch" where
  "watch_start t = \<lparr>w_unreachable = False, w_since = 0, w_retry = MasterRetry (min (master_probe_interval t) 250)\<rparr>"

datatype watch_turn = WatchEnds | WatchSleeps int watch

text \<open>One turn of the loop. \<open>probe\<close> is the identity the master reported within the budget; \<open>t1\<close>, \<open>t2\<close> and \<open>t3\<close> are
  the clock readings of the turn in their order.\<close>

definition watch_known :: "server_timings \<Rightarrow> master_identity \<Rightarrow> watch \<Rightarrow> server \<Rightarrow> watch_turn \<times> server" where
  "watch_known timings now w s =
     (let w = w\<lparr>w_unreachable := False, w_retry := retry_reset (w_retry w)\<rparr>; p = pinned (startup s) in
      if \<not> sameMaster now p
      then (WatchEnds, requestStop MasterChanged (setDetail
              (''pinned pid '' @ show_int (mi_pid p) @ '' at '' @ mi_uri p @ '', now pid '' @ show_int (mi_pid now)
                @ '' at '' @ mi_uri now) s))
      else (WatchSleeps (master_probe_interval timings) w,
            if mi_run_id p = [] \<and> mi_run_id now \<noteq> []
            then s\<lparr>startup := (startup s)\<lparr>pinned := p\<lparr>mi_run_id := mi_run_id now\<rparr>\<rparr>\<rparr> else s))"

definition watch_unknown ::
    "server_timings \<Rightarrow> int \<Rightarrow> int \<Rightarrow> int \<Rightarrow> int \<Rightarrow> watch \<Rightarrow> server \<Rightarrow> watch_turn \<times> server" where
  "watch_unknown timings t1 t2 t3 draw w s =
     (let w = (if w_unreachable w then w else w\<lparr>w_since := t1\<rparr>); w = w\<lparr>w_unreachable := True\<rparr> in
      if t2 - w_since w \<ge> ms (master_unreachable_after timings)
      then (WatchEnds, requestStop MasterUnreachable (setDetail
              (ros_master_uri (options s) @ '' has not answered for ''
                @ show_int (master_unreachable_after timings) @ '' ms'') s))
      else let (retry, delay, _) = retry_failed t2 draw (w_retry w)
           in (WatchSleeps (min delay (to_ms (w_since w + ms (master_unreachable_after timings) - t3)))
                 (w\<lparr>w_retry := retry\<rparr>), s))"

definition watchLoop_turn ::
    "server_timings \<Rightarrow> bool \<Rightarrow> bool \<Rightarrow> master_identity option \<Rightarrow> int \<Rightarrow> int \<Rightarrow> int \<Rightarrow> int \<Rightarrow> watch \<Rightarrow> server
      \<Rightarrow> watch_turn \<times> server" where
  "watchLoop_turn timings running watch_stop probe t1 t2 t3 draw w s =
     (if \<not> running then (WatchEnds, requestStop RosShutdown s)
      else if watch_stop then (WatchEnds, s)
      else case probe of
        Some now \<Rightarrow> watch_known timings now w s
      | None \<Rightarrow> watch_unknown timings t1 t2 t3 draw w s)"

declare read_owner.simps [simp del]

subsection \<open>Serving\<close>

definition setPhase :: "phase \<Rightarrow> server \<Rightarrow> server" where
  "setPhase p s = s\<lparr>phase := p\<rparr>"

text \<open>One wake-up of the main thread: whether it leaves the loop, and the state.\<close>

definition serve_wake :: "server \<Rightarrow> bool \<times> server" where
  "serve_wake s =
     (if stop_reason s \<noteq> NoStop then (True, s)
      else if phase s = Starting \<and> startupComplete s then (False, setPhase Ready s)
      else (False, s))"

subsection \<open>Draining\<close>

definition noCommandInFlight :: "server \<Rightarrow> bool" where
  "noCommandInFlight s = list_all (\<lambda>(_, a). \<not> in_flight (heap s a)) (members s)"

definition drain_begin :: "server \<Rightarrow> server" where
  "drain_begin s = (notifyStatus None None (setPhase Draining s))\<lparr>commands_closed := True\<rparr>"

text \<open>The removal of all members is a privileged job of the registration thread.\<close>

definition drain_post :: "server \<Rightarrow> bool \<times> server" where
  "drain_post s =
     (case postRegistration CloseAllJob True s of
        (True, s) \<Rightarrow> (True, s)
      | (False, s) \<Rightarrow>
          (False, setPhase Stopped (workerFailed ''native drain'' (Some ''member cleanup was not admitted'') s)))"

definition drain_end :: "bool \<Rightarrow> server \<Rightarrow> server" where
  "drain_end finished s = (if \<not> finished \<or> fatal s then setPhase Stopped s else setPhase Drained s)"

subsection \<open>Finishing\<close>

definition finish_begin :: "server \<Rightarrow> server" where
  "finish_begin s = markControlDownLocked (notifyStatus None None (s\<lparr>shutdown := True\<rparr>))"

definition phase_rank :: "phase \<Rightarrow> nat" where
  "phase_rank p = (case p of Starting \<Rightarrow> 0 | Ready \<Rightarrow> 1 | Draining \<Rightarrow> 2 | Drained \<Rightarrow> 3 | Stopped \<Rightarrow> 4)"

definition finish_phase :: "server \<Rightarrow> server" where
  "finish_phase s = (if phase_rank (phase s) < phase_rank Drained then setPhase Stopped s else s)"

definition stop_management :: "server \<Rightarrow> server" where
  "stop_management s = s\<lparr>queues := (queues s)\<lparr>management_stopping := True\<rparr>\<rparr>"

definition stop_commands :: "server \<Rightarrow> server" where
  "stop_commands s = s\<lparr>queues := (queues s)\<lparr>stopping := True\<rparr>\<rparr>"

definition finish_release :: "server \<Rightarrow> server" where
  "finish_release s = (snd (abortQueuedJobs s))\<lparr>members := [], namespaces := []\<rparr>"

definition exitCode :: "server \<Rightarrow> int" where
  "exitCode s =
     (case stop_reason s of
        MasterChanged \<Rightarrow> 3
      | MasterUnreachable \<Rightarrow> 4
      | RosShutdown \<Rightarrow> 5
      | Failure \<Rightarrow> 1
      | _ \<Rightarrow> if fatal s then 1 else 0)"

definition reasonText :: "stop_reason \<Rightarrow> server \<Rightarrow> string" where
  "reasonText reason s =
     (case reason of
        Signal \<Rightarrow> ''stop signal''
      | ShutdownRpc \<Rightarrow> ''Shutdown RPC''
      | MasterChanged \<Rightarrow> ''ROS master was replaced: '' @ failure_detail s
      | MasterUnreachable \<Rightarrow> ''ROS master unreachable: '' @ failure_detail s
      | RosShutdown \<Rightarrow> ''ROS shut this node down''
      | Failure \<Rightarrow> ''failure: '' @ failure_detail s
      | NoStop \<Rightarrow> if fatal s then ''failure'' else ''stopped'')"

text \<open>\<^verbatim>\<open>finish\<close> from the end of service to the exit code, when no other thread runs in between; the threads it
  joins have ended by the step that joins them.\<close>

definition finish :: "server \<Rightarrow> int \<times> server" where
  "finish s =
     (let s = finish_release (stop_commands (stop_management (finish_phase (finish_begin s))))
      in (exitCode s, s))"

subsection \<open>Describe and Shutdown\<close>

definition kMaximumReadyWaitMs :: int where "kMaximumReadyWaitMs = 30000"
definition kReadyAnswerMargin :: int where "kReadyAnswerMargin = 250"

definition awaitReady_until :: "int \<Rightarrow> int \<Rightarrow> int \<Rightarrow> int" where
  "awaitReady_until now wait deadline = min (now + ms wait) (deadline - ms kReadyAnswerMargin)"

definition awaitReady :: "int \<Rightarrow> int \<Rightarrow> server \<Rightarrow> bool" where
  "awaitReady now until s \<longleftrightarrow> phase s \<noteq> Starting \<or> until \<le> now"

record native_health =
  nh_online :: bool
  nh_summary :: string

record robot_fact =
  rf_state :: string
  rf_reason :: string

record facts =
  fa_ros_master_uri :: string
  fa_ros_master_run_id :: string
  fa_ros_master_pid :: int
  fa_master_probe_attempts :: nat
  fa_master_bindings :: nat
  fa_ros_node :: string
  fa_run_id :: string
  fa_provider :: string
  fa_members :: nat
  fa_members_revision :: nat
  fa_robots :: "(string, robot_fact) std_map"
  fa_state :: string
  fa_reason :: string

definition robot_fact_of :: "native_health option \<Rightarrow> robot_fact" where
  "robot_fact_of health =
     (case health of
        Some h \<Rightarrow>
          if nh_online h then \<lparr>rf_state = ''online'', rf_reason = []\<rparr>
          else \<lparr>rf_state = ''waiting'',
                rf_reason = (if nh_summary h = [] then ''waiting for robot telemetry'' else nh_summary h)\<rparr>
      | None \<Rightarrow> \<lparr>rf_state = ''waiting'', rf_reason = ''waiting for robot telemetry''\<rparr>)"

definition state_text :: "phase \<Rightarrow> string" where
  "state_text p =
     (case p of Starting \<Rightarrow> ''starting'' | Ready \<Rightarrow> ''ready'' | Draining \<Rightarrow> ''draining'' | _ \<Rightarrow> ''stopped'')"

text \<open>\<open>health\<close> is what the native objects answer, \<open>probes\<close> and \<open>bindings\<close> are the counters of the master
  calls. The network reference of a server with a TLS bootstrap is left out.\<close>

definition describe_facts :: "nat \<Rightarrow> nat \<Rightarrow> (nat \<Rightarrow> native_health option) \<Rightarrow> phase \<Rightarrow> server \<Rightarrow> facts" where
  "describe_facts probes bindings health current s =
     (let st = startup s; p = master_pinned st in
      \<lparr>fa_ros_master_uri = ros_master_uri (options s),
       fa_ros_master_run_id = (if p then mi_run_id (pinned st) else []),
       fa_ros_master_pid = (if p then mi_pid (pinned st) else 0),
       fa_master_probe_attempts = probes, fa_master_bindings = bindings,
       fa_ros_node = CHR ''/'' # RosNodeName (node_name (options s)),
       fa_run_id = run_id (options s), fa_provider = server_options.provider (options s),
       fa_members = length (members s), fa_members_revision = members_revision s,
       fa_robots = fold (\<lambda>(_, a). sm_set (id_robot (identity (heap s a)))
           (robot_fact_of (if closing (heap s a) then None else health a))) (members s) [],
       fa_state = state_text current,
       fa_reason = (if current = Starting \<and> \<not> p then ''waiting for ROS master binding'' else [])\<rparr>)"

record describe_response =
  dr_provider :: string
  dr_maximum_robots :: nat
  dr_maximum_members :: nat
  dr_maximum_batch_members :: nat
  dr_maximum_commands_per_robot :: nat
  dr_ready :: bool
  dr_facts :: facts

definition describe :: "nat \<Rightarrow> nat \<Rightarrow> (nat \<Rightarrow> native_health option) \<Rightarrow> server \<Rightarrow> describe_response" where
  "describe probes bindings health s =
     \<lparr>dr_provider = server_options.provider (options s), dr_maximum_robots = kMaximumRobots,
      dr_maximum_members = kMaximumRobots, dr_maximum_batch_members = kMaximumBatchMembers,
      dr_maximum_commands_per_robot = kMaximumCommandsPerRobot, dr_ready = (phase s = Ready),
      dr_facts = describe_facts probes bindings health (phase s) s\<rparr>"

text \<open>\<^verbatim>\<open>Describe\<close> up to its wait: a held call takes a readiness permit for the time it waits.\<close>

definition Describe_admit :: "refusal option \<Rightarrow> int \<Rightarrow> server \<Rightarrow> (unit progress) \<times> server" where
  "Describe_admit admit wait_ready_ms s =
     (case admit of
        Some refusal \<Rightarrow> (Answer (Inl refusal), s)
      | None \<Rightarrow>
          if wait_ready_ms > kMaximumReadyWaitMs
          then (Answer (Inl (INVALID_ARGUMENT, ''wait_ready_ms must be at most 30000'')), s)
          else if wait_ready_ms \<noteq> 0 then
            (case take_lane ReadinessLane s of
               (False, s) \<Rightarrow> (Answer (Inl (RESOURCE_EXHAUSTED, ''readiness wait capacity exhausted'')), s)
             | (True, s) \<Rightarrow> (Pending, s))
          else (Answer (Inr ()), s))"

text \<open>One turn of the wait for the drain: \<open>None\<close> keeps waiting.\<close>

definition awaitDrained :: "bool \<Rightarrow> server \<Rightarrow> bool option" where
  "awaitDrained cancelled_or_expired s =
     (if phase s \<noteq> Drained \<and> phase s \<noteq> Stopped
      then if cancelled_or_expired then Some False else None
      else Some (phase s = Drained \<and> \<not> fatal s))"

definition Shutdown_begin :: "refusal option \<Rightarrow> server \<Rightarrow> unit rpc \<times> server" where
  "Shutdown_begin admit = guarded admit (\<lambda>_. None) (\<lambda>s. (Inr (), requestStop ShutdownRpc s))"

definition Shutdown_answer :: "bool \<Rightarrow> server \<Rightarrow> unit rpc option" where
  "Shutdown_answer cancelled_or_expired s =
     (case awaitDrained cancelled_or_expired s of
        None \<Rightarrow> None
      | Some True \<Rightarrow> Some (Inr ())
      | Some False \<Rightarrow> Some (Inl (
          if fatal s then (UNKNOWN, ''native drain failed; cleanup was not confirmed'')
          else (DEADLINE_EXCEEDED, ''the drain continues; the server exits when it is done''))))"

subsection \<open>The process as a state machine\<close>

text \<open>The program counter of the main thread: serving, having begun the drain, waiting for the removal of the
  members, having joined it (with its result), finishing, and gone with an exit code.\<close>

datatype main_pc = Serving | DrainBegun | DrainWaits | DrainJoined bool | Finishing | Exited int

record process =
  pr_server :: server
  pr_pc :: main_pc

text \<open>What the other threads do: the phase is the main thread's alone, the first reason to stop stays, a
  failure is never forgotten and always asks to stop, and no member appears once the server is not
  ready (\<open>no_member_after_drain\<close>).\<close>

definition environment :: "server \<Rightarrow> server \<Rightarrow> bool" where
  "environment s s' \<longleftrightarrow> phase s' = phase s \<and> (stop_reason s \<noteq> NoStop \<longrightarrow> stop_reason s' = stop_reason s) \<and>
     (fatal s \<longrightarrow> fatal s') \<and> (fatal s' \<longrightarrow> fatal s \<or> stop_reason s' \<noteq> NoStop) \<and>
     (phase s \<noteq> Ready \<longrightarrow> set (members s') \<subseteq> set (members s)) \<and> (commands_closed s \<longrightarrow> commands_closed s')"

inductive process_step :: "process \<Rightarrow> process \<Rightarrow> bool" where
  works: "environment (pr_server p) s \<Longrightarrow> process_step p (p\<lparr>pr_server := s\<rparr>)"
| serves: "pr_pc p = Serving \<Longrightarrow> serve_wake (pr_server p) = (False, s) \<Longrightarrow> process_step p (p\<lparr>pr_server := s\<rparr>)"
| breaks: "pr_pc p = Serving \<Longrightarrow>
    process_step p (p\<lparr>pr_server := workerFailed ''startup'' what (pr_server p), pr_pc := Finishing\<rparr>)"
| leaves: "pr_pc p = Serving \<Longrightarrow> serve_wake (pr_server p) = (True, s) \<Longrightarrow> phase s \<noteq> Ready \<Longrightarrow>
    process_step p (p\<lparr>pr_server := s, pr_pc := Finishing\<rparr>)"
| drains: "pr_pc p = Serving \<Longrightarrow> serve_wake (pr_server p) = (True, s) \<Longrightarrow> phase s = Ready \<Longrightarrow>
    process_step p (p\<lparr>pr_server := drain_begin s, pr_pc := DrainBegun\<rparr>)"
| posts: "pr_pc p = DrainBegun \<Longrightarrow> drain_post (pr_server p) = (b, s) \<Longrightarrow>
    process_step p (p\<lparr>pr_server := s, pr_pc := (if b then DrainWaits else Finishing)\<rparr>)"
| closes: "pr_pc p = DrainWaits \<Longrightarrow> process_step p (p\<lparr>pr_server :=
    closeAllMembers wall stop_throws flushed (pr_server p), pr_pc := DrainJoined True\<rparr>)"
| aborts: "pr_pc p = DrainWaits \<Longrightarrow> process_step p (p\<lparr>pr_pc := DrainJoined False\<rparr>)"
| joins: "pr_pc p = DrainJoined b \<Longrightarrow>
    process_step p (p\<lparr>pr_server := drain_end b (pr_server p), pr_pc := Finishing\<rparr>)"
| finishes: "pr_pc p = Finishing \<Longrightarrow> finish (pr_server p) = (code, s) \<Longrightarrow>
    process_step p (p\<lparr>pr_server := s, pr_pc := Exited code\<rparr>)"

definition process_start :: "server_options \<Rightarrow> string \<Rightarrow> string \<Rightarrow> member \<Rightarrow> process" where
  "process_start opts inst owner d = \<lparr>pr_server = initial_server opts inst owner d, pr_pc = Serving\<rparr>"

text \<open>What holds at each point of the main thread.\<close>

definition pc_ok :: "main_pc \<Rightarrow> server \<Rightarrow> bool" where
  "pc_ok pc s \<longleftrightarrow>
     (case pc of
        Serving \<Rightarrow> phase s = Starting \<or> phase s = Ready
      | DrainBegun \<Rightarrow> phase s = Draining \<and> commands_closed s \<and> stop_reason s \<noteq> NoStop
      | DrainWaits \<Rightarrow> phase s = Draining \<and> commands_closed s \<and> stop_reason s \<noteq> NoStop
      | DrainJoined b \<Rightarrow> phase s = Draining \<and> commands_closed s \<and> stop_reason s \<noteq> NoStop \<and> (b \<longrightarrow> members s = [])
      | Finishing \<Rightarrow> stop_reason s \<noteq> NoStop \<and> (phase s = Drained \<longrightarrow> members s = [] \<and> commands_closed s)
      | Exited code \<Rightarrow> stop_reason s \<noteq> NoStop \<and> (phase s = Drained \<or> phase s = Stopped) \<and> members s = [])"

definition process_ok :: "process \<Rightarrow> bool" where
  "process_ok p \<longleftrightarrow> pc_ok (pr_pc p) (pr_server p) \<and>
     (phase (pr_server p) = Drained \<longrightarrow> members (pr_server p) = [] \<and> commands_closed (pr_server p)) \<and>
     (fatal (pr_server p) \<longrightarrow> stop_reason (pr_server p) \<noteq> NoStop)"

lemma environment_ok: "environment s s' \<Longrightarrow> pc_ok pc s \<Longrightarrow> pc_ok pc s'"
  by (cases pc) (auto simp: environment_def pc_ok_def)

lemma workerFailed_sel:
  "phase (workerFailed o1 w s) = phase s" "members (workerFailed o1 w s) = members s"
  "commands_closed (workerFailed o1 w s) = commands_closed s" "fatal (workerFailed o1 w s)"
  "stop_reason (workerFailed o1 w s) = (if stop_reason s = NoStop then Failure else stop_reason s)"
  by (simp_all add: workerFailed_def requestStop_def setDetail_def)

text \<open>The parts of the state that the removal of the members leaves to the main thread.\<close>

definition life :: "server \<Rightarrow> phase \<times> bool" where
  "life s = (phase s, commands_closed s)"

definition failing :: "server \<Rightarrow> server \<Rightarrow> bool" where
  "failing s s' \<longleftrightarrow> life s' = life s \<and> (stop_reason s \<noteq> NoStop \<longrightarrow> stop_reason s' = stop_reason s) \<and>
     (fatal s \<longrightarrow> fatal s') \<and> (fatal s' \<longrightarrow> fatal s \<or> stop_reason s' \<noteq> NoStop)"

lemma failing_refl [simp]: "failing s s"
  by (simp add: failing_def)

lemma failing_trans: "failing s t \<Longrightarrow> failing t u \<Longrightarrow> failing s u"
  by (auto simp: failing_def)

lemma failing_fold: "(\<And>x t. failing t (f x t)) \<Longrightarrow> failing s (fold f xs s)"
  by (induction xs arbitrary: s) (auto intro: failing_trans)

lemma failing_same:
  "phase s' = phase s \<Longrightarrow> commands_closed s' = commands_closed s \<Longrightarrow> stop_reason s' = stop_reason s \<Longrightarrow>
   fatal s' = fatal s \<Longrightarrow> failing s s'"
  by (simp add: failing_def life_def)

lemma failing_workerFailed: "failing s (workerFailed o1 w s)"
  by (auto simp: failing_def life_def workerFailed_sel)

lemma failing_stopMember: "failing s (stopMember a s)"
  by (rule failing_same) (simp_all add: stopMember_def stop_control_def Let_def)

lemma failing_stop_or_fail: "failing s (stop_or_fail throws a s)"
  by (simp add: stop_or_fail_def failing_workerFailed failing_stopMember split: option.split)

lemma failing_refuse: "failing s (refuse call cls code msg wall s)"
  by (rule failing_same) (simp_all add: refuse_def finishExecute_def)

lemma failing_put: "failing s t \<Longrightarrow> failing s (put a m t)"
  by (simp add: failing_def life_def)

lemma failing_fence: "failing s (fenceCommands wall as s)"
proof -
  have q: "failing t (finish_queue code msg wall a t)" for code msg a t
    by (simp add: finish_queue_def Let_def failing_put failing_fold failing_refuse)
  have c: "failing t (snd (cancelNative a t))" for a t
    by (simp add: cancelNative_def Let_def failing_put)
  have f: "failing t (finish_active msg wall a t)" for msg a t
    by (simp add: finish_active_def Let_def failing_put failing_refuse split: option.split)
  show ?thesis
    unfolding fenceCommands_def fence_member_def fence_member_dead_def
    by (simp add: failing_fold failing_trans [OF c q] failing_trans [OF f q])
qed

lemma failing_closeAllMembers: "failing s (closeAllMembers wall throws flushed s)"
proof -
  obtain as s1 where c: "close_table s = (as, s1)" by fastforce
  have "failing s s1"
    using c by (auto simp: close_table_def Let_def intro: failing_same)
  then have f: "failing s (fold (stop_or_fail throws) as (fenceCommands wall as s1))"
    by (rule failing_trans [OF _ failing_trans [OF failing_fence failing_fold [OF failing_stop_or_fail]]])
  then show ?thesis
    using failing_trans [OF f failing_workerFailed] by (simp add: closeAllMembers_def c Let_def)
qed

lemma drain_post_cases:
  assumes "drain_post s = (b, s')"
  obtains (posted) "b" "phase s' = phase s" "members s' = members s" "commands_closed s' = commands_closed s"
      "fatal s' = fatal s" "stop_reason s' = stop_reason s"
  | (refused) "\<not> b" "s' = setPhase Stopped (workerFailed ''native drain'' (Some ''member cleanup was not admitted'') s)"
  using assms by (auto simp: drain_post_def postRegistration_def Let_def split: if_splits)

lemma finish_sel:
  assumes "finish s = (code, s')"
  shows "code = exitCode s" "stop_reason s' = stop_reason s" "fatal s' = fatal s" "members s' = []"
    "phase s' = (if phase_rank (phase s) < phase_rank Drained then Stopped else phase s)"
    "commands_closed s' = commands_closed s"
proof -
  have "code = exitCode s'" "s' = finish_release (stop_commands (stop_management (finish_phase (finish_begin s))))"
    using assms by (auto simp: finish_def Let_def)
  then show "stop_reason s' = stop_reason s" "fatal s' = fatal s" "members s' = []"
      "phase s' = (if phase_rank (phase s) < phase_rank Drained then Stopped else phase s)" "code = exitCode s"
      "commands_closed s' = commands_closed s"
    by (simp_all add: finish_release_def stop_commands_def stop_management_def finish_phase_def finish_begin_def
        setPhase_def markControlDownLocked_def abortQueuedJobs_def exitCode_def)
qed

lemma process_ok_step:
  assumes "process_step p p'" "process_ok p"
  shows "process_ok p'"
  using assms(1)
proof cases
  case (works s)
  then show ?thesis
    using assms(2) environment_ok [of "pr_server p" s "pr_pc p"] by (auto simp: process_ok_def environment_def)
next
  case (serves s)
  then show ?thesis
    using assms(2) by (auto simp: process_ok_def pc_ok_def serve_wake_def setPhase_def split: if_splits)
next
  case (breaks what)
  then show ?thesis
    using assms(2) by (auto simp: process_ok_def pc_ok_def workerFailed_sel)
next
  case (leaves s)
  then show ?thesis
    using assms(2) by (auto simp: process_ok_def pc_ok_def serve_wake_def split: if_splits)
next
  case (drains s)
  then show ?thesis
    using assms(2) by (auto simp: process_ok_def pc_ok_def serve_wake_def drain_begin_def setPhase_def split: if_splits)
next
  case (posts b s)
  from posts(3) posts assms(2) show ?thesis
    by (cases rule: drain_post_cases) (auto simp: process_ok_def pc_ok_def workerFailed_sel setPhase_def)
next
  case (closes wall throws flushed)
  then show ?thesis
    using assms(2) failing_closeAllMembers [of "pr_server p" wall throws flushed]
    by (auto simp: process_ok_def pc_ok_def closeAllMembers_ok failing_def life_def)
next
  case (joins b)
  then show ?thesis
    using assms(2) by (auto simp: process_ok_def pc_ok_def drain_end_def setPhase_def)
next
  case (finishes code s)
  note f = finish_sel [OF finishes(3)]
  from finishes assms(2) show ?thesis
    by (cases "phase (pr_server p)") (auto simp: process_ok_def pc_ok_def f phase_rank_def)
qed (use assms(2) in \<open>auto simp: process_ok_def pc_ok_def\<close>)

lemma process_ok_start: "process_ok (process_start opts inst owner d)"
  by (simp add: process_ok_def process_start_def pc_ok_def initial_server_def)

lemma process_ok_reach: "process_step\<^sup>*\<^sup>* (process_start opts inst owner d) p \<Longrightarrow> process_ok p"
  by (induction rule: rtranclp_induct) (auto intro: process_ok_step process_ok_start)

subsection \<open>Properties of the process\<close>

text \<open>A drained server has no member left and takes no command, and a \<^verbatim>\<open>Shutdown\<close> call is answered with
  success only then and only without a failure.\<close>

theorem drained_server_is_empty:
  assumes "process_step\<^sup>*\<^sup>* (process_start opts inst owner d) p"
  shows "(phase (pr_server p) = Drained \<longrightarrow> members (pr_server p) = [] \<and> commands_closed (pr_server p)) \<and>
    (Shutdown_answer late (pr_server p) = Some (Inr ()) \<longrightarrow>
       phase (pr_server p) = Drained \<and> members (pr_server p) = [] \<and> \<not> fatal (pr_server p))"
  using process_ok_reach [OF assms]
  by (auto simp: process_ok_def Shutdown_answer_def awaitDrained_def split: option.splits bool.splits if_splits)

text \<open>The exit code tells the supervisor the truth: it is zero exactly when the server was asked to stop by a
  signal or a \<^verbatim>\<open>Shutdown\<close> call and nothing failed, and otherwise names the first reason to stop.\<close>

theorem exit_code_exact:
  assumes "process_step\<^sup>*\<^sup>* (process_start opts inst owner d) p" "pr_pc p = Finishing"
    and "finish (pr_server p) = (code, s)"
  shows "(code = 0 \<longleftrightarrow> stop_reason (pr_server p) \<in> {Signal, ShutdownRpc} \<and> \<not> fatal (pr_server p)) \<and>
    (code = 3 \<longleftrightarrow> stop_reason (pr_server p) = MasterChanged) \<and>
    (code = 4 \<longleftrightarrow> stop_reason (pr_server p) = MasterUnreachable) \<and>
    (code = 5 \<longleftrightarrow> stop_reason (pr_server p) = RosShutdown) \<and> code \<in> {0, 1, 3, 4, 5}"
proof -
  have "stop_reason (pr_server p) \<noteq> NoStop"
    using process_ok_reach [OF assms(1)] assms(2) by (simp add: process_ok_def pc_ok_def)
  then show ?thesis
    using finish_sel(1) [OF assms(3)]
    by (cases "stop_reason (pr_server p)") (simp_all add: exitCode_def)
qed

text \<open>The order of the phases.\<close>

fun phase_next :: "phase \<Rightarrow> phase \<Rightarrow> bool" where
  "phase_next Starting p \<longleftrightarrow> p \<in> {Starting, Ready, Stopped}"
| "phase_next Ready p \<longleftrightarrow> p \<in> {Ready, Draining, Stopped}"
| "phase_next Draining p \<longleftrightarrow> p \<in> {Draining, Drained, Stopped}"
| "phase_next Drained p \<longleftrightarrow> p = Drained"
| "phase_next Stopped p \<longleftrightarrow> p = Stopped"

lemma phase_next_refl [simp]: "phase_next p p"
  by (cases p) auto

lemma phase_next_step:
  assumes "process_step p p'" "process_ok p"
  shows "phase_next (phase (pr_server p)) (phase (pr_server p'))"
  using assms(1)
proof cases
  case (posts b s)
  from posts(3) posts assms(2) show ?thesis
    by (cases rule: drain_post_cases) (auto simp: process_ok_def pc_ok_def setPhase_def)
next
  case (closes wall throws flushed)
  then show ?thesis
    using failing_closeAllMembers [of "pr_server p" wall throws flushed] by (simp add: failing_def life_def)
next
  case (finishes code s)
  then show ?thesis
    using finish_sel(5) [OF finishes(3)] by (cases "phase (pr_server p)") (simp_all add: phase_rank_def)
next
  case (joins b)
  then show ?thesis
    using assms(2) by (simp add: process_ok_def pc_ok_def drain_end_def setPhase_def)
qed (auto simp: environment_def serve_wake_def workerFailed_sel drain_begin_def setPhase_def split: if_splits)

lemma reason_kept_step:
  assumes "process_step p p'" "stop_reason (pr_server p) \<noteq> NoStop"
  shows "stop_reason (pr_server p') = stop_reason (pr_server p)"
  using assms(1)
proof cases
  case (posts b s)
  from posts(3) posts assms(2) show ?thesis
    by (cases rule: drain_post_cases) (simp_all add: workerFailed_sel setPhase_def)
next
  case (closes wall throws flushed)
  then show ?thesis
    using failing_closeAllMembers [of "pr_server p" wall throws flushed] assms(2) by (simp add: failing_def)
qed (use assms(2) in \<open>auto simp: environment_def serve_wake_def workerFailed_sel drain_begin_def setPhase_def
      drain_end_def finish_sel split: if_splits\<close>)

text \<open>A server only moves forward: it becomes ready from starting, drains from ready, ends drained from
  draining, and never leaves an end; the first reason to stop is never replaced.\<close>

theorem phases_move_forward:
  assumes "process_step\<^sup>*\<^sup>* (process_start opts inst owner d) p" "process_step p p'"
  shows "phase_next (phase (pr_server p)) (phase (pr_server p')) \<and>
    (stop_reason (pr_server p) \<noteq> NoStop \<longrightarrow> stop_reason (pr_server p') = stop_reason (pr_server p))"
  using phase_next_step [OF assms(2) process_ok_reach [OF assms(1)]] reason_kept_step [OF assms(2)] by blast

text \<open>How far the main thread is from its exit.\<close>

fun pc_distance :: "main_pc \<Rightarrow> nat" where
  "pc_distance Serving = 5"
| "pc_distance DrainBegun = 4"
| "pc_distance DrainWaits = 3"
| "pc_distance (DrainJoined _) = 2"
| "pc_distance Finishing = 1"
| "pc_distance (Exited _) = 0"

lemma main_progress:
  assumes "stop_reason (pr_server p) \<noteq> NoStop" "pc_distance (pr_pc p) \<noteq> 0"
  shows "\<exists>p'. process_step p p' \<and> pc_distance (pr_pc p') < pc_distance (pr_pc p)"
proof (cases "pr_pc p")
  case Serving
  have "serve_wake (pr_server p) = (True, pr_server p)"
    using assms(1) by (simp add: serve_wake_def)
  then show ?thesis
    using process_step.leaves [of p "pr_server p"] process_step.drains [of p "pr_server p"] Serving
    by (cases "phase (pr_server p) = Ready") force+
next
  case DrainBegun
  obtain b s where "drain_post (pr_server p) = (b, s)" by fastforce
  from process_step.posts [OF DrainBegun this] show ?thesis
    using DrainBegun by (intro exI conjI) (assumption, simp)
next
  case DrainWaits
  then show ?thesis using process_step.aborts [of p] by (intro exI conjI) (assumption, simp)+
next
  case (DrainJoined b)
  then show ?thesis using process_step.joins [of p b] by (intro exI conjI) (assumption, simp)+
next
  case Finishing
  obtain code s where "finish (pr_server p) = (code, s)" by fastforce
  from process_step.finishes [OF Finishing this] show ?thesis
    using Finishing by (intro exI conjI) (assumption, simp)
qed (use assms(2) in simp)

lemma main_exits:
  assumes "stop_reason (pr_server p) \<noteq> NoStop"
  shows "\<exists>p' code. process_step\<^sup>*\<^sup>* p p' \<and> pr_pc p' = Exited code"
  using assms
proof (induction "pc_distance (pr_pc p)" arbitrary: p rule: less_induct)
  case less
  show ?case
  proof (cases "pc_distance (pr_pc p) = 0")
    case True
    then obtain code where "pr_pc p = Exited code" by (cases "pr_pc p") auto
    then show ?thesis by blast
  next
    case False
    then obtain q where q: "process_step p q" "pc_distance (pr_pc q) < pc_distance (pr_pc p)"
      using main_progress [OF less.prems] by blast
    moreover have "stop_reason (pr_server q) \<noteq> NoStop"
      using reason_kept_step [OF q(1)] less.prems by simp
    ultimately show ?thesis
      using less.hyps by (meson converse_rtranclp_into_rtranclp)
  qed
qed


subsection \<open>A process that is asked to stop\<close>

definition ex_process :: process where
  "ex_process = process_start default_options ''i'' [] ex_holder"

definition ex_stopping :: process where
  "ex_stopping = ex_process\<lparr>pr_server := requestStop Signal (pr_server ex_process)\<rparr>"

definition ex_finishing :: process where
  "ex_finishing = ex_stopping\<lparr>pr_pc := Finishing\<rparr>"

lemma ex_stopping_sel:
  "stop_reason (pr_server ex_stopping) = Signal" "phase (pr_server ex_stopping) = Starting"
  "\<not> fatal (pr_server ex_stopping)" "pr_pc ex_stopping = Serving"
  by (simp_all add: ex_stopping_def ex_process_def process_start_def initial_server_def requestStop_def)

lemma ex_stopping_reach:
  "process_step\<^sup>*\<^sup>* (process_start default_options ''i'' [] ex_holder) ex_stopping"
proof -
  have "environment (pr_server ex_process) (requestStop Signal (pr_server ex_process))"
    by (simp add: environment_def requestStop_def)
  from process_step.works [OF this] show ?thesis
    unfolding ex_stopping_def ex_process_def by blast
qed

lemma ex_finishing_step: "process_step ex_stopping ex_finishing"
  using process_step.leaves [of ex_stopping "pr_server ex_stopping"]
  by (simp add: ex_stopping_sel serve_wake_def ex_finishing_def)

lemma ex_finishing_reach:
  "process_step\<^sup>*\<^sup>* (process_start default_options ''i'' [] ex_holder) ex_finishing"
  using ex_stopping_reach ex_finishing_step by (rule rtranclp.rtrancl_into_rtrancl)

theorem exit_code_exact_witness: "fst (finish (pr_server ex_finishing)) = 0"
  using exit_code_exact [OF ex_finishing_reach, of "fst (finish (pr_server ex_finishing))" "snd (finish (pr_server ex_finishing))"]
  by (simp add: ex_finishing_def ex_stopping_sel)

theorem phases_move_forward_witness: "stop_reason (pr_server ex_finishing) = Signal"
  using phases_move_forward [OF ex_stopping_reach ex_finishing_step] by (simp add: ex_stopping_sel)


text \<open>A server that served, was asked to stop, and removed its members.\<close>

definition ex_serving :: process where
  "ex_serving = ex_process\<lparr>pr_server := (pr_server ex_process)\<lparr>startup := \<lparr>ready_workers = 4, master_pinned = True,
     pinned = \<lparr>mi_uri = ''u'', mi_pid = 1, mi_run_id = []\<rparr>\<rparr>, queues := idle_queues\<lparr>registration_alive := True\<rparr>\<rparr>\<rparr>"

definition ex_drained :: process where
  "ex_drained =
     (let up = snd (serve_wake (pr_server ex_serving)); asked = requestStop Signal up;
          posted = snd (drain_post (drain_begin asked))
      in \<lparr>pr_server = drain_end True (closeAllMembers 0 (\<lambda>_. None) True posted), pr_pc = Finishing\<rparr>)"

lemma ex_serving_steps:
  defines "up \<equiv> snd (serve_wake (pr_server ex_serving))"
  shows "process_step ex_process ex_serving" "process_step ex_serving (ex_serving\<lparr>pr_server := up\<rparr>)"
    "phase up = Ready" "stop_reason up = NoStop" "pr_pc ex_serving = Serving" "members up = []"
    "\<not> shutdown up" "queues up = idle_queues\<lparr>registration_alive := True\<rparr>" "\<not> fatal up"
proof -
  have "environment (pr_server ex_process) (pr_server ex_serving)"
    by (simp add: environment_def ex_serving_def)
  from process_step.works [OF this] show "process_step ex_process ex_serving"
    by (simp add: ex_serving_def)
  have "serve_wake (pr_server ex_serving) = (False, up)"
    by (simp add: serve_wake_def up_def ex_serving_def ex_process_def process_start_def initial_server_def)
  then show "process_step ex_serving (ex_serving\<lparr>pr_server := up\<rparr>)"
    by (intro process_step.serves) (simp_all add: ex_serving_def ex_process_def process_start_def)
qed (simp_all add: up_def serve_wake_def ex_serving_def ex_process_def process_start_def initial_server_def
      startupComplete_def callback_threads_def setPhase_def)

lemma ex_drained_phase: "phase (pr_server ex_drained) = Drained" "pr_pc ex_drained = Finishing"
  using ex_serving_steps
  by (simp_all add: ex_drained_def Let_def drain_post_def postRegistration_def drain_begin_def setPhase_def requestStop_def
      closeAllMembers_def close_table_def fenceCommands_def drain_end_def notifyStatus_def idle_queues_def)

lemma ex_drained_reach:
  "process_step\<^sup>*\<^sup>* (process_start default_options ''i'' [] ex_holder) ex_drained"
proof -
  define up where "up = snd (serve_wake (pr_server ex_serving))"
  define asked where "asked = requestStop Signal up"
  define p1 where "p1 = ex_serving\<lparr>pr_server := asked\<rparr>"
  define p2 where "p2 = p1\<lparr>pr_server := drain_begin asked, pr_pc := DrainBegun\<rparr>"
  define p3 where "p3 = p2\<lparr>pr_server := snd (drain_post (drain_begin asked)), pr_pc := DrainWaits\<rparr>"
  define p4 where "p4 = p3\<lparr>pr_server := closeAllMembers 0 (\<lambda>_. None) True (pr_server p3), pr_pc := DrainJoined True\<rparr>"
  note r = ex_serving_steps [folded up_def]
  have a: "process_step (ex_serving\<lparr>pr_server := up\<rparr>) p1"
    using process_step.works [of "ex_serving\<lparr>pr_server := up\<rparr>" asked] r
    by (simp add: p1_def asked_def environment_def requestStop_def)
  have b: "process_step p1 p2"
    unfolding p2_def by (rule process_step.drains) (use r in \<open>simp_all add: p1_def serve_wake_def asked_def requestStop_def\<close>)
  have "fst (drain_post (drain_begin asked))"
    using r by (simp add: drain_post_def postRegistration_def drain_begin_def setPhase_def asked_def requestStop_def
        notifyStatus_def idle_queues_def)
  then have "drain_post (pr_server p2) = (True, snd (drain_post (drain_begin asked)))"
    by (simp add: p2_def prod_eq_iff)
  from process_step.posts [OF _ this] have c: "process_step p2 p3"
    by (simp add: p3_def p2_def)
  have d: "process_step p3 p4"
    unfolding p4_def by (rule process_step.closes) (simp add: p3_def)
  have "ex_drained = p4\<lparr>pr_server := drain_end True (pr_server p4), pr_pc := Finishing\<rparr>"
    by (rule process.equality) (simp_all add: p4_def p3_def ex_drained_def Let_def asked_def up_def)
  then have e: "process_step p4 ex_drained"
    using process_step.joins [of p4 True] by (simp add: p4_def)
  have "process_step\<^sup>*\<^sup>* ex_process ex_drained"
    using r(1) r(2) a b c d e by (meson converse_rtranclp_into_rtranclp rtranclp.rtrancl_refl)
  then show ?thesis by (simp add: ex_process_def)
qed

theorem drained_server_is_empty_witness:
  "phase (pr_server ex_drained) = Drained \<and> members (pr_server ex_drained) = [] \<and> commands_closed (pr_server ex_drained)"
  using drained_server_is_empty [OF ex_drained_reach] ex_drained_phase by simp

subsection \<open>The watch gives up in time and never early\<close>

text \<open>A history of turns: what the probe reported, the three clock readings and the draw.\<close>

type_synonym probe_turn = "master_identity option \<times> int \<times> int \<times> int \<times> int"

fun watch_run :: "server_timings \<Rightarrow> probe_turn list \<Rightarrow> watch \<Rightarrow> server \<Rightarrow> watch_turn \<times> server" where
  "watch_run timings [] w s = (WatchSleeps 0 w, s)"
| "watch_run timings ((probe, t1, t2, t3, draw) # rest) w s =
     (case watchLoop_turn timings True False probe t1 t2 t3 draw w s of
        (WatchEnds, s) \<Rightarrow> (WatchEnds, s)
      | (WatchSleeps _ w, s) \<Rightarrow> watch_run timings rest w s)"

text \<open>\<open>silent_streak limit turns since\<close>: the turns from the first on all failed and the last checked the clock at
  least \<open>limit\<close> after \<open>since\<close>.\<close>

definition silent_streak :: "int \<Rightarrow> probe_turn list \<Rightarrow> int \<Rightarrow> bool" where
  "silent_streak limit turns since \<longleftrightarrow> turns \<noteq> [] \<and> list_all (\<lambda>(probe, _). probe = None) turns \<and>
     (case last turns of (_, _, t2, _, _) \<Rightarrow> ms limit \<le> t2 - since)"

lemma silent_streak_Cons:
  "silent_streak limit turns since \<Longrightarrow> silent_streak limit ((None, t) # turns) since"
  by (auto simp: silent_streak_def)

lemma watch_known_sel:
  assumes "watch_known timings now w s = (x, s')"
  shows "x = WatchEnds \<Longrightarrow> stop_reason s = NoStop \<Longrightarrow> stop_reason s' = MasterChanged"
    and "x = WatchSleeps d w' \<Longrightarrow> \<not> w_unreachable w' \<and> stop_reason s' = stop_reason s"
  using assms by (auto simp: watch_known_def Let_def requestStop_def setDetail_def split: if_splits)

lemma watch_unknown_sel:
  assumes "watch_unknown timings t1 t2 t3 draw w s = (x, s')"
  shows "x = WatchEnds \<Longrightarrow> ms (master_unreachable_after timings) \<le> t2 - (if w_unreachable w then w_since w else t1)"
    and "x = WatchSleeps d w' \<Longrightarrow> w_unreachable w' \<and> s' = s \<and> w_since w' = (if w_unreachable w then w_since w else t1)"
  using assms by (auto simp: watch_unknown_def Let_def split: if_splits prod.splits)

definition gives_up :: "int \<Rightarrow> probe_turn list \<Rightarrow> int \<Rightarrow> bool" where
  "gives_up limit turns since \<longleftrightarrow> (\<exists>streak unused. turns = streak @ unused \<and> silent_streak limit streak since)"

lemma gives_up_Cons: "gives_up limit turns since \<Longrightarrow> gives_up limit ((None, t) # turns) since"
  unfolding gives_up_def by (metis append_Cons silent_streak_Cons)

lemma gives_up_now: "ms limit \<le> t2 - since \<Longrightarrow> gives_up limit ((None, t1, t2, t3, draw) # rest) since"
  unfolding gives_up_def by (intro exI [of _ "[(None, t1, t2, t3, draw)]"] exI [of _ rest]) (simp add: silent_streak_def)

text \<open>A history in which the watch gave up on the master after a failure seen at \<open>t1\<close>.\<close>

definition gave_up :: "int \<Rightarrow> probe_turn list \<Rightarrow> bool" where
  "gave_up limit turns \<longleftrightarrow> (\<exists>before t1 e after. turns = before @ (None, t1, e) # after \<and> gives_up limit ((None, t1, e) # after) t1)"

lemma gave_up_Cons: "gave_up limit turns \<Longrightarrow> gave_up limit (turn # turns)"
  unfolding gave_up_def by (metis append_Cons)

lemma gave_up_first: "gives_up limit ((None, t1, e) # after) t1 \<Longrightarrow> gave_up limit ((None, t1, e) # after)"
  unfolding gave_up_def by (metis append_Nil)

lemma watch_run_streak:
  assumes "watch_run timings turns w s = (WatchEnds, s')" "stop_reason s = NoStop" "stop_reason s' = MasterUnreachable"
  shows "w_unreachable w \<and> gives_up (master_unreachable_after timings) turns (w_since w) \<or>
    gave_up (master_unreachable_after timings) turns"
  using assms
proof (induction turns arbitrary: w s)
  case (Cons turn rest)
  obtain probe t1 t2 t3 draw where turn: "turn = (probe, t1, t2, t3, draw)"
    by (metis prod_cases5)
  obtain x s1 where x: "watchLoop_turn timings True False probe t1 t2 t3 draw w s = (x, s1)"
    by fastforce
  let ?limit = "master_unreachable_after timings"
  show ?case
  proof (cases probe)
    case (Some now)
    with x have k: "watch_known timings now w s = (x, s1)" by (simp add: watchLoop_turn_def)
    show ?thesis
    proof (cases x)
      case WatchEnds
      with watch_known_sel(1) [OF k] Cons.prems x turn show ?thesis by simp
    next
      case (WatchSleeps d w')
      with watch_known_sel(2) [OF k] Cons.IH [of w' s1] Cons.prems x turn gave_up_Cons show ?thesis by simp
    qed
  next
    case None
    with x have k: "watch_unknown timings t1 t2 t3 draw w s = (x, s1)" by (simp add: watchLoop_turn_def)
    let ?since = "if w_unreachable w then w_since w else t1"
    have "gives_up ?limit (turn # rest) ?since \<or> gave_up ?limit (turn # rest)"
    proof (cases x)
      case WatchEnds
      from gives_up_now [OF watch_unknown_sel(1) [OF k this]] show ?thesis
        using None turn by simp
    next
      case (WatchSleeps d w')
      with watch_unknown_sel(2) [OF k] have w': "w_unreachable w'" "s1 = s" "w_since w' = ?since" by auto
      with WatchSleeps Cons.IH [of w' s1] Cons.prems x turn
      have "gives_up ?limit rest ?since \<or> gave_up ?limit rest" by simp
      then show ?thesis
        using None turn gives_up_Cons gave_up_Cons by metis
    qed
    then show ?thesis
      using None turn gave_up_first by (cases "w_unreachable w") auto
  qed
qed simp

text \<open>The watch never gives up on a master early: it asks to stop for an unreachable master only after
  every probe failed over a stretch of at least the configured time.\<close>

theorem watch_never_early:
  assumes "watch_run timings turns (watch_start timings) s = (WatchEnds, s')"
    and "stop_reason s = NoStop" "stop_reason s' = MasterUnreachable"
  shows "\<exists>before t1 e streak unused. turns = before @ ((None, t1, e) # streak) @ unused \<and>
    list_all (\<lambda>(probe, _). probe = None) streak \<and>
    (case last ((None, t1, e) # streak) of (_, _, t2, _, _) \<Rightarrow> ms (master_unreachable_after timings) \<le> t2 - t1)"
proof -
  let ?limit = "master_unreachable_after timings"
  have "gave_up ?limit turns"
    using watch_run_streak [OF assms] by (simp add: watch_start_def)
  then obtain before t1 e post streak unused where
    t: "turns = before @ (None, t1, e) # post" "(None, t1, e) # post = streak @ unused" "silent_streak ?limit streak t1"
    unfolding gave_up_def gives_up_def by blast
  then obtain streak' where "streak = (None, t1, e) # streak'"
    by (cases streak) (auto simp: silent_streak_def)
  with t show ?thesis
    by (intro exI [of _ before] exI [of _ t1] exI [of _ e] exI [of _ streak'] exI [of _ unused])
       (simp add: silent_streak_def)
qed

lemma to_ms_lower: "0 \<le> x \<Longrightarrow> ms (to_ms x) \<le> x"
  by (simp add: ms_def)

text \<open>Nor does it give up late: while the master is silent the watch sleeps at least no longer than to the
  deadline of the silence, so a probe is made by then, and the first probe that fails at or after the
  deadline ends the watch.\<close>

theorem watch_never_late:
  assumes "w_unreachable w" "t2 \<le> t3" "t3 \<le> w_since w + ms (master_unreachable_after timings)"
  shows "(case watch_unknown timings t1 t2 t3 draw w s of
      (WatchEnds, s') \<Rightarrow> t2 = t3 \<and> t3 = w_since w + ms (master_unreachable_after timings)
    | (WatchSleeps d w', s') \<Rightarrow> t3 + ms d \<le> w_since w + ms (master_unreachable_after timings) \<and> d \<le> draw \<and>
        w_since w' = w_since w) \<and>
    (\<forall>t. w_since w + ms (master_unreachable_after timings) \<le> t \<longrightarrow>
       fst (watch_unknown timings t1 t t3 draw w s) = WatchEnds)"
proof -
  let ?due = "w_since w + ms (master_unreachable_after timings)"
  have "ms (min draw (to_ms (?due - t3))) \<le> ms (to_ms (?due - t3))"
    by (simp add: ms_def)
  then have "t3 + ms (min draw (to_ms (?due - t3))) \<le> ?due"
    using to_ms_lower [of "?due - t3"] assms(3) by linarith
  then show ?thesis
    using assms by (auto simp: watch_unknown_def Let_def retry_failed_def split: prod.split)
qed

subsection \<open>The owner's secret is read whole\<close>

text \<open>The number of the owner's descriptor survives the environment: what the parent prints in decimal is what
  the server reads.\<close>

theorem owner_descriptor_roundtrip:
  assumes "3 \<le> n" "n < 10 ^ 9"
  shows "owner_descriptor (Some (show_nat n)) = Inr n"
  using assms length_show_nat [of n 8] show_nat_digits [of n]
  by (simp add: owner_descriptor_def not_less)

theorem owner_descriptor_roundtrip_witness: "owner_descriptor (Some ''17'') = Inr 17"
proof -
  have "show_nat 17 = ''17''"
    by (simp add: show_nat.simps digit_char_def) code_simp
  with owner_descriptor_roundtrip [of 17] show ?thesis by simp
qed

lemma read_owner_steps:
  "32 \<le> length owner \<Longrightarrow> read_owner owner reads = Some (Inr (owner, reads))"
  "length owner < 32 \<Longrightarrow> read_owner owner [] = None"
  "length owner < 32 \<Longrightarrow> read_owner owner (ReadInterrupted # rs) = read_owner owner rs"
  "length owner < 32 \<Longrightarrow> read_owner owner (Bytes b # rs) =
     (if b = [] then Some (Inl ''incomplete private process owner input'')
      else read_owner (owner @ take (32 - length owner) b) rs)"
  "length owner < 32 \<Longrightarrow> read_owner owner (EndOfFile # rs) = Some (Inl ''incomplete private process owner input'')"
  "length owner < 32 \<Longrightarrow> read_owner owner (ReadError # rs) = Some (Inl ''incomplete private process owner input'')"
  by (subst read_owner.simps, simp)+

lemma read_owner_prefix:
  assumes "read_owner owner reads = Some (Inr (out, rest))" "length owner \<le> 32"
  shows "length out = 32 \<and> take (length owner) out = owner"
  using assms
proof (induction owner reads rule: read_owner.induct)
  case (1 owner reads)
  show ?case
  proof (cases "length owner \<ge> 32")
    case True
    with "1.prems" show ?thesis by (simp add: read_owner_steps)
  next
    case False
    then have l: "length owner < 32" by simp
    obtain r rs where reads: "reads = r # rs"
      using "1.prems"(1) l by (cases reads) (simp_all add: read_owner_steps)
    show ?thesis
    proof (cases r)
      case (Bytes b)
      then have b: "b \<noteq> []" "read_owner (owner @ take (32 - length owner) b) rs = Some (Inr (out, rest))"
        using "1.prems"(1) l reads by (auto simp: read_owner_steps split: if_splits)
      have "length (owner @ take (32 - length owner) b) \<le> 32" using "1.prems"(2) by auto
      with "1.IH"(1) [OF False reads Bytes b(1) b(2)] have
        out: "length out = 32" "take (length (owner @ take (32 - length owner) b)) out = owner @ take (32 - length owner) b"
        by blast+
      then have "take (length owner) (take (length (owner @ take (32 - length owner) b)) out) = owner" by simp
      with out(1) show ?thesis by (simp only: take_take) (simp add: min_def)
    next
      case ReadInterrupted
      with "1.IH"(2) [OF False reads] "1.prems" l reads show ?thesis
        by (simp add: read_owner_steps)
    qed (use "1.prems"(1) l reads in \<open>simp_all add: read_owner_steps\<close>)
  qed
qed

lemma read_owner_chunks:
  assumes "\<forall>b \<in> set chunks. b \<noteq> []" "length owner + length (concat chunks) = 32"
  shows "read_owner owner (map Bytes chunks @ tail) = Some (Inr (owner @ concat chunks, tail))"
  using assms
proof (induction chunks arbitrary: owner)
  case (Cons b chunks)
  then have b: "b \<noteq> []" "length owner + length b \<le> 32" by auto
  then have "length owner < 32" using length_greater_0_conv [of b] by linarith
  with b have "read_owner owner (map Bytes (b # chunks) @ tail) = read_owner (owner @ b) (map Bytes chunks @ tail)"
    by (simp add: read_owner_steps)
  with Cons show ?case by simp
qed (simp add: read_owner_steps)

text \<open>The secret of the process owner is read whole: however the pipe splits its 32 bytes, the server gets
  exactly these bytes, and whatever it accepts has 32 bytes.\<close>

theorem process_owner_read_whole:
  assumes "owner_descriptor value = Inr fd" "\<forall>b \<in> set chunks. b \<noteq> []" "length (concat chunks) = 32"
  shows "readProcessOwner value True (map Bytes chunks @ [EndOfFile]) = Some (Inr (concat chunks)) \<and>
    (\<forall>value fifo reads owner. readProcessOwner value fifo reads = Some (Inr owner) \<longrightarrow> length owner = 32)"
proof
  show "readProcessOwner value True (map Bytes chunks @ [EndOfFile]) = Some (Inr (concat chunks))"
    using assms read_owner_chunks [of chunks "[]" "[EndOfFile]"] by (simp add: readProcessOwner_def)
  show "\<forall>value fifo reads owner. readProcessOwner value fifo reads = Some (Inr owner) \<longrightarrow> length owner = 32"
    using read_owner_prefix [of "[]"]
    by (auto simp: readProcessOwner_def split: sum.splits if_splits option.splits bool.splits prod.splits)
qed

theorem process_owner_read_whole_witness:
  "readProcessOwner (Some ''17'') True (map Bytes [replicate 10 CHR ''a'', replicate 22 CHR ''b''] @ [EndOfFile])
     = Some (Inr (replicate 10 CHR ''a'' @ replicate 22 CHR ''b''))"
proof -
  have "owner_descriptor (Some ''17'') = Inr 17"
    by (simp add: owner_descriptor_def digits_value_def digit_def within_def less_eq_char_def)
  from process_owner_read_whole [OF this, of "[replicate 10 CHR ''a'', replicate 22 CHR ''b'']"] show ?thesis
    by simp
qed

subsection \<open>Examples of the watch\<close>

definition ex_turns :: "probe_turn list" where
  "ex_turns = [(None, 0, 0, 0, 100), (None, ms 5000, ms 5000, ms 5000, 1)]"

definition ex_gave_up :: server where
  "ex_gave_up = requestStop MasterUnreachable (setDetail ''m has not answered for 5000 ms''
     (initial_server (default_options\<lparr>ros_master_uri := ''m''\<rparr>) [] [] ex_holder))"

lemma show_5000: "show_int 5000 = ''5000''"
  by (simp add: show_int_def show_nat.simps digit_char_def) code_simp

lemma ex_watch_run:
  "watch_run default_timings ex_turns (watch_start default_timings)
     (initial_server (default_options\<lparr>ros_master_uri := ''m''\<rparr>) [] [] ex_holder) = (WatchEnds, ex_gave_up)"
  by (simp add: ex_turns_def watchLoop_turn_def watch_unknown_def watch_start_def default_timings_def Let_def ms_def
      retry_failed_def retry_note_def MasterRetry_def ex_gave_up_def show_5000 initial_server_def)

theorem watch_never_early_witness:
  "\<exists>before t1 e streak unused. ex_turns = before @ ((None, t1, e) # streak) @ unused \<and>
    list_all (\<lambda>(probe, _). probe = None) streak \<and>
    (case last ((None, t1, e) # streak) of (_, _, t2, _, _) \<Rightarrow> ms (master_unreachable_after default_timings) \<le> t2 - t1)"
  by (rule watch_never_early [OF ex_watch_run])
     (simp_all add: ex_gave_up_def requestStop_def setDetail_def initial_server_def)

theorem watch_never_late_witness:
  "fst (watch_unknown default_timings 0 (ms 5000) 0 10 \<lparr>w_unreachable = True, w_since = 0, w_retry = MasterRetry 250\<rparr> ex_gave_up)
     = WatchEnds"
  using watch_never_late [where w = "\<lparr>w_unreachable = True, w_since = 0, w_retry = MasterRetry 250\<rparr>" and ?t1.0 = 0 and ?t2.0 = 0
      and ?t3.0 = 0 and timings = default_timings and draw = 10 and s = ex_gave_up]
  by (simp add: default_timings_def ms_def)

end
