(* ===== verification/Floats.thy ===== *)
theory Floats
  imports Complex_Main "HOL-Library.Log_Nat"
begin

section \<open>Rounded arithmetic\<close>

text \<open>
  C++ \<^verbatim>\<open>double\<close> and \<^verbatim>\<open>float\<close> values are rationals here and every operation rounds its exact result to
  nearest, ties to even, with a significand of 53 or 24 bits. The exponent is unbounded: the
  speeds, rates and voltages of this program stay far from overflow and from the subnormal range.
  \<open>fp\<close> adds the values that are not finite, where a check of the source asks for them.
\<close>

datatype fp = Fin rat | PosInf | NegInf | NaN

fun isfinite :: "fp \<Rightarrow> bool" where
  "isfinite (Fin _) = True"
| "isfinite _ = False"

fun fp_value :: "fp \<Rightarrow> rat" where
  "fp_value (Fin x) = x"
| "fp_value _ = 0"

text \<open>Every comparison with a NaN is false.\<close>

fun fp_le :: "fp \<Rightarrow> fp \<Rightarrow> bool" where
  "fp_le (Fin x) (Fin y) \<longleftrightarrow> x \<le> y"
| "fp_le NaN _ \<longleftrightarrow> False"
| "fp_le _ NaN \<longleftrightarrow> False"
| "fp_le NegInf _ \<longleftrightarrow> True"
| "fp_le _ PosInf \<longleftrightarrow> True"
| "fp_le _ _ \<longleftrightarrow> False"

definition round_even :: "rat \<Rightarrow> int" where
  "round_even x =
     (let f = \<lfloor>x\<rfloor>; d = x - of_int f
      in if d < 1/2 then f else if 1/2 < d then f + 1 else if even f then f else f + 1)"

definition binade :: "rat \<Rightarrow> int" where
  "binade x =
     (let (p, q) = quotient_of x; k = bitlen p - bitlen q
      in if 2 powi k \<le> x then k else k - 1)"

definition round_pos :: "nat \<Rightarrow> rat \<Rightarrow> rat" where
  "round_pos bits x = (let u = 2 powi (binade x - int bits + 1) in of_int (round_even (x / u)) * u)"

definition fl :: "nat \<Rightarrow> rat \<Rightarrow> rat" where
  "fl bits x = (if x = 0 then 0 else if x < 0 then - round_pos bits (- x) else round_pos bits x)"

abbreviation fl64 :: "rat \<Rightarrow> rat" where "fl64 \<equiv> fl 53"
abbreviation fl32 :: "rat \<Rightarrow> rat" where "fl32 \<equiv> fl 24"

subsection \<open>Rounding to an integer\<close>

lemma round_even_near: "\<lfloor>x\<rfloor> \<le> round_even x" "round_even x \<le> \<lfloor>x\<rfloor> + 1"
  by (simp_all add: round_even_def Let_def)

lemma round_even_of_int [simp]: "round_even (of_int k) = k"
  by (simp add: round_even_def)

lemma round_even_mono:
  assumes "x \<le> y"
  shows "round_even x \<le> round_even y"
proof (cases "\<lfloor>x\<rfloor> = \<lfloor>y\<rfloor>")
  case True
  then show ?thesis
    using assms by (auto simp: round_even_def Let_def)
next
  case False
  with floor_mono [OF assms] have "\<lfloor>x\<rfloor> + 1 \<le> \<lfloor>y\<rfloor>"
    by simp
  then show ?thesis
    using round_even_near [of x] round_even_near [of y] by simp
qed

subsection \<open>The binade of a positive number\<close>

lemma bitlen_powi:
  assumes "0 < p"
  shows "2 powi (bitlen p - 1) \<le> (of_int p :: rat)" and "(of_int p :: rat) < 2 powi bitlen p"
proof -
  have b: "2 ^ nat (bitlen p - 1) \<le> p" "p < 2 ^ nat (bitlen p)"
    using bitlen_bounds [OF assms] by auto
  have l: "0 < bitlen p"
    using b(2) assms by (cases "0 < bitlen p") auto
  have "(2::rat) powi (bitlen p - 1) = of_int (2 ^ nat (bitlen p - 1))"
    using l by (simp add: power_int_def)
  then show "2 powi (bitlen p - 1) \<le> (of_int p :: rat)"
    using b(1) by (simp only: of_int_le_iff)
  have "(2::rat) powi bitlen p = of_int (2 ^ nat (bitlen p))"
    using l by (simp add: power_int_def)
  then show "(of_int p :: rat) < 2 powi bitlen p"
    using b(2) by (simp only: of_int_less_iff)
qed

text \<open>A quotient lies within one power of the base of what the lengths of its parts say.\<close>

lemma quotient_powi:
  fixes b :: rat
  assumes b: "1 < b"
    and p: "b powi (i - 1) \<le> of_int p" "of_int p < b powi i"
    and q: "b powi (j - 1) \<le> of_int q" "of_int q < b powi j"
  shows "b powi (i - j - 1) \<le> of_int p / of_int q" and "of_int p / of_int q < b powi (i - j + 1)"
proof -
  have q0: "0 < (of_int q :: rat)"
    using q(1) b zero_less_power_int [of b "j - 1"] by linarith
  have p0: "0 < (of_int p :: rat)"
    using p(1) b zero_less_power_int [of b "i - 1"] by linarith
  have "of_int p / of_int q * b powi (j - 1) \<le> of_int p"
    using q(1) q0 p0 by (simp add: field_simps)
  also have "\<dots> < b powi (i - j + 1) * b powi (j - 1)"
    using p(2) b by (simp add: power_int_add [symmetric])
  finally show "of_int p / of_int q < b powi (i - j + 1)"
    by (rule mult_right_less_imp_less) (use b in simp)
  have "b powi (i - j - 1) * (of_int q :: rat) \<le> b powi (i - j - 1) * b powi j"
    using q(2) b by simp
  also have "\<dots> \<le> of_int p"
    using p(1) b by (simp add: power_int_add [symmetric])
  finally show "b powi (i - j - 1) \<le> of_int p / of_int q"
    using q0 by (simp add: field_simps)
qed

lemma quotient_parts:
  fixes x :: rat
  assumes "0 < x" and "quotient_of x = (p, q)"
  shows "x = of_int p / of_int q" and "0 < p" and "0 < q"
proof -
  show x: "x = of_int p / of_int q" and q: "0 < q"
    using assms(2) quotient_of_div quotient_of_denom_pos by blast+
  then show "0 < p"
    using assms(1) by (simp add: zero_less_divide_iff)
qed

lemma binade_bounds:
  assumes "0 < x"
  shows "2 powi binade x \<le> x" and "x < 2 powi (binade x + 1)"
proof -
  obtain p q where pq: "quotient_of x = (p, q)"
    by fastforce
  note parts = quotient_parts [OF assms pq]
  note bounds = quotient_powi [of 2, OF _ bitlen_powi [OF parts(2)] bitlen_powi [OF parts(3)]]
  show "2 powi binade x \<le> x" "x < 2 powi (binade x + 1)"
    using bounds pq by (auto simp: binade_def Let_def parts(1) [symmetric])
qed

lemma powi_le_iff [simp]: "(2::rat) powi a \<le> 2 powi b \<longleftrightarrow> a \<le> b"
  by (metis linorder_not_le one_less_numeral_iff power_int_increasing power_int_strict_increasing
      order_less_imp_le semiring_norm(76))

lemma binade_mono:
  assumes "0 < x" "x \<le> y"
  shows "binade x \<le> binade y"
proof -
  have "(2::rat) powi binade x < 2 powi (binade y + 1)"
    using binade_bounds [of x] binade_bounds [of y] assms by linarith
  then have "\<not> binade y + 1 \<le> binade x"
    by (metis not_le powi_le_iff)
  then show ?thesis by simp
qed

subsection \<open>Rounding is monotone and keeps the binade\<close>

lemma round_pos_bounds:
  assumes "0 < x" "0 < bits"
  shows "2 powi binade x \<le> round_pos bits x" and "round_pos bits x \<le> 2 powi (binade x + 1)"
proof -
  let ?u = "(2::rat) powi (binade x - int bits + 1)"
  let ?m = "(2::int) ^ (bits - 1)"
  have u: "0 < ?u" by simp
  have m: "of_int ?m * ?u = 2 powi binade x"
    using assms(2) by (simp add: power_int_add [symmetric] of_nat_diff flip: power_int_of_nat)
  then have m': "of_int (2 * ?m) * ?u = 2 powi (binade x + 1)"
    by (simp add: power_int_add)
  have "of_int ?m \<le> x / ?u" "x / ?u \<le> of_int (2 * ?m)"
    using binade_bounds [OF assms(1)] u m m' by (simp_all add: field_simps)
  then have "?m \<le> round_even (x / ?u)" "round_even (x / ?u) \<le> 2 * ?m"
    by (metis round_even_mono round_even_of_int)+
  then have "of_int ?m * ?u \<le> round_pos bits x" "round_pos bits x \<le> of_int (2 * ?m) * ?u"
    by (simp_all only: round_pos_def Let_def mult_le_cancel_right_pos [OF u] of_int_le_iff)
  then show "2 powi binade x \<le> round_pos bits x" "round_pos bits x \<le> 2 powi (binade x + 1)"
    using m m' by simp_all
qed

lemma round_pos_positive: "0 < x \<Longrightarrow> 0 < bits \<Longrightarrow> 0 < round_pos bits x"
  using round_pos_bounds(1) [of x bits] zero_less_power_int [of 2 "binade x"]
  by (meson less_le_trans zero_less_numeral)

lemma round_pos_mono:
  assumes "0 < x" "x \<le> y" "0 < bits"
  shows "round_pos bits x \<le> round_pos bits y"
proof (cases "binade x = binade y")
  case True
  then show ?thesis
    using assms by (auto simp: round_pos_def Let_def intro!: mult_right_mono round_even_mono divide_right_mono)
next
  case False
  then have "binade x + 1 \<le> binade y"
    using binade_mono [OF assms(1,2)] by simp
  then have "(2::rat) powi (binade x + 1) \<le> 2 powi binade y"
    by (simp only: powi_le_iff)
  then show ?thesis
    using round_pos_bounds(2) [OF assms(1,3)] round_pos_bounds(1) [of y bits] assms by linarith
qed

lemma fl_zero [simp]: "fl bits 0 = 0"
  by (simp add: fl_def)

lemma fl_minus [simp]: "fl bits (- x) = - fl bits x"
  by (simp add: fl_def)

lemma fl_pos: "0 < bits \<Longrightarrow> 0 < x \<Longrightarrow> 0 < fl bits x"
  by (simp add: fl_def round_pos_positive)

lemma fl_mono:
  assumes "x \<le> y" "0 < bits"
  shows "fl bits x \<le> fl bits y"
proof -
  have "- round_pos bits (- x) \<le> round_pos bits y" if "x < 0" "0 < y"
    using round_pos_positive [of "- x" bits] round_pos_positive [of y bits] that assms(2) by simp
  then show ?thesis
    using assms round_pos_mono [of x y bits] round_pos_mono [of "- y" "- x" bits]
      round_pos_positive [of "- x" bits] round_pos_positive [of y bits]
    by (auto simp: fl_def)
qed

lemma fl_nonneg: "0 < bits \<Longrightarrow> 0 \<le> x \<Longrightarrow> 0 \<le> fl bits x"
  using fl_mono [of 0 x bits] by simp

lemma fl_abs_le: "0 < bits \<Longrightarrow> \<bar>x\<bar> \<le> y \<Longrightarrow> \<bar>fl bits x\<bar> \<le> fl bits y"
  using fl_mono [of x y bits] fl_mono [of "- x" y bits] by (auto simp: abs_le_iff)

end
