(* ===== verification/Motion.thy ===== *)
theory Motion
  imports Prelude Floats
begin

section \<open>The motion publishers\<close>

text \<open>
  The two classes that stream an operator's intent to a robot: \<^verbatim>\<open>MotionCommandPublisher\<close>
  (\<^verbatim>\<open>ugv_ros1_adapter/src/motion_command.cpp\<close>, a \<^verbatim>\<open>Twist\<close> on \<^verbatim>\<open>/cmd_vel\<close>) and \<^verbatim>\<open>RemoteControlPublisher\<close>
  (\<^verbatim>\<open>px4_multirotor_ros1_adapter/src/remote_control.cpp\<close>, a MAVROS \<^verbatim>\<open>PositionTarget\<close>). Each operation
  runs under the object's mutex and is one definition on the object's record. The callable that
  hands a message to roscpp is code outside the program: what it does at a call is the
  \<open>publication\<close> argument, and the messages it accepted are collected in \<open>sent\<close>.
  The locale \<open>motion_stream\<close> states what the server relies on; both classes provide it.
\<close>

datatype publication = Accepted | PublishThrows string | ThrowsUnknown

text \<open>\<open>None\<close> is success, \<open>Some message\<close> the failure with the text for \<^verbatim>\<open>*error\<close>.\<close>

type_synonym outcome = "string option"

definition clamp :: "rat \<Rightarrow> rat \<Rightarrow> rat" where
  "clamp value limit = max (- limit) (min limit value)"

lemma clamp_abs: "0 \<le> limit \<Longrightarrow> \<bar>clamp value limit\<bar> \<le> limit"
  by (auto simp: clamp_def)

lemma clamp_zero [simp]: "0 \<le> limit \<Longrightarrow> clamp 0 limit = 0"
  by (simp add: clamp_def)

lemma clamp_mono: "x \<le> y \<Longrightarrow> clamp x limit \<le> clamp y limit"
  by (auto simp: clamp_def)

text \<open>\<^verbatim>\<open>static_cast<double>(axis) * limit * scale\<close>, each product rounded.\<close>

definition scaled :: "int \<Rightarrow> rat \<Rightarrow> nat \<Rightarrow> rat" where
  "scaled axis limit gear = fl64 (fl64 (of_int axis * limit) * fl64 (of_nat gear / 3))"

definition ValidMotionIntent :: "nat \<Rightarrow> int \<Rightarrow> int \<Rightarrow> int \<Rightarrow> bool" where
  "ValidMotionIntent gear longitudinal lateral yaw \<longleftrightarrow> 1 \<le> gear \<and> gear \<le> 3 \<and>
     -1 \<le> longitudinal \<and> longitudinal \<le> 1 \<and> -1 \<le> lateral \<and> lateral \<le> 1 \<and> -1 \<le> yaw \<and> yaw \<le> 1"

subsection \<open>The chassis variants\<close>

record motion_limits =
  maximum_linear_mps :: rat
  maximum_angular_rps :: rat
  has_lateral :: bool

datatype health_source = kChassisState | kImu

record ugv_variant =
  provider :: string
  variant_name :: string
  short_name :: string
  processor_prefix :: string
  motion :: motion_limits
  health :: health_source
  filter_battery :: bool
  stream_rate_window_seconds :: rat

definition scoutMini :: ugv_variant where
  "scoutMini = \<lparr>provider = ''xgc2-scout-mini-ros1-adapter'', variant_name = ''Scout Mini'',
     short_name = ''Scout'', processor_prefix = ''scout-mini'',
     motion = \<lparr>maximum_linear_mps = fl64 1.5, maximum_angular_rps = fl64 0.5235, has_lateral = False\<rparr>,
     health = kChassisState, filter_battery = True, stream_rate_window_seconds = 0\<rparr>"

definition mecanumUgv :: ugv_variant where
  "mecanumUgv = \<lparr>provider = ''xgc2-mecanum-ugv-ros1-adapter'', variant_name = ''Mecanum UGV'',
     short_name = ''Mecanum'', processor_prefix = ''mecanum-ugv'',
     motion = \<lparr>maximum_linear_mps = fl64 1, maximum_angular_rps = fl64 1.5707963267948966,
       has_lateral = True\<rparr>,
     health = kImu, filter_battery = False, stream_rate_window_seconds = 1\<rparr>"

definition variantFor :: "string \<Rightarrow> ugv_variant option" where
  "variantFor p = List.find (\<lambda>v. p = provider v) [scoutMini, mecanumUgv]"

subsection \<open>MotionCommandPublisher\<close>

record twist =
  linear_x :: rat
  linear_y :: rat
  linear_z :: rat
  angular_x :: rat
  angular_y :: rat
  angular_z :: rat

definition Twist :: twist where
  "Twist = \<lparr>linear_x = 0, linear_y = 0, linear_z = 0, angular_x = 0, angular_y = 0, angular_z = 0\<rparr>"

definition motionIntentCommand :: "motion_limits \<Rightarrow> nat \<Rightarrow> int \<Rightarrow> int \<Rightarrow> int \<Rightarrow> string + twist" where
  "motionIntentCommand limits gear longitudinal lateral yaw =
     (if gear < 1 \<or> gear > 3 then Inl ''gear must be between 1 and 3''
      else if longitudinal < -1 \<or> longitudinal > 1 then Inl ''longitudinal intent must be between -1 and 1''
      else if yaw < -1 \<or> yaw > 1 then Inl ''yaw intent must be between -1 and 1''
      else if lateral < -1 \<or> lateral > 1 then Inl ''lateral intent must be between -1 and 1''
      else Inr (Twist\<lparr>
        linear_x := clamp (scaled longitudinal (maximum_linear_mps limits) gear) (maximum_linear_mps limits),
        linear_y := (if has_lateral limits
          then clamp (scaled lateral (maximum_linear_mps limits) gear) (maximum_linear_mps limits) else 0),
        angular_z := clamp (scaled yaw (maximum_angular_rps limits) gear) (maximum_angular_rps limits)\<rparr>))"

record motion_command_publisher =
  mc_publish :: bool
  mc_limits :: motion_limits
  mc_silence_limit :: int
  mc_command :: twist
  mc_active :: bool
  mc_stopped :: bool
  mc_sent :: "twist list"

definition MotionCommandPublisher :: "bool \<Rightarrow> motion_limits \<Rightarrow> int \<Rightarrow> motion_command_publisher" where
  "MotionCommandPublisher publish limits silence = \<lparr>mc_publish = publish, mc_limits = limits,
     mc_silence_limit = silence, mc_command = Twist, mc_active = False, mc_stopped = False, mc_sent = []\<rparr>"

text \<open>\<^verbatim>\<open>advertise\<close> returns a handle the master accepted or not, or throws.\<close>

datatype advertise_result = Advertised | NotAccepted | AdvertiseThrows string

definition MotionCommandPublisher_Create ::
    "advertise_result \<Rightarrow> string \<Rightarrow> motion_limits \<Rightarrow> int \<Rightarrow> string + motion_command_publisher" where
  "MotionCommandPublisher_Create adv topic limits silence =
     (if topic = [] then Inl ''motion command topic must not be empty''
      else case adv of
        NotAccepted \<Rightarrow> Inl (''ROS master did not accept motion command publisher: '' @ topic)
      | AdvertiseThrows what \<Rightarrow>
          Inl (''cannot create motion command publisher '' @ topic @ '': '' @ what)
      | Advertised \<Rightarrow> Inr (MotionCommandPublisher True limits silence))"

definition mc_publishLocked ::
    "publication \<Rightarrow> twist \<Rightarrow> motion_command_publisher \<Rightarrow> outcome \<times> motion_command_publisher" where
  "mc_publishLocked pub command p =
     (if \<not> mc_publish p then (Some ''motion command publisher is unavailable'', p)
      else case pub of
        PublishThrows what \<Rightarrow> (Some (''motion command publication failed: '' @ what), p)
      | ThrowsUnknown \<Rightarrow> (Some ''motion command publication failed'', p)
      | Accepted \<Rightarrow> (None, p\<lparr>mc_sent := mc_sent p @ [command]\<rparr>))"

definition mc_SetIntent ::
    "publication \<Rightarrow> nat \<Rightarrow> int \<Rightarrow> int \<Rightarrow> int \<Rightarrow> motion_command_publisher \<Rightarrow> outcome \<times> motion_command_publisher" where
  "mc_SetIntent pub gear longitudinal lateral yaw p =
     (case motionIntentCommand (mc_limits p) gear longitudinal lateral yaw of
        Inl e \<Rightarrow> (Some e, p)
      | Inr command \<Rightarrow>
          if mc_stopped p then (Some ''motion command publisher is stopped'', p)
          else case mc_publishLocked pub command p of
            (Some e, p) \<Rightarrow> (Some e, p)
          | (None, p) \<Rightarrow> (None, p\<lparr>mc_command := command, mc_active := True\<rparr>))"

definition mc_Release :: "publication \<Rightarrow> motion_command_publisher \<Rightarrow> outcome \<times> motion_command_publisher" where
  "mc_Release pub p =
     (if mc_stopped p then (Some ''motion command publisher is stopped'', p)
      else case mc_publishLocked pub Twist p of
        (Some e, p) \<Rightarrow> (Some e, p)
      | (None, p) \<Rightarrow> (None, p\<lparr>mc_command := Twist, mc_active := False\<rparr>))"

definition mc_CoreSilent :: "publication \<Rightarrow> int \<Rightarrow> motion_command_publisher \<Rightarrow> bool \<times> motion_command_publisher" where
  "mc_CoreSilent pub silent_for p =
     (if mc_silence_limit p \<le> 0 \<or> silent_for < mc_silence_limit p then (False, p)
      else if mc_stopped p \<or> \<not> mc_active p then (False, p)
      else case mc_publishLocked pub Twist p of
        (Some e, p) \<Rightarrow> (False, p)
      | (None, p) \<Rightarrow> (True, p\<lparr>mc_command := Twist, mc_active := False\<rparr>))"

definition mc_PublishPeriodic :: "publication \<Rightarrow> motion_command_publisher \<Rightarrow> motion_command_publisher" where
  "mc_PublishPeriodic pub p =
     (if mc_stopped p \<or> \<not> mc_active p then p else snd (mc_publishLocked pub (mc_command p) p))"

definition mc_Stop :: "publication \<Rightarrow> motion_command_publisher \<Rightarrow> motion_command_publisher" where
  "mc_Stop pub p =
     (if mc_stopped p then p
      else let p = p\<lparr>mc_command := Twist\<rparr>;
               p = (if mc_active p then snd (mc_publishLocked pub (mc_command p) p) else p)
           in p\<lparr>mc_active := False, mc_stopped := True\<rparr>)"

subsection \<open>RemoteControlPublisher\<close>

datatype target_field =
    IGNORE_PX | IGNORE_PY | IGNORE_PZ | IGNORE_VX | IGNORE_VY | IGNORE_VZ
  | IGNORE_AFX | IGNORE_AFY | IGNORE_AFZ | IGNORE_YAW | IGNORE_YAW_RATE

datatype target_frame = FRAME_UNSET | FRAME_LOCAL_NED

record position_target =
  coordinate_frame :: target_frame
  type_mask :: "target_field list"
  position_z :: rat
  velocity_x :: rat
  velocity_y :: rat
  yaw_rate :: rat
  target_stamp :: int

record remote_control_publisher =
  rc_publish :: bool
  rc_target :: position_target
  rc_altitude :: rat
  rc_maximum_linear :: rat
  rc_maximum_yaw_rate :: rat
  rc_silence_limit :: int
  rc_active :: bool
  rc_stopped :: bool
  rc_sent :: "position_target list"

definition RemoteControlPublisher ::
    "bool \<Rightarrow> rat \<Rightarrow> rat \<Rightarrow> rat \<Rightarrow> int \<Rightarrow> remote_control_publisher" where
  "RemoteControlPublisher publish altitude vmax yaw silence = \<lparr>rc_publish = publish,
     rc_target = \<lparr>coordinate_frame = FRAME_LOCAL_NED,
       type_mask = [IGNORE_PX, IGNORE_PY, IGNORE_VZ, IGNORE_AFX, IGNORE_AFY, IGNORE_AFZ, IGNORE_YAW],
       position_z = altitude, velocity_x = 0, velocity_y = 0, yaw_rate = 0, target_stamp = 0\<rparr>,
     rc_altitude = altitude, rc_maximum_linear = vmax, rc_maximum_yaw_rate = yaw,
     rc_silence_limit = silence, rc_active = False, rc_stopped = False, rc_sent = []\<rparr>"

definition RemoteControlPublisher_Create ::
    "advertise_result \<Rightarrow> string \<Rightarrow> fp \<Rightarrow> fp \<Rightarrow> fp \<Rightarrow> int \<Rightarrow> string + remote_control_publisher" where
  "RemoteControlPublisher_Create adv topic altitude vmax yaw silence =
     (if topic = [] \<or> \<not> isfinite altitude \<or> fp_le altitude (Fin 0) \<or> \<not> isfinite vmax \<or> fp_le vmax (Fin 0)
         \<or> \<not> isfinite yaw \<or> fp_le yaw (Fin 0)
      then Inl ''PX4 remote-control publisher configuration is invalid''
      else case adv of
        NotAccepted \<Rightarrow> Inl (''ROS master did not accept PX4 remote-control publisher: '' @ topic)
      | AdvertiseThrows what \<Rightarrow> Inl (''cannot create PX4 remote-control publisher: '' @ what)
      | Advertised \<Rightarrow> Inr (RemoteControlPublisher True (fp_value altitude) (fp_value vmax) (fp_value yaw) silence))"

text \<open>Publishing stamps the target with the ROS clock first.\<close>

definition rc_publishLocked ::
    "publication \<times> int \<Rightarrow> remote_control_publisher \<Rightarrow> outcome \<times> remote_control_publisher" where
  "rc_publishLocked pub p =
     (if \<not> rc_publish p then (Some ''PX4 remote-control publisher is unavailable'', p)
      else let p = p\<lparr>rc_target := (rc_target p)\<lparr>target_stamp := snd pub\<rparr>\<rparr> in
        if fst pub = Accepted then (None, p\<lparr>rc_sent := rc_sent p @ [rc_target p]\<rparr>)
        else (Some ''PX4 remote-control publication failed'', p))"

definition zero_velocity :: "position_target \<Rightarrow> position_target" where
  "zero_velocity t = t\<lparr>velocity_x := 0, velocity_y := 0, yaw_rate := 0\<rparr>"

definition rc_SetIntent ::
    "publication \<times> int \<Rightarrow> nat \<Rightarrow> int \<Rightarrow> int \<Rightarrow> int \<Rightarrow> remote_control_publisher \<Rightarrow> outcome \<times> remote_control_publisher" where
  "rc_SetIntent pub gear longitudinal lateral yaw p =
     (if gear < 1 \<or> gear > 3 \<or> longitudinal < -1 \<or> longitudinal > 1 \<or> lateral < -1 \<or> lateral > 1
         \<or> yaw < -1 \<or> yaw > 1
      then (Some ''PX4 remote intent is outside its discrete bounds'', p)
      else if rc_stopped p then (Some ''PX4 remote-control publisher is stopped'', p)
      else rc_publishLocked pub
        (p\<lparr>rc_target := (rc_target p)\<lparr>
             velocity_x := clamp (scaled longitudinal (rc_maximum_linear p) gear) (rc_maximum_linear p),
             velocity_y := clamp (scaled lateral (rc_maximum_linear p) gear) (rc_maximum_linear p),
             yaw_rate := fl32 (clamp (scaled yaw (rc_maximum_yaw_rate p) gear) (rc_maximum_yaw_rate p))\<rparr>,
           rc_active := True\<rparr>))"

definition rc_Release ::
    "publication \<times> int \<Rightarrow> remote_control_publisher \<Rightarrow> outcome \<times> remote_control_publisher" where
  "rc_Release pub p =
     (if rc_stopped p then (Some ''PX4 remote-control publisher is stopped'', p)
      else case rc_publishLocked pub (p\<lparr>rc_target := zero_velocity (rc_target p)\<rparr>) of
        (Some e, p) \<Rightarrow> (Some e, p)
      | (None, p) \<Rightarrow> (None, p\<lparr>rc_active := False\<rparr>))"

definition rc_CoreSilent ::
    "publication \<times> int \<Rightarrow> int \<Rightarrow> remote_control_publisher \<Rightarrow> bool \<times> remote_control_publisher" where
  "rc_CoreSilent pub silent_for p =
     (if rc_silence_limit p \<le> 0 \<or> silent_for < rc_silence_limit p then (False, p)
      else if rc_stopped p \<or> \<not> rc_active p then (False, p)
      else case rc_publishLocked pub (p\<lparr>rc_target := zero_velocity (rc_target p)\<rparr>) of
        (Some e, p) \<Rightarrow> (False, p)
      | (None, p) \<Rightarrow> (True, p\<lparr>rc_active := False\<rparr>))"

definition rc_PublishPeriodic ::
    "publication \<times> int \<Rightarrow> remote_control_publisher \<Rightarrow> remote_control_publisher" where
  "rc_PublishPeriodic pub p = (if \<not> rc_stopped p \<and> rc_active p then snd (rc_publishLocked pub p) else p)"

definition rc_Stop :: "publication \<times> int \<Rightarrow> remote_control_publisher \<Rightarrow> remote_control_publisher" where
  "rc_Stop pub p =
     (if rc_stopped p then p
      else let p = p\<lparr>rc_target := zero_velocity (rc_target p)\<rparr>;
               p = (if rc_active p then snd (rc_publishLocked pub p) else p)
           in p\<lparr>rc_active := False, rc_stopped := True\<rparr>)"

subsection \<open>The contract of a motion stream\<close>

datatype motion_op = SetIntent nat int int int | Release | CoreSilent int | PublishPeriodic | Stop

fun mc_op :: "publication \<Rightarrow> motion_op \<Rightarrow> motion_command_publisher \<Rightarrow> motion_command_publisher" where
  "mc_op pub (SetIntent gear lon lat yaw) p = snd (mc_SetIntent pub gear lon lat yaw p)"
| "mc_op pub Release p = snd (mc_Release pub p)"
| "mc_op pub (CoreSilent n) p = snd (mc_CoreSilent pub n p)"
| "mc_op pub PublishPeriodic p = mc_PublishPeriodic pub p"
| "mc_op pub Stop p = mc_Stop pub p"

fun rc_op :: "publication \<times> int \<Rightarrow> motion_op \<Rightarrow> remote_control_publisher \<Rightarrow> remote_control_publisher" where
  "rc_op pub (SetIntent gear lon lat yaw) p = snd (rc_SetIntent pub gear lon lat yaw p)"
| "rc_op pub Release p = snd (rc_Release pub p)"
| "rc_op pub (CoreSilent n) p = snd (rc_CoreSilent pub n p)"
| "rc_op pub PublishPeriodic p = rc_PublishPeriodic pub p"
| "rc_op pub Stop p = rc_Stop pub p"

text \<open>A history of calls with what the publication did at each.\<close>

fun run_ops :: "('e \<Rightarrow> motion_op \<Rightarrow> 's \<Rightarrow> 's) \<Rightarrow> ('e \<times> motion_op) list \<Rightarrow> 's \<Rightarrow> 's" where
  "run_ops f [] s = s"
| "run_ops f ((e, op) # ops) s = run_ops f ops (f e op s)"

lemma run_ops_append: "run_ops f (xs @ ys) s = run_ops f ys (run_ops f xs s)"
  by (induction f xs s rule: run_ops.induct) auto

locale motion_stream =
  fixes run_op :: "'e \<Rightarrow> motion_op \<Rightarrow> 's \<Rightarrow> 's"
    and accepts :: "'e \<Rightarrow> 's \<Rightarrow> bool"
    and active stopped :: "'s \<Rightarrow> bool"
    and sent :: "'s \<Rightarrow> 'm list"
    and still :: "'m \<Rightarrow> bool"
    and silence :: "'s \<Rightarrow> int"
    and within_limits :: "'s \<Rightarrow> 'm \<Rightarrow> bool"
    and good :: "'s \<Rightarrow> bool"
  assumes frozen: "stopped s \<Longrightarrow> run_op e op s = s"
    and sends: "sent (run_op e op s) = sent s \<or> (\<exists>m. sent (run_op e op s) = sent s @ [m])"
    and ends_still: "\<not> active (run_op e op s) \<Longrightarrow> \<not> stopped (run_op e op s) \<Longrightarrow>
      \<not> active s \<and> sent (run_op e op s) = sent s \<or> (\<exists>m. sent (run_op e op s) = sent s @ [m] \<and> still m)"
    and dead_man: "active s \<Longrightarrow> \<not> stopped s \<Longrightarrow> 0 < silence s \<Longrightarrow> silence s \<le> n \<Longrightarrow> accepts e s \<Longrightarrow>
      \<not> active (run_op e (CoreSilent n) s) \<and> \<not> stopped (run_op e (CoreSilent n) s) \<and>
      (\<exists>m. sent (run_op e (CoreSilent n) s) = sent s @ [m] \<and> still m)"
    and silent_inactive: "\<not> active s \<Longrightarrow> run_op e (CoreSilent n) s = s"
    and stop_stops: "stopped (run_op e Stop s)"
    and stop_still: "active s \<Longrightarrow> \<not> stopped s \<Longrightarrow> accepts e s \<Longrightarrow>
      (\<exists>m. sent (run_op e Stop s) = sent s @ [m] \<and> still m)"
    and good_op: "good s \<Longrightarrow> good (run_op e op s)"
    and sends_within: "good s \<Longrightarrow> sent (run_op e op s) = sent s @ [m] \<Longrightarrow> within_limits s m"
    and limits_fixed: "within_limits (run_op e op s) = within_limits s"
begin

lemma run_frozen: "stopped s \<Longrightarrow> run_ops run_op ops s = s"
  by (induction ops) (auto simp: frozen)

lemma run_quiet:
  assumes "\<not> active (run_ops run_op ops s)" "\<not> stopped (run_ops run_op ops s)"
    and "active s \<or> sent s = [] \<or> still (last (sent s))"
  shows "sent (run_ops run_op ops s) = [] \<or> still (last (sent (run_ops run_op ops s)))"
  using assms
proof (induction ops rule: rev_induct)
  case (snoc x ops)
  obtain e op where x: "x = (e, op)" by fastforce
  let ?t = "run_ops run_op ops s"
  have run: "run_ops run_op (ops @ [x]) s = run_op e op ?t"
    by (simp add: run_ops_append x)
  have "\<not> active ?t \<Longrightarrow> sent ?t = [] \<or> still (last (sent ?t))"
    using snoc.IH snoc.prems frozen [of ?t e op] run by metis
  then show ?case
    using ends_still [of e op ?t] snoc.prems run by auto
qed auto

lemma run_within:
  assumes "good s" "\<forall>m \<in> set (sent s). within_limits s m"
  shows "\<forall>m \<in> set (sent (run_ops run_op ops s)). within_limits s m"
  using assms
proof (induction ops arbitrary: s)
  case (Cons x ops)
  obtain e op where x: "x = (e, op)" by fastforce
  have "\<forall>m \<in> set (sent (run_op e op s)). within_limits s m"
    using sends [of e op s] sends_within [OF Cons.prems(1), of e op] Cons.prems(2) by auto
  then have "\<forall>m \<in> set (sent (run_ops run_op ops (run_op e op s))). within_limits (run_op e op s) m"
    using Cons.IH [OF good_op [OF Cons.prems(1), of e op]] by (simp add: limits_fixed)
  then show ?case
    by (simp add: x limits_fixed)
qed simp

text \<open>An operator or Core that is gone: whatever happened before, the first silence report past the
  limit that reaches the robot leaves it still, and it stays so until a new intent.\<close>

lemma dead_man_run:
  assumes "\<not> stopped (run_ops run_op ops s)" "active s \<or> sent s = [] \<or> still (last (sent s))"
    and "0 < silence (run_ops run_op ops s)" "silence (run_ops run_op ops s) \<le> n"
    and "accepts e (run_ops run_op ops s)"
  shows "sent (run_op e (CoreSilent n) (run_ops run_op ops s)) = [] \<or>
    still (last (sent (run_op e (CoreSilent n) (run_ops run_op ops s))))"
proof (cases "active (run_ops run_op ops s)")
  case True
  then show ?thesis
    using dead_man [of "run_ops run_op ops s" n e] assms by auto
next
  case False
  then show ?thesis
    using run_quiet [OF False assms(1,2)] by (simp add: silent_inactive)
qed

end

subsection \<open>Both publishers keep the contract\<close>

lemma mc_publishLocked_cases:
  obtains (sent) "mc_publishLocked pub c p = (None, p\<lparr>mc_sent := mc_sent p @ [c]\<rparr>)" "mc_publish p" "pub = Accepted"
  | (failed) e where "mc_publishLocked pub c p = (Some e, p)" "\<not> (mc_publish p \<and> pub = Accepted)"
  by (cases "mc_publish p"; cases pub) (auto simp: mc_publishLocked_def)

definition twist_within :: "motion_limits \<Rightarrow> twist \<Rightarrow> bool" where
  "twist_within l c \<longleftrightarrow> \<bar>linear_x c\<bar> \<le> maximum_linear_mps l \<and> \<bar>linear_y c\<bar> \<le> maximum_linear_mps l \<and>
     \<bar>angular_z c\<bar> \<le> maximum_angular_rps l \<and> (has_lateral l \<or> linear_y c = 0) \<and>
     linear_z c = 0 \<and> angular_x c = 0 \<and> angular_y c = 0"

definition limits_ok :: "motion_limits \<Rightarrow> bool" where
  "limits_ok l \<longleftrightarrow> 0 \<le> maximum_linear_mps l \<and> 0 \<le> maximum_angular_rps l"

lemma twist_within_zero [simp]: "limits_ok l \<Longrightarrow> twist_within l Twist"
  by (simp add: twist_within_def Twist_def limits_ok_def)

lemma motionIntentCommand_within:
  "limits_ok l \<Longrightarrow> motionIntentCommand l gear lon lat yaw = Inr c \<Longrightarrow> twist_within l c"
  by (auto simp: motionIntentCommand_def twist_within_def Twist_def limits_ok_def clamp_abs
      split: if_splits)

definition mc_good :: "motion_command_publisher \<Rightarrow> bool" where
  "mc_good p \<longleftrightarrow> limits_ok (mc_limits p) \<and> twist_within (mc_limits p) (mc_command p)"

abbreviation mc_accepts :: "publication \<Rightarrow> motion_command_publisher \<Rightarrow> bool" where
  "mc_accepts pub p \<equiv> mc_publish p \<and> pub = Accepted"

lemmas mc_defs = mc_SetIntent_def mc_Release_def mc_CoreSilent_def mc_PublishPeriodic_def mc_Stop_def

lemma mc_op_cases:
  obtains (same) "mc_op pub op p = p"
  | (intent) gear lon lat yaw c where "op = SetIntent gear lon lat yaw" "\<not> mc_stopped p"
      "motionIntentCommand (mc_limits p) gear lon lat yaw = Inr c" "mc_accepts pub p"
      "mc_op pub op p = p\<lparr>mc_sent := mc_sent p @ [c], mc_command := c, mc_active := True\<rparr>"
  | (still) "\<not> mc_stopped p" "mc_accepts pub p"
      "mc_op pub op p = p\<lparr>mc_sent := mc_sent p @ [Twist], mc_command := Twist, mc_active := False\<rparr>"
  | (periodic) "op = PublishPeriodic" "mc_active p" "\<not> mc_stopped p" "mc_accepts pub p"
      "mc_op pub op p = p\<lparr>mc_sent := mc_sent p @ [mc_command p]\<rparr>"
  | (stop) "op = Stop" "\<not> mc_stopped p"
      "mc_op pub op p = p\<lparr>mc_sent := mc_sent p @ (if mc_active p \<and> mc_accepts pub p then [Twist] else []),
         mc_command := Twist, mc_active := False, mc_stopped := True\<rparr>"
proof (cases op)
  case (SetIntent gear lon lat yaw)
  then show ?thesis
    by (cases "motionIntentCommand (mc_limits p) gear lon lat yaw";
        rule_tac mc_publishLocked_cases [of pub "projr (motionIntentCommand (mc_limits p) gear lon lat yaw)" p];
        cases "mc_stopped p") (auto simp: mc_defs intro: same intent)
next
  case Release
  then show ?thesis
    by (rule_tac mc_publishLocked_cases [of pub Twist p]; cases "mc_stopped p")
       (auto simp: mc_defs intro: same still)
next
  case (CoreSilent n)
  then show ?thesis
    by (rule_tac mc_publishLocked_cases [of pub Twist p];
        cases "mc_stopped p \<or> \<not> mc_active p \<or> mc_silence_limit p \<le> 0 \<or> n < mc_silence_limit p")
       (auto simp: mc_defs intro: same still)
next
  case PublishPeriodic
  then show ?thesis
    by (rule_tac mc_publishLocked_cases [of pub "mc_command p" p]; cases "mc_stopped p \<or> \<not> mc_active p")
       (auto simp: mc_defs intro: same periodic)
next
  case Stop
  then show ?thesis
    by (rule_tac mc_publishLocked_cases [of pub Twist "p\<lparr>mc_command := Twist\<rparr>"];
        cases "mc_stopped p"; cases "mc_active p")
       (auto simp: mc_defs Let_def intro: same stop)
qed

interpretation ugv: motion_stream mc_op mc_accepts mc_active mc_stopped mc_sent "(=) Twist"
    mc_silence_limit "\<lambda>p. twist_within (mc_limits p)" mc_good
proof unfold_locales
  fix s e op n m
  show "mc_stopped s \<Longrightarrow> mc_op e op s = s"
    by (rule mc_op_cases [of e op s]) auto
  show "mc_sent (mc_op e op s) = mc_sent s \<or> (\<exists>m. mc_sent (mc_op e op s) = mc_sent s @ [m])"
    by (rule mc_op_cases [of e op s]) auto
  show "\<not> mc_active (mc_op e op s) \<Longrightarrow> \<not> mc_stopped (mc_op e op s) \<Longrightarrow>
      \<not> mc_active s \<and> mc_sent (mc_op e op s) = mc_sent s \<or>
      (\<exists>m. mc_sent (mc_op e op s) = mc_sent s @ [m] \<and> Twist = m)"
    by (rule mc_op_cases [of e op s]) auto
  show "mc_good s \<Longrightarrow> mc_good (mc_op e op s)"
    by (rule mc_op_cases [of e op s]) (auto simp: mc_good_def motionIntentCommand_within)
  show "mc_good s \<Longrightarrow> mc_sent (mc_op e op s) = mc_sent s @ [m] \<Longrightarrow> twist_within (mc_limits s) m"
    by (rule mc_op_cases [of e op s]) (auto simp: mc_good_def motionIntentCommand_within split: if_splits)
  show "twist_within (mc_limits (mc_op e op s)) = twist_within (mc_limits s)"
    by (rule mc_op_cases [of e op s]) auto
qed (auto simp: mc_defs mc_publishLocked_def Let_def)

lemma rc_publishLocked_cases:
  fixes pub p
  defines "q \<equiv> p\<lparr>rc_target := (rc_target p)\<lparr>target_stamp := snd pub\<rparr>\<rparr>"
  obtains (sent) "rc_publishLocked pub p = (None, q\<lparr>rc_sent := rc_sent p @ [rc_target q]\<rparr>)"
      "rc_publish p" "fst pub = Accepted"
  | (failed) e q' where "rc_publishLocked pub p = (Some e, q')" "q' = p \<or> q' = q" "\<not> (rc_publish p \<and> fst pub = Accepted)"
  by (cases "rc_publish p"; cases "fst pub = Accepted") (auto simp: rc_publishLocked_def q_def Let_def)

definition target_still :: "position_target \<Rightarrow> bool" where
  "target_still t \<longleftrightarrow> velocity_x t = 0 \<and> velocity_y t = 0 \<and> yaw_rate t = 0"

text \<open>What every setpoint keeps: the frame, the mask and the altitude of the constructor, and the
  limits. The yaw rate is a \<^verbatim>\<open>float\<close> of the message, so its limit is the rounded one.\<close>

definition target_within :: "remote_control_publisher \<Rightarrow> position_target \<Rightarrow> bool" where
  "target_within p t \<longleftrightarrow> coordinate_frame t = FRAME_LOCAL_NED \<and>
     type_mask t = [IGNORE_PX, IGNORE_PY, IGNORE_VZ, IGNORE_AFX, IGNORE_AFY, IGNORE_AFZ, IGNORE_YAW] \<and>
     position_z t = rc_altitude p \<and> \<bar>velocity_x t\<bar> \<le> rc_maximum_linear p \<and>
     \<bar>velocity_y t\<bar> \<le> rc_maximum_linear p \<and> \<bar>yaw_rate t\<bar> \<le> fl32 (rc_maximum_yaw_rate p)"

definition rc_good :: "remote_control_publisher \<Rightarrow> bool" where
  "rc_good p \<longleftrightarrow> 0 \<le> rc_maximum_linear p \<and> 0 \<le> rc_maximum_yaw_rate p \<and> target_within p (rc_target p)"

abbreviation rc_accepts :: "publication \<times> int \<Rightarrow> remote_control_publisher \<Rightarrow> bool" where
  "rc_accepts pub p \<equiv> rc_publish p \<and> fst pub = Accepted"

lemmas rc_defs = rc_SetIntent_def rc_Release_def rc_CoreSilent_def rc_PublishPeriodic_def rc_Stop_def

lemma target_within_cong [simp]:
  "target_within (p\<lparr>rc_target := t\<rparr>) = target_within p"
  "target_within (p\<lparr>rc_active := a\<rparr>) = target_within p"
  "target_within (p\<lparr>rc_stopped := a\<rparr>) = target_within p"
  "target_within (p\<lparr>rc_sent := xs\<rparr>) = target_within p"
  "target_within p (t\<lparr>target_stamp := n\<rparr>) = target_within p t"
  by (auto simp: target_within_def fun_eq_iff)

lemma target_within_zero: "rc_good p \<Longrightarrow> target_within p (zero_velocity (rc_target p))"
  by (simp add: rc_good_def target_within_def zero_velocity_def fl_nonneg)

lemma target_still_zero [simp]: "target_still ((zero_velocity t)\<lparr>target_stamp := n\<rparr>)"
  by (simp add: target_still_def zero_velocity_def)

lemma target_within_intent:
  "rc_good p \<Longrightarrow> target_within p ((rc_target p)\<lparr>velocity_x := clamp x (rc_maximum_linear p),
     velocity_y := clamp y (rc_maximum_linear p), yaw_rate := fl32 (clamp z (rc_maximum_yaw_rate p))\<rparr>)"
  by (simp add: rc_good_def target_within_def clamp_abs fl_abs_le)

lemmas rc_unfold = rc_defs rc_publishLocked_def Let_def

interpretation px4: motion_stream rc_op rc_accepts rc_active rc_stopped rc_sent target_still
    rc_silence_limit target_within rc_good
proof unfold_locales
  fix s e op n m
  show "rc_stopped s \<Longrightarrow> rc_op e op s = s"
    by (cases op) (auto simp: rc_unfold)
  show "rc_sent (rc_op e op s) = rc_sent s \<or> (\<exists>m. rc_sent (rc_op e op s) = rc_sent s @ [m])"
    by (cases op) (auto simp: rc_unfold)
  show "\<not> rc_active (rc_op e op s) \<Longrightarrow> \<not> rc_stopped (rc_op e op s) \<Longrightarrow>
      \<not> rc_active s \<and> rc_sent (rc_op e op s) = rc_sent s \<or>
      (\<exists>m. rc_sent (rc_op e op s) = rc_sent s @ [m] \<and> target_still m)"
    by (cases op) (auto simp: rc_unfold split: if_splits)
  have "0 \<le> rc_maximum_linear (rc_op e op s) \<and> 0 \<le> rc_maximum_yaw_rate (rc_op e op s) \<longleftrightarrow>
      0 \<le> rc_maximum_linear s \<and> 0 \<le> rc_maximum_yaw_rate s"
    by (cases op) (auto simp: rc_unfold)
  moreover show W: "target_within (rc_op e op s) = target_within s"
    by (cases op) (auto simp: rc_unfold)
  moreover have "rc_good s \<Longrightarrow> target_within s (rc_target (rc_op e op s))"
    by (cases op) (auto simp: rc_unfold target_within_zero target_within_intent, auto simp: rc_good_def)
  ultimately show "rc_good s \<Longrightarrow> rc_good (rc_op e op s)"
    by (auto simp: rc_good_def)
  show "rc_good s \<Longrightarrow> rc_sent (rc_op e op s) = rc_sent s @ [m] \<Longrightarrow> target_within s m"
    by (cases op) (auto simp: rc_unfold target_within_zero target_within_intent split: if_splits,
        auto simp: rc_good_def)
qed (auto simp: rc_unfold)

subsection \<open>Speeds of an intent\<close>

lemma scaled_zero [simp]: "scaled 0 limit gear = 0"
  by (simp add: scaled_def)

lemma scaled_minus: "scaled (- axis) limit gear = - scaled axis limit gear"
  by (simp add: scaled_def)

lemma scaled_pos: "0 < limit \<Longrightarrow> 0 < gear \<Longrightarrow> 0 < scaled 1 limit gear"
  by (simp add: scaled_def fl_pos)

lemma scaled_mono: "0 \<le> limit \<Longrightarrow> gear \<le> gear' \<Longrightarrow> scaled 1 limit gear \<le> scaled 1 limit gear'"
  by (auto simp: scaled_def fl_nonneg intro!: fl_mono mult_left_mono divide_right_mono)

lemma fl64_one [simp]: "fl64 1 = 1"
  by code_simp

lemma scaled_full: "fl64 limit = limit \<Longrightarrow> scaled 1 limit 3 = limit"
  by (simp add: scaled_def)

definition axis_speed :: "int \<Rightarrow> rat \<Rightarrow> nat \<Rightarrow> rat" where
  "axis_speed axis limit gear = clamp (scaled axis limit gear) limit"

lemma axis_speed_minus: "0 < limit \<Longrightarrow> axis_speed (- axis) limit gear = - axis_speed axis limit gear"
  by (auto simp: axis_speed_def scaled_minus clamp_def max_def min_def)

lemma axis_cases: "-1 \<le> axis \<Longrightarrow> axis \<le> 1 \<Longrightarrow> axis = -1 \<or> axis = 0 \<or> axis = 1" for axis :: int
  by auto

lemma axis_speed_one:
  assumes "0 < limit" "0 < gear" "gear \<le> gear'"
  shows "0 < axis_speed 1 limit gear" and "axis_speed 1 limit gear \<le> axis_speed 1 limit gear'"
  using scaled_pos [OF assms(1,2)] scaled_mono [of limit gear gear'] assms
  by (auto simp: axis_speed_def clamp_def)

lemma axis_speed_sgn:
  assumes "0 < limit" "0 < gear" "-1 \<le> axis" "axis \<le> 1"
  shows "sgn (axis_speed axis limit gear) = of_int axis"
  using axis_cases [OF assms(3,4)] axis_speed_one(1) [OF assms(1,2) order_refl]
    axis_speed_minus [of limit 1 gear] assms(1)
  by (auto simp: axis_speed_def)

lemma axis_speed_gear:
  assumes "0 < limit" "0 < gear" "gear \<le> gear'" "-1 \<le> axis" "axis \<le> 1"
  shows "\<bar>axis_speed axis limit gear\<bar> \<le> \<bar>axis_speed axis limit gear'\<bar>"
  using axis_cases [OF assms(4,5)] axis_speed_one [OF assms(1,2,3)]
    axis_speed_minus [of limit 1 gear] axis_speed_minus [of limit 1 gear'] assms(1)
  by (auto simp: axis_speed_def)

lemma axis_speed_full:
  assumes "0 < limit" "fl64 limit = limit" "-1 \<le> axis" "axis \<le> 1"
  shows "axis_speed axis limit 3 = of_int axis * limit"
  using axis_cases [OF assms(3,4)] axis_speed_minus [of limit 1 3] scaled_full [OF assms(2)] assms(1)
  by (auto simp: axis_speed_def clamp_def)

lemma motionIntentCommand_axes:
  assumes "motionIntentCommand l gear lon lat yaw = Inr c"
  shows "linear_x c = axis_speed lon (maximum_linear_mps l) gear"
    and "angular_z c = axis_speed yaw (maximum_angular_rps l) gear"
    and "linear_y c = (if has_lateral l then axis_speed lat (maximum_linear_mps l) gear else 0)"
    and "ValidMotionIntent gear lon lat yaw"
  using assms by (auto simp: motionIntentCommand_def axis_speed_def ValidMotionIntent_def split: if_splits)

lemma motionIntentCommand_total:
  "(\<exists>c. motionIntentCommand l gear lon lat yaw = Inr c) \<longleftrightarrow> ValidMotionIntent gear lon lat yaw"
  by (auto simp: motionIntentCommand_def ValidMotionIntent_def)

text \<open>An intent that passes the server's check always gives a command of the chassis; the command
  goes the way of the intent, gear three reaches exactly the chassis limit and a lower gear is
  never faster.\<close>

theorem intent_speed:
  assumes "ValidMotionIntent gear lon lat yaw" "gear \<le> gear'" "gear' \<le> 3"
    and "l = motion scoutMini \<or> l = motion mecanumUgv"
  shows "\<exists>c c'. motionIntentCommand l gear lon lat yaw = Inr c \<and>
    motionIntentCommand l gear' lon lat yaw = Inr c' \<and>
    sgn (linear_x c) = of_int lon \<and> sgn (angular_z c) = of_int yaw \<and>
    \<bar>linear_x c\<bar> \<le> \<bar>linear_x c'\<bar> \<and> \<bar>angular_z c\<bar> \<le> \<bar>angular_z c'\<bar> \<and>
    (gear' = 3 \<longrightarrow> linear_x c' = of_int lon * maximum_linear_mps l \<and>
                  angular_z c' = of_int yaw * maximum_angular_rps l)"
proof -
  have fl: "fl64 (fl64 1.5) = fl64 1.5" "fl64 (fl64 0.5235) = fl64 0.5235"
    "fl64 (fl64 1.5707963267948966) = fl64 1.5707963267948966"
    by code_simp+
  have l: "0 < maximum_linear_mps l" "0 < maximum_angular_rps l"
      "fl64 (maximum_linear_mps l) = maximum_linear_mps l"
      "fl64 (maximum_angular_rps l) = maximum_angular_rps l"
    using assms(4) fl by (auto simp: scoutMini_def mecanumUgv_def fl_pos)
  have v: "ValidMotionIntent gear' lon lat yaw" "0 < gear" "-1 \<le> lon" "lon \<le> 1" "-1 \<le> yaw" "yaw \<le> 1"
    using assms(1-3) by (auto simp: ValidMotionIntent_def)
  obtain c c' where c: "motionIntentCommand l gear lon lat yaw = Inr c"
      "motionIntentCommand l gear' lon lat yaw = Inr c'"
    using assms(1) v(1) motionIntentCommand_total by blast
  show ?thesis
    using c motionIntentCommand_axes [OF c(1)] motionIntentCommand_axes [OF c(2)] v(2-) assms(2) l
      axis_speed_sgn axis_speed_gear axis_speed_full by auto
qed

theorem intent_speed_witness:
  "\<exists>c c'. motionIntentCommand (motion scoutMini) 1 1 0 (-1) = Inr c \<and>
    motionIntentCommand (motion scoutMini) 3 1 0 (-1) = Inr c' \<and>
    0 < linear_x c \<and> \<bar>linear_x c\<bar> \<le> \<bar>linear_x c'\<bar> \<and> linear_x c' = fl64 1.5 \<and> angular_z c < 0"
  using intent_speed [of 1 1 0 "-1" 3 "motion scoutMini"]
  by (auto simp: ValidMotionIntent_def scoutMini_def sgn_if split: if_splits)

subsection \<open>Limits, release and the dead man's switch\<close>

lemma mc_good_fresh: "limits_ok l \<Longrightarrow> mc_good (MotionCommandPublisher publish l silence)"
  by (simp add: mc_good_def MotionCommandPublisher_def)

lemma fresh_sel [simp]:
  "mc_sent (MotionCommandPublisher publish l silence) = []"
  "mc_limits (MotionCommandPublisher publish l silence) = l"
  "rc_sent (RemoteControlPublisher publish alt vmax yaw silence) = []"
  "rc_maximum_linear (RemoteControlPublisher publish alt vmax yaw silence) = vmax"
  "rc_maximum_yaw_rate (RemoteControlPublisher publish alt vmax yaw silence) = yaw"
  by (simp_all add: MotionCommandPublisher_def RemoteControlPublisher_def)

lemma rc_good_fresh: "0 < vmax \<Longrightarrow> 0 < yaw \<Longrightarrow> rc_good (RemoteControlPublisher publish alt vmax yaw silence)"
  by (simp add: rc_good_def RemoteControlPublisher_def target_within_def fl_nonneg)

lemma RemoteControlPublisher_Create_ok:
  assumes "RemoteControlPublisher_Create adv topic altitude vmax yaw silence = Inr p"
  shows "\<exists>a v y. altitude = Fin a \<and> vmax = Fin v \<and> yaw = Fin y \<and> 0 < a \<and> 0 < v \<and> 0 < y \<and>
    p = RemoteControlPublisher True a v y silence"
  using assms by (cases altitude; cases vmax; cases yaw)
    (auto simp: RemoteControlPublisher_Create_def split: if_splits advertise_result.splits)

text \<open>C32: Whatever calls a ground robot's publisher gets and however publications fail, every command that
  reaches the robot stays within the chassis limits, and a chassis that cannot drive sideways is
  never told to.\<close>

theorem ugv_commands_within_limits:
  assumes "limits_ok l" "c \<in> set (mc_sent (run_ops mc_op ops (MotionCommandPublisher publish l silence)))"
  shows "twist_within l c"
  using ugv.run_within [OF mc_good_fresh [OF assms(1), of publish silence], of ops] assms by simp

theorem ugv_commands_within_limits_witness:
  "\<exists>c. c \<in> set (mc_sent (run_ops mc_op
     [(Accepted, SetIntent 3 1 1 0), (ThrowsUnknown, Release), (Accepted, PublishPeriodic)]
     (MotionCommandPublisher True (motion scoutMini) 500))) \<and> twist_within (motion scoutMini) c \<and> linear_y c = 0"
    (is "\<exists>c. c \<in> set ?sent \<and> _")
proof -
  have l: "limits_ok (motion scoutMini)"
    by (simp add: limits_ok_def scoutMini_def fl_nonneg)
  obtain c where c: "c \<in> set ?sent"
    by (simp add: mc_defs mc_publishLocked_def MotionCommandPublisher_def motionIntentCommand_def)
  show ?thesis
    using ugv_commands_within_limits [OF l c] c by (auto simp: twist_within_def scoutMini_def)
qed

text \<open>Every setpoint that reaches a multirotor keeps the altitude, frame and mask of its publisher,
  and its velocity and yaw rate stay within the configured limits.\<close>

theorem px4_targets_within_limits:
  assumes "RemoteControlPublisher_Create adv topic altitude vmax yaw silence = Inr p"
    and "t \<in> set (rc_sent (run_ops rc_op ops p))"
  shows "target_within p t \<and> rc_maximum_linear p = fp_value vmax \<and> rc_altitude p = fp_value altitude"
proof -
  obtain a v y where p: "vmax = Fin v" "altitude = Fin a" "0 < v" "0 < y" "p = RemoteControlPublisher True a v y silence"
    using RemoteControlPublisher_Create_ok [OF assms(1)] by blast
  then show ?thesis
    using px4.run_within [of p ops] rc_good_fresh [of v y True a silence] assms(2)
    by (auto simp: RemoteControlPublisher_def)
qed

theorem px4_targets_within_limits_witness:
  "\<exists>p t. RemoteControlPublisher_Create Advertised ''/mavros/setpoint_raw/local'' (Fin 1) (Fin (1/2)) (Fin 1) 500 = Inr p \<and>
     t \<in> set (rc_sent (run_ops rc_op [((Accepted, 7), SetIntent 2 1 0 (-1))] p)) \<and>
     target_within p t \<and> position_z t = 1"
proof -
  let ?p = "RemoteControlPublisher True 1 (1/2) 1 500"
  have c: "RemoteControlPublisher_Create Advertised ''/mavros/setpoint_raw/local'' (Fin 1) (Fin (1/2)) (Fin 1) 500 = Inr ?p"
    by (simp add: RemoteControlPublisher_Create_def)
  obtain t where t: "t \<in> set (rc_sent (run_ops rc_op [((Accepted, 7), SetIntent 2 1 0 (-1))] ?p))"
    by (simp add: rc_unfold RemoteControlPublisher_def)
  show ?thesis
    using px4_targets_within_limits [OF c t] c t
    by (intro exI [of _ ?p] exI [of _ t]) (simp add: target_within_def)
qed

text \<open>C31: The dead man's switch: after any history of calls, with a silence limit configured, a report of
  silence past the limit that reaches the robot leaves a ground robot and a multirotor with a zero
  command as their last one, and the stream ended.\<close>

theorem dead_man_switch:
  assumes "p = run_ops mc_op ops (MotionCommandPublisher publish l limit)" "\<not> mc_stopped p" "mc_publish p"
    and "q = run_ops rc_op ops' (RemoteControlPublisher publish' alt vmax yaw limit')" "\<not> rc_stopped q" "rc_publish q"
    and "0 < mc_silence_limit p" "mc_silence_limit p \<le> n" "0 < rc_silence_limit q" "rc_silence_limit q \<le> n"
    and "p' = snd (mc_CoreSilent Accepted n p)" "q' = snd (rc_CoreSilent (Accepted, stamp) n q)"
  shows "\<not> mc_active p' \<and> (mc_sent p' = [] \<or> last (mc_sent p') = Twist) \<and>
    \<not> rc_active q' \<and> (rc_sent q' = [] \<or> target_still (last (rc_sent q')))"
proof -
  have "mc_sent p' = [] \<or> Twist = last (mc_sent p')"
    using ugv.dead_man_run [of ops "MotionCommandPublisher publish l limit" n Accepted] assms by simp
  moreover have "rc_sent q' = [] \<or> target_still (last (rc_sent q'))"
    using px4.dead_man_run [of ops' "RemoteControlPublisher publish' alt vmax yaw limit'" n "(Accepted, stamp)"] assms
    by simp
  moreover have "\<not> mc_active p'"
    using ugv.dead_man [of p n Accepted] ugv.silent_inactive [of p Accepted n] assms
    by (cases "mc_active p") auto
  moreover have "\<not> rc_active q'"
    using px4.dead_man [of q n "(Accepted, stamp)"] px4.silent_inactive [of q "(Accepted, stamp)" n] assms
    by (cases "rc_active q") auto
  ultimately show ?thesis by auto
qed

theorem dead_man_switch_witness:
  "\<not> mc_active (snd (mc_CoreSilent Accepted 600 (run_ops mc_op [(Accepted, SetIntent 1 1 0 0)]
        (MotionCommandPublisher True (motion scoutMini) 500)))) \<and>
   \<not> rc_active (snd (rc_CoreSilent (Accepted, 9) 600 (run_ops rc_op [((Accepted, 1), SetIntent 1 1 0 0)]
        (RemoteControlPublisher True 1 1 1 500))))"
  using dead_man_switch [OF refl _ _ refl _ _ _ _ _ _ refl refl, of "[(Accepted, SetIntent 1 1 0 0)]" True
      "motion scoutMini" 500 "[((Accepted, 1), SetIntent 1 1 0 0)]" True 1 1 1 500 600 9]
  by (simp add: mc_defs mc_publishLocked_def MotionCommandPublisher_def motionIntentCommand_def
      rc_unfold RemoteControlPublisher_def)

text \<open>Outside the dead man's case too, a stream that is not active has left the robot still: unless the
  publisher was stopped, the last command of an inactive stream is a zero.\<close>

theorem inactive_stream_is_still:
  assumes "p = run_ops mc_op ops (MotionCommandPublisher publish l limit)" "\<not> mc_active p" "\<not> mc_stopped p"
    and "q = run_ops rc_op ops' (RemoteControlPublisher publish' alt vmax yaw limit')" "\<not> rc_active q" "\<not> rc_stopped q"
  shows "(mc_sent p = [] \<or> last (mc_sent p) = Twist) \<and> (rc_sent q = [] \<or> target_still (last (rc_sent q)))"
  using ugv.run_quiet [of ops "MotionCommandPublisher publish l limit"]
    px4.run_quiet [of ops' "RemoteControlPublisher publish' alt vmax yaw limit'"] assms by auto

theorem inactive_stream_is_still_witness:
  "last (mc_sent (run_ops mc_op [(Accepted, SetIntent 1 1 0 0), (Accepted, Release)]
     (MotionCommandPublisher True (motion scoutMini) 500))) = Twist"
  using inactive_stream_is_still [OF refl _ _ refl, of "[(Accepted, SetIntent 1 1 0 0), (Accepted, Release)]" True
      "motion scoutMini" 500 "[]" True 1 1 1 500]
  by (simp add: mc_defs mc_publishLocked_def MotionCommandPublisher_def motionIntentCommand_def
      rc_unfold RemoteControlPublisher_def)

text \<open>Once a publisher was stopped no call changes it or sends anything.\<close>

theorem stopped_publisher_silent:
  "mc_sent (run_ops mc_op ops (mc_Stop pub p)) = mc_sent (mc_Stop pub p) \<and>
   rc_sent (run_ops rc_op ops' (rc_Stop pub' q)) = rc_sent (rc_Stop pub' q)"
  using ugv.run_frozen [OF ugv.stop_stops, of ops pub p] px4.run_frozen [OF px4.stop_stops, of ops' pub' q]
  by simp

text \<open>The two publishers treat a failed publication of an intent differently: the ground robot keeps
  its previous command and state, the multirotor answers failure and yet streams the refused
  velocity at the next tick.\<close>

theorem failed_intent_differs:
  "fst (rc_SetIntent (ThrowsUnknown, 1) 3 1 0 0 (RemoteControlPublisher True 1 1 1 500)) = Some ''PX4 remote-control publication failed'' \<and>
   rc_sent (rc_PublishPeriodic (Accepted, 2) (snd (rc_SetIntent (ThrowsUnknown, 1) 3 1 0 0 (RemoteControlPublisher True 1 1 1 500)))) =
     [(rc_target (RemoteControlPublisher True 1 1 1 500))\<lparr>velocity_x := axis_speed 1 1 3, velocity_y := 0, yaw_rate := 0, target_stamp := 2\<rparr>] \<and>
   axis_speed 1 1 3 = 1 \<and>
   mc_SetIntent ThrowsUnknown 3 1 0 0 (MotionCommandPublisher True (motion scoutMini) 500) = (Some ''motion command publication failed'', (MotionCommandPublisher True (motion scoutMini) 500))"
  using axis_speed_full [of 1 1]
  by (simp add: rc_unfold mc_defs RemoteControlPublisher_def MotionCommandPublisher_def
      motionIntentCommand_def mc_publishLocked_def axis_speed_def)

end
