(* ===== verification/Python_Text.thy ===== *)
theory Python_Text
  imports Floats Decimal
begin

section \<open>Texts of numbers and values\<close>

text \<open>
  \<^verbatim>\<open>src/scene_ros1_adapter/src/core/scalars.cpp\<close>: the scene adapter writes numbers the way Python's \<^verbatim>\<open>repr\<close> does. \<^verbatim>\<open>pythonFloat\<close> looks
  for the shortest decimal that reads back as the same \<^verbatim>\<open>double\<close> and lays it out in fixed or scientific
  notation. Here \<^verbatim>\<open>double\<close> has its full range: subnormals, and overflow to an infinity. The formatted output and input of the
  standard library (\<^verbatim>\<open>std::scientific\<close> with a precision, \<^verbatim>\<open>operator>>\<close>) are correctly rounded, as glibc's are.
\<close>

subsection \<open>binary64\<close>

definition double_unit :: "rat \<Rightarrow> rat" where
  "double_unit x = 2 powi (max (binade x - 52) (- 1074))"

definition round_double_pos :: "rat \<Rightarrow> rat" where
  "round_double_pos x = of_int (round_even (x / double_unit x)) * double_unit x"

definition round_double :: "rat \<Rightarrow> rat" where
  "round_double x = (if x = 0 then 0 else if x < 0 then - round_double_pos (- x) else round_double_pos x)"

definition read_double :: "rat \<Rightarrow> fp" where
  "read_double x =
     (let r = round_double x
      in if 2 powi 1024 \<le> r then PosInf else if r \<le> - (2 powi 1024) then NegInf else Fin r)"

definition is_double :: "rat \<Rightarrow> bool" where
  "is_double v \<longleftrightarrow> round_double v = v \<and> \<bar>v\<bar> < 2 powi 1024"

subsection \<open>Decimal text\<close>

definition decade :: "rat \<Rightarrow> int" where
  "decade x =
     (let (p, q) = quotient_of x; k = int (floorlog 10 (nat p)) - int (floorlog 10 (nat q))
      in if 10 powi k \<le> x then k else k - 1)"

text \<open>The digits and the exponent of \<^verbatim>\<open>std::scientific\<close> with \<^verbatim>\<open>setprecision(digits - 1)\<close>, for a positive value.\<close>

definition sci_parts :: "rat \<Rightarrow> nat \<Rightarrow> nat \<times> int" where
  "sci_parts x digits =
     (let e = decade x; m = round_even (x / 10 powi (e - int digits + 1))
      in if m = 10 ^ digits then (10 ^ (digits - 1), e + 1) else (nat m, e))"

definition show_exponent :: "int \<Rightarrow> string" where
  "show_exponent e =
     (let power = show_nat (nat \<bar>e\<bar>)
      in (if e < 0 then ''-'' else ''+'') @ (if length power < 2 then ''0'' @ power else power))"

definition scientific :: "rat \<Rightarrow> nat \<Rightarrow> string" where
  "scientific v digits =
     (let (m, e) = sci_parts \<bar>v\<bar> digits; ds = show_nat m
      in (if v < 0 then ''-'' else []) @ take 1 ds @ (if 1 < digits then ''.'' @ drop 1 ds else [])
           @ ''e'' @ show_exponent e)"

definition read_int :: "string \<Rightarrow> int" where
  "read_int s =
     (if take 1 s = ''-'' then - int (digits_value (drop 1 s))
      else if take 1 s = ''+'' then int (digits_value (drop 1 s)) else int (digits_value s))"

text \<open>The number a decimal text stands for: \<^verbatim>\<open>[-]digits[.digits][e(+|-)digits]\<close>.\<close>

definition decimal_pos :: "string \<Rightarrow> rat" where
  "decimal_pos s =
     (let mantissa = takeWhile (\<lambda>c. c \<noteq> CHR ''e'') s;
          exponent = drop 1 (dropWhile (\<lambda>c. c \<noteq> CHR ''e'') s);
          whole = takeWhile (\<lambda>c. c \<noteq> CHR ''.'') mantissa;
          fraction = drop 1 (dropWhile (\<lambda>c. c \<noteq> CHR ''.'') mantissa)
      in of_nat (digits_value (whole @ fraction)) * 10 powi (read_int exponent - int (length fraction)))"

definition decimal_value :: "string \<Rightarrow> rat" where
  "decimal_value s = (if take 1 s = ''-'' then - decimal_pos (drop 1 s) else decimal_pos s)"

subsection \<open>pythonFloat\<close>

function shortest :: "rat \<Rightarrow> nat \<Rightarrow> string" where
  "shortest value digits =
     (let s = scientific value digits
      in if 17 \<le> digits \<or> read_double (decimal_value s) = Fin value then s else shortest value (digits + 1))"
  by auto

termination shortest
  by (relation "measure (\<lambda>(value, digits). 17 - digits)") auto

declare shortest.simps [simp del]

definition strip_zeros :: "string \<Rightarrow> string" where
  "strip_zeros digits =
     (let kept = rev (dropWhile (\<lambda>c. c = CHR ''0'') (rev digits)) in if kept = [] then take 1 digits else kept)"

text \<open>Python's thresholds (lines 38 to 50) and the reading of the scientific text (lines 29 to 37).\<close>

definition arrange :: "int \<Rightarrow> string \<Rightarrow> string" where
  "arrange exponent digits =
     (let point = exponent + 1
      in if exponent < - 4 \<or> 16 \<le> exponent
         then take 1 digits @ (if 1 < length digits then ''.'' @ drop 1 digits else []) @ ''e'' @ show_exponent exponent
         else if point \<le> 0 then ''0.'' @ replicate (nat (- point)) (CHR ''0'') @ digits
         else if int (length digits) \<le> point
         then digits @ replicate (nat point - length digits) (CHR ''0'') @ ''.0''
         else take (nat point) digits @ ''.'' @ drop (nat point) digits)"

definition layout :: "string \<Rightarrow> string" where
  "layout s =
     (let exponent = read_int (drop 1 (dropWhile (\<lambda>c. c \<noteq> CHR ''e'') s));
          mantissa = takeWhile (\<lambda>c. c \<noteq> CHR ''e'') s;
          negative = (take 1 mantissa = ''-'');
          unsigned = drop (if negative then 1 else 0) mantissa;
          digits = takeWhile (\<lambda>c. c \<noteq> CHR ''.'') unsigned @ drop 1 (dropWhile (\<lambda>c. c \<noteq> CHR ''.'') unsigned)
      in (if negative then ''-'' else []) @ arrange exponent (strip_zeros digits))"

datatype double = NegZero | Double fp

fun double_value :: "double \<Rightarrow> fp" where
  "double_value NegZero = Fin 0"
| "double_value (Double x) = x"

fun signbit :: "double \<Rightarrow> bool" where
  "signbit NegZero = True"
| "signbit (Double x) = (case x of Fin v \<Rightarrow> v < 0 | NegInf \<Rightarrow> True | _ \<Rightarrow> False)"

definition pythonFloat :: "double \<Rightarrow> string" where
  "pythonFloat value =
     (case double_value value of
        NaN \<Rightarrow> ''nan''
      | NegInf \<Rightarrow> ''-inf''
      | PosInf \<Rightarrow> ''inf''
      | Fin v \<Rightarrow>
          if v = 0 then (if signbit value then ''-0.0'' else ''0.0'')
          else layout (shortest v 1))"


subsection \<open>The digits of a positive number\<close>

lemma floorlog_powi:
  assumes "0 < p"
  shows "10 powi (int (floorlog 10 (nat p)) - 1) \<le> (of_int p :: rat)"
    and "(of_int p :: rat) < 10 powi int (floorlog 10 (nat p))"
proof -
  have b: "10 ^ (floorlog 10 (nat p) - 1) \<le> nat p" "nat p < 10 ^ floorlog 10 (nat p)"
    using floorlog_bounds [of "nat p" 10] assms by auto
  then have l: "0 < floorlog 10 (nat p)"
    using assms by (cases "floorlog 10 (nat p)") simp_all
  have "(10::rat) powi (int (floorlog 10 (nat p)) - 1) = of_nat (10 ^ (floorlog 10 (nat p) - 1))"
    using l by (simp add: power_int_def nat_diff_distrib)
  also have "\<dots> \<le> of_nat (nat p)"
    using b(1) by (simp only: of_nat_le_iff)
  finally show "10 powi (int (floorlog 10 (nat p)) - 1) \<le> (of_int p :: rat)"
    using assms by simp
  have "(of_nat (nat p) :: rat) < of_nat (10 ^ floorlog 10 (nat p))"
    using b(2) by (simp only: of_nat_less_iff)
  then show "(of_int p :: rat) < 10 powi int (floorlog 10 (nat p))"
    using assms by simp
qed

lemma decade_bounds:
  assumes "0 < x"
  shows "10 powi decade x \<le> x" and "x < 10 powi (decade x + 1)"
proof -
  obtain p q where pq: "quotient_of x = (p, q)"
    by fastforce
  note parts = quotient_parts [OF assms pq]
  note bounds = quotient_powi [of 10, OF _ floorlog_powi [OF parts(2)] floorlog_powi [OF parts(3)]]
  show "10 powi decade x \<le> x" "x < 10 powi (decade x + 1)"
    using bounds pq by (auto simp: decade_def Let_def parts(1) [symmetric])
qed

lemma round_even_within: "\<bar>of_int (round_even x) - x\<bar> \<le> 1 / 2"
proof -
  have "0 \<le> x - of_int \<lfloor>x\<rfloor>" "x - of_int \<lfloor>x\<rfloor> < 1"
    by linarith+
  then show ?thesis
    unfolding round_even_def Let_def by (auto simp: abs_if split: if_splits) linarith+
qed

lemma round_even_unique:
  assumes "\<bar>x - of_int n\<bar> < 1 / 2"
  shows "round_even x = n"
proof -
  have "\<bar>(of_int (round_even x) :: rat) - of_int n\<bar> < 1"
    using round_even_within [of x] assms by linarith
  then show ?thesis by linarith
qed

text \<open>What \<^verbatim>\<open>std::scientific\<close> prints: \<open>digits\<close> digits, within half a unit of the last.\<close>

lemma sci_parts_spec:
  assumes x: "0 < x" and d: "0 < digits" and me: "sci_parts x digits = (m, e)"
  shows "10 ^ (digits - 1) \<le> m" and "m < 10 ^ digits"
    and "\<bar>of_nat m * 10 powi (e - int digits + 1) - x\<bar> \<le> 10 powi (decade x - int digits + 1) / 2"
proof -
  let ?u = "(10::rat) powi (decade x - int digits + 1)"
  let ?r = "round_even (x / ?u)"
  let ?l = "(10::int) ^ (digits - 1)"
  have u: "0 < ?u" by simp
  have l: "of_int ?l * ?u = 10 powi decade x"
    using d by (simp add: power_int_add [symmetric] of_nat_diff flip: power_int_of_nat)
  have l10: "10 ^ digits = 10 * ?l" "(10::nat) ^ digits = 10 * 10 ^ (digits - 1)"
    using d by (cases digits; simp)+
  then have l': "of_int (10 ^ digits) * ?u = 10 powi (decade x + 1)"
    using l by (simp add: power_int_add)
  have "of_int ?l \<le> x / ?u" "x / ?u \<le> of_int (10 ^ digits)"
    using decade_bounds [OF x] u l l' by (simp_all add: field_simps)
  then have r: "?l \<le> ?r" "?r \<le> 10 ^ digits"
    by (metis round_even_mono round_even_of_int)+
  have near: "\<bar>of_int ?r * ?u - x\<bar> \<le> ?u / 2"
  proof -
    have "of_int ?r * ?u - x = (of_int ?r - x / ?u) * ?u"
      by (simp add: field_simps)
    then have "\<bar>of_int ?r * ?u - x\<bar> = \<bar>of_int ?r - x / ?u\<bar> * ?u"
      by (simp only: abs_mult abs_of_pos [OF u])
    also have "\<dots> \<le> 1 / 2 * ?u"
      by (rule mult_right_mono [OF round_even_within]) simp
    finally show ?thesis by simp
  qed
  have "10 ^ (digits - 1) \<le> m \<and> m < 10 ^ digits \<and> of_nat m * 10 powi (e - int digits + 1) = of_int ?r * ?u"
  proof (cases "?r = 10 ^ digits")
    case True
    then have "m = 10 ^ (digits - 1)" "e = decade x + 1"
      using me by (simp_all add: sci_parts_def Let_def)
    then show ?thesis
      using True l' l10 d
      by (simp add: power_int_add [symmetric] of_nat_diff add.commute [of 1] flip: power_int_of_nat)
  next
    case False
    then have "m = nat ?r" "e = decade x"
      using me by (auto simp: sci_parts_def Let_def)
    moreover have "0 \<le> ?r"
      using r(1) by (rule order_trans [rotated]) simp
    moreover have "10 ^ (digits - 1) \<le> nat ?r" "nat ?r < 10 ^ digits"
      using r False by (simp_all add: nat_less_iff le_nat_iff)
    ultimately show ?thesis by simp
  qed
  then show "10 ^ (digits - 1) \<le> m" "m < 10 ^ digits"
    "\<bar>of_nat m * 10 powi (e - int digits + 1) - x\<bar> \<le> ?u / 2"
    using near by simp_all
qed

subsection \<open>Rounding to a double\<close>

lemma powi_half: "(2::rat) powi (k - 1) = 2 powi k / 2"
  by (simp add: power_int_diff)

lemma binade_unique:
  assumes "2 powi k \<le> x" "x < 2 powi (k + 1)"
  shows "binade x = k"
proof -
  have x: "0 < x"
    using assms(1) zero_less_power_int [of "2::rat" k] by linarith
  note b = binade_bounds [OF x]
  have "(2::rat) powi k < 2 powi (binade x + 1)" "(2::rat) powi binade x < 2 powi (k + 1)"
    using assms b by linarith+
  then show ?thesis
    by (simp flip: not_le)
qed

lemma round_double_on:
  assumes "double_unit x = w" "0 < w" "v = of_int n * w" "\<bar>x - v\<bar> < w / 2"
  shows "round_double_pos x = v"
proof -
  have "x / w - of_int n = (x - v) / w"
    using assms(2,3) by (simp add: field_simps)
  then have "\<bar>x / w - of_int n\<bar> = \<bar>x - v\<bar> / w"
    using assms(2) by simp
  also have "\<dots> < 1 / 2"
    using assms(2,4) by (simp add: field_simps)
  finally show ?thesis
    using assms by (simp add: round_double_pos_def round_even_unique)
qed

lemma of_int_powi_less:
  assumes "of_int n * (2::rat) powi k < 2 powi j" "k \<le> j"
  shows "of_int n * (2::rat) powi k + 2 powi k \<le> 2 powi j"
proof -
  have j: "(2::rat) powi j = of_int (2 ^ nat (j - k)) * 2 powi k"
    using assms(2) by (simp add: power_int_add [symmetric] flip: power_int_of_nat)
  then have "n < 2 ^ nat (j - k)"
    using assms(1) by (simp only: mult_less_cancel_right_pos [of "2 powi k"] zero_less_power_int
        zero_less_numeral of_int_less_iff)
  then have "(of_int (n + 1) :: rat) \<le> of_int (2 ^ nat (j - k))"
    by (simp only: of_int_le_iff)
  then have "of_int (n + 1) * (2::rat) powi k \<le> of_int (2 ^ nat (j - k)) * 2 powi k"
    by (rule mult_right_mono) simp
  then show ?thesis
    by (simp add: j algebra_simps)
qed

text \<open>A number closer to a double than half the distance to the next one rounds to it; below a power of two
  that distance is halved.\<close>

lemma round_double_near:
  assumes v: "0 < v" "round_double_pos v = v"
    and near: "\<bar>x - v\<bar> < 2 powi (binade v - 53)"
    and tie: "v = 2 powi binade v \<Longrightarrow> \<bar>x - v\<bar> < 2 powi (binade v - 54)"
  shows "0 < x \<and> round_double_pos x = v"
proof -
  define b k where "b = binade v" and kd: "k = max (b - 52) (- 1074)"
  obtain n where vn: "v = of_int n * 2 powi k"
    using v(2) by (metis b_def kd round_double_pos_def double_unit_def)
  note bv = binade_bounds [OF v(1), folded b_def]
  note near = near [folded b_def] and tie = tie [folded b_def]
  have "0 < n"
    using v(1) unfolding vn by (rule zero_less_mult_pos2 [THEN of_int_0_less_iff [THEN iffD1]]) simp
  then have "1 * (2::rat) powi k \<le> v"
    unfolding vn by (intro mult_right_mono) simp_all
  then have "(2::rat) powi k < 2 powi (b + 1)"
    using bv(2) by simp
  then have kb: "k \<le> b"
    by (simp flip: not_le)
  have small: "(2::rat) powi (b - 53) \<le> 2 powi k / 2"
    by (simp add: kd flip: powi_half)
  have top: "x < 2 powi (b + 1)"
    using of_int_powi_less [of n k "b + 1"] vn bv(2) kb near small by auto
  have mid: "(2::rat) powi (b - 53) \<le> 2 powi (b - 1)"
    by simp
  then have low: "2 powi (b - 1) < x"
    using near bv(1) by (simp add: powi_half)
  moreover have "round_double_pos x = v"
  proof (cases "2 powi b \<le> x \<or> b - 52 \<le> - 1074")
    case True
    have "double_unit x = 2 powi k"
      using True binade_unique [of b x] binade_unique [of "b - 1" x] top low
      by (cases "2 powi b \<le> x") (simp_all add: double_unit_def kd max_def)
    then show ?thesis
      by (rule round_double_on [OF _ _ vn]) (use near small in auto)
  next
    case False
    have k: "k = b - 52" and x: "x < 2 powi b" and "binade x = b - 1"
      using False binade_unique [of "b - 1" x] low kd by auto
    have u: "double_unit x = 2 powi (b - 53)"
    proof -
      have "max (b - 1 - 52) (- 1074) = b - 53" using False by simp
      then show ?thesis using \<open>binade x = b - 1\<close> by (simp only: double_unit_def)
    qed
    have "v = 2 powi b"
    proof (rule ccontr)
      assume "v \<noteq> 2 powi b"
      then have "2 powi b < v" using bv(1) by simp
      moreover have "of_int (2 ^ 52) * (2::rat) powi k = 2 powi b"
        by (simp add: k power_int_diff)
      ultimately have "of_int (2 ^ 52) * (2::rat) powi k < of_int n * 2 powi k"
        using vn by simp
      then have "(2 ^ 52 :: int) < n"
        by (simp only: mult_less_cancel_right_pos [of "2 powi k"] zero_less_power_int zero_less_numeral of_int_less_iff)
      then have "of_int (2 ^ 52 + 1) * (2::rat) powi k \<le> v"
        unfolding vn by (intro mult_right_mono) (simp_all only: of_int_le_iff, simp_all)
      then have "2 powi b + 2 powi k \<le> v"
        using \<open>of_int (2 ^ 52) * 2 powi k = 2 powi b\<close> by (simp only: of_int_add distrib_right of_int_1 mult_1)
      then show False
        using x near small zero_less_power_int [of "2::rat" k] by linarith
    qed
    then show ?thesis
      using round_double_on [OF u _ _, of v "2 ^ 53"] tie by (simp add: power_int_diff)
  qed
  ultimately show ?thesis
    using zero_less_power_int [of "2::rat" "b - 1"] by linarith
qed

lemma read_double_pos:
  assumes "0 < x" "round_double_pos x = v" "0 < v" "v < 2 powi 1024"
  shows "read_double x = Fin v"
proof -
  have "\<not> v \<le> - (2 powi 1024)"
    using assms(3) zero_less_power_int [of "2::rat" 1024] by linarith
  then show ?thesis
    using assms by (simp only: read_double_def round_double_def Let_def) (simp only: not_le [symmetric], simp)
qed

lemma seventeen_digits:
  assumes v: "0 < v" "round_double_pos v = v" "v < 2 powi 1024" and me: "sci_parts v 17 = (m, e)"
  shows "read_double (of_nat m * 10 powi (e - 16)) = Fin v"
proof -
  let ?x = "of_nat m * (10::rat) powi (e - 16)"
  have "\<bar>?x - v\<bar> \<le> 10 powi (decade v - 16) / 2"
    using sci_parts_spec(3) [OF v(1) _ me] by (simp add: algebra_simps)
  also have "\<dots> \<le> v / (2 * 10 ^ 16)"
    using decade_bounds(1) [OF v(1)] by (simp add: power_int_diff)
  finally have err: "\<bar>?x - v\<bar> \<le> v / (2 * 10 ^ 16)" .
  have "v / (2 * 10 ^ 16) < 2 powi (binade v - 53)"
    using binade_bounds [OF v(1)] v(1) by (simp add: power_int_diff power_int_add)
  moreover have "v / (2 * 10 ^ 16) < 2 powi (binade v - 54)" if "v = 2 powi binade v"
    by (subst that) (simp add: power_int_diff)
  ultimately have "0 < ?x \<and> round_double_pos ?x = v"
    using err by (intro round_double_near [OF v(1,2)]) auto
  then show ?thesis
    using v by (intro read_double_pos) auto
qed

subsection \<open>Reading decimal text\<close>

abbreviation digits_only :: "string \<Rightarrow> bool" where
  "digits_only s \<equiv> list_all digit s"

lemma digit_not [simp]: "digit c \<Longrightarrow> c \<noteq> CHR ''e'' \<and> c \<noteq> CHR ''.'' \<and> c \<noteq> CHR ''-'' \<and> c \<noteq> CHR ''+''"
  by (auto simp: digit_def within_def less_eq_char_def)

lemma until_mark:
  assumes "list_all P w" "\<not> P c"
  shows "takeWhile P (w @ c # r) = w" and "dropWhile P (w @ c # r) = c # r"
  using assms by (induction w) auto

lemma until_none:
  assumes "list_all P w"
  shows "takeWhile P w = w" and "dropWhile P w = []"
  using assms by (induction w) auto

lemma digits_until:
  assumes "digits_only w"
  shows "list_all (\<lambda>c. c \<noteq> CHR ''e'') w" and "list_all (\<lambda>c. c \<noteq> CHR ''.'') w"
  using assms by (auto simp: list_all_iff)

lemma read_int_Nil [simp]: "read_int [] = 0"
  by (simp add: read_int_def digits_value_def)

lemma decimal_pos_text:
  assumes "digits_only w" "digits_only f"
  shows "decimal_pos (w @ CHR ''.'' # f @ CHR ''e'' # x) = of_nat (digits_value (w @ f)) * 10 powi (read_int x - int (length f))"
    and "decimal_pos (w @ CHR ''e'' # x) = of_nat (digits_value w) * 10 powi read_int x"
    and "decimal_pos (w @ CHR ''.'' # f) = of_nat (digits_value (w @ f)) * 10 powi (- int (length f))"
proof -
  note w = digits_until [OF assms(1)] and f = digits_until [OF assms(2)]
  have wf: "list_all (\<lambda>c. c \<noteq> CHR ''e'') (w @ CHR ''.'' # f)"
    using w f by simp
  show "decimal_pos (w @ CHR ''.'' # f @ CHR ''e'' # x) = of_nat (digits_value (w @ f)) * 10 powi (read_int x - int (length f))"
    using until_mark [OF wf, of "CHR ''e''" x] until_mark [OF w(2), of "CHR ''.''" f] by (simp add: decimal_pos_def)
  show "decimal_pos (w @ CHR ''e'' # x) = of_nat (digits_value w) * 10 powi read_int x"
    by (simp add: decimal_pos_def until_mark [OF w(1), of "CHR ''e''" x] until_none [OF w(2)])
  show "decimal_pos (w @ CHR ''.'' # f) = of_nat (digits_value (w @ f)) * 10 powi (- int (length f))"
    by (simp add: decimal_pos_def until_none [OF wf] until_mark [OF w(2), of "CHR ''.''" f])
qed

lemma digits_value_append: "digits_value (s @ t) = digits_value s * 10 ^ length t + digits_value t"
proof (induction t rule: rev_induct)
  case (snoc c t)
  then show ?case by (simp add: algebra_simps flip: append_assoc)
qed (simp add: digits_value_def)

lemma digits_value_zero_Cons [simp]: "digits_value (CHR ''0'' # s) = digits_value s"
  using digits_value_append [of "[CHR ''0'']" s] by (simp add: digits_value_def)

lemma digits_value_zeros [simp]: "digits_value (replicate n CHR ''0'') = 0"
proof (induction n)
  case 0
  show ?case by (simp add: digits_value_def)
qed simp

lemma read_show_exponent [simp]: "read_int (show_exponent e) = e"
  by (simp add: read_int_def show_exponent_def Let_def)

lemma show_nat_bound: "n < 10 ^ length (show_nat n)"
proof (induction n rule: show_nat.induct)
  case (1 n)
  show ?case
  proof (cases "n < 10")
    case False
    then have "n div 10 < 10 ^ length (show_nat (n div 10))"
      using 1 by simp
    then have "n < 10 ^ Suc (length (show_nat (n div 10)))"
      by (simp add: dividend_less_times_div div_less_iff_less_mult mult.commute)
    then show ?thesis
      using False by (simp add: show_nat.simps [of n])
  qed (simp add: show_nat.simps)
qed

lemma length_show_nat_exact:
  assumes "10 ^ (d - 1) \<le> n" "n < 10 ^ d" "0 < d"
  shows "length (show_nat n) = d"
proof -
  have "10 ^ (d - 1) < (10::nat) ^ length (show_nat n)"
    using show_nat_bound [of n] assms(1) by (rule le_less_trans [rotated])
  then have "d - 1 < length (show_nat n)"
    by simp
  moreover have "length (show_nat n) \<le> d"
    using length_show_nat [of n "d - 1"] assms(2,3) by simp
  ultimately show ?thesis by linarith
qed

lemma strip_zeros_spec:
  assumes "0 < digits_value s"
  obtains z where "s = strip_zeros s @ replicate z CHR ''0''" and "strip_zeros s \<noteq> []"
proof -
  let ?kept = "rev (dropWhile (\<lambda>c. c = CHR ''0'') (rev s))"
  let ?zs = "takeWhile (\<lambda>c. c = CHR ''0'') (rev s)"
  have zs: "rev ?zs = replicate (length ?zs) CHR ''0''"
    by (intro replicate_eqI) (auto dest: set_takeWhileD)
  have s: "s = ?kept @ rev ?zs"
    by (metis rev_append rev_rev_ident takeWhile_dropWhile_id)
  have "?kept \<noteq> []"
  proof
    assume "?kept = []"
    then have "s = [] @ replicate (length ?zs) CHR ''0''" using s zs by metis
    then have "digits_value s = 0" by (metis append_Nil digits_value_zeros)
    then show False using assms by simp
  qed
  then have kept: "strip_zeros s = ?kept"
    by (simp only: strip_zeros_def Let_def if_False)
  then have "s = strip_zeros s @ replicate (length ?zs) CHR ''0''"
    using s zs by metis
  then show ?thesis
    by (rule that) (use kept \<open>?kept \<noteq> []\<close> in metis)
qed

subsection \<open>Layout\<close>

text \<open>A scientific text of the digits \<open>ds\<close> with the exponent \<open>e\<close>.\<close>

definition sci_text :: "string \<Rightarrow> int \<Rightarrow> string" where
  "sci_text ds e = take 1 ds @ (if 1 < length ds then ''.'' @ drop 1 ds else []) @ ''e'' @ show_exponent e"

lemma digits_take_drop:
  assumes "digits_only ds"
  shows "digits_only (take n ds)" "digits_only (drop n ds)"
  using assms by (auto simp: list_all_iff dest: in_set_takeD in_set_dropD)

lemma sci_text_cases:
  assumes "ds \<noteq> []"
  obtains c where "ds = [c]" "sci_text ds e = [c] @ CHR ''e'' # show_exponent e"
  | c r where "ds = c # r" "r \<noteq> []" "sci_text ds e = [c] @ CHR ''.'' # r @ CHR ''e'' # show_exponent e"
  using assms by (cases ds; cases "tl ds") (auto simp: sci_text_def)

lemma sci_text_value:
  assumes "digits_only ds" "ds \<noteq> []"
  shows "decimal_pos (sci_text ds e) = of_nat (digits_value ds) * 10 powi (e - int (length ds) + 1)"
  using assms(2)
proof (cases rule: sci_text_cases [of _ e])
  case (1 c)
  then show ?thesis
    using decimal_pos_text(2) [of "[c]" "[]" "show_exponent e"] assms(1) by (simp only: read_show_exponent) simp
next
  case (2 c r)
  then show ?thesis
    using decimal_pos_text(1) [of "[c]" r "show_exponent e"] assms(1) by (simp only: read_show_exponent) simp
qed

lemma scientific_text:
  assumes "v \<noteq> 0" "0 < digits" "sci_parts \<bar>v\<bar> digits = (m, e)"
  shows "scientific v digits = (if v < 0 then ''-'' else []) @ sci_text (show_nat m) e"
    and "length (show_nat m) = digits"
proof -
  show l: "length (show_nat m) = digits"
    using sci_parts_spec [OF _ assms(2,3)] assms(1,2) by (intro length_show_nat_exact) auto
  then show "scientific v digits = (if v < 0 then ''-'' else []) @ sci_text (show_nat m) e"
    using assms(3) by (simp add: scientific_def sci_text_def Let_def)
qed

lemma sci_text_head: "digits_only ds \<Longrightarrow> ds \<noteq> [] \<Longrightarrow> take 1 (sci_text ds e) \<noteq> ''-''"
  by (cases ds) (auto simp: sci_text_def)

lemma signed_value:
  assumes "take 1 s \<noteq> ''-''"
  shows "decimal_value ((if negative then ''-'' else []) @ s) = (if negative then - decimal_pos s else decimal_pos s)"
  using assms by (simp add: decimal_value_def)

lemma zeros_digits [simp]: "digits_only (replicate n CHR ''0'')" "digit CHR ''0''"
  by (auto simp: list_all_iff digit_def within_def less_eq_char_def)

lemma arrange_value:
  assumes D: "digits_only D" "D \<noteq> []"
  shows "decimal_pos (arrange e D) = of_nat (digits_value D) * 10 powi (e - int (length D) + 1)"
    and "take 1 (arrange e D) \<noteq> ''-''"
proof -
  consider (sci) "e < - 4 \<or> 16 \<le> e" | (small) "- 4 \<le> e" "e \<le> - 1"
    | (whole) "0 \<le> e" "e < 16" "int (length D) \<le> e + 1" | (mixed) "0 \<le> e" "e < 16" "e + 1 < int (length D)"
    by linarith
  then have "decimal_pos (arrange e D) = of_nat (digits_value D) * 10 powi (e - int (length D) + 1)
      \<and> take 1 (arrange e D) \<noteq> ''-''"
  proof cases
    case sci
    then have "arrange e D = sci_text D e"
      by (simp add: arrange_def sci_text_def Let_def)
    then show ?thesis
      using sci_text_value [OF D] sci_text_head [OF D] by simp
  next
    case small
    let ?z = "replicate (nat (- (e + 1))) CHR ''0''"
    have "digits_only (?z @ D)"
      using D by simp
    moreover have "arrange e D = ''0'' @ CHR ''.'' # (?z @ D)"
      using small by (simp add: arrange_def Let_def)
    ultimately show ?thesis
      using decimal_pos_text(3) [of "''0''" "?z @ D"] small
      by (simp add: digits_value_append algebra_simps)
  next
    case whole
    let ?z = "replicate (nat (e + 1) - length D) CHR ''0''"
    have "digits_only (D @ ?z)"
      using D by simp
    moreover have "arrange e D = (D @ ?z) @ CHR ''.'' # ''0''"
      using whole by (simp add: arrange_def Let_def)
    moreover have "(10::rat) ^ (nat (e + 1) - length D) = 10 powi (e - int (length D) + 1)"
      using whole by (simp add: nat_diff_distrib power_int_def flip: nat_int)
    moreover have "digits_value ((D @ ?z) @ ''0'') = digits_value D * 10 ^ (nat (e + 1) - length D) * 10"
      by (simp add: digits_value_append) (simp add: digits_value_def)
    moreover have "take 1 ((D @ ?z) @ x) = take 1 D" for x
      using D(2) by (cases D) simp_all
    moreover have "take 1 D \<noteq> ''-''"
      using D by (cases D) auto
    ultimately show ?thesis
      using decimal_pos_text(3) [of "D @ ?z" "''0''"] by (simp only: of_nat_mult of_nat_power) simp
  next
    case mixed
    have "arrange e D = take (nat (e + 1)) D @ CHR ''.'' # drop (nat (e + 1)) D"
      using mixed by (simp add: arrange_def Let_def)
    moreover have "take 1 (take (nat (e + 1)) D @ x) = take 1 D" for x
      using mixed D(2) by (cases D) (simp_all add: nat_add_distrib)
    ultimately show ?thesis
      using decimal_pos_text(3) [OF digits_take_drop [OF D(1)], of "nat (e + 1)" "nat (e + 1)"] mixed D
      by (cases D) (auto simp: algebra_simps)
  qed
  then show "decimal_pos (arrange e D) = of_nat (digits_value D) * 10 powi (e - int (length D) + 1)"
    "take 1 (arrange e D) \<noteq> ''-''"
    by blast+
qed

lemma layout_sci:
  assumes ds: "digits_only ds" "ds \<noteq> []"
  shows "layout ((if negative then ''-'' else []) @ sci_text ds e) = (if negative then ''-'' else []) @ arrange e (strip_zeros ds)"
proof -
  obtain M where M: "sci_text ds e = M @ CHR ''e'' # show_exponent e" "list_all (\<lambda>c. c \<noteq> CHR ''e'') M"
    "take 1 M \<noteq> ''-''"
    and parts: "takeWhile (\<lambda>c. c \<noteq> CHR ''.'') M @ drop 1 (dropWhile (\<lambda>c. c \<noteq> CHR ''.'') M) = ds"
  proof (cases rule: sci_text_cases [OF ds(2), of e])
    case (1 c)
    then show thesis using ds(1) that [of "[c]"] by auto
  next
    case (2 c r)
    then have "list_all (\<lambda>c. c \<noteq> CHR ''.'') [c]" "list_all (\<lambda>c. c \<noteq> CHR ''e'') r" "digit c"
      using ds(1) digits_until [of r] by auto
    then show thesis
      using 2 that [of "[c] @ CHR ''.'' # r"] by auto
  qed
  let ?S = "(if negative then ''-'' else []) :: string"
  have "list_all (\<lambda>c. c \<noteq> CHR ''e'') (?S @ M)"
    using M(2) by simp
  note until = until_mark [OF this, of "CHR ''e''" "show_exponent e"]
  have full: "?S @ sci_text ds e = (?S @ M) @ CHR ''e'' # show_exponent e"
    by (simp add: M(1))
  have "(take 1 (?S @ M) = ''-'') = negative" "drop (if negative then 1 else 0) (?S @ M) = M"
    using M(3) by auto
  then show ?thesis
    unfolding full layout_def Let_def by (simp only: until parts) simp
qed

text \<open>The layout keeps the number.\<close>

lemma layout_value:
  assumes ds: "digits_only ds" "0 < digits_value ds"
  shows "decimal_value (layout ((if negative then ''-'' else []) @ sci_text ds e))
       = decimal_value ((if negative then ''-'' else []) @ sci_text ds e)"
proof -
  have nonempty: "ds \<noteq> []"
    using ds(2) by (auto simp: digits_value_def)
  obtain z where z: "ds = strip_zeros ds @ replicate z CHR ''0''" and D: "strip_zeros ds \<noteq> []"
    using strip_zeros_spec [OF ds(2)] .
  have D1: "digits_only (strip_zeros ds)"
    using ds(1) z by (metis list_all_append)
  have "digits_value ds = digits_value (strip_zeros ds) * 10 ^ z" "length ds = length (strip_zeros ds) + z"
    by (subst (1) z, simp add: digits_value_append)+
  moreover have "(10::rat) ^ z * 10 powi (e - int (length (strip_zeros ds) + z) + 1)
      = 10 powi (e - int (length (strip_zeros ds)) + 1)"
    by (simp add: power_int_add [symmetric] add_diff_eq diff_add_eq flip: power_int_of_nat)
  ultimately have "decimal_pos (sci_text ds e) = decimal_pos (arrange e (strip_zeros ds))"
    using sci_text_value [OF ds(1) nonempty, of e] arrange_value(1) [OF D1 D, of e]
    by (simp add: mult.assoc)
  then show ?thesis
    by (simp only: layout_sci [OF ds(1) nonempty] signed_value [OF arrange_value(2) [OF D1 D]]
        signed_value [OF sci_text_head [OF ds(1) nonempty]])
qed

lemma read_double_minus: "read_double x = Fin w \<Longrightarrow> read_double (- x) = Fin (- w)"
  by (auto simp: read_double_def round_double_def Let_def split: if_splits)

lemma last_reads_back:
  assumes v: "v \<noteq> 0" "is_double v"
  shows "read_double (decimal_value (scientific v 17)) = Fin v"
proof -
  obtain m e where me: "sci_parts \<bar>v\<bar> 17 = (m, e)"
    by fastforce
  note shown = scientific_text [OF v(1) _ me, simplified]
  have ds: "digits_only (show_nat m)" "show_nat m \<noteq> []"
    by (simp_all add: show_nat_digits)
  have "round_double_pos \<bar>v\<bar> = \<bar>v\<bar>" "\<bar>v\<bar> < 2 powi 1024"
    using v by (auto simp: is_double_def round_double_def abs_if split: if_splits)
  from seventeen_digits [OF _ this me] have "read_double (of_nat m * 10 powi (e - 16)) = Fin \<bar>v\<bar>"
    using v(1) by simp
  moreover have "decimal_pos (sci_text (show_nat m) e) = of_nat m * 10 powi (e - 16)"
    using sci_text_value [OF ds, of e] shown(2) by (simp add: algebra_simps)
  ultimately show ?thesis
    using v(1) read_double_minus [of "decimal_pos (sci_text (show_nat m) e)" "\<bar>v\<bar>"]
    by (simp only: shown(1) signed_value [OF sci_text_head [OF ds]]) auto
qed

lemma shortest_reads_back:
  assumes v: "v \<noteq> 0" "is_double v" and d: "0 < digits" "digits \<le> 17"
  obtains n where "0 < n" "shortest v digits = scientific v n" "read_double (decimal_value (scientific v n)) = Fin v"
proof -
  have last: "read_double (decimal_value (scientific v 17)) = Fin v"
    using v by (rule last_reads_back)
  have "\<exists>n>0. shortest v digits = scientific v n \<and> read_double (decimal_value (scientific v n)) = Fin v"
    using d
  proof (induction "17 - digits" arbitrary: digits)
    case 0
    then show ?case using last by (auto simp: shortest.simps [of v 17] Let_def intro!: exI [of _ 17])
  next
    case (Suc k)
    then show ?case
      by (cases "read_double (decimal_value (scientific v digits)) = Fin v")
         (auto simp: shortest.simps [of v digits] Let_def)
  qed
  then show ?thesis using that by blast
qed


lemma pythonFloat_reads_back:
  assumes "is_double v"
  shows "read_double (decimal_value (pythonFloat (Double (Fin v)))) = Fin v"
proof (cases "v = 0")
  case True
  then show ?thesis
    by (simp add: pythonFloat_def decimal_value_def decimal_pos_def digits_value_def read_double_def round_double_def)
next
  case False
  obtain n where n: "0 < n" "shortest v 1 = scientific v n" "read_double (decimal_value (scientific v n)) = Fin v"
    using shortest_reads_back [OF False assms, of 1] by auto
  obtain m e where me: "sci_parts \<bar>v\<bar> n = (m, e)"
    by fastforce
  have "0 < m"
    using sci_parts_spec(1) [OF _ n(1) me] False zero_less_power [of "10::nat" "n - 1"] by linarith
  then have "decimal_value (layout (scientific v n)) = decimal_value (scientific v n)"
    unfolding scientific_text(1) [OF False n(1) me] by (intro layout_value) (simp_all add: show_nat_digits)
  then show ?thesis
    using False n by (simp add: pythonFloat_def)
qed

text \<open>The text of a finite number reads back as the same number.\<close>

theorem pythonFloat_roundtrip:
  assumes "is_double v"
  shows "read_double (decimal_value (pythonFloat (Double (Fin v)))) = Fin v"
  using assms by (rule pythonFloat_reads_back)

lemma round_double_own:
  assumes "double_unit v = w" "0 < w" "v = of_int n * w" "0 < v"
  shows "round_double v = v"
  using assms round_double_on [OF assms(1-3)] by (simp add: round_double_def)

theorem pythonFloat_roundtrip_witness:
  "is_double (1 / 4) \<and> read_double (decimal_value (pythonFloat (Double (Fin (1 / 4))))) = Fin (1 / 4)"
proof -
  have "binade (1 / 4) = - 2"
    by (rule binade_unique) (simp_all add: power_int_def power2_eq_square)
  then have "double_unit (1 / 4) = 2 powi (- 54)"
    by (simp add: double_unit_def)
  then have "round_double (1 / 4) = 1 / 4"
    by (rule round_double_own [where n = "2 ^ 52"]) (simp_all add: power_int_def field_simps)
  then have "is_double (1 / 4)"
    by (simp add: is_double_def)
  then show ?thesis using pythonFloat_roundtrip [of "1 / 4"] by blast
qed

end
