(* ===== verification/Json.thy ===== *)
theory Json
  imports Python_Text
begin

section \<open>JSON values of the scene adapter\<close>

text \<open>
  \<^verbatim>\<open>common.hpp\<close>, \<^verbatim>\<open>ordered_object.hpp\<close>, \<^verbatim>\<open>scalars.cpp\<close>, \<^verbatim>\<open>json_io.cpp\<close> and the text helpers of \<^verbatim>\<open>store.cpp\<close> under
  \<^verbatim>\<open>src/scene_ros1_adapter\<close>. A document is a JSON value whose objects keep their insertion order. The grammar and the
  string escapes are nlohmann's: the argument \<open>quote\<close> is its encoder of one string, which fails on invalid UTF-8.
  Signed and unsigned integers are different types of a value, as in nlohmann; a double keeps the sign of its zero.
\<close>

subsection \<open>Failures\<close>

text \<open>The classes of exceptions the scene core tells apart in its handlers.\<close>

datatype exn =
    SceneError string | SystemError string | InvalidArgument string | JsonError string | OtherError string

type_synonym 'a result = "exn + 'a"

fun and_then :: "'a result \<Rightarrow> ('a \<Rightarrow> 'b result) \<Rightarrow> 'b result" where
  "and_then (Inl e) f = Inl e"
| "and_then (Inr x) f = f x"

lemma and_then_Inr_iff [simp]: "and_then r f = Inr y \<longleftrightarrow> (\<exists>x. r = Inr x \<and> f x = Inr y)"
  by (cases r) auto

lemma and_then_cong [fundef_cong]: "r = r' \<Longrightarrow> (\<And>x. r' = Inr x \<Longrightarrow> f x = g x) \<Longrightarrow> and_then r f = and_then r' g"
  by (cases r') auto

fun traverse :: "('a \<Rightarrow> 'b result) \<Rightarrow> 'a list \<Rightarrow> 'b list result" where
  "traverse f [] = Inr []"
| "traverse f (x # xs) = and_then (f x) (\<lambda>y. and_then (traverse f xs) (\<lambda>ys. Inr (y # ys)))"

definition require :: "bool \<Rightarrow> string \<Rightarrow> unit result" where
  "require ok message = (if ok then Inr () else Inl (SceneError message))"

lemma require_Inr_iff [simp]: "require ok message = Inr u \<longleftrightarrow> ok"
  by (simp add: require_def)

lemma traverse_Inr_iff: "traverse f xs = Inr ys \<longleftrightarrow> list_all2 (\<lambda>x y. f x = Inr y) xs ys"
  by (induction xs arbitrary: ys) (auto simp: list_all2_Cons1)

subsection \<open>OrderedObject\<close>

type_synonym ('k, 'v) ordered_object = "('k \<times> 'v) list"

definition oo_find :: "('k, 'v) ordered_object \<Rightarrow> 'k \<Rightarrow> 'v option" where
  "oo_find m key = map_option snd (List.find (\<lambda>item. fst item = key) m)"

definition oo_at :: "('k, 'v) ordered_object \<Rightarrow> 'k \<Rightarrow> 'v result" where
  "oo_at m key = (case oo_find m key of None \<Rightarrow> Inl (OtherError ''object key not found'') | Some v \<Rightarrow> Inr v)"

definition oo_emplace :: "'k \<Rightarrow> 'v \<Rightarrow> ('k, 'v) ordered_object \<Rightarrow> ('k, 'v) ordered_object \<times> bool" where
  "oo_emplace key v m = (case oo_find m key of None \<Rightarrow> (m @ [(key, v)], True) | Some _ \<Rightarrow> (m, False))"

text \<open>\<^verbatim>\<open>operator[]\<close> gives a place in the object; \<open>oo_put\<close> is the assignment to an existing place.\<close>

fun oo_put :: "'k \<Rightarrow> 'v \<Rightarrow> ('k, 'v) ordered_object \<Rightarrow> ('k, 'v) ordered_object" where
  "oo_put key v [] = []"
| "oo_put key v (item # m) = (if fst item = key then (fst item, v) # m else item # oo_put key v m)"

definition oo_set :: "'k \<Rightarrow> 'v \<Rightarrow> ('k, 'v) ordered_object \<Rightarrow> ('k, 'v) ordered_object" where
  "oo_set key v m = oo_put key v (fst (oo_emplace key v m))"

definition oo_insert :: "('k \<times> 'v) list \<Rightarrow> ('k, 'v) ordered_object \<Rightarrow> ('k, 'v) ordered_object" where
  "oo_insert items m = fold (\<lambda>item n. fst (oo_emplace (fst item) (snd item) n)) items m"

fun oo_erase :: "'k \<Rightarrow> ('k, 'v) ordered_object \<Rightarrow> ('k, 'v) ordered_object" where
  "oo_erase key [] = []"
| "oo_erase key (item # m) = (if fst item = key then m else item # oo_erase key m)"

text \<open>Dict equality: the values are compared by \<open>eq\<close>.\<close>

definition oo_eq :: "('v \<Rightarrow> 'v \<Rightarrow> bool) \<Rightarrow> ('k, 'v) ordered_object \<Rightarrow> ('k, 'v) ordered_object \<Rightarrow> bool" where
  "oo_eq eq a b \<longleftrightarrow>
     length a = length b
     \<and> list_all (\<lambda>item. case oo_find b (fst item) of None \<Rightarrow> False | Some v \<Rightarrow> eq (snd item) v) a"

definition oo_ok :: "('k, 'v) ordered_object \<Rightarrow> bool" where
  "oo_ok m \<longleftrightarrow> distinct (map fst m)"

lemma oo_find_map_of: "oo_find m = map_of m"
proof
  fix k show "oo_find m k = map_of m k"
    by (induction m) (auto simp: oo_find_def)
qed

lemma oo_find_None: "oo_find m k = None \<longleftrightarrow> k \<notin> fst ` set m"
  by (simp add: oo_find_map_of map_of_eq_None_iff)

lemma oo_put_keys [simp]: "map fst (oo_put k v m) = map fst m"
  by (induction m) auto

lemma oo_find_put: "map_of (oo_put k v m) k' = (if k' = k \<and> k \<in> fst ` set m then Some v else map_of m k')"
  by (induction m) force+

lemma oo_set_keys: "map fst (oo_set k v m) = (if oo_find m k = None then map fst m @ [k] else map fst m)"
  by (simp add: oo_set_def oo_emplace_def split: option.split)

lemma oo_find_set: "oo_find (oo_set k v m) k' = (if k' = k then Some v else oo_find m k')"
proof (cases "oo_find m k")
  case None
  then have "oo_put k v (m @ [(k, v)]) = m @ [(k, v)]"
    unfolding oo_find_None by (induction m) auto
  then show ?thesis
    using None by (auto simp: oo_set_def oo_emplace_def oo_find_map_of map_add_def split: option.splits)
next
  case (Some w)
  then have "k \<in> fst ` set m"
    using oo_find_None [of m k] by auto
  then show ?thesis
    using Some by (simp add: oo_set_def oo_emplace_def oo_find_map_of oo_find_put)
qed

lemma oo_erase_keys: "fst ` set (oo_erase k m) \<subseteq> fst ` set m"
  by (induction m) auto

lemma oo_ok_erase: "oo_ok m \<Longrightarrow> oo_ok (oo_erase k m)"
proof (induction m)
  case (Cons item m)
  then show ?case
    using oo_erase_keys [of k m] by (auto simp: oo_ok_def)
qed simp

lemma oo_find_erase: "oo_ok m \<Longrightarrow> oo_find (oo_erase k m) k' = (if k' = k then None else oo_find m k')"
  by (induction m) (auto simp: oo_ok_def oo_find_map_of map_of_eq_None_iff split: if_splits)

lemma oo_length_erase: "oo_ok m \<Longrightarrow> length (oo_erase k m) = (if oo_find m k = None then length m else length m - 1)"
proof (induction m)
  case (Cons item m)
  then show ?case
    by (cases m) (auto simp: oo_ok_def oo_find_None image_iff split: if_splits)
qed simp

interpretation oobj: keyed_table "[] :: ('k, 'v) ordered_object" oo_find oo_set oo_erase length oo_ok
proof unfold_locales
  fix m :: "('k, 'v) ordered_object" and k k' :: 'k and v :: 'v
  show "oo_find ([] :: ('k, 'v) ordered_object) k = None"
    by (simp add: oo_find_def)
  assume ok: "oo_ok m"
  then show "oo_ok (oo_set k v m)"
    by (auto simp: oo_ok_def oo_set_keys oo_find_None)
  show "length (oo_set k v m) = (if oo_find m k = None then Suc (length m) else length m)"
    using arg_cong [OF oo_set_keys [of k v m], of length] by simp
qed (simp_all add: oo_ok_def oo_find_set oo_ok_erase [unfolded oo_ok_def] oo_find_erase oo_length_erase)

text \<open>Dict equality does not depend on the insertion order: it compares the objects as finite maps.\<close>

theorem ordered_object_equality:
  assumes "oo_ok a" "oo_ok b"
  shows "oo_eq eq a b \<longleftrightarrow> (\<forall>k. rel_option eq (oo_find a k) (oo_find b k))"
proof
  assume eq: "oo_eq eq a b"
  then have sub: "fst ` set a \<subseteq> fst ` set b"
    by (auto simp: oo_eq_def list_all_iff oo_find_None split: option.splits)
  moreover have "card (fst ` set a) = card (fst ` set b)"
    using assms eq by (simp add: oo_ok_def oo_eq_def distinct_card flip: set_map)
  ultimately have keys: "fst ` set a = fst ` set b"
    by (simp add: card_subset_eq)
  show "\<forall>k. rel_option eq (oo_find a k) (oo_find b k)"
  proof
    fix k
    show "rel_option eq (oo_find a k) (oo_find b k)"
    proof (cases "oo_find a k")
      case None
      moreover from this keys have "oo_find b k = None" by (simp add: oo_find_None)
      ultimately show ?thesis by simp
    next
      case (Some v)
      then have "(k, v) \<in> set a"
        by (simp add: oo_find_map_of map_of_SomeD)
      then show ?thesis
        using eq Some by (auto simp: oo_eq_def list_all_iff split: option.splits)
    qed
  qed
next
  assume rel: "\<forall>k. rel_option eq (oo_find a k) (oo_find b k)"
  have "fst ` set a = fst ` set b"
  proof (rule set_eqI)
    fix k
    have "oo_find a k = None \<longleftrightarrow> oo_find b k = None"
      using rel [rule_format, of k] by (cases "oo_find a k"; cases "oo_find b k") auto
    then show "k \<in> fst ` set a \<longleftrightarrow> k \<in> fst ` set b"
      by (simp add: oo_find_None)
  qed
  then have "length a = length b"
    using assms distinct_card [of "map fst a"] distinct_card [of "map fst b"] by (simp add: oo_ok_def)
  moreover have "case oo_find b k of None \<Rightarrow> False | Some w \<Rightarrow> eq v w" if "(k, v) \<in> set a" for k v
  proof -
    have "oo_find a k = Some v"
      using assms(1) that by (simp add: oo_ok_def oo_find_map_of)
    then show ?thesis
      using rel [rule_format, of k] by (cases "oo_find b k") auto
  qed
  ultimately show "oo_eq eq a b"
    by (auto simp: oo_eq_def list_all_iff)
qed

theorem ordered_object_equality_witness:
  "oo_eq (=) [(''a'', 1::nat), (''b'', 2)] [(''b'', 2), (''a'', 1)]"
proof -
  have "\<forall>k. rel_option (=) (oo_find [(''a'', 1::nat), (''b'', 2)] k) (oo_find [(''b'', 2), (''a'', 1)] k)"
    by (auto simp: oo_find_map_of option.rel_eq)
  then show ?thesis
    using ordered_object_equality [of "[(''a'', 1::nat), (''b'', 2)]" "[(''b'', 2), (''a'', 1)]" "(=)"]
    by (simp add: oo_ok_def)
qed

subsection \<open>Values\<close>

datatype json =
    JNull | JBool bool | JInt int | JUnsigned nat | JFloat double | JString string
  | JArray "json list" | JObject "(string \<times> json) list"

fun is_number :: "json \<Rightarrow> bool" where
  "is_number (JInt _) = True" | "is_number (JUnsigned _) = True" | "is_number (JFloat _) = True"
| "is_number _ = False"

fun is_number_integer :: "json \<Rightarrow> bool" where
  "is_number_integer (JInt _) = True" | "is_number_integer (JUnsigned _) = True"
| "is_number_integer _ = False"

fun is_object :: "json \<Rightarrow> bool" where
  "is_object (JObject _) = True" | "is_object _ = False"

fun is_array :: "json \<Rightarrow> bool" where
  "is_array (JArray _) = True" | "is_array _ = False"

fun is_string :: "json \<Rightarrow> bool" where
  "is_string (JString _) = True" | "is_string _ = False"

text \<open>\<^verbatim>\<open>get<double>\<close> of a number; a 64-bit integer rounds to the nearest double.\<close>

fun get_double :: "json \<Rightarrow> double result" where
  "get_double (JInt i) = Inr (Double (Fin (round_double (of_int i))))"
| "get_double (JUnsigned n) = Inr (Double (Fin (round_double (of_nat n))))"
| "get_double (JFloat x) = Inr x"
| "get_double _ = Inl (JsonError ''type must be number'')"

fun entries :: "json \<Rightarrow> (string \<times> json) list" where
  "entries (JObject m) = m" | "entries _ = []"

fun items_of :: "json \<Rightarrow> json list" where
  "items_of (JArray xs) = xs" | "items_of _ = []"

definition contains :: "json \<Rightarrow> string \<Rightarrow> bool" where
  "contains value key \<longleftrightarrow> oo_find (entries value) key \<noteq> None"

text \<open>\<^verbatim>\<open>at(key)\<close> and \<^verbatim>\<open>value(key, fallback)\<close>; the texts are nlohmann's.\<close>

definition json_at :: "json \<Rightarrow> string \<Rightarrow> json result" where
  "json_at value key =
     (case value of
        JObject m \<Rightarrow>
          (case oo_find m key of
             Some v \<Rightarrow> Inr v
           | None \<Rightarrow> Inl (JsonError (''key '' @ key @ '' not found'')))
      | _ \<Rightarrow> Inl (JsonError ''cannot use at()''))"

definition value_or :: "json \<Rightarrow> string \<Rightarrow> json \<Rightarrow> json result" where
  "value_or value key fallback =
     (case value of
        JObject m \<Rightarrow> Inr (case oo_find m key of Some v \<Rightarrow> v | None \<Rightarrow> fallback)
      | _ \<Rightarrow> Inl (JsonError ''cannot use value()''))"

text \<open>\<^verbatim>\<open>result[key] = v\<close> on an object.\<close>

fun put :: "string \<Rightarrow> json \<Rightarrow> json \<Rightarrow> json" where
  "put key v (JObject m) = JObject (oo_set key v m)"
| "put key v value = value"

subsection \<open>Equality\<close>

fun fp_eq :: "fp \<Rightarrow> fp \<Rightarrow> bool" where
  "fp_eq (Fin x) y \<longleftrightarrow> y = Fin x"
| "fp_eq PosInf y \<longleftrightarrow> y = PosInf"
| "fp_eq NegInf y \<longleftrightarrow> y = NegInf"
| "fp_eq NaN y \<longleftrightarrow> False"

definition int64_of :: "nat \<Rightarrow> int" where
  "int64_of n = (int n + 2 ^ 63) mod 2 ^ 64 - 2 ^ 63"

text \<open>nlohmann's \<^verbatim>\<open>operator==\<close>: numbers of different types are compared after conversion; objects as dicts.\<close>

fun json_eq :: "json \<Rightarrow> json \<Rightarrow> bool"
  and array_eq :: "json list \<Rightarrow> json list \<Rightarrow> bool"
  and object_within :: "(string \<times> json) list \<Rightarrow> (string \<times> json) list \<Rightarrow> bool" where
  "json_eq JNull b = (b = JNull)"
| "json_eq (JBool p) b = (b = JBool p)"
| "json_eq (JString s) b = (b = JString s)"
| "json_eq (JInt i) b =
     (case b of
        JInt j \<Rightarrow> i = j | JUnsigned n \<Rightarrow> i = int64_of n
      | JFloat y \<Rightarrow> fp_eq (Fin (round_double (of_int i))) (double_value y) | _ \<Rightarrow> False)"
| "json_eq (JUnsigned n) b =
     (case b of
        JUnsigned k \<Rightarrow> n = k | JInt j \<Rightarrow> int64_of n = j
      | JFloat y \<Rightarrow> fp_eq (Fin (round_double (of_nat n))) (double_value y) | _ \<Rightarrow> False)"
| "json_eq (JFloat x) b =
     (case b of
        JFloat y \<Rightarrow> fp_eq (double_value x) (double_value y)
      | JInt j \<Rightarrow> fp_eq (double_value x) (Fin (round_double (of_int j)))
      | JUnsigned k \<Rightarrow> fp_eq (double_value x) (Fin (round_double (of_nat k))) | _ \<Rightarrow> False)"
| "json_eq (JArray xs) b = (case b of JArray ys \<Rightarrow> array_eq xs ys | _ \<Rightarrow> False)"
| "json_eq (JObject xs) b = (case b of JObject ys \<Rightarrow> length xs = length ys \<and> object_within xs ys | _ \<Rightarrow> False)"
| "array_eq [] ys = (ys = [])"
| "array_eq (x # xs) ys = (case ys of [] \<Rightarrow> False | y # ys' \<Rightarrow> json_eq x y \<and> array_eq xs ys')"
| "object_within [] ys = True"
| "object_within ((k, v) # xs) ys =
     ((case oo_find ys k of None \<Rightarrow> False | Some w \<Rightarrow> json_eq v w) \<and> object_within xs ys)"

lemma object_within_iff:
  "object_within xs ys \<longleftrightarrow> list_all (\<lambda>item. case oo_find ys (fst item) of None \<Rightarrow> False | Some v \<Rightarrow> json_eq (snd item) v) xs"
proof (induction xs)
  case (Cons item xs)
  then show ?case by (cases item) (simp cong: option.case_cong)
qed simp

lemma json_eq_object: "json_eq (JObject xs) (JObject ys) = oo_eq json_eq xs ys"
  by (simp add: oo_eq_def object_within_iff)

lemma array_eq_iff: "array_eq xs ys \<longleftrightarrow> list_all2 json_eq xs ys"
  by (induction xs arbitrary: ys) (auto simp: list_all2_Cons1 split: list.split)

text \<open>What every value of the program satisfies: keys of an object are distinct; and no NaN occurs.\<close>

fun json_ok :: "json \<Rightarrow> bool" where
  "json_ok (JFloat x) = (double_value x \<noteq> NaN)"
| "json_ok (JArray xs) = list_all json_ok xs"
| "json_ok (JObject m) = (oo_ok m \<and> list_all (\<lambda>item. json_ok (snd item)) m)"
| "json_ok _ = True"

lemma fp_eq_refl: "x \<noteq> NaN \<Longrightarrow> fp_eq x x"
  by (cases x) auto

lemma json_eq_refl: "json_ok v \<Longrightarrow> json_eq v v"
proof (induction v rule: json_ok.induct)
  case (2 xs)
  then show ?case
    by (auto simp: array_eq_iff list_all_iff list_all2_same)
next
  case (3 m)
  have "object_within m m"
    using 3 by (auto simp: object_within_iff list_all_iff oo_find_map_of oo_ok_def)
  then show ?case by simp
qed (auto simp: fp_eq_refl)


subsection \<open>Writing a value\<close>

type_synonym quote = "string \<Rightarrow> string result"

fun dumpJson :: "quote \<Rightarrow> json \<Rightarrow> string result"
  and dump_array :: "quote \<Rightarrow> bool \<Rightarrow> json list \<Rightarrow> string result"
  and dump_object :: "quote \<Rightarrow> bool \<Rightarrow> (string \<times> json) list \<Rightarrow> string result" where
  "dumpJson quote JNull = Inr ''null''"
| "dumpJson quote (JBool p) = Inr (if p then ''true'' else ''false'')"
| "dumpJson quote (JInt i) = Inr (show_int i)"
| "dumpJson quote (JUnsigned n) = Inr (show_nat n)"
| "dumpJson quote (JFloat x) =
     (if isfinite (double_value x) then Inr (pythonFloat x)
      else Inl (SceneError ''Out of range float values are not JSON compliant''))"
| "dumpJson quote (JString s) = quote s"
| "dumpJson quote (JArray xs) = and_then (dump_array quote True xs) (\<lambda>t. Inr (''['' @ t @ '']''))"
| "dumpJson quote (JObject m) = and_then (dump_object quote True m) (\<lambda>t. Inr (''{'' @ t @ ''}''))"
| "dump_array quote first [] = Inr []"
| "dump_array quote first (x # xs) =
     and_then (dumpJson quote x) (\<lambda>t. and_then (dump_array quote False xs) (\<lambda>r.
       Inr ((if first then [] else '', '') @ t @ r)))"
| "dump_object quote first [] = Inr []"
| "dump_object quote first ((k, v) # m) =
     and_then (quote k) (\<lambda>name. and_then (dumpJson quote v) (\<lambda>t. and_then (dump_object quote False m) (\<lambda>r.
       Inr ((if first then [] else '', '') @ name @ '': '' @ t @ r))))"

fun sameTextValue :: "json \<Rightarrow> json \<Rightarrow> bool"
  and same_items :: "json list \<Rightarrow> json list \<Rightarrow> bool"
  and same_fields :: "(string \<times> json) list \<Rightarrow> (string \<times> json) list \<Rightarrow> bool" where
  "sameTextValue (JFloat x) b =
     (case b of
        JFloat y \<Rightarrow> fp_eq (double_value x) (double_value y)
                      \<and> (\<not> fp_eq (double_value x) (Fin 0) \<or> signbit x = signbit y)
      | _ \<Rightarrow> False)"
| "sameTextValue (JArray xs) b = (case b of JArray ys \<Rightarrow> length xs = length ys \<and> same_items xs ys | _ \<Rightarrow> False)"
| "sameTextValue (JObject m) b = (case b of JObject n \<Rightarrow> length m = length n \<and> same_fields m n | _ \<Rightarrow> False)"
| "sameTextValue JNull b = (b = JNull)"
| "sameTextValue (JBool p) b = (b = JBool p)"
| "sameTextValue (JInt i) b = (b = JInt i)"
| "sameTextValue (JUnsigned n) b = (b = JUnsigned n)"
| "sameTextValue (JString s) b = (b = JString s)"
| "same_items (x # xs) (y # ys) = (sameTextValue x y \<and> same_items xs ys)"
| "same_items _ _ = True"
| "same_fields ((k, v) # m) ((k', w) # n) = (k = k' \<and> sameTextValue v w \<and> same_fields m n)"
| "same_fields _ _ = True"

text \<open>\<^verbatim>\<open>sortedFields\<close>: keys in byte order at every level, read back from the object by \<^verbatim>\<open>at\<close>.\<close>

fun sortedFields :: "json \<Rightarrow> json" where
  "sortedFields (JArray xs) = JArray (map sortedFields xs)"
| "sortedFields (JObject m) =
     JObject (fold (\<lambda>(k, v). oo_set k v)
       (map (\<lambda>k. (k, case oo_find (map (\<lambda>item. (fst item, sortedFields (snd item))) m) k of Some v \<Rightarrow> v | None \<Rightarrow> JNull))
         (sort (map fst m))) [])"
| "sortedFields v = v"

definition itemKey :: "json \<Rightarrow> nat \<Rightarrow> string" where
  "itemKey value index =
     (case oo_find (entries value) ''id'' of
        Some (JString s) \<Rightarrow> s
      | _ \<Rightarrow> ''#'' @ show_nat index)"

text \<open>\<^verbatim>\<open>std::tolower\<close>.\<close>

definition tolower :: "char \<Rightarrow> char" where
  "tolower c = (if CHR ''A'' \<le> c \<and> c \<le> CHR ''Z'' then char_of (of_char c + (32 :: nat)) else c)"

subsection \<open>pythonRepr\<close>

definition utf8_count :: "char \<Rightarrow> nat" where
  "utf8_count c =
     (let byte = of_char c :: nat in if byte < 128 then 1 else if byte < 224 then 2 else if byte < 240 then 3 else 4)"

lemma utf8_count_pos: "0 < utf8_count c"
  by (simp add: utf8_count_def Let_def)

function utf8Characters :: "string \<Rightarrow> string list result" where
  "utf8Characters [] = Inr []"
| "utf8Characters (c # s) =
     (if length (c # s) < utf8_count c then Inl (SceneError ''Invalid UTF-8 string'')
      else and_then (utf8Characters (drop (utf8_count c) (c # s))) (\<lambda>r. Inr (take (utf8_count c) (c # s) # r)))"
  by pat_completeness auto

termination utf8Characters
  by (relation "measure length") (use utf8_count_pos in \<open>auto simp: Suc_diff_le less_Suc_eq_le drop_Cons' dest: spec\<close>)

definition codepoint :: "string \<Rightarrow> nat" where
  "codepoint character =
     (case character of
        [] \<Rightarrow> 0
      | [c] \<Rightarrow> of_char c
      | c # r \<Rightarrow>
          foldl (\<lambda>value d. value * 64 + of_char d mod 64)
            (of_char c mod (if length character = 2 then 32 else if length character = 3 then 16 else 8)) r)"

definition pythonWhitespace :: "nat \<Rightarrow> bool" where
  "pythonWhitespace c \<longleftrightarrow>
     9 \<le> c \<and> c \<le> 13 \<or> 28 \<le> c \<and> c \<le> 32 \<or> c = 133 \<or> c = 160 \<or> c = 5760
     \<or> 8192 \<le> c \<and> c \<le> 8202 \<or> c = 8232 \<or> c = 8233 \<or> c = 8239 \<or> c = 8287 \<or> c = 12288"

definition hex_digit :: "nat \<Rightarrow> char" where
  "hex_digit d = (if d < 10 then char_of (48 + d) else char_of (87 + d))"

fun show_hex :: "nat \<Rightarrow> nat \<Rightarrow> string" where
  "show_hex 0 c = []"
| "show_hex (Suc width) c = show_hex width (c div 16) @ [hex_digit (c mod 16)]"

definition repr_character :: "char \<Rightarrow> string \<Rightarrow> string" where
  "repr_character mark character =
     (let c = codepoint character
      in if c = of_char mark \<or> c = 92 then [CHR 0x5C] @ character
         else if c = 10 then [CHR 0x5C, CHR ''n'']
         else if c = 13 then [CHR 0x5C, CHR ''r'']
         else if c = 9 then [CHR 0x5C, CHR ''t'']
         else if c < 32 \<or> c = 127 \<or> pythonWhitespace c \<and> c \<noteq> 32
         then [CHR 0x5C] @ (if c \<le> 255 then ''x'' @ show_hex 2 c else ''u'' @ show_hex 4 c)
         else character)"

definition repr_string :: "string \<Rightarrow> string result" where
  "repr_string s =
     (let mark = (if CHR 0x27 \<in> set s \<and> CHR 0x22 \<notin> set s then CHR 0x22 else CHR 0x27)
      in and_then (utf8Characters s) (\<lambda>characters. Inr ([mark] @ concat (map (repr_character mark) characters) @ [mark])))"

fun pythonRepr :: "json \<Rightarrow> string result"
  and repr_array :: "bool \<Rightarrow> json list \<Rightarrow> string result"
  and repr_object :: "bool \<Rightarrow> (string \<times> json) list \<Rightarrow> string result" where
  "pythonRepr JNull = Inr ''None''"
| "pythonRepr (JBool p) = Inr (if p then ''True'' else ''False'')"
| "pythonRepr (JFloat x) = Inr (pythonFloat x)"
| "pythonRepr (JInt i) = Inr (show_int i)"
| "pythonRepr (JUnsigned n) = Inr (show_nat n)"
| "pythonRepr (JString s) = repr_string s"
| "pythonRepr (JArray xs) = and_then (repr_array True xs) (\<lambda>t. Inr (''['' @ t @ '']''))"
| "pythonRepr (JObject m) = and_then (repr_object True m) (\<lambda>t. Inr (''{'' @ t @ ''}''))"
| "repr_array first [] = Inr []"
| "repr_array first (x # xs) =
     and_then (pythonRepr x) (\<lambda>t. and_then (repr_array False xs) (\<lambda>r. Inr ((if first then [] else '', '') @ t @ r)))"
| "repr_object first [] = Inr []"
| "repr_object first ((k, v) # m) =
     and_then (repr_string k) (\<lambda>name. and_then (pythonRepr v) (\<lambda>t. and_then (repr_object False m) (\<lambda>r.
       Inr ((if first then [] else '', '') @ name @ '': '' @ t @ r))))"

subsection \<open>Equal texts\<close>

text \<open>Values the caches take for equal have the same text.\<close>

lemma pythonFloat_cong:
  assumes "fp_eq (double_value x) (double_value y)" "\<not> fp_eq (double_value x) (Fin 0) \<or> signbit x = signbit y"
  shows "double_value x = double_value y" and "pythonFloat x = pythonFloat y"
proof -
  show eq: "double_value x = double_value y"
    using assms(1) by (cases "double_value x") auto
  show "pythonFloat x = pythonFloat y"
    using assms(2) by (cases "double_value x") (auto simp: pythonFloat_def eq [symmetric])
qed

lemma sameText_dump_all:
  "sameTextValue a b \<Longrightarrow> dumpJson quote a = dumpJson quote b"
  "length xs = length ys \<Longrightarrow> same_items xs ys \<Longrightarrow> dump_array quote first xs = dump_array quote first ys"
  "length m = length n \<Longrightarrow> same_fields m n \<Longrightarrow> dump_object quote first' m = dump_object quote first' n"
proof (induction a b and xs ys and m n arbitrary: and first and first'
    rule: sameTextValue_same_items_same_fields.induct)
  case (1 x b)
  then obtain y where y: "b = JFloat y" "fp_eq (double_value x) (double_value y)"
    "\<not> fp_eq (double_value x) (Fin 0) \<or> signbit x = signbit y"
    by (cases b) auto
  then show ?case using pythonFloat_cong [OF y(2,3)] by simp
next
  case (2 xs b)
  then show ?case by (auto split: json.splits)
next
  case (3 m b)
  then show ?case by (auto split: json.splits)
qed auto

lemmas sameText_dump = sameText_dump_all(1)

subsection \<open>Sorted fields\<close>

lemma fold_oo_set:
  assumes "distinct (map fst xs)" "fst ` set xs \<inter> fst ` set m = {}"
  shows "fold (\<lambda>(k, v). oo_set k v) xs m = m @ xs"
  using assms
proof (induction xs arbitrary: m)
  case (Cons x xs)
  obtain k v where x: "x = (k, v)" by fastforce
  have absent: "oo_find m k = None"
    using Cons.prems x by (simp add: oo_find_None)
  have "oo_put k v (m @ [(k, v)]) = m @ [(k, v)]"
    using absent unfolding oo_find_None by (induction m) auto
  then have "oo_set k v m = m @ [(k, v)]"
    using absent by (simp add: oo_set_def oo_emplace_def)
  then show ?case
    using Cons.IH [of "m @ [(k, v)]"] Cons.prems x by auto
qed simp

abbreviation sorted_entry :: "(string \<times> json) list \<Rightarrow> string \<Rightarrow> json" where
  "sorted_entry m k \<equiv> (case oo_find (map (\<lambda>item. (fst item, sortedFields (snd item))) m) k of Some v \<Rightarrow> v | None \<Rightarrow> JNull)"

lemma sortedFields_object:
  assumes "oo_ok m"
  shows "sortedFields (JObject m) = JObject (map (\<lambda>k. (k, sorted_entry m k)) (sort (map fst m)))"
  using assms fold_oo_set [of "map (\<lambda>k. (k, sorted_entry m k)) (sort (map fst m))" "[]"]
  by (simp add: oo_ok_def comp_def)

lemma sorted_entry_map: "oo_find (map (\<lambda>item. (fst item, sortedFields (snd item))) m) k = map_option sortedFields (oo_find m k)"
  by (induction m) (auto simp: oo_find_map_of)

text \<open>Two values that differ only in the order of their fields, at any depth.\<close>

fun reordered :: "json \<Rightarrow> json \<Rightarrow> bool"
  and reordered_items :: "json list \<Rightarrow> json list \<Rightarrow> bool"
  and reordered_fields :: "(string \<times> json) list \<Rightarrow> (string \<times> json) list \<Rightarrow> bool" where
  "reordered (JArray xs) b = (case b of JArray ys \<Rightarrow> reordered_items xs ys | _ \<Rightarrow> False)"
| "reordered (JObject m) b = (case b of JObject n \<Rightarrow> fst ` set m = fst ` set n \<and> reordered_fields m n | _ \<Rightarrow> False)"
| "reordered a b = (a = b)"
| "reordered_items [] ys = (ys = [])"
| "reordered_items (x # xs) ys = (case ys of [] \<Rightarrow> False | y # ys' \<Rightarrow> reordered x y \<and> reordered_items xs ys')"
| "reordered_fields [] n = True"
| "reordered_fields ((k, v) # m) n =
     ((case oo_find n k of None \<Rightarrow> False | Some w \<Rightarrow> reordered v w) \<and> reordered_fields m n)"

lemma reordered_items_iff: "reordered_items xs ys \<longleftrightarrow> list_all2 reordered xs ys"
  by (induction xs arbitrary: ys) (auto simp: list_all2_Cons1 split: list.split)

lemma reordered_fields_iff:
  "reordered_fields m n \<longleftrightarrow> list_all (\<lambda>item. case oo_find n (fst item) of None \<Rightarrow> False | Some w \<Rightarrow> reordered (snd item) w) m"
proof (induction m)
  case (Cons item m)
  then show ?case by (cases item) (simp cong: option.case_cong)
qed simp

text \<open>Objects with distinct keys, at any depth: what the program builds.\<close>

fun keys_ok :: "json \<Rightarrow> bool" where
  "keys_ok (JArray xs) = list_all keys_ok xs"
| "keys_ok (JObject m) = (oo_ok m \<and> list_all (\<lambda>item. keys_ok (snd item)) m)"
| "keys_ok _ = True"


lemma tagged_map_eq:
  "map (\<lambda>k. (k, f k)) ks = map (\<lambda>k. (k, g k)) js \<longleftrightarrow> ks = js \<and> (\<forall>k\<in>set ks. f k = g k)"
proof (induction ks arbitrary: js)
  case (Cons k ks)
  then show ?case by (cases js) auto
qed auto

lemma sorted_objects_eq:
  assumes "oo_ok m" "oo_ok n"
  shows "sortedFields (JObject m) = sortedFields (JObject n) \<longleftrightarrow>
    fst ` set m = fst ` set n
    \<and> (\<forall>k v w. (k, v) \<in> set m \<longrightarrow> oo_find n k = Some w \<longrightarrow> sortedFields v = sortedFields w)"
proof -
  let ?e = "\<lambda>m. map (\<lambda>k. (k, sorted_entry m k)) (sort (map fst m))"
  have keys: "sort (map fst m) = sort (map fst n) \<longleftrightarrow> fst ` set m = fst ` set n"
  proof
    assume "sort (map fst m) = sort (map fst n)"
    from arg_cong [OF this, of set] show "fst ` set m = fst ` set n" by simp
  next
    assume "fst ` set m = fst ` set n"
    then show "sort (map fst m) = sort (map fst n)"
      using assms by (intro sorted_distinct_set_unique) (simp_all add: oo_ok_def)
  qed
  have entry: "sorted_entry m k = sortedFields v" if "oo_find m k = Some v" for m k v
    using that by (simp only: sorted_entry_map) simp
  have in_find: "(k, v) \<in> set m \<longleftrightarrow> oo_find m k = Some v" for k v
    using assms(1) by (auto simp: oo_ok_def oo_find_map_of dest: map_of_SomeD)
  have some: "k \<in> fst ` set m \<longleftrightarrow> (\<exists>v. oo_find m k = Some v)" for m :: "(string \<times> json) list" and k
    using oo_find_None [of m k] by auto
  have "?e m = ?e n \<longleftrightarrow> sort (map fst m) = sort (map fst n) \<and> (\<forall>k\<in>fst ` set m. sorted_entry m k = sorted_entry n k)"
    by (simp only: tagged_map_eq set_sort set_map)
  also have "\<dots> \<longleftrightarrow> fst ` set m = fst ` set n
      \<and> (\<forall>k v w. (k, v) \<in> set m \<longrightarrow> oo_find n k = Some w \<longrightarrow> sortedFields v = sortedFields w)"
    unfolding keys
  proof (rule conj_cong [OF refl], intro iffI allI ballI impI)
    fix k v w
    assume "\<forall>k\<in>fst ` set m. sorted_entry m k = sorted_entry n k" "(k, v) \<in> set m" "oo_find n k = Some w"
    then show "sortedFields v = sortedFields w"
      using entry [of m k v] entry [of n k w] in_find [of k v] by force
  next
    fix k
    assume same: "fst ` set m = fst ` set n"
      and all: "\<forall>k v w. (k, v) \<in> set m \<longrightarrow> oo_find n k = Some w \<longrightarrow> sortedFields v = sortedFields w"
      and k: "k \<in> fst ` set m"
    obtain v where v: "oo_find m k = Some v" using k some by blast
    obtain w where w: "oo_find n k = Some w" using k same some by blast
    show "sorted_entry m k = sorted_entry n k"
      unfolding entry [OF v] entry [OF w] using all v w in_find by blast
  qed
  finally show ?thesis
    by (simp only: sortedFields_object [OF assms(1)] sortedFields_object [OF assms(2)] json.inject)
qed

lemma map_eq_list_all2:
  assumes "\<And>x y. x \<in> set xs \<Longrightarrow> y \<in> set ys \<Longrightarrow> f x = f y \<longleftrightarrow> R x y"
  shows "map f xs = map f ys \<longleftrightarrow> list_all2 R xs ys"
  using assms
proof (induction xs arbitrary: ys)
  case (Cons x xs)
  then show ?case by (cases ys) auto
qed simp

lemma sortedFields_leaf: "\<not> is_array v \<Longrightarrow> \<not> is_object v \<Longrightarrow> v = sortedFields b \<longleftrightarrow> v = b"
  by (cases b) auto

lemma sorted_reordered:
  "keys_ok a \<Longrightarrow> keys_ok b \<Longrightarrow> sortedFields a = sortedFields b \<longleftrightarrow> reordered a b"
proof (induction a arbitrary: b rule: sortedFields.induct)
  case (1 xs)
  show ?case
  proof (cases b)
    case (JArray ys)
    have "map sortedFields xs = map sortedFields ys \<longleftrightarrow> list_all2 reordered xs ys"
      using 1 JArray by (intro map_eq_list_all2) (simp_all add: list_all_iff)
    then show ?thesis using JArray by (simp add: reordered_items_iff)
  qed auto
next
  case (2 m)
  show ?case
  proof (cases b)
    case (JObject n)
    have ok: "oo_ok m" "oo_ok n"
      using 2 JObject by auto
    have "reordered_fields m n \<longleftrightarrow> (\<forall>k v w. (k, v) \<in> set m \<longrightarrow> oo_find n k = Some w \<longrightarrow> sortedFields v = sortedFields w)"
      if keys: "fst ` set m = fst ` set n"
    proof -
      have IH: "sortedFields v = sortedFields w \<longleftrightarrow> reordered v w" if "(k, v) \<in> set m" "oo_find n k = Some w" for k v w
      proof -
        have "(k, w) \<in> set n"
          using that(2) by (simp add: oo_find_map_of map_of_SomeD)
        then show ?thesis
          using 2(2,3) JObject that(1) by (intro 2(1) [of k "(k, v)", simplified]) (auto simp: list_all_iff intro: rev_image_eqI)
      qed
      have found: "oo_find n k \<noteq> None" if "(k, v) \<in> set m" for k v
      proof -
        from that have "k \<in> fst ` set m" by (rule rev_image_eqI) simp
        then show ?thesis unfolding keys oo_find_None by simp
      qed
      have one: "(case oo_find n k of None \<Rightarrow> False | Some w \<Rightarrow> reordered v w)
          \<longleftrightarrow> (\<forall>w. oo_find n k = Some w \<longrightarrow> sortedFields v = sortedFields w)" if "(k, v) \<in> set m" for k v
        using IH [OF that] found [OF that] by (cases "oo_find n k") auto
      have "reordered_fields m n \<longleftrightarrow>
          (\<forall>k v. (k, v) \<in> set m \<longrightarrow> (case oo_find n k of None \<Rightarrow> False | Some w \<Rightarrow> reordered v w))"
        unfolding reordered_fields_iff list_all_iff by (metis fst_conv snd_conv surj_pair)
      then show ?thesis
        using one by blast
    qed
    then show ?thesis
      using JObject by (auto simp only: sorted_objects_eq [OF ok] reordered.simps json.case)
  qed simp_all
qed (simp_all add: sortedFields_leaf)


end
