(* ===== verification/Envelope.thy ===== *)
theory Envelope
  imports Json
begin

section \<open>The envelope encoder\<close>

text \<open>
  \<^verbatim>\<open>EnvelopeJson\<close> of \<^verbatim>\<open>store.cpp\<close>: the text of a scene envelope, with the text of the last document and of its obstacles kept
  for the next call. A text is reused only for a value that \<^verbatim>\<open>sameTextValue\<close> accepts. The theorems say that the cache is
  invisible (the text is \<^verbatim>\<open>dumpJson\<close>'s) and that it works (unchanged obstacles are not encoded again).
\<close>

record envelope_cache =
  cached_document :: "json option"
  document_text :: string
  obstacle_texts :: "string \<rightharpoonup> json \<times> string"
  emitted_obstacles :: nat

definition empty_cache :: envelope_cache where
  "empty_cache = \<lparr>cached_document = None, document_text = [], obstacle_texts = Map.empty, emitted_obstacles = 0\<rparr>"

text \<open>The loop over the obstacles (lines 174 to 190): \<open>items\<close> is the new cache, \<open>listed\<close> the text so far. The count of encodings
  stays when an encoding fails.\<close>

fun encode_obstacles ::
  "quote \<Rightarrow> (string \<rightharpoonup> json \<times> string) \<Rightarrow> (string \<rightharpoonup> json \<times> string) \<Rightarrow> nat \<Rightarrow> string \<Rightarrow> nat \<Rightarrow> json list
     \<Rightarrow> nat \<times> (string \<times> (string \<rightharpoonup> json \<times> string)) result" where
  "encode_obstacles quote obstacles items index listed emitted [] = (emitted, Inr (listed, items))"
| "encode_obstacles quote obstacles items index listed emitted (obstacle # rest) =
     (let key = itemKey obstacle index;
          listed' = listed @ (if index > 0 then '', '' else []);
          hit = (case obstacles key of
                   Some (v, t) \<Rightarrow> if sameTextValue v obstacle then Some (v, t) else None
                 | None \<Rightarrow> None)
      in case hit of
           Some item \<Rightarrow>
             encode_obstacles quote obstacles (items(key \<mapsto> item)) (index + 1) (listed' @ snd item) emitted rest
         | None \<Rightarrow>
             (case dumpJson quote obstacle of
                Inl e \<Rightarrow> (emitted, Inl e)
              | Inr t \<Rightarrow>
                  encode_obstacles quote obstacles (items(key \<mapsto> (obstacle, t))) (index + 1) (listed' @ t) (emitted + 1) rest))"

fun encode_fields :: "quote \<Rightarrow> string \<Rightarrow> bool \<Rightarrow> (string \<times> json) list \<Rightarrow> string result" where
  "encode_fields quote listed first [] = Inr []"
| "encode_fields quote listed first ((k, v) # m) =
     and_then (quote k) (\<lambda>name. and_then (if k = ''obstacles'' then Inr listed else dumpJson quote v) (\<lambda>t.
       and_then (encode_fields quote listed False m) (\<lambda>r.
         Inr ((if first then [] else '', '') @ name @ '': '' @ t @ r))))"

definition documentLocked :: "quote \<Rightarrow> envelope_cache \<Rightarrow> json \<Rightarrow> envelope_cache \<times> string result" where
  "documentLocked quote c value =
     (if (case cached_document c of Some d \<Rightarrow> sameTextValue d value | None \<Rightarrow> False) then (c, Inr (document_text c))
      else
        (case oo_find (entries value) ''obstacles'' of
           Some (JArray obstacles) \<Rightarrow>
             (case encode_obstacles quote (obstacle_texts c) Map.empty 0 ''['' (emitted_obstacles c) obstacles of
                (emitted, Inl e) \<Rightarrow> (c\<lparr>emitted_obstacles := emitted\<rparr>, Inl e)
              | (emitted, Inr (listed, items)) \<Rightarrow>
                  (case encode_fields quote (listed @ '']'') True (entries value) of
                     Inl e \<Rightarrow> (c\<lparr>emitted_obstacles := emitted\<rparr>, Inl e)
                   | Inr t \<Rightarrow>
                       (c\<lparr>emitted_obstacles := emitted, obstacle_texts := items, cached_document := Some value,
                          document_text := ''{'' @ t @ ''}''\<rparr>, Inr (''{'' @ t @ ''}''))))
         | _ \<Rightarrow>
             (case dumpJson quote value of
                Inl e \<Rightarrow> (c, Inl e)
              | Inr t \<Rightarrow> (c\<lparr>cached_document := Some value, document_text := t\<rparr>, Inr t))))"

fun dumps_fields :: "quote \<Rightarrow> bool \<Rightarrow> envelope_cache \<Rightarrow> (string \<times> json) list \<Rightarrow> envelope_cache \<times> string result" where
  "dumps_fields quote first c [] = (c, Inr [])"
| "dumps_fields quote first c ((k, v) # m) =
     (case quote k of
        Inl e \<Rightarrow> (c, Inl e)
      | Inr name \<Rightarrow>
          (case (if k = ''document'' then documentLocked quote c v else (c, dumpJson quote v)) of
             (c', Inl e) \<Rightarrow> (c', Inl e)
           | (c', Inr t) \<Rightarrow>
               (case dumps_fields quote False c' m of
                  (c'', Inl e) \<Rightarrow> (c'', Inl e)
                | (c'', Inr r) \<Rightarrow> (c'', Inr ((if first then [] else '', '') @ name @ '': '' @ t @ r)))))"

definition dumps :: "quote \<Rightarrow> envelope_cache \<Rightarrow> json \<Rightarrow> envelope_cache \<times> string result" where
  "dumps quote c value =
     (case oo_find (entries value) ''document'' of
        Some (JObject _) \<Rightarrow>
          (case dumps_fields quote True c (entries value) of
             (c', Inl e) \<Rightarrow> (c', Inl e)
           | (c', Inr t) \<Rightarrow> (c', Inr (''{'' @ t @ ''}'')))
      | _ \<Rightarrow> (c, dumpJson quote value))"

text \<open>The encoder after a sequence of calls.\<close>

definition cache_after :: "quote \<Rightarrow> json list \<Rightarrow> envelope_cache" where
  "cache_after quote values = fold (\<lambda>v c. fst (dumps quote c v)) values empty_cache"

subsection \<open>The cache is invisible\<close>

definition texts_ok :: "quote \<Rightarrow> (string \<rightharpoonup> json \<times> string) \<Rightarrow> bool" where
  "texts_ok quote items \<longleftrightarrow> (\<forall>k v t. items k = Some (v, t) \<longrightarrow> dumpJson quote v = Inr t)"

definition cache_ok :: "quote \<Rightarrow> envelope_cache \<Rightarrow> bool" where
  "cache_ok quote c \<longleftrightarrow>
     texts_ok quote (obstacle_texts c)
     \<and> (\<forall>d. cached_document c = Some d \<longrightarrow> dumpJson quote d = Inr (document_text c))"

lemma encode_obstacles_exact:
  assumes "texts_ok quote obstacles" "texts_ok quote items"
  shows "case snd (encode_obstacles quote obstacles items index listed emitted os) of
      Inl e \<Rightarrow> (\<exists>e'. dump_array quote (index = 0) os = Inl e')
    | Inr (l, items') \<Rightarrow> texts_ok quote items' \<and> (\<exists>t. dump_array quote (index = 0) os = Inr t \<and> l = listed @ t)"
  using assms(2)
proof (induction os arbitrary: items index listed emitted)
  case (Cons ob os)
  let ?key = "itemKey ob index"
  let ?listed = "listed @ (if index > 0 then '', '' else [])"
  have step: ?case
    if item: "dumpJson quote ob = Inr t" "texts_ok quote (items(?key \<mapsto> item))"
      and run: "encode_obstacles quote obstacles items index listed emitted (ob # os)
        = encode_obstacles quote obstacles (items(?key \<mapsto> item)) (index + 1) (?listed @ t) n os" for t item n
  proof -
    let ?r = "snd (encode_obstacles quote obstacles (items(?key \<mapsto> item)) (index + 1) (?listed @ t) n os)"
    note IH = Cons.IH [OF item(2), of "index + 1" "?listed @ t" n]
    show ?thesis
    proof (cases ?r)
      case (Inl e)
      from IH [unfolded Inl] obtain e' where "dump_array quote False os = Inl e'" by auto
      then show ?thesis unfolding run Inl by (simp add: item(1))
    next
      case (Inr result)
      from IH [unfolded Inr] obtain r where "dump_array quote False os = Inr r" "fst result = ?listed @ t @ r"
        "texts_ok quote (snd result)" by (cases result) auto
      then show ?thesis unfolding run Inr by (cases result) (simp add: item(1))
    qed
  qed
  show ?case
  proof (cases "\<exists>v t. obstacles ?key = Some (v, t) \<and> sameTextValue v ob")
    case True
    then obtain v t where hit: "obstacles ?key = Some (v, t)" "sameTextValue v ob" by blast
    then have "dumpJson quote v = Inr t"
      using assms(1) by (auto simp: texts_ok_def)
    then show ?thesis
      using hit sameText_dump [OF hit(2), of quote] Cons.prems
      by (intro step [of t "(v, t)" emitted]) (auto simp: texts_ok_def Let_def)
  next
    case False
    then have miss: "(case obstacles ?key of Some (v, t) \<Rightarrow> if sameTextValue v ob then Some (v, t) else None | None \<Rightarrow> None) = None"
      by (auto split: option.split)
    show ?thesis
    proof (cases "dumpJson quote ob")
      case (Inl e)
      then show ?thesis by (simp add: miss Let_def)
    next
      case (Inr t)
      then show ?thesis
        using Cons.prems by (intro step [of t "(ob, t)" "emitted + 1"]) (auto simp: texts_ok_def miss Let_def)
    qed
  qed
qed simp

lemma encode_fields_other:
  assumes "''obstacles'' \<notin> fst ` set m"
  shows "encode_fields quote listed first m = dump_object quote first m"
  using assms by (induction m arbitrary: first) auto

lemma encode_fields_exact:
  assumes "oo_ok m" "oo_find m ''obstacles'' = Some v" "dumpJson quote v = Inr listed"
  shows "encode_fields quote listed first m = dump_object quote first m"
  using assms(1,2)
proof (induction m arbitrary: first)
  case (Cons item m)
  obtain k w where item: "item = (k, w)" by fastforce
  show ?case
  proof (cases "k = ''obstacles''")
    case True
    then have "''obstacles'' \<notin> fst ` set m" "w = v"
      using Cons.prems item by (auto simp: oo_ok_def oo_find_map_of)
    then show ?thesis
      using True item assms(3) by (simp add: encode_fields_other)
  next
    case False
    then show ?thesis
      using Cons item by (simp add: oo_ok_def oo_find_map_of)
  qed
qed (simp add: oo_find_map_of)

text \<open>Two results that succeed together with the same text; which failure is reported first may differ.\<close>

definition agrees :: "'a result \<Rightarrow> 'a result \<Rightarrow> bool" where
  "agrees r r' \<longleftrightarrow> (\<forall>t. r = Inr t \<longleftrightarrow> r' = Inr t)"

lemma agrees_refl [simp]: "agrees r r"
  by (simp add: agrees_def)

lemma agrees_Inl: "agrees (Inl e) r \<longleftrightarrow> (\<exists>e'. r = Inl e')"
  by (cases r) (auto simp: agrees_def)

lemma agrees_Inr: "agrees (Inr t) r \<longleftrightarrow> r = Inr t"
  by (auto simp: agrees_def)

lemma dump_object_parts: "dump_object quote first m = Inr t \<Longrightarrow> (k, v) \<in> set m \<Longrightarrow> \<exists>u. dumpJson quote v = Inr u"
  by (induction m arbitrary: first t) auto

lemma documentLocked_obstacles:
  assumes ok: "cache_ok quote c" "oo_ok m" and found: "oo_find m ''obstacles'' = Some (JArray os)"
    and fresh: "\<not> (case cached_document c of Some d \<Rightarrow> sameTextValue d (JObject m) | None \<Rightarrow> False)"
  shows "cache_ok quote (fst (documentLocked quote c (JObject m))) \<and> agrees (snd (documentLocked quote c (JObject m))) (dumpJson quote (JObject m))"
proof -
  obtain n r where run: "encode_obstacles quote (obstacle_texts c) Map.empty 0 ''['' (emitted_obstacles c) os = (n, r)"
    by fastforce
  have texts: "texts_ok quote (obstacle_texts c)"
    using ok by (simp add: cache_ok_def)
  note encoded = encode_obstacles_exact [OF texts, where items = Map.empty and index = 0 and listed = "''[''"
    and emitted = "emitted_obstacles c" and os = os, unfolded run]
  show ?thesis
  proof (cases r)
    case (Inl e)
    then have "\<exists>e'. dump_array quote True os = Inl e'"
      using encoded by (simp add: texts_ok_def)
    then have "\<exists>e'. dump_object quote True m = Inl e'"
      using dump_object_parts [OF _ map_of_SomeD [OF found [unfolded oo_find_map_of]], of quote True]
      by (cases "dump_object quote True m") auto
    then show ?thesis
      using ok fresh found Inl run by (auto simp: documentLocked_def cache_ok_def agrees_Inl)
  next
    case (Inr result)
    obtain l items where result: "result = (l, items)" by fastforce
    obtain t where t: "dump_array quote True os = Inr t" "l = ''['' @ t" and items: "texts_ok quote items"
      using encoded Inr result by (auto simp: texts_ok_def)
    have fields: "encode_fields quote (l @ '']'') True m = dump_object quote True m"
      using t by (intro encode_fields_exact [OF ok(2) found]) simp
    show ?thesis
    proof (cases "dump_object quote True m")
      case (Inl e)
      then show ?thesis
        using ok fresh found run Inr result fields by (simp add: documentLocked_def cache_ok_def agrees_Inl)
    next
      case (Inr s)
      then show ?thesis
        using ok fresh found run \<open>r = Inr result\<close> result fields items by (simp add: documentLocked_def cache_ok_def)
    qed
  qed
qed

lemma documentLocked_exact:
  assumes "cache_ok quote c" "keys_ok v"
  shows "cache_ok quote (fst (documentLocked quote c v))" and "agrees (snd (documentLocked quote c v)) (dumpJson quote v)"
proof -
  have "cache_ok quote (fst (documentLocked quote c v)) \<and> agrees (snd (documentLocked quote c v)) (dumpJson quote v)"
  proof (cases "case cached_document c of Some d \<Rightarrow> sameTextValue d v | None \<Rightarrow> False")
    case True
    then obtain d where d: "cached_document c = Some d" "sameTextValue d v"
      by (auto split: option.splits)
    then have "dumpJson quote v = Inr (document_text c)"
      using assms(1) sameText_dump [OF d(2), of quote] by (simp add: cache_ok_def)
    then show ?thesis
      using assms(1) True by (simp add: documentLocked_def agrees_Inr)
  next
    case False
    show ?thesis
    proof (cases "\<exists>os. oo_find (entries v) ''obstacles'' = Some (JArray os)")
      case True
      then obtain os m where found: "oo_find m ''obstacles'' = Some (JArray os)" and v: "v = JObject m"
        by (cases v) (auto simp: oo_find_map_of)
      have "oo_ok m" using assms(2) v by simp
      then show ?thesis
        using found False unfolding v by (rule documentLocked_obstacles [OF assms(1)])
    next
      case plain: False
      then have "documentLocked quote c v = (case dumpJson quote v of Inl e \<Rightarrow> (c, Inl e)
          | Inr t \<Rightarrow> (c\<lparr>cached_document := Some v, document_text := t\<rparr>, Inr t))"
        using False by (auto simp: documentLocked_def split: option.splits json.splits)
      then show ?thesis
        using assms(1) by (cases "dumpJson quote v") (simp_all add: cache_ok_def agrees_Inl)
    qed
  qed
  then show "cache_ok quote (fst (documentLocked quote c v))" "agrees (snd (documentLocked quote c v)) (dumpJson quote v)"
    by blast+
qed

lemma dumps_fields_exact:
  assumes "cache_ok quote c" "list_all (\<lambda>item. keys_ok (snd item)) m"
  shows "cache_ok quote (fst (dumps_fields quote first c m))
    \<and> agrees (snd (dumps_fields quote first c m)) (dump_object quote first m)"
  using assms
proof (induction m arbitrary: first c)
  case (Cons item m)
  obtain k v where item: "item = (k, v)" by fastforce
  obtain c' s where step: "(if k = ''document'' then documentLocked quote c v else (c, dumpJson quote v)) = (c', s)"
    by fastforce
  have ok: "cache_ok quote c'" and s: "agrees s (dumpJson quote v)"
    using step Cons.prems item documentLocked_exact [of quote c v] by (auto split: if_splits)
  obtain c'' r where rest: "dumps_fields quote False c' m = (c'', r)" by fastforce
  have IH: "cache_ok quote c''" "agrees r (dump_object quote False m)"
    using Cons.IH [OF ok, of False] Cons.prems(2) item by (simp_all add: rest)
  show ?case
  proof (cases "quote k")
    case (Inl e)
    then show ?thesis using Cons.prems item by (simp add: agrees_Inl)
  next
    case name: (Inr name)
    show ?thesis
    proof (cases s)
      case (Inl e)
      then obtain e' where "dumpJson quote v = Inl e'" using s by (auto simp: agrees_Inl)
      then show ?thesis using name item step ok Inl by (simp add: agrees_Inl)
    next
      case (Inr t)
      then have "dumpJson quote v = Inr t" using s by (simp add: agrees_Inr)
      then show ?thesis
        using name item step rest IH Inr by (cases r) (auto simp: agrees_Inl agrees_Inr)
    qed
  qed
qed simp

lemma dumps_exact:
  assumes "cache_ok quote c" "keys_ok v"
  shows "cache_ok quote (fst (dumps quote c v))" and "agrees (snd (dumps quote c v)) (dumpJson quote v)"
proof -
  have "cache_ok quote (fst (dumps quote c v)) \<and> agrees (snd (dumps quote c v)) (dumpJson quote v)"
  proof (cases "\<exists>d. oo_find (entries v) ''document'' = Some (JObject d)")
    case True
    then obtain d m where v: "v = JObject m" "oo_find m ''document'' = Some (JObject d)"
      by (cases v) (auto simp: oo_find_map_of)
    have "list_all (\<lambda>item. keys_ok (snd item)) m"
      using assms(2) v by simp
    from dumps_fields_exact [OF assms(1) this, of True] show ?thesis
      using v by (cases "dumps_fields quote True c m"; cases "snd (dumps_fields quote True c m)")
        (auto simp: dumps_def agrees_Inl agrees_Inr)
  next
    case False
    then have "dumps quote c v = (c, dumpJson quote v)"
      by (auto simp: dumps_def split: option.splits json.splits)
    then show ?thesis using assms(1) by simp
  qed
  then show "cache_ok quote (fst (dumps quote c v))" "agrees (snd (dumps quote c v)) (dumpJson quote v)"
    by blast+
qed

lemma cache_after_ok:
  assumes "list_all keys_ok vs"
  shows "cache_ok quote (cache_after quote vs)"
proof -
  have "cache_ok quote (fold (\<lambda>v c. fst (dumps quote c v)) vs c)" if "cache_ok quote c" for c
    using assms that
  proof (induction vs arbitrary: c)
    case (Cons v vs)
    have "cache_ok quote (fst (dumps quote c v))"
      using Cons.prems by (intro dumps_exact(1)) simp_all
    then show ?case using Cons by simp
  qed simp
  moreover have "cache_ok quote empty_cache"
    by (simp add: empty_cache_def cache_ok_def texts_ok_def)
  ultimately show ?thesis
    unfolding cache_after_def by blast
qed

text \<open>C39: After any earlier calls the encoder writes a value exactly as \<^verbatim>\<open>dumpJson\<close> does, and fails exactly when it does.\<close>

theorem envelope_text_exact:
  assumes "list_all keys_ok earlier" "keys_ok value"
  shows "snd (dumps quote (cache_after quote earlier) value) = Inr t \<longleftrightarrow> dumpJson quote value = Inr t"
  using dumps_exact(2) [OF cache_after_ok [OF assms(1), of quote] assms(2)] by (simp add: agrees_def)


theorem envelope_text_exact_witness:
  "snd (dumps Inr (cache_after Inr [JObject [(''document'', JObject [(''obstacles'', JArray [JNull])])]])
      (JObject [(''document'', JObject [(''obstacles'', JArray [JNull, JBool True])])]))
    = Inr ''{document: {obstacles: [null, true]}}''"
proof -
  let ?v = "JObject [(''document'', JObject [(''obstacles'', JArray [JNull, JBool True])])]"
  have "dumpJson Inr ?v = Inr ''{document: {obstacles: [null, true]}}''" by simp
  then show ?thesis
    using envelope_text_exact [of "[JObject [(''document'', JObject [(''obstacles'', JArray [JNull])])]]" ?v Inr]
    by (simp add: oo_ok_def)
qed

subsection \<open>The cache works\<close>

text \<open>The obstacles of a scene document: objects with a text id, each id once.\<close>

fun obstacle_id :: "json \<Rightarrow> string option" where
  "obstacle_id (JObject m) = (case oo_find m ''id'' of Some (JString s) \<Rightarrow> Some s | _ \<Rightarrow> None)"
| "obstacle_id _ = None"

definition identified :: "json list \<Rightarrow> bool" where
  "identified os \<longleftrightarrow> None \<notin> set (map obstacle_id os) \<and> distinct (map obstacle_id os)"

lemma itemKey_id: "obstacle_id ob = Some s \<Longrightarrow> itemKey ob i = s"
  by (cases ob) (auto simp: itemKey_def split: option.splits json.splits)

lemma sameText_refl_all:
  "dumpJson quote a = Inr t \<Longrightarrow> sameTextValue a a"
  "dump_array quote first xs = Inr t' \<Longrightarrow> same_items xs xs"
  "dump_object quote first' m = Inr t'' \<Longrightarrow> same_fields m m"
proof (induction quote a and quote first xs and quote first' m arbitrary: t and t' and t''
    rule: dumpJson_dump_array_dump_object.induct)
  case (5 quote x)
  then show ?case by (cases "double_value x") (auto split: if_splits)
qed auto

lemmas sameText_refl = sameText_refl_all(1)

lemma encode_obstacles_items:
  assumes "encode_obstacles quote obstacles items index listed emitted os = (n, Inr (l, items'))"
    and "identified os"
  shows "(\<forall>ob \<in> set os. \<exists>v t. items' (the (obstacle_id ob)) = Some (v, t) \<and> sameTextValue v ob)
    \<and> (\<forall>k. Some k \<notin> set (map obstacle_id os) \<longrightarrow> items' k = items k)"
  using assms
proof (induction os arbitrary: items index listed emitted)
  case (Cons ob os)
  obtain s where s: "obstacle_id ob = Some s"
    using Cons.prems(2) by (cases "obstacle_id ob") (auto simp: identified_def)
  then have key: "itemKey ob index = s" by (rule itemKey_id)
  have os: "identified os" "Some s \<notin> set (map obstacle_id os)"
    using Cons.prems(2) s by (auto simp: identified_def)
  obtain v t listed' n' where run: "encode_obstacles quote obstacles (items(s \<mapsto> (v, t))) (index + 1) listed' n' os = (n, Inr (l, items'))"
    and same: "sameTextValue v ob"
  proof (cases "\<exists>v t. obstacles s = Some (v, t) \<and> sameTextValue v ob")
    case True
    then obtain v t where "obstacles s = Some (v, t)" "sameTextValue v ob" by blast
    then show thesis using Cons.prems(1) that key by (simp add: Let_def)
  next
    case False
    then have miss: "(case obstacles s of Some (v, t) \<Rightarrow> if sameTextValue v ob then Some (v, t) else None | None \<Rightarrow> None) = None"
      by (auto split: option.split)
    then obtain t where t: "dumpJson quote ob = Inr t"
      using Cons.prems(1) key by (cases "dumpJson quote ob") (auto simp: Let_def)
    then show thesis
      using Cons.prems(1) that [of ob t] key miss sameText_refl [OF t] by (simp add: Let_def)
  qed
  have IH: "\<forall>ob \<in> set os. \<exists>v t. items' (the (obstacle_id ob)) = Some (v, t) \<and> sameTextValue v ob"
      "\<forall>k. Some k \<notin> set (map obstacle_id os) \<longrightarrow> items' k = (items(s \<mapsto> (v, t))) k"
    using Cons.IH [OF run os(1)] by blast+
  have "items' s = Some (v, t)"
    using IH(2) os(2) by simp
  then show ?case
    using IH s same by auto
qed auto


lemma encode_obstacles_count:
  assumes "\<forall>ob \<in> known. \<exists>v t. obstacles (the (obstacle_id ob)) = Some (v, t) \<and> sameTextValue v ob"
    and "identified os"
  shows "fst (encode_obstacles quote obstacles items index listed emitted os)
    \<le> emitted + length (filter (\<lambda>ob. ob \<notin> known) os)"
  using assms(2)
proof (induction os arbitrary: items index listed emitted)
  case (Cons ob os)
  obtain s where s: "obstacle_id ob = Some s"
    using Cons.prems by (cases "obstacle_id ob") (auto simp: identified_def)
  then have key: "itemKey ob index = s" by (rule itemKey_id)
  have os: "identified os"
    using Cons.prems by (simp add: identified_def)
  show ?case
  proof (cases "\<exists>v t. obstacles s = Some (v, t) \<and> sameTextValue v ob")
    case True
    then obtain v t where "obstacles s = Some (v, t)" "sameTextValue v ob" by blast
    then show ?thesis
      using Cons.IH [OF os] key by (auto simp: Let_def intro: le_SucI)
  next
    case False
    then have "ob \<notin> known"
      using assms(1) s by force
    moreover have miss: "(case obstacles s of Some (v, t) \<Rightarrow> if sameTextValue v ob then Some (v, t) else None | None \<Rightarrow> None) = None"
      using False by (auto split: option.split)
    ultimately show ?thesis
      using Cons.IH [OF os, of _ _ _ "emitted + 1"] key by (cases "dumpJson quote ob") (simp_all add: Let_def)
  qed
qed simp

text \<open>Once a document was written, writing a later one encodes only the obstacles that the earlier one did not
  have, wherever they stand in the list.\<close>

theorem unchanged_obstacles_reused:
  assumes first: "documentLocked quote c (JObject m) = (c', Inr t)"
    and fresh: "cached_document c = None"
    and os: "oo_find m ''obstacles'' = Some (JArray os)" "identified os"
    and os': "oo_find m' ''obstacles'' = Some (JArray os')" "identified os'"
  shows "emitted_obstacles (fst (documentLocked quote c' (JObject m')))
    \<le> emitted_obstacles c' + length (filter (\<lambda>ob. ob \<notin> set os) os')"
proof (cases "case cached_document c' of Some d \<Rightarrow> sameTextValue d (JObject m') | None \<Rightarrow> False")
  case True
  then show ?thesis by (simp add: documentLocked_def)
next
  case False
  obtain n l where run: "encode_obstacles quote (obstacle_texts c) Map.empty 0 ''['' (emitted_obstacles c) os = (n, Inr (l, obstacle_texts c'))"
    using first fresh os(1) by (auto simp: documentLocked_def split: prod.splits sum.splits)
  note known = encode_obstacles_items [OF run os(2), THEN conjunct1]
  obtain n' r where run': "encode_obstacles quote (obstacle_texts c') Map.empty 0 ''['' (emitted_obstacles c') os' = (n', r)"
    by fastforce
  have "emitted_obstacles (fst (documentLocked quote c' (JObject m'))) = n'"
    using False os'(1) run' by (auto simp: documentLocked_def split: sum.splits)
  then show ?thesis
    using encode_obstacles_count [OF known os'(2), where quote = quote and items = Map.empty and index = 0
        and listed = "''[''" and emitted = "emitted_obstacles c'"] run' by simp
qed

theorem unchanged_obstacles_reused_witness:
  "let ob = (\<lambda>i. JObject [(''id'', JString i)]); doc = (\<lambda>ids. JObject [(''obstacles'', JArray (map ob ids))]);
       c' = fst (documentLocked Inr empty_cache (doc [''a'', ''b'', ''c'']))
   in emitted_obstacles (fst (documentLocked Inr c' (doc [''c'', ''x'', ''a'']))) \<le> emitted_obstacles c' + 1"
proof -
  let ?ob = "\<lambda>i. JObject [(''id'', JString i)]"
  let ?m = "\<lambda>ids. [(''obstacles'', JArray (map ?ob ids))]"
  obtain c' t where first: "documentLocked Inr empty_cache (JObject (?m [''a'', ''b'', ''c''])) = (c', Inr t)"
    by (simp add: documentLocked_def empty_cache_def oo_find_map_of Let_def)
  have "emitted_obstacles (fst (documentLocked Inr c' (JObject (?m [''c'', ''x'', ''a'']))))
    \<le> emitted_obstacles c' + length (filter (\<lambda>ob. ob \<notin> set (map ?ob [''a'', ''b'', ''c''])) (map ?ob [''c'', ''x'', ''a'']))"
    by (rule unchanged_obstacles_reused [OF first]) (simp_all add: empty_cache_def oo_find_map_of identified_def)
  then show ?thesis
    using first by (simp add: Let_def)
qed


end
