(* ===== verification/Scene_Document.thy ===== *)
theory Scene_Document
  imports Envelope
begin

section \<open>Scene documents\<close>

text \<open>
  \<^verbatim>\<open>document.cpp\<close> (with \<^verbatim>\<open>placement_json.hpp\<close>): validation and normalisation of a scene document. The geometry library
  \<^verbatim>\<open>xgc2_math\<close> is outside the repository: the record \<open>math\<close> holds what the code calls of it (the check of a convex mesh,
  the registry of further shapes with their declared fields, the conversion of such a shape, the start of a motion path).
  Numbers are doubles and every operation on them rounds; \<^verbatim>\<open>std::sqrt\<close> and the square by \<^verbatim>\<open>std::pow\<close> are correctly rounded.
\<close>

datatype native_motion =
    Hold
  | ConstantTwist "rat list" "rat list"
  | PingPong "rat list" "rat list" rat
  | Circle "rat list" rat rat rat

record math =
  validateConvexMesh :: "json list \<Rightarrow> int list \<Rightarrow> string + json"
  geometryRegistry :: "(string \<times> string) list"
  geometryJson :: "json \<Rightarrow> string + json"
  motionStart :: "rat list \<Rightarrow> native_motion \<Rightarrow> rat list"

subsection \<open>Scalars\<close>

definition names :: "string list \<Rightarrow> json" where
  "names keys = JArray (map JString (sort (remdups keys)))"

definition fields :: "json \<Rightarrow> string list \<Rightarrow> string list \<Rightarrow> unit result" where
  "fields value allowed required =
     (case value of
        JObject m \<Rightarrow>
          (let unknown = filter (\<lambda>k. k \<notin> set allowed) (map fst m);
               missing = filter (\<lambda>k. oo_find m k = None) required
           in if unknown = [] \<and> missing = [] then Inr ()
              else and_then (pythonRepr (names unknown)) (\<lambda>u. and_then (pythonRepr (names missing)) (\<lambda>r.
                     Inl (SceneError (''Invalid fields: unknown='' @ u @ '', missing='' @ r)))))
      | _ \<Rightarrow> Inl (SceneError ''Expected an object''))"

definition number :: "json \<Rightarrow> string \<Rightarrow> rat \<Rightarrow> rat \<Rightarrow> double result" where
  "number value label minimum maximum =
     (if \<not> is_number value then Inl (SceneError (label @ '' must be finite''))
      else and_then (get_double value) (\<lambda>x.
        case double_value x of
          Fin v \<Rightarrow>
            if minimum \<le> v \<and> v \<le> maximum then Inr x
            else Inl (SceneError (label @ '' is outside the supported range''))
        | _ \<Rightarrow> Inl (SceneError (label @ '' must be finite''))))"

abbreviation any_number :: "json \<Rightarrow> string \<Rightarrow> double result" where
  "any_number value label \<equiv> number value label (- 1000000) 1000000"

definition vector :: "json \<Rightarrow> string \<Rightarrow> nat \<Rightarrow> json result" where
  "vector value label components =
     (case value of
        JArray xs \<Rightarrow>
          if length xs = components
          then and_then (traverse (\<lambda>item. any_number item label) xs) (\<lambda>ys. Inr (JArray (map JFloat ys)))
          else Inl (SceneError (label @ '' must have '' @ show_nat components @ '' components''))
      | _ \<Rightarrow> Inl (SceneError (label @ '' must have '' @ show_nat components @ '' components'')))"

text \<open>\<^verbatim>\<open>[A-Za-z0-9][A-Za-z0-9_.-]{0,127}\<close>\<close>

definition identifier_text :: "string \<Rightarrow> bool" where
  "identifier_text s =
     (case s of [] \<Rightarrow> False
      | c # cs \<Rightarrow> alnum c \<and> length cs \<le> 127
          \<and> list_all (\<lambda>d. alnum d \<or> d = CHR ''_'' \<or> d = CHR ''.'' \<or> d = CHR ''-'') cs)"

definition stable_identifier :: "json \<Rightarrow> string \<Rightarrow> string result" where
  "stable_identifier value label =
     (case value of
        JString s \<Rightarrow>
          if identifier_text s then Inr s
          else Inl (SceneError (label @ '' must be a stable nonempty identifier''))
      | _ \<Rightarrow> Inl (SceneError (label @ '' must be a stable nonempty identifier'')))"

text \<open>The finite value of a double of a normalised vector.\<close>

fun rat_of :: "json \<Rightarrow> rat" where
  "rat_of (JFloat x) = fp_value (double_value x)"
| "rat_of _ = 0"

subsection \<open>Pose\<close>

fun isqrt :: "nat \<Rightarrow> nat" where
  "isqrt n = (if n = 0 then 0 else let r = 2 * isqrt (n div 4) in if (r + 1) * (r + 1) \<le> n then r + 1 else r)"

declare isqrt.simps [simp del]

text \<open>\<^verbatim>\<open>std::sqrt\<close>: 53 bits of the root, to the nearest.\<close>

definition sqrt_double :: "rat \<Rightarrow> rat" where
  "sqrt_double x =
     (if x \<le> 0 then 0
      else let s = binade x div 2 - 52;
               y = x / 2 powi (2 * s);
               n = int (isqrt (nat \<lfloor>y\<rfloor>));
               m = (if y < (of_int n + 1 / 2) * (of_int n + 1 / 2) then n else n + 1)
           in of_int m * 2 powi s)"

definition sum_squares :: "rat list \<Rightarrow> rat" where
  "sum_squares xs = foldl (\<lambda>squared x. round_double (squared + round_double (x * x))) 0 xs"

definition divide_double :: "double \<Rightarrow> rat \<Rightarrow> double" where
  "divide_double x magnitude =
     (let q = round_double (fp_value (double_value x) / magnitude) in if q = 0 \<and> signbit x then NegZero else Double (Fin q))"

fun divide_json :: "rat \<Rightarrow> json \<Rightarrow> json" where
  "divide_json magnitude (JFloat x) = JFloat (divide_double x magnitude)"
| "divide_json magnitude v = v"

definition pose :: "json \<Rightarrow> json result" where
  "pose value =
     and_then (fields value [''position'', ''orientation''] []) (\<lambda>_.
     and_then (value_or value ''position'' (JArray [JInt 0, JInt 0, JInt 0])) (\<lambda>p.
     and_then (vector p ''position'' 3) (\<lambda>position.
     and_then (value_or value ''orientation'' (JArray [JInt 0, JInt 0, JInt 0, JInt 1])) (\<lambda>q.
     and_then (vector q ''orientation'' 4) (\<lambda>rotation.
       let magnitude = sqrt_double (sum_squares (map rat_of (items_of rotation)))
       in if magnitude < round_double (1 / 10 ^ 12) then Inl (SceneError ''Orientation quaternion must be nonzero'')
          else Inr (JObject [(''position'', position),
                             (''orientation'', JArray (map (divide_json magnitude) (items_of rotation)))]))))))"

subsection \<open>Geometry\<close>

definition convex_index :: "nat \<Rightarrow> json \<Rightarrow> int" where
  "convex_index components index =
     (case index of
        JInt i \<Rightarrow> if round_double (of_int i) < 0 \<or> of_nat components \<le> round_double (of_int i) then - 1 else i
      | JUnsigned n \<Rightarrow> if of_nat components \<le> round_double (of_nat n) then - 1 else int n
      | _ \<Rightarrow> - 1)"

definition convex :: "math \<Rightarrow> json \<Rightarrow> json result" where
  "convex m value =
     and_then (value_or value ''vertices'' JNull) (\<lambda>raw_vertices.
     and_then (value_or value ''triangles'' JNull) (\<lambda>raw_indices.
       if \<not> is_array raw_vertices \<or> length (items_of raw_vertices) < 4 \<or> 4096 < length (items_of raw_vertices)
       then Inl (SceneError ''Convex geometry requires 4 to 4096 vertices'')
       else and_then (traverse (\<lambda>point. vector point ''vertex'' 3) (items_of raw_vertices)) (\<lambda>vertices.
         case validateConvexMesh m vertices (map (convex_index (length vertices)) (items_of raw_indices)) of
           Inl text_of_error \<Rightarrow> Inl (SceneError text_of_error)
         | Inr triangles \<Rightarrow>
             Inr (JObject [(''type'', JString ''convex''), (''vertices'', JArray vertices), (''triangles'', triangles)]))))"

text \<open>\<^verbatim>\<open>std::getline\<close> with a comma, and the part of a declaration before its bracket.\<close>

fun split_fields :: "string \<Rightarrow> string \<Rightarrow> string list" where
  "split_fields current [] = (if current = [] then [] else [current])"
| "split_fields current (c # s) = (if c = CHR '','' then current # split_fields [] s else split_fields (current @ [c]) s)"

definition declared_fields :: "string \<Rightarrow> string list" where
  "declared_fields declarations = map (takeWhile (\<lambda>c. c \<noteq> CHR ''['')) (split_fields [] declarations)"

fun as_scene_error :: "'a result \<Rightarrow> 'a result" where
  "as_scene_error (Inl e) =
     Inl (SceneError (case e of SceneError t \<Rightarrow> t | SystemError t \<Rightarrow> t | InvalidArgument t \<Rightarrow> t | JsonError t \<Rightarrow> t | OtherError t \<Rightarrow> t))"
| "as_scene_error (Inr x) = Inr x"

definition round_shape :: "string \<Rightarrow> json \<Rightarrow> json result" where
  "round_shape kind value =
     (let allowed = (if kind = ''sphere'' then [''type'', ''radius''] else [''type'', ''radius'', ''height''])
      in and_then (fields value allowed allowed) (\<lambda>_.
         and_then (json_at value ''radius'') (\<lambda>r.
         and_then (number r ''radius'' (round_double (1 / 10 ^ 6)) 10000) (\<lambda>radius.
           if kind = ''sphere'' then Inr (JObject [(''type'', JString kind), (''radius'', JFloat radius)])
           else and_then (json_at value ''height'') (\<lambda>h.
                and_then (number h ''height'' (if kind = ''capsule'' then 0 else round_double (1 / 10 ^ 6)) 10000) (\<lambda>height.
                  Inr (JObject [(''type'', JString kind), (''radius'', JFloat radius), (''height'', JFloat height)])))))))"

definition box_shape :: "json \<Rightarrow> json result" where
  "box_shape value =
     and_then (fields value [''type'', ''size''] [''size'']) (\<lambda>_.
     and_then (json_at value ''size'') (\<lambda>s.
     and_then (vector s ''box size'' 3) (\<lambda>size.
       if list_ex (\<lambda>side. rat_of side \<le> 0) (items_of size) then Inl (SceneError ''Box side lengths must be positive'')
       else Inr (JObject [(''type'', JString ''box''), (''size'', size)]))))"

definition ring_shape :: "json \<Rightarrow> json result" where
  "ring_shape value =
     and_then (fields value [''type'', ''radii'', ''tubeRadius''] [''radii'', ''tubeRadius'']) (\<lambda>_.
     and_then (json_at value ''radii'') (\<lambda>r.
     and_then (vector r ''ring radii'' 2) (\<lambda>given.
     and_then (traverse (\<lambda>radius. number radius ''ring radii'' (round_double (1 / 10 ^ 6)) 10000) (items_of given)) (\<lambda>radii.
     and_then (json_at value ''tubeRadius'') (\<lambda>t.
     and_then (number t ''ring tube radius'' (round_double (1 / 10 ^ 6)) 10000) (\<lambda>tube.
       if Min (set (map (\<lambda>x. fp_value (double_value x)) radii)) \<le> fp_value (double_value tube)
       then Inl (SceneError ''Ring tube radius must be smaller than both radii'')
       else Inr (JObject [(''type'', JString ''ring''), (''radii'', JArray (map JFloat radii)), (''tubeRadius'', JFloat tube)])))))))"

definition registered_shape :: "math \<Rightarrow> string \<Rightarrow> json \<Rightarrow> json result" where
  "registered_shape m declarations value =
     as_scene_error (and_then (fields value (''type'' # declared_fields declarations) [''type'']) (\<lambda>_.
       case geometryJson m value of Inl text_of_error \<Rightarrow> Inl (OtherError text_of_error) | Inr shape \<Rightarrow> Inr shape))"

definition geometry :: "math \<Rightarrow> json \<Rightarrow> json result" where
  "geometry m value =
     (if \<not> is_object value then Inl (SceneError ''Geometry must be an object'')
      else and_then (value_or value ''type'' JNull) (\<lambda>kind.
        if kind = JString ''box'' then box_shape value
        else if kind = JString ''sphere'' then round_shape ''sphere'' value
        else if kind = JString ''cylinder'' then round_shape ''cylinder'' value
        else if kind = JString ''capsule'' then round_shape ''capsule'' value
        else if kind = JString ''ring'' then ring_shape value
        else if kind = JString ''convex'' \<and> (case oo_find (entries value) ''triangles'' of
                  Some t \<Rightarrow> \<not> is_array t \<or> items_of t \<noteq> [] | None \<Rightarrow> False)
        then and_then (fields value [''type'', ''vertices'', ''triangles''] [''vertices'', ''triangles'']) (\<lambda>_. convex m value)
        else
          (case (case kind of JString name \<Rightarrow> oo_find (geometryRegistry m) name | _ \<Rightarrow> None) of
             Some declarations \<Rightarrow> registered_shape m declarations value
           | None \<Rightarrow>
               and_then (pythonRepr kind) (\<lambda>shown.
                 Inl (SceneError (''Unsupported geometry '' @ shown @ ''; no shape substitution is performed''))))))"

subsection \<open>Motion\<close>

abbreviation origin :: json where
  "origin \<equiv> JArray [JInt 0, JInt 0, JInt 0]"

definition vector_at :: "json \<Rightarrow> string \<Rightarrow> string \<Rightarrow> json result" where
  "vector_at value key label = and_then (json_at value key) (\<lambda>v. vector v label 3)"

definition vector_or :: "json \<Rightarrow> string \<Rightarrow> json \<Rightarrow> string \<Rightarrow> json result" where
  "vector_or value key fallback label = and_then (value_or value key fallback) (\<lambda>v. vector v label 3)"

definition number_at :: "json \<Rightarrow> string \<Rightarrow> string \<Rightarrow> rat \<Rightarrow> rat \<Rightarrow> double result" where
  "number_at value key label minimum maximum = and_then (json_at value key) (\<lambda>v. number v label minimum maximum)"

definition number_or :: "json \<Rightarrow> string \<Rightarrow> json \<Rightarrow> string \<Rightarrow> rat \<Rightarrow> rat \<Rightarrow> double result" where
  "number_or value key fallback label minimum maximum =
     and_then (value_or value key fallback) (\<lambda>v. number v label minimum maximum)"

definition flag_or :: "json \<Rightarrow> string \<Rightarrow> bool \<Rightarrow> bool result" where
  "flag_or value key fallback =
     (case oo_find (entries value) key of
        None \<Rightarrow> Inr fallback
      | Some (JBool b) \<Rightarrow> Inr b
      | Some _ \<Rightarrow> Inl (SceneError (key @ '' must be a boolean'')))"

definition squared_distance :: "json list \<Rightarrow> json list \<Rightarrow> rat" where
  "squared_distance a b =
     foldl (\<lambda>squared (x, y). let d = round_double (rat_of x - rat_of y) in round_double (squared + round_double (d * d)))
       0 (zip a b)"

definition constant_twist :: "json \<Rightarrow> json result" where
  "constant_twist value =
     and_then (fields value [''type'', ''linear'', ''angular''] []) (\<lambda>_.
     and_then (vector_or value ''linear'' origin ''linear velocity'') (\<lambda>linear.
     and_then (vector_or value ''angular'' origin ''angular velocity'') (\<lambda>angular.
       Inr (JObject [(''type'', JString ''constant_twist''), (''linear'', linear), (''angular'', angular)]))))"

definition ping_pong :: "json \<Rightarrow> json result" where
  "ping_pong value =
     and_then (fields value [''type'', ''point_a'', ''point_b'', ''speed''] [''point_a'', ''point_b'', ''speed'']) (\<lambda>_.
     and_then (vector_at value ''point_a'' ''point A'') (\<lambda>a.
     and_then (vector_at value ''point_b'' ''point B'') (\<lambda>b.
       if squared_distance (items_of a) (items_of b) < round_double (1 / 10 ^ 12)
       then Inl (SceneError ''Ping-pong endpoints must differ'')
       else and_then (number_at value ''speed'' ''speed'' (round_double (1 / 10 ^ 6)) 1000) (\<lambda>speed.
         Inr (JObject [(''type'', JString ''ping_pong''), (''point_a'', a), (''point_b'', b), (''speed'', JFloat speed)])))))"

definition circle :: "json \<Rightarrow> json result" where
  "circle value =
     and_then (fields value [''type'', ''center'', ''radius'', ''angular_speed'', ''phase''] [''center'', ''radius'', ''angular_speed'']) (\<lambda>_.
     and_then (vector_at value ''center'' ''circle center'') (\<lambda>center.
     and_then (number_at value ''radius'' ''circle radius'' (round_double (1 / 10 ^ 6)) 10000) (\<lambda>radius.
     and_then (number_at value ''angular_speed'' ''angular speed'' (- 1000) 1000) (\<lambda>angular_speed.
     and_then (number_or value ''phase'' (JInt 0) ''phase'' (- 1000000) 1000000) (\<lambda>phase.
       Inr (JObject [(''type'', JString ''circle''), (''center'', center), (''radius'', JFloat radius),
                     (''angular_speed'', JFloat angular_speed), (''phase'', JFloat phase)]))))))"

definition waypoints :: "json \<Rightarrow> json result" where
  "waypoints value =
     and_then (fields value [''type'', ''velocity'', ''orientation'', ''angular_velocity'', ''loop'', ''sin'', ''waypoints''] [''waypoints'']) (\<lambda>_.
     and_then (json_at value ''waypoints'') (\<lambda>points.
       if \<not> is_array points \<or> length (items_of points) < 2 \<or> 4096 < length (items_of points)
       then Inl (SceneError ''Waypoints require 2 to 4096 positions'')
       else
         and_then (number_or value ''velocity'' (JFloat (Double (Fin 1))) ''velocity'' (round_double (1 / 10 ^ 6)) 1000) (\<lambda>velocity.
         and_then (flag_or value ''orientation'' True) (\<lambda>orientation.
         and_then (number_or value ''angular_velocity'' (JFloat (Double (Fin (round_double (8 / 10))))) ''angular velocity''
                     (round_double (1 / 10 ^ 6)) 1000) (\<lambda>angular_velocity.
         and_then (flag_or value ''loop'' False) (\<lambda>loop.
         and_then (flag_or value ''sin'' False) (\<lambda>sine.
         and_then (traverse (\<lambda>point. vector point ''waypoint'' 3) (items_of points)) (\<lambda>positions.
           Inr (JObject [(''type'', JString ''waypoints''), (''velocity'', JFloat velocity), (''orientation'', JBool orientation),
                         (''angular_velocity'', JFloat angular_velocity), (''loop'', JBool loop), (''sin'', JBool sine),
                         (''waypoints'', JArray positions)])))))))))"

definition motion :: "json \<Rightarrow> json result" where
  "motion value =
     (if \<not> is_object value then Inl (SceneError ''Motion must be an object'')
      else and_then (value_or value ''type'' (JString ''hold'')) (\<lambda>kind.
        if kind = JString ''hold''
        then and_then (fields value [''type''] []) (\<lambda>_. Inr (JObject [(''type'', JString ''hold'')]))
        else if kind = JString ''constant_twist'' then constant_twist value
        else if kind = JString ''ping_pong'' then ping_pong value
        else if kind = JString ''circle'' then circle value
        else if kind = JString ''waypoints'' then waypoints value
        else and_then (pythonRepr kind) (\<lambda>shown. Inl (SceneError (''Unsupported motion '' @ shown)))))"

text \<open>\<^verbatim>\<open>placement_json.hpp\<close>: from a normalised value to the values of the geometry library. A normalised
  motion always names its type by a text.\<close>

definition toVector :: "json \<Rightarrow> rat list" where
  "toVector value = map rat_of (items_of value)"

definition toMotion :: "json \<Rightarrow> native_motion result" where
  "toMotion value =
     and_then (json_at value ''type'') (\<lambda>kind.
       if kind = JString ''hold'' then Inr Hold
       else if kind = JString ''constant_twist''
       then and_then (json_at value ''linear'') (\<lambda>l. and_then (json_at value ''angular'') (\<lambda>a.
              Inr (ConstantTwist (toVector l) (toVector a))))
       else if kind = JString ''ping_pong''
       then and_then (json_at value ''point_a'') (\<lambda>a. and_then (json_at value ''point_b'') (\<lambda>b.
              and_then (json_at value ''speed'') (\<lambda>s. Inr (PingPong (toVector a) (toVector b) (rat_of s)))))
       else if kind = JString ''circle''
       then and_then (json_at value ''center'') (\<lambda>c. and_then (json_at value ''radius'') (\<lambda>r.
              and_then (json_at value ''angular_speed'') (\<lambda>w. and_then (json_at value ''phase'') (\<lambda>p.
                Inr (Circle (toVector c) (rat_of r) (rat_of w) (rat_of p))))))
       else Inl (SceneError (''Unsupported native motion: '' @ (case kind of JString s \<Rightarrow> s | _ \<Rightarrow> []))))"

subsection \<open>Obstacles and models\<close>

definition amber :: json where
  "amber = JArray [JFloat (Double (Fin 1)), JFloat (Double (Fin (1 / 2))), JFloat (Double (Fin (round_double (1 / 10)))), JFloat (Double (Fin 1))]"

definition check_color :: "json \<Rightarrow> unit result" where
  "check_color part =
     (case oo_find (entries part) ''color'' of
        None \<Rightarrow> Inr ()
      | Some c \<Rightarrow>
          and_then (vector c ''color'' 4) (\<lambda>color.
            require (list_all (\<lambda>channel. 0 \<le> rat_of channel \<and> rat_of channel \<le> 1) (items_of color))
              ''Color channels must be between 0 and 1''))"

fun normalize_part_list :: "math \<Rightarrow> string list \<Rightarrow> json list \<Rightarrow> json list result" where
  "normalize_part_list m ids [] = Inr []"
| "normalize_part_list m ids (part # parts) =
     and_then (fields part [''id'', ''pose'', ''geometry'', ''color''] [''id'', ''geometry'']) (\<lambda>_.
     and_then (json_at part ''id'') (\<lambda>i.
     and_then (stable_identifier i ''Part ID'') (\<lambda>pid.
     and_then (require (pid \<notin> set ids) (''Duplicate part ID '' @ pid)) (\<lambda>_.
     and_then (check_color part) (\<lambda>_.
     and_then (value_or part ''pose'' (JObject [])) (\<lambda>p.
     and_then (pose p) (\<lambda>placed.
     and_then (json_at part ''geometry'') (\<lambda>g.
     and_then (geometry m g) (\<lambda>shape.
     and_then (normalize_part_list m (pid # ids) parts) (\<lambda>rest.
       Inr (JObject [(''id'', JString pid), (''pose'', placed), (''geometry'', shape), (''color'', amber)] # rest)))))))))))"

definition normalizeParts :: "math \<Rightarrow> json \<Rightarrow> json result" where
  "normalizeParts m parts =
     (if \<not> is_array parts \<or> items_of parts = [] \<or> 128 < length (items_of parts)
      then Inl (SceneError ''Obstacle requires 1 to 128 parts'')
      else and_then (normalize_part_list m [] (items_of parts)) (\<lambda>normalized. Inr (JArray normalized)))"

text \<open>The segments of a relative file name: the loop of \<^verbatim>\<open>resourceRef\<close>.\<close>

fun split_path :: "string \<Rightarrow> string \<Rightarrow> string list" where
  "split_path current [] = [current]"
| "split_path current (c # s) = (if c = CHR ''/'' then current # split_path [] s else split_path (current @ [c]) s)"

definition asset_relative :: "string \<Rightarrow> bool" where
  "asset_relative file \<longleftrightarrow>
     file \<noteq> [] \<and> hd file \<noteq> CHR ''/'' \<and> CHR 0x5C \<notin> set file \<and> CHR 0x00 \<notin> set file
     \<and> list_all (\<lambda>segment. segment \<noteq> [] \<and> segment \<noteq> ''.'' \<and> segment \<noteq> ''..'') (split_path [] file)"

definition resourceRef :: "json \<Rightarrow> json result" where
  "resourceRef value =
     and_then (fields value [''format'', ''file''] [''format'', ''file'']) (\<lambda>_.
     and_then (json_at value ''format'') (\<lambda>format.
     and_then (require (format = JString ''sdformat-model'' \<or> format = JString ''gltf'' \<or> format = JString ''mesh'')
                 ''Model resource format must be sdformat-model, gltf, or mesh'') (\<lambda>_.
     and_then (json_at value ''file'') (\<lambda>f.
       case f of
         JString file \<Rightarrow>
           if asset_relative file then Inr (JObject [(''format'', format), (''file'', f)])
           else Inl (SceneError ''Model resource file must be asset-relative'')
       | _ \<Rightarrow> Inl (SceneError ''Model resource file must be asset-relative'')))))"

definition check_name :: "json \<Rightarrow> unit result" where
  "check_name name =
     (case name of
        JString s \<Rightarrow>
          and_then (utf8Characters s) (\<lambda>characters.
            require (length characters \<le> 256 \<and> \<not> list_all (\<lambda>c. pythonWhitespace (codepoint c)) characters)
              ''Obstacle name must have 1 to 256 characters'')
      | _ \<Rightarrow> Inl (SceneError ''Obstacle name must have 1 to 256 characters''))"

definition check_start :: "math \<Rightarrow> json \<Rightarrow> json \<Rightarrow> unit result" where
  "check_start m initial movement =
     and_then (json_at movement ''type'') (\<lambda>kind.
       if kind = JString ''waypoints'' then Inr ()
       else and_then (json_at initial ''position'') (\<lambda>position.
            and_then (toMotion movement) (\<lambda>native.
              require (list_all2 (\<lambda>start at_pose. \<bar>round_double (start - at_pose)\<bar> \<le> round_double (1 / 10 ^ 6))
                         (motionStart m (toVector position) native) (toVector position))
                ''Initial obstacle position must match its motion path start'')))"

definition obstacle :: "math \<Rightarrow> json \<Rightarrow> json result" where
  "obstacle m value =
     and_then (fields value [''id'', ''name'', ''pose'', ''parts'', ''motion'', ''model''] [''id'']) (\<lambda>_.
     and_then (json_at value ''id'') (\<lambda>i.
     and_then (stable_identifier i ''Obstacle ID'') (\<lambda>oid.
     and_then (require (oid \<noteq> ''ground_plane'') ''ground_plane is owned by ground, not an obstacle'') (\<lambda>_.
     and_then (value_or value ''name'' (JString oid)) (\<lambda>name.
     and_then (check_name name) (\<lambda>_.
     and_then (require (contains value ''parts'' \<noteq> contains value ''model'') ''Obstacle requires parts or one model'') (\<lambda>_.
     and_then (value_or value ''pose'' (JObject [])) (\<lambda>p.
     and_then (pose p) (\<lambda>initial.
     and_then (value_or value ''motion'' (JObject [(''type'', JString ''hold'')])) (\<lambda>mo.
     and_then (motion mo) (\<lambda>movement.
     and_then (check_start m initial movement) (\<lambda>_.
     and_then (if contains value ''model''
               then and_then (json_at value ''model'') (\<lambda>d. and_then (stable_identifier d ''Model ID'') (\<lambda>s.
                      Inr (''model'', JString s)))
               else and_then (json_at value ''parts'') (\<lambda>d. and_then (normalizeParts m d) (\<lambda>parts.
                      Inr (''parts'', parts)))) (\<lambda>body.
       Inr (JObject [(''id'', JString oid), (''name'', name), (''pose'', initial), body, (''motion'', movement)]))))))))))))))"

fun model_entries :: "math \<Rightarrow> (string \<times> json) list \<Rightarrow> (string \<times> json) list \<Rightarrow> (string \<times> json) list result" where
  "model_entries m made [] = Inr made"
| "model_entries m made ((key, value) # rest) =
     and_then (stable_identifier (JString key) ''Model ID'') (\<lambda>name.
     and_then (fields value [''parts'', ''resource''] []) (\<lambda>_.
     and_then (require (contains value ''parts'' \<noteq> contains value ''resource'') ''Model requires parts or one resource'') (\<lambda>_.
     and_then (if contains value ''resource''
               then and_then (json_at value ''resource'') (\<lambda>r. and_then (resourceRef r) (\<lambda>x. Inr (JObject [(''resource'', x)])))
               else and_then (json_at value ''parts'') (\<lambda>r. and_then (normalizeParts m r) (\<lambda>x. Inr (JObject [(''parts'', x)])))) (\<lambda>entry.
       model_entries m (oo_set name entry made) rest))))"

definition models :: "math \<Rightarrow> json \<Rightarrow> json result" where
  "models m value =
     (case value of
        JObject entries_of \<Rightarrow> and_then (model_entries m [] entries_of) (\<lambda>made. Inr (JObject made))
      | _ \<Rightarrow> Inl (SceneError ''Models must be an object''))"

subsection \<open>The document\<close>

definition ground :: "json \<Rightarrow> json result" where
  "ground value =
     (if \<not> is_object value \<or> \<not> contains value ''mode'' then Inl (SceneError ''Ground requires a mode'')
      else and_then (json_at value ''mode'') (\<lambda>mode.
        if mode = JString ''default_plane''
        then and_then (fields value [''mode'', ''z''] [''mode'']) (\<lambda>_.
             and_then (number_or value ''z'' (JFloat (Double (Fin 0))) ''ground z'' (- 1000000) 1000000) (\<lambda>z.
               Inr (JObject [(''mode'', mode), (''z'', JFloat z)])))
        else if mode = JString ''none''
        then and_then (fields value [''mode''] [''mode'']) (\<lambda>_. Inr (JObject [(''mode'', mode)]))
        else if mode = JString ''model''
        then and_then (fields value [''mode'', ''model'', ''pose''] [''mode'', ''model'', ''pose'']) (\<lambda>_.
             and_then (json_at value ''model'') (\<lambda>d.
             and_then (stable_identifier d ''Model ID'') (\<lambda>name.
             and_then (json_at value ''pose'') (\<lambda>p.
             and_then (pose p) (\<lambda>placed.
               Inr (JObject [(''mode'', mode), (''model'', JString name), (''pose'', placed)]))))))
        else Inl (SceneError ''Ground mode must be default_plane, model, or none'')))"

fun string_at :: "json \<Rightarrow> string \<Rightarrow> string result" where
  "string_at value key =
     and_then (json_at value key) (\<lambda>v. case v of JString s \<Rightarrow> Inr s | _ \<Rightarrow> Inl (JsonError ''type must be string''))"

definition part_total :: "json list \<Rightarrow> nat" where
  "part_total obstacles =
     sum_list (map (\<lambda>item. case oo_find (entries item) ''parts'' of Some p \<Rightarrow> length (items_of p) | None \<Rightarrow> 0) obstacles)"

definition checkObstacleSet :: "json list \<Rightarrow> unit result" where
  "checkObstacleSet obstacles =
     (if 512 < length obstacles then Inl (SceneError ''Scene supports at most 512 obstacles'')
      else and_then (traverse (\<lambda>item. string_at item ''id'') obstacles) (\<lambda>ids.
        if card (set ids) \<noteq> length obstacles then Inl (SceneError ''Duplicate obstacle ID'')
        else require (part_total obstacles \<le> 4096) ''Scene supports at most 4096 convex parts''))"

text \<open>\<^verbatim>\<open>[A-Za-z_][A-Za-z0-9_]*(/[A-Za-z_][A-Za-z0-9_]*)*\<close>\<close>

definition frame_segment :: "string \<Rightarrow> bool" where
  "frame_segment s =
     (case s of [] \<Rightarrow> False
      | c # cs \<Rightarrow> (alnum c \<and> \<not> digit c \<or> c = CHR ''_'') \<and> list_all (\<lambda>d. alnum d \<or> d = CHR ''_'') cs)"

definition frame_text :: "json \<Rightarrow> bool" where
  "frame_text frame =
     (case frame of JString s \<Rightarrow> length s \<le> 160 \<and> list_all frame_segment (split_path [] s) | _ \<Rightarrow> False)"

definition models_defined :: "json \<Rightarrow> json list \<Rightarrow> unit result" where
  "models_defined defined obstacles =
     and_then (traverse (\<lambda>item.
         if contains item ''model''
         then and_then (string_at item ''model'') (\<lambda>s. require (contains defined s) ''Obstacle model is not defined'')
         else Inr ()) obstacles) (\<lambda>_. Inr ())"

definition with_ground :: "json \<Rightarrow> json \<Rightarrow> json result" where
  "with_ground value result =
     (case oo_find (entries value) ''ground'' of
        None \<Rightarrow> Inr result
      | Some g \<Rightarrow>
          and_then (ground g) (\<lambda>owned.
          and_then (json_at owned ''mode'') (\<lambda>mode.
          and_then (if mode = JString ''model''
                    then and_then (string_at owned ''model'') (\<lambda>s.
                         and_then (value_or result ''models'' (JObject [])) (\<lambda>defined.
                           require (contains defined s) ''Ground model is not defined''))
                    else Inr ()) (\<lambda>_.
            Inr (put ''ground'' owned result)))))"

definition document :: "math \<Rightarrow> json \<Rightarrow> json result" where
  "document m value =
     and_then (fields value [''schema'', ''id'', ''frame'', ''obstacles'', ''models'', ''ground''] [''schema'', ''id'', ''frame'', ''obstacles'']) (\<lambda>_.
     and_then (json_at value ''schema'') (\<lambda>schema.
     and_then (require (schema = JString ''xgc2.scene.v1'') ''Unsupported scene schema'') (\<lambda>_.
     and_then (json_at value ''id'') (\<lambda>i.
     and_then (stable_identifier i ''Scene ID'') (\<lambda>_.
     and_then (json_at value ''frame'') (\<lambda>frame.
     and_then (require (frame_text frame) ''Scene frame must be explicit and have no leading slash'') (\<lambda>_.
     and_then (json_at value ''obstacles'') (\<lambda>items.
     and_then (require (is_array items \<and> length (items_of items) \<le> 512) ''Scene supports at most 512 obstacles'') (\<lambda>_.
     and_then (traverse (obstacle m) (items_of items)) (\<lambda>obstacles.
     and_then (checkObstacleSet obstacles) (\<lambda>_.
     and_then (case oo_find (entries value) ''models'' of Some d \<Rightarrow> models m d | None \<Rightarrow> Inr (JObject [])) (\<lambda>defined.
     and_then (models_defined defined obstacles) (\<lambda>_.
       let base = JObject [(''schema'', JString ''xgc2.scene.v1''), (''id'', i), (''frame'', frame), (''obstacles'', JArray obstacles)]
       in with_ground value (if contains value ''models'' then put ''models'' defined base else base))))))))))))))"

subsection \<open>What an accepted document is\<close>

definition obstacle_ok :: "json \<Rightarrow> bool" where
  "obstacle_ok ob \<longleftrightarrow>
     (case obstacle_id ob of Some s \<Rightarrow> identifier_text s \<and> s \<noteq> ''ground_plane'' | None \<Rightarrow> False)
     \<and> contains ob ''parts'' \<noteq> contains ob ''model''
     \<and> (case oo_find (entries ob) ''parts'' of
          Some p \<Rightarrow> is_array p \<and> 1 \<le> length (items_of p) \<and> length (items_of p) \<le> 128
        | None \<Rightarrow> True)"

definition obstacles_ok :: "json list \<Rightarrow> bool" where
  "obstacles_ok os \<longleftrightarrow> list_all obstacle_ok os \<and> length os \<le> 512 \<and> identified os \<and> part_total os \<le> 4096"

definition document_ok :: "json \<Rightarrow> bool" where
  "document_ok d \<longleftrightarrow>
     is_object d \<and> oo_ok (entries d)
     \<and> (case oo_find (entries d) ''obstacles'' of Some (JArray os) \<Rightarrow> obstacles_ok os | _ \<Rightarrow> False)"

definition obstacle_list :: "json \<Rightarrow> json list" where
  "obstacle_list d = (case oo_find (entries d) ''obstacles'' of Some os \<Rightarrow> items_of os | None \<Rightarrow> [])"

definition model_of :: "json \<Rightarrow> string option" where
  "model_of ob = (case oo_find (entries ob) ''model'' of Some (JString s) \<Rightarrow> Some s | _ \<Rightarrow> None)"

definition defined_models :: "json \<Rightarrow> json" where
  "defined_models d = (case oo_find (entries d) ''models'' of Some x \<Rightarrow> x | None \<Rightarrow> JObject [])"

lemma identifier_Inr: "stable_identifier v label = Inr s \<longleftrightarrow> v = JString s \<and> identifier_text s"
  by (cases v) (auto simp: stable_identifier_def)

lemma normalize_part_list_length: "normalize_part_list m ids ps = Inr qs \<Longrightarrow> length qs = length ps"
  by (induction ps arbitrary: ids qs) auto

lemma normalizeParts_shape:
  assumes "normalizeParts m v = Inr p"
  shows "is_array p" "1 \<le> length (items_of p)" "length (items_of p) \<le> 128"
  using assms normalize_part_list_length [of m "[]" "items_of v"]
  by (auto simp: normalizeParts_def Suc_le_eq split: if_splits)

lemma obstacle_shape:
  assumes "obstacle m v = Inr ob"
  obtains oid name initial body movement
  where "ob = JObject [(''id'', JString oid), (''name'', name), (''pose'', initial), body, (''motion'', movement)]"
    and "identifier_text oid" "oid \<noteq> ''ground_plane''"
    and "(\<exists>s. body = (''model'', JString s)) \<or> (\<exists>p q. body = (''parts'', p) \<and> normalizeParts m q = Inr p)"
    and "\<exists>p. pose p = Inr initial" "\<exists>p. motion p = Inr movement" "check_name name = Inr ()"
  using assms that by (auto simp: obstacle_def identifier_Inr split: if_splits) blast+

lemma obstacle_Inr_ok:
  assumes "obstacle m v = Inr ob"
  shows "obstacle_ok ob"
  using assms
proof (rule obstacle_shape)
  fix oid name initial body movement
  assume ob: "ob = JObject [(''id'', JString oid), (''name'', name), (''pose'', initial), body, (''motion'', movement)]"
    and oid: "identifier_text oid" "oid \<noteq> ''ground_plane''"
    and body: "(\<exists>s. body = (''model'', JString s)) \<or> (\<exists>p q. body = (''parts'', p) \<and> normalizeParts m q = Inr p)"
  from body show "obstacle_ok ob"
  proof (elim disjE exE conjE)
    fix s
    assume "body = (''model'', JString s)"
    then show ?thesis using oid by (simp add: ob obstacle_ok_def contains_def oo_find_map_of)
  next
    fix p q
    assume "body = (''parts'', p)" "normalizeParts m q = Inr p"
    then show ?thesis
      using oid normalizeParts_shape [of m q p] by (simp add: ob obstacle_ok_def contains_def oo_find_map_of)
  qed
qed

lemma string_at_obstacle: "obstacle_id ob = Some s \<Longrightarrow> string_at ob ''id'' = Inr s"
  by (cases ob) (auto simp: json_at_def split: option.splits json.splits)

lemma traverse_ids:
  assumes "list_all obstacle_ok os"
  shows "\<exists>ids. traverse (\<lambda>item. string_at item ''id'') os = Inr ids \<and> map Some ids = map obstacle_id os"
  using assms
proof (induction os)
  case (Cons ob os)
  then obtain s where "obstacle_id ob = Some s"
    by (cases "obstacle_id ob") (auto simp: obstacle_ok_def)
  then show ?case
    using Cons string_at_obstacle [of ob s] by (auto simp del: string_at.simps)
qed simp

lemma checkObstacleSet_iff:
  assumes "list_all obstacle_ok os"
  shows "checkObstacleSet os = Inr u \<longleftrightarrow> obstacles_ok os"
proof -
  obtain ids where ids: "traverse (\<lambda>item. string_at item ''id'') os = Inr ids" "map Some ids = map obstacle_id os"
    using traverse_ids [OF assms] by blast
  have "length ids = length os"
    using arg_cong [OF ids(2), of length] by simp
  then have "card (set ids) = length os \<longleftrightarrow> distinct ids"
    by (metis card_distinct distinct_card)
  also have "distinct ids \<longleftrightarrow> distinct (map obstacle_id os)"
    unfolding ids(2) [symmetric] by (simp add: distinct_map)
  finally have "card (set ids) = length os \<longleftrightarrow> distinct (map obstacle_id os)" .
  moreover have "None \<notin> set (map obstacle_id os)"
    unfolding ids(2) [symmetric] by auto
  ultimately show ?thesis
    using assms ids(1) by (auto simp: checkObstacleSet_def obstacles_ok_def identified_def simp del: string_at.simps)
qed

lemma traverse_obstacles: "traverse (obstacle m) xs = Inr os \<Longrightarrow> list_all obstacle_ok os"
  by (induction xs arbitrary: os) (auto dest: obstacle_Inr_ok)

lemma models_defined_iff:
  "models_defined defined os = Inr u \<Longrightarrow> ob \<in> set os \<Longrightarrow> model_of ob = Some s \<Longrightarrow> contains defined s"
  by (induction os)
     (auto simp: models_defined_def model_of_def contains_def json_at_def split: option.splits json.splits if_splits)

lemma with_ground_cases:
  assumes "with_ground v r = Inr d"
  obtains "d = r" | g where "d = put ''ground'' g r"
  using assms by (auto simp: with_ground_def split: option.splits)


lemma document_Inr:
  assumes "document m v = Inr d"
  obtains i frame os defined r where
    "list_all obstacle_ok os" "checkObstacleSet os = Inr ()" "models_defined defined os = Inr ()"
    "r = [(''schema'', JString ''xgc2.scene.v1''), (''id'', i), (''frame'', frame), (''obstacles'', JArray os)]
         @ (if contains v ''models'' then [(''models'', defined)] else [])"
    "\<not> contains v ''models'' \<Longrightarrow> defined = JObject []"
    "with_ground v (JObject r) = Inr d"
    "contains v ''models'' \<Longrightarrow> \<exists>x. models m x = Inr defined"
    "\<exists>xs. traverse (obstacle m) xs = Inr os" "\<exists>s. i = JString s" "\<exists>s. frame = JString s"
proof -
  from assms obtain i frame os defined items
    where "traverse (obstacle m) (items_of items) = Inr os" "checkObstacleSet os = Inr ()"
      and defined: "(case oo_find (entries v) ''models'' of Some d \<Rightarrow> models m d | None \<Rightarrow> Inr (JObject [])) = Inr defined"
      and "models_defined defined os = Inr ()"
      and "\<exists>s. stable_identifier i ''Scene ID'' = Inr s" "frame_text frame"
      and result: "with_ground v (let base = JObject [(''schema'', JString ''xgc2.scene.v1''), (''id'', i), (''frame'', frame), (''obstacles'', JArray os)]
        in if contains v ''models'' then put ''models'' defined base else base) = Inr d"
    by (auto simp: document_def Let_def) blast
  moreover have "with_ground v (JObject ([(''schema'', JString ''xgc2.scene.v1''), (''id'', i), (''frame'', frame), (''obstacles'', JArray os)]
         @ (if contains v ''models'' then [(''models'', defined)] else []))) = Inr d"
    using result by (simp add: oo_set_def oo_emplace_def oo_find_map_of Let_def split: if_splits)
  moreover have "\<not> contains v ''models'' \<Longrightarrow> defined = JObject []" "contains v ''models'' \<Longrightarrow> \<exists>x. models m x = Inr defined"
    using defined by (auto simp: contains_def split: option.splits)
  moreover have "\<exists>s. i = JString s" "\<exists>s. frame = JString s"
    using calculation(5,6) by (auto simp: identifier_Inr frame_text_def split: json.splits)
  ultimately show thesis
    using that traverse_obstacles by blast
qed

lemma document_accepted:
  assumes "document m v = Inr d"
  shows "document_ok d \<and> (\<forall>ob \<in> set (obstacle_list d). \<forall>s. model_of ob = Some s \<longrightarrow> contains (defined_models d) s)"
  using assms
proof (rule document_Inr)
  fix i frame os defined r
  assume os: "list_all obstacle_ok os" "checkObstacleSet os = Inr ()" "models_defined defined os = Inr ()"
    and r: "r = [(''schema'', JString ''xgc2.scene.v1''), (''id'', i), (''frame'', frame), (''obstacles'', JArray os)]
         @ (if contains v ''models'' then [(''models'', defined)] else [])"
    and none: "\<not> contains v ''models'' \<Longrightarrow> defined = JObject []"
    and d: "with_ground v (JObject r) = Inr d"
  have r_ok: "oo_ok r" and found: "oo_find r ''obstacles'' = Some (JArray os)"
    and models: "oo_find r ''models'' = (if contains v ''models'' then Some defined else None)"
    by (simp_all add: r oo_ok_def oo_find_map_of)
  obtain e where e: "d = JObject e" "oo_ok e" "oo_find e ''obstacles'' = Some (JArray os)"
    "oo_find e ''models'' = (if contains v ''models'' then Some defined else None)"
    using d
  proof (rule with_ground_cases)
    assume "d = JObject r"
    then show thesis using that r_ok found models by blast
  next
    fix g
    assume "d = put ''ground'' g (JObject r)"
    then show thesis
      using that [of "oo_set ''ground'' g r"] oobj.ok_set [OF r_ok] found models by (simp add: oo_find_set)
  qed
  have "document_ok d"
    using e os checkObstacleSet_iff [OF os(1)] by (simp add: document_ok_def)
  moreover have "contains (defined_models d) s" if "ob \<in> set (obstacle_list d)" "model_of ob = Some s" for ob s
    using that e none models_defined_iff [OF os(3), of ob s] by (auto simp: obstacle_list_def defined_models_def split: if_splits)
  ultimately show ?thesis by blast
qed


subsection \<open>Keys of a normalised document\<close>

text \<open>What the geometry library builds has objects with distinct keys.\<close>

definition math_ok :: "math \<Rightarrow> bool" where
  "math_ok m \<longleftrightarrow>
     (\<forall>vs is t. validateConvexMesh m vs is = Inr t \<longrightarrow> keys_ok t) \<and> (\<forall>v s. geometryJson m v = Inr s \<longrightarrow> keys_ok s)"

lemma case_Inl_Inr [simp]:
  "(case x of Inl e \<Rightarrow> Inl (f e) | Inr y \<Rightarrow> Inr (g y)) = Inr z \<longleftrightarrow> (\<exists>y. x = Inr y \<and> z = g y)"
  by (cases x) auto

named_theorems normal_keys \<open>normalised values have distinct keys\<close>

lemma keys_ok_floats [simp]: "list_all keys_ok (map JFloat xs)"
  by (simp add: list_all_iff)

lemma vector_keys [normal_keys]: "vector v label n = Inr r \<Longrightarrow> keys_ok r"
  by (auto simp: vector_def split: json.splits if_splits)

lemma vectors_keys [normal_keys]: "traverse (\<lambda>p. vector p label n) ps = Inr rs \<Longrightarrow> list_all keys_ok rs"
  by (induction ps arbitrary: rs) (auto dest: vector_keys)

lemma pose_keys [normal_keys]: "pose v = Inr r \<Longrightarrow> keys_ok r"
proof -
  have "list_all keys_ok (map (divide_json n) (items_of q))" if "vector p label k = Inr q" for n p label k q
    using that by (auto simp: vector_def list_all_iff split: json.splits if_splits)
  then show "pose v = Inr r \<Longrightarrow> keys_ok r"
    by (auto simp: pose_def Let_def oo_ok_def vector_keys split: if_splits)
qed

lemma geometry_cases:
  assumes "geometry m v = Inr r"
  shows "box_shape v = Inr r \<or> (\<exists>kind. round_shape kind v = Inr r) \<or> ring_shape v = Inr r \<or> convex m v = Inr r
    \<or> (\<exists>ds. registered_shape m ds v = Inr r)"
  using assms unfolding geometry_def
  by (simp split: if_splits option.split_asm) blast+

lemma geometry_keys [normal_keys]:
  assumes "math_ok m" "geometry m v = Inr r"
  shows "keys_ok r"
proof -
  have convex: "convex m v = Inr r \<Longrightarrow> keys_ok r"
    using assms(1) by (auto simp: convex_def math_ok_def oo_ok_def vectors_keys split: if_splits)
  have box: "box_shape v = Inr r \<Longrightarrow> keys_ok r"
    by (auto simp: box_shape_def oo_ok_def vector_keys split: if_splits)
  have ring: "ring_shape v = Inr r \<Longrightarrow> keys_ok r"
    by (auto simp: ring_shape_def oo_ok_def split: if_splits)
  have round: "round_shape kind v = Inr r \<Longrightarrow> keys_ok r" for kind
    by (auto simp: round_shape_def oo_ok_def Let_def split: if_splits)
  have scene: "as_scene_error x = Inr y \<longleftrightarrow> x = Inr y" for x and y :: json
    by (cases x) auto
  have registered: "registered_shape m ds v = Inr r \<Longrightarrow> keys_ok r" for ds
    using assms(1) by (auto simp: registered_shape_def scene math_ok_def)
  from geometry_cases [OF assms(2)] show ?thesis
    by (elim disjE exE) (use convex box ring round registered in blast)+
qed

lemma motion_keys [normal_keys]: "motion v = Inr r \<Longrightarrow> keys_ok r"
  by (auto simp: motion_def constant_twist_def ping_pong_def circle_def waypoints_def vector_or_def vector_at_def oo_ok_def
      vector_keys vectors_keys split: if_splits)


lemma part_list_keys: "math_ok m \<Longrightarrow> normalize_part_list m ids ps = Inr qs \<Longrightarrow> list_all keys_ok qs"
  by (induction ps arbitrary: ids qs) (auto simp: oo_ok_def amber_def pose_keys geometry_keys)

lemma parts_keys [normal_keys]: "math_ok m \<Longrightarrow> normalizeParts m v = Inr p \<Longrightarrow> keys_ok p"
  by (auto simp: normalizeParts_def part_list_keys split: if_splits)

lemma resourceRef_Inr:
  assumes "resourceRef v = Inr r"
  shows "\<exists>format file. r = JObject [(''format'', JString format), (''file'', JString file)] \<and> asset_relative file
    \<and> json_at v ''file'' = Inr (JString file)"
proof -
  obtain format f where format: "format = JString ''sdformat-model'' \<or> format = JString ''gltf'' \<or> format = JString ''mesh''"
    and f: "json_at v ''file'' = Inr f"
    and r: "(case f of JString file \<Rightarrow> if asset_relative file then Inr (JObject [(''format'', format), (''file'', f)])
        else Inl (SceneError ''Model resource file must be asset-relative'')
      | _ \<Rightarrow> Inl (SceneError ''Model resource file must be asset-relative'')) = Inr r"
    using assms unfolding resourceRef_def and_then_Inr_iff require_Inr_iff by blast
  then show ?thesis
    by (cases f) (auto split: if_splits)
qed

lemma resource_keys [normal_keys]: "resourceRef v = Inr r \<Longrightarrow> keys_ok r"
  by (auto dest!: resourceRef_Inr simp: oo_ok_def)

lemma obstacle_keys [normal_keys]:
  assumes "math_ok m" "obstacle m v = Inr ob"
  shows "keys_ok ob"
  using assms(2)
proof (rule obstacle_shape)
  fix oid name initial body movement
  assume ob: "ob = JObject [(''id'', JString oid), (''name'', name), (''pose'', initial), body, (''motion'', movement)]"
    and body: "(\<exists>s. body = (''model'', JString s)) \<or> (\<exists>p q. body = (''parts'', p) \<and> normalizeParts m q = Inr p)"
    and parts: "\<exists>p. pose p = Inr initial" "\<exists>p. motion p = Inr movement" "check_name name = Inr ()"
  have "keys_ok initial" "keys_ok movement"
    using parts(1,2) by (auto simp: pose_keys motion_keys)
  moreover have "keys_ok name"
    using parts(3) by (cases name) (auto simp: check_name_def)
  moreover have "keys_ok (snd body) \<and> (fst body = ''model'' \<or> fst body = ''parts'')"
    using body assms(1) by (auto simp: parts_keys)
  ultimately show "keys_ok ob"
    by (auto simp: ob oo_ok_def)
qed

lemma obstacle_list_keys: "math_ok m \<Longrightarrow> traverse (obstacle m) xs = Inr os \<Longrightarrow> list_all keys_ok os"
  by (induction xs arbitrary: os) (auto simp: obstacle_keys)

lemma keys_ok_set:
  assumes "oo_ok m" "list_all (\<lambda>item. keys_ok (snd item)) m" "keys_ok v"
  shows "oo_ok (oo_set k v m) \<and> list_all (\<lambda>item. keys_ok (snd item)) (oo_set k v m)"
proof -
  have "list_all (\<lambda>item. keys_ok (snd item)) (oo_put k v n)" if "list_all (\<lambda>item. keys_ok (snd item)) n" for n
    using that assms(3) by (induction n) auto
  then show ?thesis
    using assms oobj.ok_set [OF assms(1)] by (simp add: oo_set_def oo_emplace_def split: option.split)
qed

lemma model_entries_keys:
  assumes "math_ok m" "model_entries m made xs = Inr r" "oo_ok made" "list_all (\<lambda>item. keys_ok (snd item)) made"
  shows "oo_ok r \<and> list_all (\<lambda>item. keys_ok (snd item)) r"
  using assms(2-)
proof (induction xs arbitrary: made)
  case (Cons x xs)
  obtain key v where x: "x = (key, v)" by fastforce
  obtain name entry where rest: "model_entries m (oo_set name entry made) xs = Inr r" and entry: "keys_ok entry"
    using Cons.prems(1) assms(1) by (auto simp: x oo_ok_def resource_keys parts_keys split: if_splits)
  show ?case
    using Cons.IH [OF rest] keys_ok_set [OF Cons.prems(2,3) entry] by blast
qed simp

lemma models_keys [normal_keys]: "math_ok m \<Longrightarrow> models m v = Inr r \<Longrightarrow> keys_ok r"
  by (cases v) (auto simp: models_def oo_ok_def dest: model_entries_keys)

lemma ground_keys [normal_keys]: "ground v = Inr r \<Longrightarrow> keys_ok r"
  by (auto simp: ground_def oo_ok_def pose_keys split: if_splits)


lemma document_keys:
  assumes "math_ok m" "document m v = Inr d"
  shows "keys_ok d"
  using assms(2)
proof (rule document_Inr)
  fix i frame os defined r
  assume r: "r = [(''schema'', JString ''xgc2.scene.v1''), (''id'', i), (''frame'', frame), (''obstacles'', JArray os)]
         @ (if contains v ''models'' then [(''models'', defined)] else [])"
    and d: "with_ground v (JObject r) = Inr d"
    and models: "contains v ''models'' \<Longrightarrow> \<exists>x. models m x = Inr defined"
    and os: "\<exists>xs. traverse (obstacle m) xs = Inr os"
    and texts: "\<exists>s. i = JString s" "\<exists>s. frame = JString s"
  have r_ok: "oo_ok r" "list_all (\<lambda>item. keys_ok (snd item)) r"
    using models os texts assms(1) by (auto simp: r oo_ok_def obstacle_list_keys models_keys)
  from d show "keys_ok d"
    using keys_ok_set [OF r_ok] r_ok
    by (auto simp: with_ground_def ground_keys split: option.splits)
qed

subsection \<open>Resources stay below the asset root\<close>

text \<open>Lexical resolution of a relative path below a directory, both as lists of segments.\<close>

fun resolve_path :: "string list \<Rightarrow> string list \<Rightarrow> string list" where
  "resolve_path base [] = base"
| "resolve_path base (s # rest) =
     (if s = [] \<or> s = ''.'' then resolve_path base rest
      else if s = ''..'' then resolve_path (butlast base) rest
      else resolve_path (base @ [s]) rest)"

lemma resolve_plain:
  "list_all (\<lambda>s. s \<noteq> [] \<and> s \<noteq> ''.'' \<and> s \<noteq> ''..'') segments \<Longrightarrow> resolve_path base segments = base @ segments"
  by (induction segments arbitrary: base) auto

text \<open>A resource a scene may name lies below the asset root: its file name resolves to the root followed by the
  segments of the name, never to a directory above.\<close>

theorem resource_below_root:
  assumes "resourceRef v = Inr r"
  shows "\<exists>file. json_at r ''file'' = Inr (JString file) \<and> hd file \<noteq> CHR ''/''
    \<and> resolve_path base (split_path [] file) = base @ split_path [] file"
proof -
  obtain format f where r: "r = JObject [(''format'', JString format), (''file'', JString f)]" "asset_relative f"
    using resourceRef_Inr [OF assms] by blast
  then show ?thesis
    by (auto simp: json_at_def oo_find_map_of asset_relative_def resolve_plain)
qed

theorem resource_below_root_witness:
  "\<exists>file. json_at (JObject [(''format'', JString ''mesh''), (''file'', JString ''a/b.stl'')]) ''file'' = Inr (JString file)
    \<and> hd file \<noteq> CHR ''/'' \<and> resolve_path [''assets''] (split_path [] file) = [''assets''] @ split_path [] file"
proof -
  let ?v = "JObject [(''format'', JString ''mesh''), (''file'', JString ''a/b.stl'')]"
  have "resourceRef ?v = Inr ?v"
    by (simp add: resourceRef_def fields_def json_at_def oo_find_map_of asset_relative_def)
  then show ?thesis
    by (rule resource_below_root)
qed

definition sample_math :: math where
  "sample_math = \<lparr>validateConvexMesh = (\<lambda>vs is. Inr JNull), geometryRegistry = [], geometryJson = (\<lambda>v. Inl []),
     motionStart = (\<lambda>p mo. p)\<rparr>"

definition sample_document :: json where
  "sample_document = JObject [(''schema'', JString ''xgc2.scene.v1''), (''id'', JString ''s''), (''frame'', JString ''map''),
     (''obstacles'', JArray [])]"

lemma sample_document_accepted: "document sample_math sample_document = Inr sample_document"
  by (simp add: document_def sample_document_def fields_def json_at_def oo_find_map_of contains_def identifier_Inr
      frame_text_def frame_segment_def alnum_def digit_def within_def less_eq_char_def identifier_text_def stable_identifier_def
      checkObstacleSet_def part_total_def models_defined_def with_ground_def Let_def require_def)


end
