(* ===== verification/Scene_Store.thy ===== *)
theory Scene_Store
  imports Scene_Document
begin

section \<open>The scene store\<close>

text \<open>
  \<^verbatim>\<open>SceneStore\<close> of \<^verbatim>\<open>store.cpp\<close>: the scene being edited, its revisions, the undo and redo history, the receipts of
  past commands, playback and the file behind it. One mutex serialises everything, so a command is one function on the
  record \<open>store\<close>, which also holds the \<open>disk\<close>. An operation returns a failure or a value, with the store as it then is: what was
  done before a failure stays done.

  The record \<open>services\<close> is what the store is built with or calls: the apply and motion hooks (each call fails or not), the clock (its
  n-th reading), SHA-256, the YAML codec of \<^verbatim>\<open>yaml_io.cpp\<close> (the text of a document and the value of a text), and the file
  system: at each \<open>io_point\<close> a call may fail, and before each look at the disk other processes may have
  changed files. Paths are the segments
  of absolute, normalised paths. Ghost fields record the clock readings and the last document the hook accepted.
\<close>

subsection \<open>State\<close>

type_synonym path = "string list"
type_synonym files = "path \<Rightarrow> string option"

datatype io_point =
    AtSourceDigest | AtLoad | AtCreateDirectories | AtTargetDigest | AtTemporary | AtStat | AtMode | AtSync | AtClose
  | AtSecondDigest | AtReplace | AtOpenDirectory | AtSyncDirectory | AtCloseDirectory

datatype write_result = Wrote nat | WriteInterrupted | WriteError string

record services =
  maths :: math
  quoting :: quote
  digest :: "string \<Rightarrow> string"
  yaml_text :: "json \<Rightarrow> string result"
  yaml_value :: "string \<Rightarrow> json result"
  apply_hook :: "json \<Rightarrow> string \<Rightarrow> nat \<Rightarrow> exn option"
  motion_hook :: "string \<Rightarrow> string \<Rightarrow> nat \<Rightarrow> exn option"
  clock :: "nat \<Rightarrow> rat"
  io_error :: "io_point \<Rightarrow> string option"
  others :: "io_point \<Rightarrow> files \<Rightarrow> files"
  writes :: "write_result list"
  directory_exists :: bool
  temporary :: path

record receipt =
  receipt_id :: string
  fingerprint :: string
  envelope :: json
  receipt_document :: json

record store =
  frozen :: bool
  working_file :: "path option"
  scene :: json
  epoch :: string
  revision :: nat
  applied_revision :: nat
  application_known :: bool
  next_revision :: nat
  saved_revision :: nat
  saved_scene :: json
  source :: "path option"
  save_root :: "path option"
  file_digests :: "path \<rightharpoonup> string"
  playing :: bool
  elapsed :: rat
  started_at :: rat
  undo_stack :: "json list"
  redo_stack :: "json list"
  requests :: "receipt list"
  request_ids :: "string \<rightharpoonup> receipt"
  obstacle_validations :: nat
  disk :: files
  in_hook :: bool
  readings :: nat
  shown :: "(json \<times> nat) option"

type_synonym 'a operation = "store \<Rightarrow> 'a result \<times> store"

definition and_do :: "'a operation \<Rightarrow> ('a \<Rightarrow> 'b operation) \<Rightarrow> 'b operation" where
  "and_do f g s = (case f s of (Inl e, s') \<Rightarrow> (Inl e, s') | (Inr x, s') \<Rightarrow> g x s')"

definition fail_with :: "exn \<Rightarrow> 'a operation" where
  "fail_with e s = (Inl e, s)"

definition check :: "bool \<Rightarrow> string \<Rightarrow> unit operation" where
  "check ok message s = (require ok message, s)"

definition pure :: "'a result \<Rightarrow> 'a operation" where
  "pure r s = (r, s)"

definition update :: "(store \<Rightarrow> store) \<Rightarrow> unit operation" where
  "update f s = (Inr (), f s)"

subsection \<open>Reading\<close>

definition nowLocked :: "services \<Rightarrow> rat operation" where
  "nowLocked v s = (Inr (clock v (readings s)), s\<lparr>readings := readings s + 1\<rparr>)"

definition sceneTimeLocked :: "services \<Rightarrow> rat operation" where
  "sceneTimeLocked v s =
     (if playing s
      then and_do (nowLocked v) (\<lambda>now s'. (Inr (round_double (elapsed s' + max 0 (round_double (now - started_at s')))), s')) s
      else (Inr (elapsed s), s))"

definition statusLocked :: "store \<Rightarrow> json" where
  "statusLocked s =
     JObject
       [(''epoch'', JString (epoch s)), (''revision'', JUnsigned (revision s)), (''savedRevision'', JUnsigned (saved_revision s)),
        (''dirty'', JBool (scene s \<noteq> saved_scene s \<and> \<not> json_eq (scene s) (saved_scene s))),
        (''playing'', JBool (playing s)), (''frozen'', JBool (frozen s)),
        (''configuration'', JObject
           [(''desired'', JObject [(''epoch'', JString (epoch s)), (''revision'', JUnsigned (revision s))]),
            (''applied'', JObject [(''epoch'', JString (epoch s)), (''revision'', JUnsigned (applied_revision s)),
                                   (''known'', JBool (application_known s))]),
            (''persisted'', JObject [(''epoch'', JString (epoch s)), (''revision'', JUnsigned (saved_revision s))])])]"

definition envelopeLocked :: "services \<Rightarrow> json operation" where
  "envelopeLocked v s =
     and_do (sceneTimeLocked v) (\<lambda>t s'.
       (Inr (put ''document'' (scene s') (put ''sceneTime'' (JFloat (Double (Fin t))) (statusLocked s'))), s')) s"

text \<open>The message of an exception, and whether \<^verbatim>\<open>command\<close> catches it.\<close>

fun handled :: "exn \<Rightarrow> string option" where
  "handled (SceneError t) = Some t"
| "handled (SystemError t) = Some t"
| "handled (InvalidArgument t) = Some t"
| "handled (JsonError t) = Some t"
| "handled (OtherError t) = None"

definition resultLocked :: "services \<Rightarrow> string option \<Rightarrow> json operation" where
  "resultLocked v failure =
     and_do (envelopeLocked v) (\<lambda>e.
       pure (Inr (case failure of
                    None \<Rightarrow> put ''success'' (JBool True) e
                  | Some text_of_error \<Rightarrow> put ''error'' (JString text_of_error) (put ''success'' (JBool False) e))))"

definition receiptValue :: "receipt \<Rightarrow> json" where
  "receiptValue r = put ''document'' (receipt_document r) (envelope r)"

definition requestResult :: "store \<Rightarrow> string \<Rightarrow> json option" where
  "requestResult s request_id = map_option receiptValue (request_ids s request_id)"

subsection \<open>Files\<close>

definition kMaxDocumentBytes :: nat where
  "kMaxDocumentBytes = 8 * 1024 * 1024"

definition read_file :: "services \<Rightarrow> io_point \<Rightarrow> path \<Rightarrow> files \<Rightarrow> string result" where
  "read_file v p path fs =
     (case (io_error v p, fs path) of
        (Some e, _) \<Rightarrow> Inl (SceneError e)
      | (None, None) \<Rightarrow> Inl (SceneError ''No such file or directory'')
      | (None, Some data) \<Rightarrow>
          if kMaxDocumentBytes < length data then Inl (SceneError ''Scene file exceeds the supported size'') else Inr data)"

definition currentDigest :: "services \<Rightarrow> io_point \<Rightarrow> path \<Rightarrow> files \<Rightarrow> string option result" where
  "currentDigest v p path fs =
     (if fs path = None then Inr None
      else and_then (read_file v p path fs) (\<lambda>data. Inr (Some (digest v data))))"

definition readDocument :: "services \<Rightarrow> path \<Rightarrow> files \<Rightarrow> (json \<times> string) result" where
  "readDocument v path fs =
     and_then (read_file v AtLoad path fs) (\<lambda>data.
     and_then (yaml_value v data) (\<lambda>value.
     and_then (document (maths v) value) (\<lambda>d. Inr (d, digest v data))))"

text \<open>Other processes act before a point of the code.\<close>

definition meanwhile :: "services \<Rightarrow> io_point \<Rightarrow> unit operation" where
  "meanwhile v p = update (\<lambda>s. s\<lparr>disk := others v p (disk s)\<rparr>)"

definition on_disk :: "(files \<Rightarrow> 'a result) \<Rightarrow> 'a operation" where
  "on_disk f s = (f (disk s), s)"

definition syscall :: "services \<Rightarrow> io_point \<Rightarrow> unit operation" where
  "syscall v p s = ((case io_error v p of None \<Rightarrow> Inr () | Some e \<Rightarrow> Inl (SceneError e)), s)"

abbreviation external_edit :: string where
  "external_edit \<equiv> ''Scene YAML changed outside the editor; reload YAML before editing''"

definition checkSource :: "services \<Rightarrow> unit operation" where
  "checkSource v s =
     (case source s of
        None \<Rightarrow> (Inr (), s)
      | Some target \<Rightarrow>
          and_do (meanwhile v AtSourceDigest) (\<lambda>_.
          and_do (on_disk (currentDigest v AtSourceDigest target)) (\<lambda>current s'.
            check (current = file_digests s' target) external_edit s')) s)"

text \<open>\<^verbatim>\<open>fs::path::extension\<close> of a file name.\<close>

definition extension :: "string \<Rightarrow> string" where
  "extension name =
     (let stem = rev (drop 1 (dropWhile (\<lambda>c. c \<noteq> CHR ''.'') (rev name)))
      in if CHR ''.'' \<notin> set name \<or> stem = [] \<or> name = ''..'' then []
         else ''.'' @ rev (takeWhile (\<lambda>c. c \<noteq> CHR ''.'') (rev name)))"

fun write_all :: "write_result list \<Rightarrow> string \<Rightarrow> string \<Rightarrow> string result" where
  "write_all results written [] = Inr written"
| "write_all [] written rest = Inr (written @ rest)"
| "write_all (r # results) written rest =
     (case r of
        Wrote 0 \<Rightarrow> Inl (SceneError ''Input/output error'')
      | Wrote (Suc n) \<Rightarrow> write_all results (written @ take (Suc n) rest) (drop (Suc n) rest)
      | WriteInterrupted \<Rightarrow> write_all results written rest
      | WriteError e \<Rightarrow> Inl (SceneError e))"

text \<open>The part of \<^verbatim>\<open>save\<close> that owns the temporary file: whatever happens, the destructor removes its name.\<close>

definition unlink_temporary :: "services \<Rightarrow> store \<Rightarrow> store" where
  "unlink_temporary v s = s\<lparr>disk := (disk s)(temporary v := None)\<rparr>"

text \<open>The body of \<^verbatim>\<open>save\<close> while the temporary file exists.\<close>

definition write_target :: "services \<Rightarrow> path \<Rightarrow> string option \<Rightarrow> string \<Rightarrow> unit operation" where
  "write_target v target expected encoded s =
     and_do (if disk s target = None then pure (Inr ()) else and_do (syscall v AtStat) (\<lambda>_. syscall v AtMode)) (\<lambda>_.
     and_do (pure (write_all (writes v) [] encoded)) (\<lambda>written.
     and_do (update (\<lambda>s. s\<lparr>disk := (disk s)(temporary v \<mapsto> written)\<rparr>)) (\<lambda>_.
     and_do (syscall v AtSync) (\<lambda>_.
     and_do (syscall v AtClose) (\<lambda>_.
     and_do (meanwhile v AtSecondDigest) (\<lambda>_.
     and_do (on_disk (currentDigest v AtSecondDigest target)) (\<lambda>current.
     and_do (check (current = expected) ''Scene file changed while saving'') (\<lambda>_.
     and_do (meanwhile v AtReplace) (\<lambda>_.
     and_do (syscall v AtReplace) (\<lambda>_.
     and_do (update (\<lambda>s. s\<lparr>disk := (disk s)(target := disk s (temporary v), temporary v := None)\<rparr>)) (\<lambda>_.
     and_do (syscall v AtOpenDirectory) (\<lambda>_.
     and_do (syscall v AtSyncDirectory) (\<lambda>_.
       syscall v AtCloseDirectory))))))))))))) s"

definition replace_target :: "services \<Rightarrow> path \<Rightarrow> string option \<Rightarrow> string \<Rightarrow> unit operation" where
  "replace_target v target expected encoded =
     and_do (syscall v AtTemporary) (\<lambda>_.
     and_do (update (\<lambda>s. s\<lparr>disk := (disk s)(temporary v \<mapsto> [])\<rparr>)) (\<lambda>_ s.
       (let (r, s') = write_target v target expected encoded s in (r, unlink_temporary v s'))))"

definition save_document :: "services \<Rightarrow> path \<Rightarrow> string option \<Rightarrow> unit operation" where
  "save_document v target current s =
     and_do (check (current = file_digests s target) external_edit) (\<lambda>_.
     and_do (pure (yaml_text v (scene s))) (\<lambda>encoded.
     and_do (replace_target v target (file_digests s target) encoded) (\<lambda>_.
       update (\<lambda>s'. s'\<lparr>source := Some target, file_digests := (file_digests s')(target \<mapsto> digest v encoded),
                       saved_scene := scene s', saved_revision := revision s'\<rparr>)))) s"

definition yaml_name :: "path \<Rightarrow> bool" where
  "yaml_name target \<longleftrightarrow> target \<noteq> [] \<and> map tolower (extension (last target)) \<in> {''.yaml'', ''.yml''}"

definition save_to :: "services \<Rightarrow> path \<Rightarrow> path \<Rightarrow> unit operation" where
  "save_to v base target =
     and_do (check (take (length base) target = base) ''Save target is outside the configured project directory'') (\<lambda>_.
     and_do (check (yaml_name target) ''Save target must be a YAML file'') (\<lambda>_.
     and_do (\<lambda>s. ((case (working_file s, io_error v AtCreateDirectories) of (Some _, Some e) \<Rightarrow> Inl (SystemError e) | _ \<Rightarrow> Inr ()), s)) (\<lambda>_.
     and_do (check (directory_exists v) ''Save directory does not exist'') (\<lambda>_.
     and_do (meanwhile v AtTargetDigest) (\<lambda>_.
     and_do (on_disk (currentDigest v AtTargetDigest target)) (save_document v target))))))"

definition save :: "services \<Rightarrow> unit operation" where
  "save v s =
     (case save_root s of
        None \<Rightarrow> fail_with (SceneError ''This scene has no writable project directory configured'') s
      | Some base \<Rightarrow>
          (case (case working_file s of Some w \<Rightarrow> Some w | None \<Rightarrow> source s) of
             None \<Rightarrow> fail_with (SceneError ''This scene has no source YAML configured'') s
           | Some target \<Rightarrow> save_to v base target s))"

definition prepareEdit :: "services \<Rightarrow> unit operation" where
  "prepareEdit v =
     and_do (checkSource v) (\<lambda>_ s. if working_file s \<noteq> None \<and> source s \<noteq> working_file s then save v s else (Inr (), s))"

definition autosave :: "services \<Rightarrow> unit operation" where
  "autosave v s =
     (if source s = None then (Inr (), s)
      else case save v s of
             (Inl (SceneError t), s') \<Rightarrow> (Inl (SceneError (''Live scene updated, but YAML was not saved: '' @ t)), s')
           | (Inl (SystemError t), s') \<Rightarrow> (Inl (SceneError (''Live scene updated, but YAML was not saved: '' @ t)), s')
           | (r, s') \<Rightarrow> (r, s'))"

subsection \<open>Commands\<close>

definition apply_scene :: "services \<Rightarrow> json \<Rightarrow> nat operation" where
  "apply_scene v candidate s =
     (let r = next_revision s; s' = s\<lparr>next_revision := r + 1, application_known := False\<rparr>
      in case apply_hook v candidate (epoch s) r of
           Some e \<Rightarrow> (Inl e, s')
         | None \<Rightarrow> (Inr r, s'\<lparr>applied_revision := r, application_known := True, shown := Some (candidate, r)\<rparr>))"

definition reload :: "services \<Rightarrow> unit operation" where
  "reload v s =
     (case source s of
        None \<Rightarrow> fail_with (SceneError ''This scene has no source YAML configured'') s
      | Some target \<Rightarrow>
          and_do (meanwhile v AtLoad) (\<lambda>_.
          and_do (on_disk (readDocument v target)) (\<lambda>(replacement, loaded_digest).
          and_do (apply_scene v replacement) (\<lambda>r.
            update (\<lambda>s'. s'\<lparr>scene := replacement, revision := r, saved_scene := replacement, saved_revision := r,
                            file_digests := (file_digests s')(target \<mapsto> loaded_digest), undo_stack := [], redo_stack := []\<rparr>)))) s)"

definition playback :: "services \<Rightarrow> string \<Rightarrow> unit operation" where
  "playback v op s =
     (case motion_hook v op (epoch s) (revision s) of
        Some e \<Rightarrow> (Inl e, s)
      | None \<Rightarrow>
          and_do (sceneTimeLocked v) (\<lambda>t.
          and_do (update (\<lambda>s'. s'\<lparr>playing := (op = ''play''), elapsed := (if op = ''reset'' then 0 else t)\<rparr>)) (\<lambda>_.
          and_do (nowLocked v) (\<lambda>now. update (\<lambda>s'. s'\<lparr>started_at := now\<rparr>)))) s)"

text \<open>\<^verbatim>\<open>undo\<close> and \<^verbatim>\<open>redo\<close> move one document between the stacks.\<close>

definition travel :: "services \<Rightarrow> bool \<Rightarrow> unit operation" where
  "travel v undo s =
     (if (if undo then undo_stack s else redo_stack s) = []
      then fail_with (SceneError (''Nothing to '' @ (if undo then ''undo'' else ''redo''))) s
      else
        and_do (prepareEdit v) (\<lambda>_ s1.
          (let replacement = last (if undo then undo_stack s1 else redo_stack s1)
           in and_do (apply_scene v replacement) (\<lambda>r.
              and_do (update (\<lambda>s2.
                (if undo then s2\<lparr>redo_stack := redo_stack s2 @ [scene s2], undo_stack := butlast (undo_stack s2)\<rparr>
                 else s2\<lparr>undo_stack := undo_stack s2 @ [scene s2], redo_stack := butlast (redo_stack s2)\<rparr>)
                \<lparr>scene := replacement, revision := r\<rparr>)) (\<lambda>_. autosave v)) s1)) s)"

definition same_id :: "json \<Rightarrow> json \<Rightarrow> bool" where
  "same_id a b =
     (case (oo_find (entries a) ''id'', oo_find (entries b) ''id'') of (Some x, Some y) \<Rightarrow> json_eq x y | _ \<Rightarrow> False)"

fun replace_first :: "('a \<Rightarrow> bool) \<Rightarrow> 'a \<Rightarrow> 'a list \<Rightarrow> 'a list" where
  "replace_first p y [] = []"
| "replace_first p y (x # xs) = (if p x then y # xs else x # replace_first p y xs)"

definition with_obstacles :: "json \<Rightarrow> json list \<Rightarrow> json" where
  "with_obstacles d os = put ''obstacles'' (JArray os) d"

definition add_candidate :: "services \<Rightarrow> json \<Rightarrow> json operation" where
  "add_candidate v request =
     and_do (update (\<lambda>s. s\<lparr>obstacle_validations := obstacle_validations s + 1\<rparr>)) (\<lambda>_.
     and_do (pure (and_then (value_or request ''obstacle'' JNull) (obstacle (maths v)))) (\<lambda>replacement s.
       (let os = obstacle_list (scene s) in
        and_do (check (\<not> list_ex (\<lambda>item. same_id item replacement) os) ''Obstacle ID already exists'') (\<lambda>_.
        and_do (pure (checkObstacleSet (os @ [replacement]))) (\<lambda>_.
          pure (Inr (with_obstacles (scene s) (os @ [replacement]))))) s)))"

definition update_candidate :: "services \<Rightarrow> json \<Rightarrow> json operation" where
  "update_candidate v request =
     and_do (update (\<lambda>s. s\<lparr>obstacle_validations := obstacle_validations s + 1\<rparr>)) (\<lambda>_.
     and_do (pure (and_then (value_or request ''obstacle'' JNull) (obstacle (maths v)))) (\<lambda>replacement s.
       (let os = obstacle_list (scene s); changed = replace_first (\<lambda>item. same_id item replacement) replacement os in
        and_do (check (list_ex (\<lambda>item. same_id item replacement) os) ''Obstacle no longer exists'') (\<lambda>_.
        and_do (pure (checkObstacleSet changed)) (\<lambda>_.
          pure (Inr (with_obstacles (scene s) changed)))) s)))"

definition delete_candidate :: "json \<Rightarrow> json operation" where
  "delete_candidate request =
     and_do (pure (and_then (value_or request ''id'' JNull) (\<lambda>i. stable_identifier i ''Obstacle ID''))) (\<lambda>oid s.
       (let os = obstacle_list (scene s);
            remaining = filter (\<lambda>item. case oo_find (entries item) ''id'' of Some i \<Rightarrow> \<not> json_eq i (JString oid) | None \<Rightarrow> True) os in
        and_do (check (length remaining \<noteq> length os) ''Obstacle no longer exists'') (\<lambda>_.
          pure (Inr (with_obstacles (scene s) remaining))) s))"

definition replace_candidate :: "services \<Rightarrow> json \<Rightarrow> json operation" where
  "replace_candidate v request =
     and_do (pure (and_then (value_or request ''document'' JNull) (document (maths v)))) (\<lambda>candidate.
     and_do (update (\<lambda>s. s\<lparr>obstacle_validations := obstacle_validations s + length (obstacle_list candidate)\<rparr>)) (\<lambda>_.
       pure (Inr candidate)))"

definition candidate_of :: "services \<Rightarrow> json \<Rightarrow> json \<Rightarrow> json operation" where
  "candidate_of v op request =
     (if op = JString ''add'' then add_candidate v request
      else if op = JString ''update'' then update_candidate v request
      else if op = JString ''delete'' then delete_candidate request
      else if op = JString ''clear'' then (\<lambda>s. (Inr (with_obstacles (scene s) []), s))
      else if op = JString ''replace'' then replace_candidate v request
      else pure (and_then (pythonRepr op) (\<lambda>shown_op. Inl (SceneError (''Unsupported scene operation '' @ shown_op)))))"

text \<open>The commit of an edit (lines 456 to 465).\<close>

definition commit_edit :: "services \<Rightarrow> json \<Rightarrow> unit operation" where
  "commit_edit v candidate s =
     (if json_eq candidate (scene s) then (Inr (), s)
      else
        and_do (prepareEdit v) (\<lambda>_.
        and_do (apply_scene v candidate) (\<lambda>r.
        and_do (update (\<lambda>s'.
          (let pushed = undo_stack s' @ [scene s']
           in s'\<lparr>undo_stack := (if 128 < length pushed then tl pushed else pushed), redo_stack := [],
                 scene := candidate, revision := r\<rparr>))) (\<lambda>_. autosave v))) s)"

abbreviation frozen_error :: string where
  "frozen_error \<equiv> ''Scene geometry is read-only for this simulator; select an editable scene to change obstacles''"

definition frozen_operations :: "string list" where
  "frozen_operations =
     [''add'', ''update'', ''delete'', ''clear'', ''replace'', ''undo'', ''redo'', ''save'', ''reload'']"

definition execute :: "services \<Rightarrow> json \<Rightarrow> unit operation" where
  "execute v request =
     and_do (pure (json_at request ''operation'')) (\<lambda>op s.
       (if frozen s \<and> (is_array op \<or> is_object op)
        then fail_with (SceneError (''unhashable type: '' @ [CHR 0x27] @ (if is_array op then ''list'' else ''dict'') @ [CHR 0x27])) s
        else if frozen s \<and> op \<in> set (map JString frozen_operations) then fail_with (SceneError frozen_error) s
        else if op = JString ''resync''
        then and_do (apply_scene v (scene s)) (\<lambda>r. update (\<lambda>s'. s'\<lparr>revision := r\<rparr>)) s
        else if op = JString ''save'' then and_do (checkSource v) (\<lambda>_. save v) s
        else if op = JString ''reload'' then reload v s
        else if op = JString ''play'' then playback v ''play'' s
        else if op = JString ''pause'' then playback v ''pause'' s
        else if op = JString ''reset'' then playback v ''reset'' s
        else if op = JString ''undo'' then travel v True s
        else if op = JString ''redo'' then travel v False s
        else and_do (candidate_of v op request) (commit_edit v) s))"

text \<open>The receipts: at most 256, the least recently used goes first.\<close>

definition trim_receipts :: "store \<Rightarrow> store" where
  "trim_receipts s =
     (let dropped = take (length (requests s) - 256) (requests s)
      in s\<lparr>requests := drop (length (requests s) - 256) (requests s),
           request_ids := fold (\<lambda>r m. m(receipt_id r := None)) dropped (request_ids s)\<rparr>)"

definition metadata_of :: "json \<Rightarrow> json" where
  "metadata_of result =
     JObject (fold (\<lambda>(k, x). oo_set k (if k = ''document'' then JNull else x)) (entries result) [])"

definition record_receipt :: "string \<Rightarrow> string \<Rightarrow> json \<Rightarrow> store \<Rightarrow> store" where
  "record_receipt i print result s =
     (let r = \<lparr>receipt_id = i, fingerprint = print, envelope = metadata_of result, receipt_document = scene s\<rparr>
      in trim_receipts (s\<lparr>requests := requests s @ [r], request_ids := (request_ids s)(i \<mapsto> r)\<rparr>))"

definition run_request :: "services \<Rightarrow> string \<Rightarrow> string \<Rightarrow> json \<Rightarrow> json operation" where
  "run_request v i print request s =
     (let (outcome, s1) = execute v request s
      in case outcome of
           Inl e \<Rightarrow>
             (case handled e of
                None \<Rightarrow> (Inl e, s1)
              | Some t \<Rightarrow> and_do (resultLocked v (Some t)) (\<lambda>result s2. (Inr result, record_receipt i print result s2)) s1)
         | Inr _ \<Rightarrow> and_do (resultLocked v None) (\<lambda>result s2. (Inr result, record_receipt i print result s2)) s1)"

definition promote :: "receipt \<Rightarrow> store \<Rightarrow> store" where
  "promote r s = s\<lparr>requests := remove1 r (requests s) @ [r]\<rparr>"

text \<open>What a request asks for: a look at the scene, or work under an id with the fingerprint of its fields (lines 346 to 353).\<close>

datatype incoming = Look | Work string string

definition incoming_request :: "services \<Rightarrow> json \<Rightarrow> incoming result" where
  "incoming_request v request =
     and_then (Scene_Document.fields request
                 [''requestId'', ''expectedEpoch'', ''expectedRevision'', ''operation'', ''obstacle'', ''id'', ''document''] [''operation'']) (\<lambda>_.
     and_then (json_at request ''operation'') (\<lambda>op.
       if op = JString ''get'' then Inr Look
       else and_then (value_or request ''requestId'' JNull) (\<lambda>rid.
         case rid of
           JString i \<Rightarrow>
             and_then (require (ValidReferenceId i) ''Request ID must follow the XRPC identity contract'') (\<lambda>_.
             and_then (dumpJson (quoting v) (sortedFields request)) (\<lambda>print. Inr (Work i print)))
         | _ \<Rightarrow> Inl (SceneError ''Request ID must follow the XRPC identity contract''))))"

definition expects :: "json \<Rightarrow> store \<Rightarrow> bool" where
  "expects request s =
     (let field = (\<lambda>key. case oo_find (entries request) key of Some x \<Rightarrow> x | None \<Rightarrow> JNull)
      in json_eq (field ''expectedEpoch'') (JString (epoch s)) \<and> is_number_integer (field ''expectedRevision'')
         \<and> json_eq (field ''expectedRevision'') (JUnsigned (revision s)))"

definition try_command :: "services \<Rightarrow> json \<Rightarrow> json operation" where
  "try_command v request s =
     (if in_hook s then fail_with (SceneError ''Scene commands cannot be issued from store hooks'') s
      else case incoming_request v request of
        Inl e \<Rightarrow> (Inl e, s)
      | Inr Look \<Rightarrow> resultLocked v None s
      | Inr (Work i print) \<Rightarrow>
          (case request_ids s i of
             Some previous \<Rightarrow>
               if fingerprint previous \<noteq> print
               then fail_with (SceneError ''Request ID was already used for a different operation'') s
               else (Inr (receiptValue previous), promote previous s)
           | None \<Rightarrow>
               if \<not> expects request s then fail_with (SceneError ''Scene changed; refresh before editing'') s
               else run_request v i print request s))"

definition command :: "services \<Rightarrow> json \<Rightarrow> json operation" where
  "command v request s =
     (case try_command v request s of
        (Inr result, s') \<Rightarrow> (Inr result, s')
      | (Inl e, s') \<Rightarrow> (case handled e of None \<Rightarrow> (Inl e, s') | Some t \<Rightarrow> resultLocked v (Some t) s'))"

subsection \<open>Opening a store\<close>

text \<open>The constructor. An existing working file replaces the initial document; a failing hook fails the construction.\<close>

definition known_digest :: "services \<Rightarrow> path option \<Rightarrow> string option \<Rightarrow> files \<Rightarrow> (path \<rightharpoonup> string) result" where
  "known_digest v src given fs =
     (case src of
        None \<Rightarrow> Inr Map.empty
      | Some p \<Rightarrow>
          if fs p = None then Inr Map.empty
          else (case given of
                  Some (c # g) \<Rightarrow> Inr [p \<mapsto> c # g]
                | _ \<Rightarrow> and_then (currentDigest v AtSourceDigest p fs) (\<lambda>current. Inr [p \<mapsto> the current])))"

definition open_store ::
  "services \<Rightarrow> string \<Rightarrow> json \<Rightarrow> path option \<Rightarrow> path option \<Rightarrow> string option \<Rightarrow> bool \<Rightarrow> path option \<Rightarrow> files \<Rightarrow> store result" where
  "open_store v fresh_epoch initial src save_directory given is_frozen working fs =
     (let reuse = (case working of Some w \<Rightarrow> fs w \<noteq> None | None \<Rightarrow> False);
          src' = (if reuse then working else src);
          target = (case working of Some w \<Rightarrow> Some w | None \<Rightarrow> src') in
      and_then (if reuse then and_then (readDocument v (the working) fs) (\<lambda>(d, g). Inr (d, Some g)) else Inr (initial, given)) (\<lambda>(input, g).
      and_then (document (maths v) input) (\<lambda>d.
      and_then (known_digest v src' g fs) (\<lambda>digests.
        case apply_hook v d fresh_epoch 1 of
          Some e \<Rightarrow> Inl e
        | None \<Rightarrow>
            Inr \<lparr>frozen = is_frozen, working_file = working, scene = d, epoch = fresh_epoch, revision = 1, applied_revision = 1,
                 application_known = True, next_revision = 2, saved_revision = 1, saved_scene = d, source = src',
                 save_root = (case save_directory of Some p \<Rightarrow> Some p | None \<Rightarrow> map_option butlast target), file_digests = digests,
                 playing = False, elapsed = 0, started_at = clock v 0, undo_stack = [], redo_stack = [], requests = [],
                 request_ids = Map.empty, obstacle_validations = length (obstacle_list d), disk = fs, in_hook = False, readings = 1,
                 shown = Some (d, 1)\<rparr>))))"

subsection \<open>What an operation leaves alone\<close>

text \<open>\<open>leaves c f\<close>: whether it fails or not, \<open>f\<close> does not change the part \<open>c\<close> of the store.\<close>

definition leaves :: "(store \<Rightarrow> 'c) \<Rightarrow> 'a operation \<Rightarrow> bool" where
  "leaves c f \<longleftrightarrow> (\<forall>s. c (snd (f s)) = c s)"

named_theorems leaves_rules \<open>parts of the store an operation leaves alone\<close>

lemma leavesD: "leaves c f \<Longrightarrow> f s = (r, s') \<Longrightarrow> c s' = c s"
  by (metis leaves_def snd_conv)

lemma leaves_and_do [leaves_rules]: "leaves c f \<Longrightarrow> (\<And>x. leaves c (g x)) \<Longrightarrow> leaves c (and_do f g)"
  unfolding leaves_def and_do_def
  by (auto split: prod.split sum.split) (metis snd_conv)+

lemma leaves_at_state: "(\<And>s. leaves c (g s)) \<Longrightarrow> leaves c (\<lambda>s. g s s)"
  by (simp add: leaves_def)

lemma leaves_if [leaves_rules]: "(b \<Longrightarrow> leaves c f) \<Longrightarrow> (\<not> b \<Longrightarrow> leaves c g) \<Longrightarrow> leaves c (if b then f else g)"
  by simp

lemma leaves_basic [leaves_rules]:
  "leaves c (pure r)" "leaves c (fail_with e)" "leaves c (check ok t)" "leaves c (\<lambda>s. check (b s) t s)" "leaves c (on_disk h)" "leaves c (syscall v p)"
  by (simp_all add: leaves_def pure_def fail_with_def check_def on_disk_def syscall_def)

lemma leaves_result [leaves_rules]: "leaves c (\<lambda>s. (r s, s))"
  by (simp add: leaves_def)

lemma leaves_after: "leaves c f \<Longrightarrow> (\<And>s. c (h s) = c s) \<Longrightarrow> leaves c (\<lambda>s. let (r, s') = f s in (r, h s'))"
  by (auto simp: leaves_def split: prod.split) (metis snd_conv)

lemma leaves_update [leaves_rules]: "(\<And>s. c (f s) = c s) \<Longrightarrow> leaves c (update f)"
  by (simp add: leaves_def update_def)

lemma leaves_meanwhile [leaves_rules]: "(\<And>s fs. c (s\<lparr>disk := fs\<rparr>) = c s) \<Longrightarrow> leaves c (meanwhile v p)"
  by (simp add: meanwhile_def leaves_update)

lemma leaves_now [leaves_rules]: "(\<And>s n. c (s\<lparr>readings := n\<rparr>) = c s) \<Longrightarrow> leaves c (nowLocked v)"
  by (simp add: leaves_def nowLocked_def)

text \<open>Saving changes the disk and what the store knows of it.\<close>

definition edited :: "store \<Rightarrow> _" where
  "edited s =
     ((scene s, revision s, undo_stack s, redo_stack s, next_revision s, applied_revision s, application_known s, shown s),
      (requests s, request_ids s, frozen s, in_hook s, epoch s, working_file s, save_root s),
      (playing s, elapsed s, started_at s, readings s, obstacle_validations s))"

lemma checkSource_leaves [leaves_rules]: "leaves edited (checkSource v)"
proof -
  have "leaves edited (and_do (meanwhile v AtSourceDigest) (\<lambda>_.
      and_do (on_disk (currentDigest v AtSourceDigest target)) (\<lambda>current s'.
        check (current = file_digests s' target) external_edit s')))" for target
    by (intro leaves_rules) (simp add: edited_def)
  then show ?thesis
    by (simp add: leaves_def checkSource_def split: option.split)
qed

lemma write_target_leaves [leaves_rules]: "leaves edited (write_target v target expected encoded)"
proof -
  have "leaves edited (\<lambda>s. write_target v target expected encoded s)"
    unfolding write_target_def
    by (rule leaves_at_state) (intro leaves_rules; simp add: edited_def)
  then show ?thesis .
qed

lemma replace_target_leaves [leaves_rules]: "leaves edited (replace_target v target expected encoded)"
proof -
  have "leaves edited (\<lambda>s. let (r, s') = write_target v target expected encoded s in (r, unlink_temporary v s'))"
    by (intro leaves_after leaves_rules) (simp add: unlink_temporary_def edited_def)
  then show ?thesis
    unfolding replace_target_def by (intro leaves_rules) (simp_all add: edited_def)
qed

lemma save_leaves [leaves_rules]: "leaves edited (save v)"
proof -
  have "leaves edited (save_document v target current)" for target current
    unfolding save_document_def by (rule leaves_at_state) (intro leaves_rules; simp add: edited_def)
  then have "leaves edited (save_to v base target)" for base target
    unfolding save_to_def by (intro leaves_rules) (simp_all add: edited_def)
  then show ?thesis
    by (simp add: leaves_def save_def fail_with_def split: option.split)
qed

lemma prepareEdit_leaves [leaves_rules]: "leaves edited (prepareEdit v)"
proof -
  have "leaves edited (\<lambda>s. if working_file s \<noteq> None \<and> source s \<noteq> working_file s then save v s else (Inr (), s))"
    using save_leaves by (simp add: leaves_def)
  then show ?thesis
    unfolding prepareEdit_def by (intro leaves_rules)
qed

lemma autosave_leaves [leaves_rules]: "leaves edited (autosave v)"
  using save_leaves [of v]
  by (auto simp: leaves_def autosave_def split: prod.split sum.split exn.split) (metis snd_conv)+

lemma sceneTime_leaves [leaves_rules]: "(\<And>s n. c (s\<lparr>readings := n\<rparr>) = c s) \<Longrightarrow> leaves c (sceneTimeLocked v)"
  by (simp add: leaves_def sceneTimeLocked_def and_do_def nowLocked_def)

lemma resultLocked_leaves [leaves_rules]: "(\<And>s n. c (s\<lparr>readings := n\<rparr>) = c s) \<Longrightarrow> leaves c (resultLocked v failure)"
  unfolding resultLocked_def envelopeLocked_def by (intro leaves_rules) assumption+

subsection \<open>How a command may change the scene\<close>

lemma and_do_cases:
  assumes "and_do f g s = (r, s')"
  obtains (failed) e where "f s = (Inl e, s')" "r = Inl e" | (went_on) x s1 where "f s = (Inr x, s1)" "g x s1 = (r, s')"
  using assms by (auto simp: and_do_def split: prod.splits sum.splits)

text \<open>\<open>quiet\<close>: the scene and its history stay; at most a revision number was used up and the application became unknown.
  \<open>landed\<close>: the hook accepted the document that is now the scene.\<close>

definition quiet :: "store \<Rightarrow> store \<Rightarrow> bool" where
  "quiet s s' \<longleftrightarrow>
     scene s' = scene s \<and> revision s' = revision s \<and> undo_stack s' = undo_stack s \<and> redo_stack s' = redo_stack s
     \<and> next_revision s \<le> next_revision s' \<and> applied_revision s' = applied_revision s \<and> shown s' = shown s
     \<and> (application_known s' \<longrightarrow> application_known s)"

definition landed :: "store \<Rightarrow> store \<Rightarrow> bool" where
  "landed s s' \<longleftrightarrow>
     revision s' = next_revision s \<and> next_revision s' = next_revision s + 1 \<and> application_known s'
     \<and> applied_revision s' = revision s' \<and> shown s' = Some (scene s', revision s')"

lemma quiet_refl [simp]: "quiet s s"
  by (simp add: quiet_def)

lemma quiet_trans: "quiet s s1 \<Longrightarrow> quiet s1 s2 \<Longrightarrow> quiet s s2"
  by (auto simp: quiet_def)

lemma edited_quiet: "edited s' = edited s \<Longrightarrow> quiet s s'"
  by (simp add: edited_def quiet_def)

lemma edited_landed: "landed s s1 \<Longrightarrow> edited s2 = edited s1 \<Longrightarrow> landed s s2"
  by (simp add: edited_def landed_def)

lemma landed_edited: "edited s1 = edited s \<Longrightarrow> landed s1 s2 \<Longrightarrow> landed s s2"
  by (simp add: edited_def landed_def)

lemma apply_scene_cases:
  assumes "apply_scene v candidate s = (r, s')"
  obtains (refused) e where "r = Inl e" "quiet s s'"
  | (accepted) "r = Inr (next_revision s)"
      "s' = s\<lparr>next_revision := next_revision s + 1, applied_revision := next_revision s, application_known := True,
              shown := Some (candidate, next_revision s)\<rparr>"
  using assms by (auto simp: apply_scene_def quiet_def Let_def split: option.splits)

lemma commit_edit_cases:
  assumes "commit_edit v d s = (r, s')"
  obtains (same) "r = Inr ()" "s' = s" "json_eq d (scene s)"
  | (refused) e where "r = Inl e" "quiet s s'"
  | (edited_scene) "landed s s'" "scene s' = d" "redo_stack s' = []"
      "undo_stack s' = (if 128 < length (undo_stack s @ [scene s]) then tl (undo_stack s @ [scene s]) else undo_stack s @ [scene s])"
      "\<not> json_eq d (scene s)"
proof (cases "json_eq d (scene s)")
  case True
  then show thesis using assms same by (simp add: commit_edit_def)
next
  case False
  note run = assms [unfolded commit_edit_def, simplified False, simplified]
  from run show thesis
  proof (cases rule: and_do_cases)
    case (failed e)
    then show thesis using refused edited_quiet leavesD [OF prepareEdit_leaves] by blast
  next
    case (went_on x s1)
    have e1: "edited s1 = edited s"
      using leavesD [OF prepareEdit_leaves went_on(1)] .
    from went_on(2) show thesis
    proof (cases rule: and_do_cases)
      case (failed e)
      from failed(1) have "quiet s1 s'" by (cases rule: apply_scene_cases) auto
      then show thesis using refused failed(2) quiet_trans [OF edited_quiet [OF e1]] by blast
    next
      case (went_on n s2)
      from went_on(1) have s2: "n = next_revision s1"
        "s2 = s1\<lparr>next_revision := next_revision s1 + 1, applied_revision := next_revision s1, application_known := True,
              shown := Some (d, next_revision s1)\<rparr>"
        by (cases rule: apply_scene_cases; auto)+
      from went_on(2) obtain s3 where s3: "s3 = s2\<lparr>undo_stack := (if 128 < length (undo_stack s2 @ [scene s2]) then tl (undo_stack s2 @ [scene s2]) else undo_stack s2 @ [scene s2]),
            redo_stack := [], scene := d, revision := n\<rparr>" and save: "autosave v s3 = (r, s')"
        by (cases rule: and_do_cases) (simp_all add: update_def Let_def)
      have e3: "edited s' = edited s3"
        using leavesD [OF autosave_leaves save] .
      show thesis
      proof (rule edited_scene)
        show "landed s s'"
          using e1 e3 by (simp add: s3 s2 edited_def landed_def)
        show "scene s' = d" "redo_stack s' = []" "\<not> json_eq d (scene s)"
          "undo_stack s' = (if 128 < length (undo_stack s @ [scene s]) then tl (undo_stack s @ [scene s]) else undo_stack s @ [scene s])"
          using e1 e3 False by (simp_all add: s3 s2 edited_def)
      qed
    qed
  qed
qed

lemma travel_cases:
  assumes "travel v undo s = (r, s')"
  obtains (refused) e where "r = Inl e" "quiet s s'"
  | (undone) "undo" "undo_stack s \<noteq> []" "landed s s'" "scene s' = last (undo_stack s)" "undo_stack s' = butlast (undo_stack s)"
      "redo_stack s' = redo_stack s @ [scene s]"
  | (redone) "\<not> undo" "redo_stack s \<noteq> []" "landed s s'" "scene s' = last (redo_stack s)" "redo_stack s' = butlast (redo_stack s)"
      "undo_stack s' = undo_stack s @ [scene s]"
proof (cases "(if undo then undo_stack s else redo_stack s) = []")
  case True
  then show thesis using assms refused by (auto simp: travel_def fail_with_def)
next
  case False
  note run = assms [unfolded travel_def, simplified False if_False]
  from run show thesis
  proof (cases rule: and_do_cases)
    case (failed e)
    then show thesis using refused edited_quiet leavesD [OF prepareEdit_leaves] by blast
  next
    case (went_on x s1)
    have e1: "edited s1 = edited s"
      using leavesD [OF prepareEdit_leaves went_on(1)] .
    let ?d = "last (if undo then undo_stack s1 else redo_stack s1)"
    from went_on(2) [unfolded Let_def] show thesis
    proof (cases rule: and_do_cases)
      case (failed e)
      from failed(1) have "quiet s1 s'" by (cases rule: apply_scene_cases) auto
      then show thesis using refused failed(2) quiet_trans [OF edited_quiet [OF e1]] by blast
    next
      case (went_on n s2)
      from went_on(1) have s2: "n = next_revision s1"
        "s2 = s1\<lparr>next_revision := next_revision s1 + 1, applied_revision := next_revision s1, application_known := True,
              shown := Some (?d, next_revision s1)\<rparr>"
        by (cases rule: apply_scene_cases; auto)+
      from went_on(2) obtain s3 where s3: "s3 = (if undo then s2\<lparr>redo_stack := redo_stack s2 @ [scene s2], undo_stack := butlast (undo_stack s2)\<rparr>
                 else s2\<lparr>undo_stack := undo_stack s2 @ [scene s2], redo_stack := butlast (redo_stack s2)\<rparr>)
                \<lparr>scene := ?d, revision := n\<rparr>" and save: "autosave v s3 = (r, s')"
        by (cases rule: and_do_cases) (simp_all add: update_def Let_def)
      have e3: "edited s' = edited s3"
        using leavesD [OF autosave_leaves save] .
      show thesis
      proof (cases undo)
        case True
        show thesis
          by (rule undone) (use True False e1 e3 in \<open>simp_all add: s3 s2 edited_def landed_def\<close>)
      next
        case redo: False
        show thesis
          by (rule redone) (use redo False e1 e3 in \<open>simp_all add: s3 s2 edited_def landed_def\<close>)
      qed
    qed
  qed
qed

lemma reload_cases:
  assumes "reload v s = (r, s')"
  obtains (refused) e where "r = Inl e" "quiet s s'"
  | (reloaded) d fs target where "r = Inr ()" "landed s s'" "scene s' = d" "undo_stack s' = []" "redo_stack s' = []"
      "source s = Some target" "readDocument v target fs = Inr (d, the (file_digests s' target))" "saved_scene s' = d"
      "saved_revision s' = revision s'"
proof (cases "source s")
  case None
  then show thesis using assms refused by (auto simp: reload_def fail_with_def)
next
  case (Some target)
  note run = assms [unfolded reload_def Some option.case]
  from run show thesis
  proof (cases rule: and_do_cases)
    case (failed e)
    then show thesis by (simp add: meanwhile_def update_def)
  next
    case (went_on x s1)
    then have s1: "s1 = s\<lparr>disk := others v AtLoad (disk s)\<rparr>"
      by (simp add: meanwhile_def update_def)
    from went_on(2) show thesis
    proof (cases rule: and_do_cases)
      case (failed e)
      then show thesis using refused by (auto simp: on_disk_def s1 quiet_def)
    next
      case (went_on dd s2)
      obtain d g where dd: "dd = (d, g)" by fastforce
      have s2: "s2 = s1" "readDocument v target (disk s1) = Inr (d, g)"
        using went_on(1) dd by (auto simp: on_disk_def)
      from went_on(2) [unfolded dd prod.case] show thesis
      proof (cases rule: and_do_cases)
        case (failed e)
        from failed(1) have "quiet s2 s'" by (cases rule: apply_scene_cases) auto
        then show thesis using refused failed(2) by (auto simp: s1 s2 quiet_def)
      next
        case (went_on n s3)
        from went_on(1) have s3: "n = next_revision s2"
          "s3 = s2\<lparr>next_revision := next_revision s2 + 1, applied_revision := next_revision s2, application_known := True,
              shown := Some (d, next_revision s2)\<rparr>"
          by (cases rule: apply_scene_cases; auto)+
        show thesis
          using went_on(2) s2(2) Some
          by (intro reloaded [of d target "disk s1"]) (auto simp: update_def s3 s2(1) s1 landed_def)
      qed
    qed
  qed
qed

text \<open>The part of the store that the preparation of an edit and playback leave alone.\<close>

definition documents :: "store \<Rightarrow> _" where
  "documents s =
     ((scene s, revision s, undo_stack s, redo_stack s, next_revision s, applied_revision s, application_known s, shown s),
      (saved_scene s, saved_revision s, source s, file_digests s, disk s))"

lemma documents_quiet: "documents s' = documents s \<Longrightarrow> quiet s s'"
  by (simp add: documents_def quiet_def)

lemma candidate_leaves [leaves_rules]: "leaves documents (candidate_of v op request)"
proof -
  have "leaves documents (add_candidate v request)"
    unfolding add_candidate_def Let_def
    by (rule leaves_and_do [OF leaves_update leaves_and_do [OF leaves_basic(1) leaves_at_state]], simp add: documents_def)
      (intro leaves_rules)
  moreover have "leaves documents (update_candidate v request)"
    unfolding update_candidate_def Let_def
    by (rule leaves_and_do [OF leaves_update leaves_and_do [OF leaves_basic(1) leaves_at_state]], simp add: documents_def)
      (intro leaves_rules)
  moreover have "leaves documents (delete_candidate request)"
    unfolding delete_candidate_def Let_def
    by (rule leaves_and_do [OF leaves_basic(1) leaves_at_state]) (intro leaves_rules)
  moreover have "leaves documents (replace_candidate v request)"
    unfolding replace_candidate_def by (intro leaves_rules) (simp_all add: documents_def)
  ultimately show ?thesis
    unfolding candidate_of_def by (auto intro: leaves_rules)
qed

lemma playback_leaves [leaves_rules]: "leaves documents (playback v op)"
proof -
  have "leaves documents (and_do (sceneTimeLocked v) (\<lambda>t.
          and_do (update (\<lambda>s'. s'\<lparr>playing := (op = ''play''), elapsed := (if op = ''reset'' then 0 else t)\<rparr>)) (\<lambda>_.
          and_do (nowLocked v) (\<lambda>now. update (\<lambda>s'. s'\<lparr>started_at := now\<rparr>)))))"
    by (intro leaves_rules) (simp_all add: documents_def)
  then show ?thesis
    by (auto simp: leaves_def playback_def split: option.split)
qed


end
