(* ===== verification/Scene_History.thy ===== *)
theory Scene_History
  imports Scene_Store
begin

section \<open>The scene store as an editing history\<close>

text \<open>
  What the commands of \<open>Scene_Store\<close> do to the documents and to the receipts: every command refines one step of an abstract
  editor with a past, a present and a future; documents stay well formed; a revision number never names two documents; the
  index of receipts agrees with their list.
\<close>

subsection \<open>Documents stay well formed\<close>

lemma document_okD:
  assumes "document_ok d"
  obtains m os where "d = JObject m" "oo_ok m" "oo_find m ''obstacles'' = Some (JArray os)" "obstacles_ok os" "obstacle_list d = os"
  using assms by (cases d) (auto simp: document_ok_def obstacle_list_def split: option.splits json.splits)

lemma with_obstacles_ok:
  assumes "document_ok d" "obstacles_ok os"
  shows "document_ok (with_obstacles d os)"
  using assms(1)
proof (rule document_okD)
  fix m os'
  assume "d = JObject m" "oo_ok m"
  then show ?thesis
    using assms(2) oobj.ok_set [of m] by (simp add: with_obstacles_def document_ok_def oo_find_set)
qed

lemma part_total_filter: "part_total (filter p os) \<le> part_total os"
  by (induction os) (auto simp: part_total_def)

lemma obstacles_ok_filter:
  assumes "obstacles_ok os"
  shows "obstacles_ok (filter p os)"
proof -
  have "distinct (map obstacle_id (filter p os))"
    using assms by (simp add: obstacles_ok_def identified_def distinct_map_filter)
  then show ?thesis
    using assms part_total_filter [of p os] le_trans [OF length_filter_le [of p os], of 512]
    by (auto simp: obstacles_ok_def identified_def list_all_iff)
qed

lemma obstacles_ok_Nil [simp]: "obstacles_ok []"
  by (simp add: obstacles_ok_def identified_def part_total_def)

lemma replace_first_all: "list_all q xs \<Longrightarrow> q y \<Longrightarrow> list_all q (replace_first p y xs)"
  by (induction xs) auto

lemma candidate_ok:
  assumes "candidate_of v op request s = (Inr d, s')" "document_ok (scene s)"
  shows "document_ok d"
proof -
  have os: "obstacles_ok (obstacle_list (scene s))" "list_all obstacle_ok (obstacle_list (scene s))"
    using assms(2) by (auto elim!: document_okD simp: obstacles_ok_def)
  show ?thesis
    using assms os
    by (auto simp: candidate_of_def add_candidate_def update_candidate_def delete_candidate_def replace_candidate_def and_do_def
        pure_def check_def update_def require_def Let_def checkObstacleSet_iff obstacle_Inr_ok replace_first_all document_accepted
        intro!: with_obstacles_ok obstacles_ok_filter
        split: if_splits prod.splits sum.splits)
qed

subsection \<open>Refinement of an editing history\<close>

text \<open>What an editor promises: a present document with its past and its future; an edit forgets the future, undo and redo move
  one document, and at most 128 documents are kept. Every change has a new number.\<close>

record history =
  past :: "json list"
  present :: json
  future :: "json list"
  number_of :: nat

definition keep_last :: "nat \<Rightarrow> 'a list \<Rightarrow> 'a list" where
  "keep_last n xs = drop (length xs - n) xs"

lemma keep_last_tl: "length xs = Suc n \<Longrightarrow> keep_last n xs = tl xs"
  by (simp add: keep_last_def drop_Suc)

lemma keep_last_all: "length xs \<le> n \<Longrightarrow> keep_last n xs = xs"
  by (simp add: keep_last_def)

inductive history_step :: "history \<Rightarrow> history \<Rightarrow> bool" where
  stay: "history_step h h"
| renumber: "number_of h < n \<Longrightarrow> history_step h (h\<lparr>number_of := n\<rparr>)"
| edit: "number_of h < n \<Longrightarrow> history_step h \<lparr>past = keep_last 128 (past h @ [present h]), present = d, future = [], number_of = n\<rparr>"
| undo: "number_of h < n \<Longrightarrow> past h = ps @ [d] \<Longrightarrow>
    history_step h \<lparr>past = ps, present = d, future = future h @ [present h], number_of = n\<rparr>"
| redo: "number_of h < n \<Longrightarrow> future h = fs @ [d] \<Longrightarrow>
    history_step h \<lparr>past = past h @ [present h], present = d, future = fs, number_of = n\<rparr>"
| reload: "number_of h < n \<Longrightarrow> history_step h \<lparr>past = [], present = d, future = [], number_of = n\<rparr>"

definition history_of :: "store \<Rightarrow> history" where
  "history_of s = \<lparr>past = undo_stack s, present = scene s, future = redo_stack s, number_of = revision s\<rparr>"

text \<open>The invariant of the store.\<close>

definition documents_ok :: "store \<Rightarrow> bool" where
  "documents_ok s \<longleftrightarrow>
     document_ok (scene s) \<and> list_all document_ok (undo_stack s) \<and> list_all document_ok (redo_stack s)
     \<and> length (undo_stack s) + length (redo_stack s) \<le> 128"

definition revisions_ok :: "store \<Rightarrow> bool" where
  "revisions_ok s \<longleftrightarrow>
     revision s < next_revision s \<and> applied_revision s < next_revision s
     \<and> (application_known s \<longrightarrow> applied_revision s = revision s \<and> shown s = Some (scene s, revision s))"

lemma quiet_ok: "quiet s s' \<Longrightarrow> documents_ok s \<Longrightarrow> documents_ok s'" "quiet s s' \<Longrightarrow> revisions_ok s \<Longrightarrow> revisions_ok s'"
  by (auto simp: quiet_def documents_ok_def revisions_ok_def)

lemma quiet_history: "quiet s s' \<Longrightarrow> history_of s' = history_of s"
  by (simp add: quiet_def history_of_def)

lemma landed_revisions: "landed s s' \<Longrightarrow> revisions_ok s'"
  by (simp add: landed_def revisions_ok_def)

definition safe_step :: "store \<Rightarrow> store \<Rightarrow> bool" where
  "safe_step s s' \<longleftrightarrow>
     (documents_ok s \<and> revisions_ok s \<longrightarrow>
        documents_ok s' \<and> revisions_ok s' \<and> history_step (history_of s) (history_of s') \<and> next_revision s \<le> next_revision s')"

lemma quiet_safe: "quiet s s' \<Longrightarrow> safe_step s s'"
  using quiet_ok [of s s'] quiet_history [of s s']
  by (auto simp: safe_step_def quiet_def intro: history_step.stay)

lemma landed_safe:
  assumes "landed s s'"
    and "documents_ok s \<Longrightarrow> documents_ok s'"
    and "revision s < revision s' \<Longrightarrow> documents_ok s \<Longrightarrow> history_step (history_of s) (history_of s')"
  shows "safe_step s s'"
  using assms landed_revisions [OF assms(1)] by (auto simp: safe_step_def landed_def revisions_ok_def)

lemma commit_edit_safe:
  assumes "commit_edit v d s = (r, s')" "document_ok (scene s) \<Longrightarrow> document_ok d"
  shows "safe_step s s'"
  using assms(1)
proof (cases rule: commit_edit_cases)
  case edited_scene
  have keep: "undo_stack s' = keep_last 128 (undo_stack s @ [scene s])" if "documents_ok s"
    using edited_scene(4) that keep_last_tl [of "undo_stack s @ [scene s]" 128] keep_last_all [of "undo_stack s @ [scene s]" 128]
    by (auto simp: documents_ok_def split: if_splits)
  then have "documents_ok s'" if "documents_ok s"
    using edited_scene that assms(2)
    by (auto simp: documents_ok_def keep_last_def list_all_iff dest!: in_set_dropD)
  moreover have "history_step (history_of s) (history_of s')" if "revision s < revision s'" "documents_ok s"
    using history_step.edit [of "history_of s" "revision s'" d] that edited_scene keep by (simp add: history_of_def)
  ultimately show ?thesis
    by (intro landed_safe [OF edited_scene(1)])
qed (auto intro: quiet_safe)

lemma travel_safe:
  assumes "travel v u s = (r, s')"
  shows "safe_step s s'"
  using assms
proof (cases rule: travel_cases)
  case undone
  then have split: "undo_stack s = undo_stack s' @ [scene s']" by simp
  have "history_step (history_of s) (history_of s')" if "revision s < revision s'"
    using history_step.undo [of "history_of s" "revision s'" "undo_stack s'" "scene s'"] that undone(6) split
    by (simp add: history_of_def)
  moreover have "documents_ok s'" if "documents_ok s"
    using that split undone(6) by (simp add: documents_ok_def)
  ultimately show ?thesis
    by (intro landed_safe [OF undone(3)])
next
  case redone
  then have split: "redo_stack s = redo_stack s' @ [scene s']" by simp
  have "history_step (history_of s) (history_of s')" if "revision s < revision s'"
    using history_step.redo [of "history_of s" "revision s'" "redo_stack s'" "scene s'"] that redone(6) split
    by (simp add: history_of_def)
  moreover have "documents_ok s'" if "documents_ok s"
    using that split redone(6) by (simp add: documents_ok_def)
  ultimately show ?thesis
    by (intro landed_safe [OF redone(3)])
qed (auto intro: quiet_safe)

lemma readDocument_ok: "readDocument v target fs = Inr (d, g) \<Longrightarrow> document_ok d"
  by (auto simp: readDocument_def dest: document_accepted)

lemma reload_safe:
  assumes "reload v s = (r, s')"
  shows "safe_step s s'"
  using assms
proof (cases rule: reload_cases)
  case (reloaded d fs target)
  have "history_step (history_of s) (history_of s')" if "revision s < revision s'"
    using history_step.reload [of "history_of s" "revision s'" d] that reloaded by (simp add: history_of_def)
  moreover have "documents_ok s'"
    using reloaded readDocument_ok by (simp add: documents_ok_def)
  ultimately show ?thesis
    by (intro landed_safe [OF reloaded(2)])
qed (auto intro: quiet_safe)

lemma resync_safe:
  assumes "and_do (apply_scene v (scene s)) (\<lambda>n. update (\<lambda>s'. s'\<lparr>revision := n\<rparr>)) s = (r, s')"
  shows "safe_step s s'"
  using assms
proof (cases rule: and_do_cases)
  case (failed e)
  from failed(1) have "quiet s s'" by (cases rule: apply_scene_cases) auto
  then show ?thesis by (rule quiet_safe)
next
  case (went_on n s1)
  from went_on(1) have s1: "n = next_revision s"
    "s1 = s\<lparr>next_revision := next_revision s + 1, applied_revision := next_revision s, application_known := True,
              shown := Some (scene s, next_revision s)\<rparr>"
    by (cases rule: apply_scene_cases; auto)+
  then have s': "s' = s1\<lparr>revision := n\<rparr>"
    using went_on(2) by (simp add: update_def)
  have "history_step (history_of s) (history_of s')" if "revision s < revision s'"
    using history_step.renumber [of "history_of s" "revision s'"] that by (simp add: s' s1 history_of_def)
  moreover have "landed s s'" "documents_ok s \<Longrightarrow> documents_ok s'"
    by (simp_all add: s' s1 landed_def documents_ok_def)
  ultimately show ?thesis
    by (intro landed_safe)
qed

lemma execute_safe:
  assumes "execute v request s = (r, s')"
  shows "safe_step s s'"
proof -
  have save: "safe_step s1 s'" if "and_do (checkSource v) (\<lambda>_. save v) s1 = (r, s')" for s1
  proof -
    have "leaves edited (and_do (checkSource v) (\<lambda>_. save v))" by (intro leaves_rules)
    then show ?thesis using leavesD that edited_quiet quiet_safe by blast
  qed
  have play: "safe_step s1 s'" if "playback v op s1 = (r, s')" for op s1
    using leavesD [OF playback_leaves that] documents_quiet quiet_safe by blast
  have edit: "safe_step s1 s'" if "and_do (candidate_of v op request) (commit_edit v) s1 = (r, s')" for op s1
    using that
  proof (cases rule: and_do_cases)
    case (failed e)
    then show ?thesis using leavesD [OF candidate_leaves failed(1)] documents_quiet quiet_safe by blast
  next
    case (went_on d s2)
    have same: "documents s2 = documents s1"
      using leavesD [OF candidate_leaves went_on(1)] .
    have "safe_step s2 s'"
      using candidate_ok [OF went_on(1)] same by (intro commit_edit_safe [OF went_on(2)]) (simp add: documents_def)
    then show ?thesis
      using same by (simp add: safe_step_def documents_ok_def revisions_ok_def history_of_def documents_def)
  qed
  show ?thesis
    using assms unfolding execute_def
  proof (cases rule: and_do_cases)
    case (failed e)
    then show ?thesis by (auto simp: pure_def intro: quiet_safe)
  next
    case (went_on op s1)
    then have s1: "s1 = s" by (simp add: pure_def)
    from went_on(2) show ?thesis
      by (auto simp: s1 fail_with_def intro: quiet_safe resync_safe save reload_safe play travel_safe edit split: if_splits)
  qed
qed

subsection \<open>Receipts\<close>

definition ledger :: "store \<Rightarrow> _" where
  "ledger s = (requests s, request_ids s, frozen s, in_hook s, epoch s)"

lemma leaves_coarser: "leaves c f \<Longrightarrow> (\<And>s s'. c s = c s' \<Longrightarrow> d s = d s') \<Longrightarrow> leaves d f"
  unfolding leaves_def by blast

lemma ledger_of_edited: "leaves edited f \<Longrightarrow> leaves ledger f"
  by (erule leaves_coarser) (simp add: edited_def ledger_def)

lemmas ledger_rules =
  ledger_of_edited [OF checkSource_leaves] ledger_of_edited [OF save_leaves] ledger_of_edited [OF prepareEdit_leaves]
  ledger_of_edited [OF autosave_leaves]

lemma apply_scene_ledger: "leaves ledger (apply_scene v d)"
  by (simp add: leaves_def apply_scene_def Let_def ledger_def split: option.split)

lemma commit_edit_ledger: "leaves ledger (commit_edit v d)"
proof -
  have "leaves ledger (and_do (prepareEdit v) (\<lambda>_.
        and_do (apply_scene v d) (\<lambda>r.
        and_do (update (\<lambda>s'.
          (let pushed = undo_stack s' @ [scene s']
           in s'\<lparr>undo_stack := (if 128 < length pushed then tl pushed else pushed), redo_stack := [],
                 scene := d, revision := r\<rparr>))) (\<lambda>_. autosave v))))"
    by (intro leaves_and_do ledger_rules apply_scene_ledger leaves_update) (simp add: ledger_def Let_def)
  then show ?thesis
    by (simp add: leaves_def commit_edit_def)
qed

lemma travel_ledger: "leaves ledger (travel v u)"
proof -
  have moved: "leaves ledger (\<lambda>s1. let replacement = last (if u then undo_stack s1 else redo_stack s1)
           in and_do (apply_scene v replacement) (\<lambda>r.
              and_do (update (\<lambda>s2.
                (if u then s2\<lparr>redo_stack := redo_stack s2 @ [scene s2], undo_stack := butlast (undo_stack s2)\<rparr>
                 else s2\<lparr>undo_stack := undo_stack s2 @ [scene s2], redo_stack := butlast (redo_stack s2)\<rparr>)
                \<lparr>scene := replacement, revision := r\<rparr>)) (\<lambda>_. autosave v)) s1)"
    unfolding Let_def
    by (rule leaves_at_state, intro leaves_and_do ledger_rules apply_scene_ledger leaves_update) (simp add: ledger_def)
  show ?thesis
    using leaves_and_do [OF ledger_rules(3) moved] by (auto simp: leaves_def travel_def fail_with_def)
qed

lemma reload_ledger: "leaves ledger (reload v)"
proof -
  have "leaves ledger (and_do (meanwhile v AtLoad) (\<lambda>_.
          and_do (on_disk (readDocument v target)) (\<lambda>(replacement, loaded_digest).
          and_do (apply_scene v replacement) (\<lambda>r.
            update (\<lambda>s'. s'\<lparr>scene := replacement, revision := r, saved_scene := replacement, saved_revision := r,
                            file_digests := (file_digests s')(target \<mapsto> loaded_digest), undo_stack := [], redo_stack := []\<rparr>)))))" for target
    by (intro leaves_and_do leaves_meanwhile leaves_basic) (auto simp: ledger_def intro!: leaves_and_do apply_scene_ledger leaves_update)
  then show ?thesis
    by (simp add: leaves_def reload_def fail_with_def split: option.split)
qed

lemma playback_ledger: "leaves ledger (playback v op)"
proof -
  have "leaves ledger (and_do (sceneTimeLocked v) (\<lambda>t.
          and_do (update (\<lambda>s'. s'\<lparr>playing := (op = ''play''), elapsed := (if op = ''reset'' then 0 else t)\<rparr>)) (\<lambda>_.
          and_do (nowLocked v) (\<lambda>now. update (\<lambda>s'. s'\<lparr>started_at := now\<rparr>)))))"
    by (intro leaves_rules) (simp_all add: ledger_def)
  then show ?thesis
    by (auto simp: leaves_def playback_def split: option.split)
qed

lemma candidate_ledger: "leaves ledger (candidate_of v op request)"
proof -
  have "leaves ledger (add_candidate v request)" "leaves ledger (update_candidate v request)"
    unfolding add_candidate_def update_candidate_def Let_def
    by (rule leaves_and_do [OF leaves_update leaves_and_do [OF leaves_basic(1) leaves_at_state]]; simp add: ledger_def; intro leaves_rules)+
  moreover have "leaves ledger (delete_candidate request)"
    unfolding delete_candidate_def Let_def
    by (rule leaves_and_do [OF leaves_basic(1) leaves_at_state]) (intro leaves_rules)
  moreover have "leaves ledger (replace_candidate v request)"
    unfolding replace_candidate_def by (intro leaves_rules) (simp_all add: ledger_def)
  ultimately show ?thesis
    unfolding candidate_of_def by (auto intro: leaves_rules)
qed

lemma execute_ledger: "leaves ledger (execute v request)"
proof -
  have resync: "leaves ledger (and_do (apply_scene v d) (\<lambda>r. update (\<lambda>s'. s'\<lparr>revision := r\<rparr>)))" for d
    by (intro leaves_and_do apply_scene_ledger leaves_update) (simp add: ledger_def)
  have save: "leaves ledger (and_do (checkSource v) (\<lambda>_. save v))"
    by (intro leaves_and_do ledger_rules)
  have edit: "leaves ledger (and_do (candidate_of v op request) (commit_edit v))" for op
    by (intro leaves_and_do candidate_ledger commit_edit_ledger)
  show ?thesis
    unfolding execute_def
    by (intro leaves_and_do leaves_basic)
       (use resync save edit reload_ledger [of v] playback_ledger [of v] travel_ledger [of v] in \<open>simp add: leaves_def fail_with_def\<close>)
qed


text \<open>The index of receipts agrees with the list, which has at most 256 entries with distinct ids.\<close>

definition receipts_ok :: "store \<Rightarrow> bool" where
  "receipts_ok s \<longleftrightarrow>
     distinct (map receipt_id (requests s)) \<and> length (requests s) \<le> 256
     \<and> request_ids s = map_of (map (\<lambda>r. (receipt_id r, r)) (requests s))"

definition indexed :: "receipt list \<Rightarrow> (string \<rightharpoonup> receipt)" where
  "indexed rs = map_of (map (\<lambda>r. (receipt_id r, r)) rs)"

lemma indexed_None: "indexed rs i = None \<longleftrightarrow> i \<notin> receipt_id ` set rs"
  by (auto simp: indexed_def map_of_eq_None_iff image_iff)

lemma indexed_Some: "distinct (map receipt_id rs) \<Longrightarrow> indexed rs i = Some r \<longleftrightarrow> r \<in> set rs \<and> receipt_id r = i"
  by (induction rs) (auto simp: indexed_def image_iff)

lemma indexed_Cons: "indexed (r # rs) = (indexed rs)(receipt_id r \<mapsto> r)"
  by (simp add: indexed_def)

lemma indexed_cong:
  assumes "distinct (map receipt_id rs)" "distinct (map receipt_id rs')" "set rs = set rs'"
  shows "indexed rs = indexed rs'"
  using assms unfolding indexed_def by (subst map_of_inject_set) (simp_all add: comp_def)

lemma indexed_snoc: "receipt_id r \<notin> receipt_id ` set rs \<Longrightarrow> indexed (rs @ [r]) = (indexed rs)(receipt_id r \<mapsto> r)"
  by (induction rs) (auto simp: indexed_def fun_upd_twist)

lemma indexed_forget:
  assumes "distinct (map receipt_id (ds @ rs))"
  shows "fold (\<lambda>r m. m(receipt_id r := None)) ds (indexed (ds @ rs)) = indexed rs"
  using assms
proof (induction ds)
  case (Cons d ds)
  have "receipt_id d \<notin> receipt_id ` set (ds @ rs)"
    using Cons.prems by auto
  then have "indexed (ds @ rs) (receipt_id d) = None"
    unfolding indexed_None .
  then have "(indexed ((d # ds) @ rs))(receipt_id d := None) = indexed (ds @ rs)"
    by (simp add: indexed_Cons fun_upd_idem)
  moreover have "distinct (map receipt_id (ds @ rs))"
    using Cons.prems by simp
  ultimately show ?case
    using Cons.IH by (simp del: fun_upd_apply)
qed simp

lemma receipts_ok_indexed: "receipts_ok s \<longleftrightarrow>
    distinct (map receipt_id (requests s)) \<and> length (requests s) \<le> 256 \<and> request_ids s = indexed (requests s)"
  by (simp add: receipts_ok_def indexed_def)

lemma trim_receipts_ok:
  assumes "distinct (map receipt_id (requests s))" "request_ids s = indexed (requests s)"
  shows "receipts_ok (trim_receipts s)"
proof -
  let ?n = "length (requests s) - 256"
  have "fold (\<lambda>r m. m(receipt_id r := None)) (take ?n (requests s)) (indexed (take ?n (requests s) @ drop ?n (requests s)))
      = indexed (drop ?n (requests s))"
    by (rule indexed_forget) (use assms(1) in simp)
  then show ?thesis
    using assms by (simp add: receipts_ok_indexed trim_receipts_def Let_def drop_map [symmetric])
qed

lemma record_receipt_ok:
  assumes "receipts_ok s" "request_ids s i = None"
  shows "receipts_ok (record_receipt i p result s)"
proof -
  have "i \<notin> receipt_id ` set (requests s)"
    using assms by (simp add: receipts_ok_indexed indexed_None)
  then show ?thesis
    using assms unfolding record_receipt_def Let_def
    by (intro trim_receipts_ok) (auto simp: receipts_ok_indexed indexed_snoc)
qed

lemma promote_ok:
  assumes "receipts_ok s" "request_ids s i = Some r"
  shows "receipts_ok (promote r s)"
proof -
  have r: "r \<in> set (requests s)" and d: "distinct (map receipt_id (requests s))" and x: "request_ids s = indexed (requests s)"
    using assms by (auto simp: receipts_ok_indexed indexed_Some)
  have dist: "distinct (requests s)"
    using d by (simp add: distinct_map)
  have set: "set (remove1 r (requests s) @ [r]) = set (requests s)"
    using r dist by auto
  have "distinct (map receipt_id (remove1 r (requests s) @ [r]))"
    using d r dist by (auto simp: distinct_map inj_on_def)
  moreover from this have "indexed (remove1 r (requests s) @ [r]) = indexed (requests s)"
    using d set by (intro indexed_cong)
  moreover have "length (remove1 r (requests s) @ [r]) = length (requests s)"
    using r length_pos_if_in_set [OF r] by (simp add: length_remove1)
  ultimately show ?thesis
    using assms(1) x by (simp add: receipts_ok_indexed promote_def)
qed


subsection \<open>What one command does\<close>

lemma sceneTimeLocked_cases:
  obtains t n where "sceneTimeLocked v s = (Inr t, s\<lparr>readings := n\<rparr>)"
proof (cases "playing s")
  case True
  then show thesis using that by (simp add: sceneTimeLocked_def nowLocked_def and_do_def)
next
  case False
  then have "sceneTimeLocked v s = (Inr (elapsed s), s\<lparr>readings := readings s\<rparr>)"
    by (simp add: sceneTimeLocked_def)
  then show thesis by (rule that)
qed

lemma statusLocked_object:
  obtains st where "statusLocked s = JObject st" "oo_ok st"
  by (rule that [of "entries (statusLocked s)"]) (simp_all add: statusLocked_def oo_ok_def)

text \<open>A result is an object that carries the scene.\<close>

lemma resultLocked_cases:
  obtains m n where "resultLocked v failure s = (Inr (JObject m), s\<lparr>readings := n\<rparr>)" "oo_ok m" "oo_find m ''document'' = Some (scene s)"
    "oo_find m ''success'' = Some (JBool (failure = None))"
proof -
  obtain t n where time: "sceneTimeLocked v s = (Inr t, s\<lparr>readings := n\<rparr>)"
    by (rule sceneTimeLocked_cases)
  obtain st where st: "statusLocked (s\<lparr>readings := n\<rparr>) = JObject st" "oo_ok st"
    by (rule statusLocked_object)
  let ?e = "oo_set ''document'' (scene s) (oo_set ''sceneTime'' (JFloat (Double (Fin t))) st)"
  have e: "oo_ok ?e" "oo_find ?e ''document'' = Some (scene s)"
    using st(2) by (simp_all add: oobj.ok_set oo_find_set)
  have run: "envelopeLocked v s = (Inr (JObject ?e), s\<lparr>readings := n\<rparr>)"
    by (simp add: envelopeLocked_def and_do_def time st(1))
  show thesis
  proof (cases failure)
    case None
    show thesis
      by (rule that [of "oo_set ''success'' (JBool True) ?e" n])
         (use e in \<open>simp_all add: None resultLocked_def and_do_def run pure_def oobj.ok_set oo_find_set\<close>)
  next
    case (Some err)
    show thesis
      by (rule that [of "oo_set ''error'' (JString err) (oo_set ''success'' (JBool False) ?e)" n])
         (use e in \<open>simp_all add: Some resultLocked_def and_do_def run pure_def oobj.ok_set oo_find_set\<close>)
  qed
qed

text \<open>A receipt gives the result back.\<close>

lemma receipt_gives_result:
  assumes "oo_ok m" "oo_find m ''document'' = Some d"
  shows "receiptValue \<lparr>receipt_id = i, fingerprint = p, envelope = metadata_of (JObject m), receipt_document = d\<rparr> = JObject m"
proof -
  let ?f = "\<lambda>(k, x). (k, if k = ''document'' then JNull else x)"
  have "fold (\<lambda>(k, x). oo_set k (if k = ''document'' then JNull else x)) m [] = fold (\<lambda>(k, x). oo_set k x) (map ?f m) []"
    by (simp only: fold_map) (rule fold_cong; auto)
  also have "\<dots> = map ?f m"
    using assms(1) by (subst fold_oo_set) (simp_all add: oo_ok_def comp_def case_prod_beta)
  finally have meta: "metadata_of (JObject m) = JObject (map ?f m)"
    by (simp add: metadata_of_def)
  have "oo_find (map ?f m) ''document'' = Some JNull"
    using assms(2) by (induction m) (auto simp: oo_find_map_of split: if_splits)
  moreover have "oo_put ''document'' d (map ?f m) = m"
    using assms
  proof (induction m)
    case (Cons item m)
    then show ?case
    proof (cases "fst item = ''document''")
      case True
      then have "''document'' \<notin> fst ` set m" "snd item = d"
        using Cons.prems by (auto simp: oo_ok_def oo_find_map_of)
      then have "map ?f m = m"
        by (intro map_idI) (force split: if_splits)
      then show ?thesis
        using True \<open>snd item = d\<close> by (cases item) auto
    next
      case False
      then show ?thesis
        using Cons by (cases item) (auto simp: oo_ok_def oo_find_map_of)
    qed
  qed (simp add: oo_find_map_of)
  ultimately show ?thesis
    by (simp add: receiptValue_def meta oo_set_def oo_emplace_def)
qed

text \<open>A command that runs: new, and with the revision it expects.\<close>

definition admits :: "services \<Rightarrow> json \<Rightarrow> store \<Rightarrow> bool" where
  "admits v request s \<longleftrightarrow>
     \<not> in_hook s \<and> (\<exists>i p. incoming_request v request = Inr (Work i p) \<and> request_ids s i = None \<and> expects request s)"

lemma command_cases:
  assumes "command v request s = (r, s')"
  obtains (answered) "\<not> admits v request s" "documents s' = documents s" "ledger s' = ledger s"
  | (replayed) i p previous where "incoming_request v request = Inr (Work i p)" "request_ids s i = Some previous"
      "r = Inr (receiptValue previous)" "s' = promote previous s"
  | (ran) i p outcome s1 s2 m where "incoming_request v request = Inr (Work i p)" "request_ids s i = None" "expects request s"
      "execute v request s = (outcome, s1)" "documents s2 = documents s1" "ledger s2 = ledger s1"
      "oo_ok m" "oo_find m ''document'' = Some (scene s2)" "r = Inr (JObject m)" "s' = record_receipt i p (JObject m) s2"
      "oo_find m ''success'' = Some (JBool (\<not> isl outcome))"
  | (threw) i p e where "incoming_request v request = Inr (Work i p)" "request_ids s i = None" "expects request s"
      "execute v request s = (Inl e, s')" "handled e = None" "r = Inl e"
proof -
  obtain r0 s0 where tried: "try_command v request s = (r0, s0)" by fastforce
  have result: thesis if "\<not> admits v request s" "s0 = s" "resultLocked v failure s0 = (r, s')" for failure
    using that leavesD [OF resultLocked_leaves that(3), of documents] leavesD [OF resultLocked_leaves that(3), of ledger]
    by (intro answered) (simp_all add: documents_def ledger_def)
  have failed: thesis if "r0 = Inl (SceneError t)" "s0 = s" "\<not> admits v request s" for t
    using assms that tried by (intro result [of "Some t"]) (simp_all add: command_def)
  show thesis
  proof (cases "in_hook s")
    case True
    then show thesis using tried by (intro failed) (auto simp: try_command_def fail_with_def admits_def)
  next
    case ready: False
    show thesis
    proof (cases "incoming_request v request")
      case (Inl e)
      then have "(r0, s0) = (Inl e, s)" "\<not> admits v request s" using tried ready by (simp_all add: try_command_def admits_def)
      then show thesis
        using assms tried result [of "handled e"] answered
        by (cases "handled e") (auto simp: command_def)
    next
      case (Inr w)
      show thesis
      proof (cases w)
        case Look
        then have "resultLocked v None s = (r0, s0)" using tried ready Inr by (simp add: try_command_def)
        moreover obtain m n where "resultLocked v None s = (Inr (JObject m), s\<lparr>readings := n\<rparr>)" by (rule resultLocked_cases)
        ultimately show thesis
          using assms tried Inr Look by (intro answered) (auto simp: command_def documents_def ledger_def admits_def)
      next
        case work: (Work i p)
        show thesis
        proof (cases "request_ids s i")
          case (Some previous)
          show thesis
          proof (cases "fingerprint previous = p")
            case True
            then have "try_command v request s = (Inr (receiptValue previous), promote previous s)"
              using ready Inr work Some by (simp add: try_command_def)
            then show thesis
              using assms Inr work Some by (intro replayed) (auto simp: command_def)
          next
            case False
            then show thesis using tried ready Inr work Some by (intro failed) (auto simp: try_command_def fail_with_def admits_def)
          qed
        next
          case None
          show thesis
          proof (cases "expects request s")
            case False
            then show thesis using tried ready Inr work None by (intro failed) (auto simp: try_command_def fail_with_def admits_def)
          next
            case expected: True
            obtain outcome s1 where run: "execute v request s = (outcome, s1)" by fastforce
            note tried_run = tried [unfolded try_command_def, simplified ready Inr work None expected sum.case incoming.case option.case, simplified]
            note facts = Inr [unfolded work] None expected
            show thesis
            proof (cases "\<exists>e. outcome = Inl e \<and> handled e = None")
              case True
              then obtain e where e: "outcome = Inl e" "handled e = None" by blast
              then have "(r0, s0) = (Inl e, s1)" using tried_run run by (simp add: run_request_def)
              then show thesis
                using assms tried e run facts by (intro threw) (auto simp: command_def)
            next
              case False
              define failure where "failure = (case outcome of Inl e \<Rightarrow> handled e | Inr _ \<Rightarrow> None)"
              obtain m n where res: "resultLocked v failure s1 = (Inr (JObject m), s1\<lparr>readings := n\<rparr>)" "oo_ok m"
                "oo_find m ''document'' = Some (scene s1)" "oo_find m ''success'' = Some (JBool (failure = None))"
                by (rule resultLocked_cases)
              have "run_request v i p request s = (Inr (JObject m), record_receipt i p (JObject m) (s1\<lparr>readings := n\<rparr>))"
                using run False res(1) by (cases outcome) (auto simp: run_request_def failure_def and_do_def)
              then have "(r0, s0) = (Inr (JObject m), record_receipt i p (JObject m) (s1\<lparr>readings := n\<rparr>))"
                using tried_run by simp
              then have "r = Inr (JObject m)" "s' = record_receipt i p (JObject m) (s1\<lparr>readings := n\<rparr>)"
                using assms tried by (auto simp: command_def)
              moreover have "failure = None \<longleftrightarrow> \<not> isl outcome"
                using False by (cases outcome) (auto simp: failure_def)
              ultimately show thesis
                using facts run res by (intro ran [of i p outcome s1 "s1\<lparr>readings := n\<rparr>" m]) (simp_all add: documents_def ledger_def)
            qed
          qed
        qed
      qed
    qed
  qed
qed

end
