(* ===== verification/Scene_Commands.thy ===== *)
theory Scene_Commands
  imports Scene_History
begin

section \<open>Sequences of scene commands\<close>

text \<open>
  What holds of a store from its opening through any sequence of commands, whatever the hooks, the clock, the disk and the other
  processes do: the invariant, the refinement of the editing history, what an expected revision protects, how long a request can be
  repeated, and what a save leaves on the disk.
\<close>

subsection \<open>One command\<close>

lemma documents_record [simp]: "documents (record_receipt i p x s) = documents s"
  by (simp add: record_receipt_def trim_receipts_def documents_def Let_def)

lemma documents_promote [simp]: "documents (promote r s) = documents s"
  by (simp add: promote_def documents_def)

lemma safe_documents: "documents s2 = documents s1 \<Longrightarrow> safe_step s s1 \<Longrightarrow> safe_step s s2"
  by (simp add: safe_step_def documents_ok_def revisions_ok_def history_of_def documents_def)

lemma same_documents_safe: "documents s' = documents s \<Longrightarrow> safe_step s s'"
  by (intro quiet_safe documents_quiet)

lemma command_safe:
  assumes "command v request s = (r, s')"
  shows "safe_step s s'"
  using assms
proof (cases rule: command_cases)
  case (ran i p outcome s1 s2 m)
  then show ?thesis
    using execute_safe [OF ran(4)] by (auto intro: safe_documents)
qed (auto intro: same_documents_safe execute_safe)

lemma ledger_receipts: "ledger s' = ledger s \<Longrightarrow> receipts_ok s' = receipts_ok s"
  by (simp add: ledger_def receipts_ok_def)

lemma command_receipts:
  assumes "command v request s = (r, s')" "receipts_ok s"
  shows "receipts_ok s'"
  using assms(1)
proof (cases rule: command_cases)
  case (ran i p outcome s1 s2 m)
  have "ledger s2 = ledger s"
    using ran leavesD [OF execute_ledger ran(4)] by simp
  then have "receipts_ok s2" "request_ids s2 i = None"
    using assms(2) ran(2) ledger_receipts [of s2 s] by (simp_all add: ledger_def)
  then show ?thesis
    using ran(10) record_receipt_ok by simp
next
  case (threw i p e)
  then show ?thesis
    using leavesD [OF execute_ledger threw(4)] ledger_receipts [of s' s] assms(2) by simp
next
  case answered
  then show ?thesis using ledger_receipts [of s' s] assms(2) by simp
next
  case (replayed i p previous)
  then show ?thesis using promote_ok assms(2) by simp
qed

lemma command_same_flags:
  assumes "command v request s = (r, s')"
  shows "in_hook s' = in_hook s" "epoch s' = epoch s" "frozen s' = frozen s"
proof -
  have "(in_hook s', epoch s', frozen s') = (in_hook s, epoch s, frozen s)"
    using assms
  proof (cases rule: command_cases)
    case (ran i p outcome s1 s2 m)
    then show ?thesis
      using leavesD [OF execute_ledger ran(4)] by (simp add: ledger_def record_receipt_def trim_receipts_def Let_def)
  next
    case (threw i p e)
    then show ?thesis
      using leavesD [OF execute_ledger threw(4)] by (simp add: ledger_def)
  qed (simp_all add: ledger_def promote_def)
  then show "in_hook s' = in_hook s" "epoch s' = epoch s" "frozen s' = frozen s"
    by simp_all
qed

subsection \<open>Reachable stores\<close>

inductive scene_reachable :: "store \<Rightarrow> bool" where
  opened: "open_store v fresh_epoch initial src save_directory given is_frozen working fs = Inr s \<Longrightarrow> scene_reachable s"
| commanded: "scene_reachable s \<Longrightarrow> command v request s = (r, s') \<Longrightarrow> scene_reachable s'"

definition scene_inv :: "store \<Rightarrow> bool" where
  "scene_inv s \<longleftrightarrow> documents_ok s \<and> revisions_ok s \<and> receipts_ok s \<and> \<not> in_hook s"

lemma open_store_inv:
  assumes "open_store v fresh_epoch initial src save_directory given is_frozen working fs = Inr s"
  shows "scene_inv s"
  using assms
  by (auto simp: open_store_def Let_def scene_inv_def documents_ok_def revisions_ok_def receipts_ok_def document_accepted
      split: option.splits prod.splits)

lemma command_inv: "scene_inv s \<Longrightarrow> command v request s = (r, s') \<Longrightarrow> scene_inv s'"
  using command_safe [of v request s r s'] command_receipts [of v request s r s'] command_same_flags(1) [of v request s r s']
  by (auto simp: scene_inv_def safe_step_def)

lemma reachable_inv: "scene_reachable s \<Longrightarrow> scene_inv s"
  by (induction rule: scene_reachable.induct) (auto intro: open_store_inv command_inv)

text \<open>A run of commands, each with its own environment.\<close>

definition after_commands :: "(services \<times> json) list \<Rightarrow> store \<Rightarrow> store" where
  "after_commands qs s = fold (\<lambda>(v, request) s. snd (command v request s)) qs s"

lemma after_commands_simps [simp]:
  "after_commands [] s = s"
  "after_commands ((v, request) # qs) s = after_commands qs (snd (command v request s))"
  by (simp_all add: after_commands_def)

lemma after_commands_induct [case_names start step]:
  assumes "P s" and "\<And>v request s. P s \<Longrightarrow> P (snd (command v request s))"
  shows "P (after_commands qs s)"
  using assms(1)
proof (induction qs arbitrary: s)
  case (Cons q qs)
  then show ?case using assms(2) by (cases q) simp
qed simp

lemma after_commands_inv: "scene_inv s \<Longrightarrow> scene_inv (after_commands qs s)"
  by (rule after_commands_induct [of scene_inv]) (auto intro: command_inv [OF _ prod.collapse [symmetric]])

lemma history_step_number:
  assumes "history_step h h'"
  shows "number_of h < number_of h' \<or> number_of h' = number_of h \<and> present h' = present h"
  using assms by cases auto

lemma command_revision:
  assumes "scene_inv s"
  shows "revision s < revision (snd (command v request s))
    \<or> revision (snd (command v request s)) = revision s \<and> scene (snd (command v request s)) = scene s"
  using command_safe [of v request s "fst (command v request s)" "snd (command v request s)"] assms
    history_step_number [of "history_of s" "history_of (snd (command v request s))"]
  by (simp add: safe_step_def scene_inv_def history_of_def)

lemma after_commands_revision:
  assumes "scene_inv s"
  shows "revision s < revision (after_commands qs s)
    \<or> revision (after_commands qs s) = revision s \<and> scene (after_commands qs s) = scene s"
proof -
  let ?P = "\<lambda>s'. scene_inv s' \<and> (revision s < revision s' \<or> revision s' = revision s \<and> scene s' = scene s)"
  have "?P (after_commands qs s)"
  proof (rule after_commands_induct [of ?P])
    show "?P (snd (command v request s'))" if "?P s'" for v request s'
      using that command_revision [of s' v request] command_inv [of s' v request "fst (command v request s')" "snd (command v request s')"]
      by (auto intro: less_trans)
  qed (use assms in simp)
  then show ?thesis by blast
qed

lemma expects_revision:
  assumes "expects request s" "oo_find (entries request) ''expectedRevision'' = Some (JUnsigned n)"
  shows "revision s = n"
  using assms by (simp add: expects_def Let_def)


subsection \<open>A concrete store\<close>

definition sample_services :: services where
  "sample_services = \<lparr>maths = sample_math, quoting = Inr, digest = (\<lambda>t. t), yaml_text = (\<lambda>d. Inr ''scene''),
     yaml_value = (\<lambda>t. Inr sample_document), apply_hook = (\<lambda>d e n. None), motion_hook = (\<lambda>op e n. None), clock = of_nat,
     io_error = (\<lambda>p. None), others = (\<lambda>p fs. fs), writes = [], directory_exists = True, temporary = [''s'', ''.t'']\<rparr>"

definition sample_store :: store where
  "sample_store =
     \<lparr>frozen = False, working_file = None, scene = sample_document, epoch = ''e'', revision = 1, applied_revision = 1,
      application_known = True, next_revision = 2, saved_revision = 1, saved_scene = sample_document, source = None,
      save_root = None, file_digests = Map.empty, playing = False, elapsed = 0, started_at = 0, undo_stack = [], redo_stack = [],
      requests = [], request_ids = Map.empty, obstacle_validations = 0, disk = Map.empty, in_hook = False, readings = 1,
      shown = Some (sample_document, 1)\<rparr>"

lemma sample_opened:
  "open_store sample_services ''e'' sample_document None None None False None Map.empty = Inr sample_store"
  unfolding open_store_def
  by (simp add: sample_services_def sample_document_accepted known_digest_def sample_store_def Let_def)
     (simp add: sample_document_def obstacle_list_def oo_find_map_of)

lemma sample_reachable: "scene_reachable sample_store"
  by (rule opened) (rule sample_opened)

definition resync_request :: json where
  "resync_request = JObject [(''operation'', JString ''resync''), (''requestId'', JString ''a''), (''expectedEpoch'', JString ''e''),
     (''expectedRevision'', JUnsigned 1)]"

subsection \<open>The invariant and the editing history\<close>

text \<open>C12: In every store that commands reach from its opening, the scene and every document of the history are well formed, the
  history has at most 128 documents, the revision is one that was given out, whenever the application is known the apply hook last
  accepted exactly the scene at its revision, and the index of the receipts agrees with their list, of at most 256.\<close>

theorem scene_store_invariant:
  assumes "scene_reachable s"
  shows "document_ok (scene s) \<and> list_all document_ok (undo_stack s @ redo_stack s) \<and> length (undo_stack s) + length (redo_stack s) \<le> 128
    \<and> revision s < next_revision s
    \<and> (application_known s \<longrightarrow> applied_revision s = revision s \<and> shown s = Some (scene s, revision s))
    \<and> length (requests s) \<le> 256 \<and> request_ids s = map_of (map (\<lambda>r. (receipt_id r, r)) (requests s))"
  using reachable_inv [OF assms] by (simp add: scene_inv_def documents_ok_def revisions_ok_def receipts_ok_def)

theorem scene_store_invariant_witness: "document_ok (scene sample_store) \<and> shown sample_store = Some (scene sample_store, 1)"
  using scene_store_invariant [OF sample_reachable] by (simp add: sample_store_def)

text \<open>C11: Every command of the store is one step of the abstract editor: it keeps the history or only renumbers it, or it
  edits, undoes, redoes or reloads it, and it does nothing else to the documents.\<close>

theorem command_refines_history:
  assumes "scene_reachable s" "command v request s = (r, s')"
  shows "history_step (history_of s) (history_of s')"
  using command_safe [OF assms(2)] reachable_inv [OF assms(1)] by (simp add: safe_step_def scene_inv_def)

theorem command_refines_history_witness:
  "history_step (history_of sample_store) (history_of (snd (command sample_services resync_request sample_store)))"
  by (rule command_refines_history [OF sample_reachable prod.collapse [symmetric]])

text \<open>C13: Revision numbers protect a client: when a command that expects the revision of a scene seen earlier is admitted, any
  commands later, the scene it works on is the one that was seen; and a command that expects anything else leaves the scene, its
  history, its files and the applied revision as they are.\<close>

theorem edits_see_the_expected_scene:
  assumes "scene_reachable s" "oo_find (entries request) ''expectedRevision'' = Some (JUnsigned (revision s))"
    and "s' = after_commands qs s" "command v request s' = (r, s'')"
  shows "(expects request s' \<longrightarrow> scene s' = scene s) \<and> (\<not> expects request s' \<longrightarrow> documents s'' = documents s')"
proof -
  have "scene s' = scene s" if "expects request s'"
    using after_commands_revision [OF reachable_inv [OF assms(1)], of qs] expects_revision [OF that assms(2)] assms(3) by auto
  moreover have "documents s'' = documents s'" if "\<not> expects request s'"
    using assms(4) by (cases rule: command_cases) (use that in simp_all)
  ultimately show ?thesis by blast
qed


lemma sample_printed: "\<not> isl (dumpJson Inr (sortedFields resync_request))"
  by code_simp

lemma sample_incoming: "\<exists>p. incoming_request sample_services resync_request = Inr (Work ''a'' p)"
proof -
  obtain p where p: "dumpJson Inr (sortedFields resync_request) = Inr p"
    using sample_printed by (cases "dumpJson Inr (sortedFields resync_request)") auto
  have "Scene_Document.fields resync_request
      [''requestId'', ''expectedEpoch'', ''expectedRevision'', ''operation'', ''obstacle'', ''id'', ''document''] [''operation''] = Inr ()"
    by (simp add: Scene_Document.fields_def resync_request_def require_def oo_find_map_of contains_def)
  moreover have "json_at resync_request ''operation'' = Inr (JString ''resync'')"
    "value_or resync_request ''requestId'' JNull = Inr (JString ''a'')" "ValidReferenceId ''a''"
    by (simp_all add: resync_request_def json_at_def value_or_def oo_find_map_of ValidReferenceId_def identifierCharacter_def alnum_def
        within_def less_eq_char_def)
  ultimately show ?thesis
    using p by (simp add: incoming_request_def sample_services_def require_def)
qed

lemma sample_resynced:
  "\<exists>m s'. command sample_services resync_request sample_store = (Inr (JObject m), s') \<and> revision s' = 2"
proof -
  obtain p where p: "incoming_request sample_services resync_request = Inr (Work ''a'' p)"
    using sample_incoming by blast
  have "expects resync_request sample_store"
    by (simp add: expects_def resync_request_def sample_store_def oo_find_map_of)
  moreover have "json_at resync_request ''operation'' = Inr (JString ''resync'')"
    by (simp add: resync_request_def json_at_def oo_find_map_of)
  ultimately show ?thesis
    using p
    by (simp add: command_def try_command_def sample_store_def run_request_def execute_def and_do_def pure_def apply_scene_def
      sample_services_def update_def resultLocked_def envelopeLocked_def sceneTimeLocked_def statusLocked_def record_receipt_def
      trim_receipts_def Let_def)
qed

theorem edits_see_the_expected_scene_witness:
  "expects resync_request sample_store \<and> scene (after_commands [] sample_store) = scene sample_store
   \<and> documents (snd (command sample_services resync_request (after_commands [(sample_services, resync_request)] sample_store)))
     = documents (after_commands [(sample_services, resync_request)] sample_store)"
proof -
  let ?s = "after_commands [(sample_services, resync_request)] sample_store"
  have now: "expects resync_request sample_store"
    and asks: "oo_find (entries resync_request) ''expectedRevision'' = Some (JUnsigned (revision sample_store))"
    by (simp_all add: expects_def resync_request_def sample_store_def oo_find_map_of)
  have "revision ?s = 2"
    using sample_resynced by auto
  then have "\<not> expects resync_request ?s"
    by (simp add: expects_def resync_request_def oo_find_map_of)
  then show ?thesis
    using edits_see_the_expected_scene [OF sample_reachable asks refl prod.collapse [symmetric], of "[(sample_services, resync_request)]" sample_services]
      edits_see_the_expected_scene [OF sample_reachable asks refl prod.collapse [symmetric], of "[]" sample_services] now
    by simp
qed

subsection \<open>Repeating a request\<close>

text \<open>A receipt with at most \<open>n\<close> newer ones.\<close>

definition among_newest :: "nat \<Rightarrow> receipt \<Rightarrow> receipt list \<Rightarrow> bool" where
  "among_newest n r rs \<longleftrightarrow> (\<exists>as bs. rs = as @ r # bs \<and> length bs \<le> n)"

lemma among_newest_snoc: "among_newest n r rs \<Longrightarrow> among_newest (Suc n) r (rs @ [x])"
  unfolding among_newest_def by force

lemma among_newest_mono: "among_newest n r rs \<Longrightarrow> n \<le> m \<Longrightarrow> among_newest m r rs"
  unfolding among_newest_def by force

lemma among_newest_drop:
  assumes "among_newest n r rs" "k + n < length rs"
  shows "among_newest n r (drop k rs)"
proof -
  obtain as bs where "rs = as @ r # bs" "length bs \<le> n"
    using assms(1) by (auto simp: among_newest_def)
  moreover from this have "k \<le> length as"
    using assms(2) by simp
  ultimately show ?thesis
    unfolding among_newest_def by (intro exI [of _ "drop k as"] exI [of _ bs]) simp
qed

lemma among_newest_promote:
  assumes "among_newest n r rs"
  shows "among_newest (Suc n) r (remove1 x rs @ [x])"
proof (cases "x = r")
  case True
  then show ?thesis unfolding among_newest_def by (intro exI [of _ "remove1 x rs"] exI [of _ "[]"]) simp
next
  case False
  obtain as bs where rs: "rs = as @ r # bs" "length bs \<le> n"
    using assms by (auto simp: among_newest_def)
  have "among_newest n r (remove1 x rs)"
  proof (cases "x \<in> set as")
    case True
    then show ?thesis
      unfolding among_newest_def by (intro exI [of _ "remove1 x as"] exI [of _ bs]) (simp add: rs remove1_append)
  next
    case out: False
    show ?thesis
      unfolding among_newest_def
      by (intro exI [of _ as] exI [of _ "remove1 x bs"])
         (use False out rs in \<open>auto simp: remove1_append length_remove1\<close>)
  qed
  then show ?thesis by (rule among_newest_snoc)
qed

lemma among_newest_record:
  assumes "among_newest n r (requests s)" "n < 255"
  shows "among_newest (Suc n) r (requests (record_receipt i p x s))"
proof -
  let ?new = "\<lparr>receipt_id = i, fingerprint = p, envelope = metadata_of x, receipt_document = scene s\<rparr>"
  let ?rs = "requests s @ [?new]"
  have "among_newest (Suc n) r ?rs"
    using assms(1) by (rule among_newest_snoc)
  then have "among_newest (Suc n) r (drop (length ?rs - 256) ?rs)"
    using assms(2) by (cases "length ?rs \<le> 256") (auto intro!: among_newest_drop simp del: drop_append)
  then show ?thesis
    by (simp add: record_receipt_def trim_receipts_def Let_def)
qed

lemma command_newest:
  assumes "command v request s = (x, s')" "among_newest n r (requests s)" "n < 255"
  shows "among_newest (Suc n) r (requests s')"
  using assms(1)
proof (cases rule: command_cases)
  case answered
  then show ?thesis using assms(2) by (auto simp: ledger_def intro: among_newest_mono)
next
  case (replayed i p previous)
  then show ?thesis using assms(2) among_newest_promote by (simp add: promote_def)
next
  case (ran i p outcome s1 s2 m)
  have "requests s2 = requests s"
    using ran(6) leavesD [OF execute_ledger ran(4)] by (simp add: ledger_def)
  then show ?thesis
    using among_newest_record assms(2,3) ran(10) by simp
next
  case (threw i p e)
  then show ?thesis
    using assms(2) leavesD [OF execute_ledger threw(4)] by (auto simp: ledger_def intro: among_newest_mono)
qed

lemma after_commands_newest:
  assumes "among_newest n r (requests s)" "n + length qs < 256"
  shows "among_newest (n + length qs) r (requests (after_commands qs s))"
  using assms
proof (induction qs arbitrary: s n)
  case (Cons q qs)
  obtain v request where q: "q = (v, request)" by fastforce
  have "among_newest (Suc n) r (requests (snd (command v request s)))"
    using Cons.prems by (intro command_newest [OF prod.collapse [symmetric]]) auto
  then show ?case
    using Cons.IH [of "Suc n" "snd (command v request s)"] Cons.prems(2) by (simp add: q)
qed simp

lemma recorded_newest:
  "among_newest 0 \<lparr>receipt_id = i, fingerprint = p, envelope = metadata_of x, receipt_document = scene s\<rparr> (requests (record_receipt i p x s))"
  (is "among_newest 0 ?r _")
proof -
  have "among_newest 0 ?r (drop (length (requests s @ [?r]) - 256) (requests s @ [?r]))"
    by (rule among_newest_drop) (auto simp: among_newest_def)
  then show ?thesis
    by (simp add: record_receipt_def trim_receipts_def Let_def)
qed

lemma known_receipt_replays:
  assumes "scene_inv s" "among_newest n r (requests s)" "incoming_request v request = Inr (Work (receipt_id r) (fingerprint r))"
  shows "command v request s = (Inr (receiptValue r), promote r s)"
proof -
  have "r \<in> set (requests s)"
    using assms(2) by (auto simp: among_newest_def)
  then have "request_ids s (receipt_id r) = Some r"
    using assms(1) by (simp add: scene_inv_def receipts_ok_indexed indexed_Some)
  then show ?thesis
    using assms(1,3) by (simp add: command_def try_command_def scene_inv_def)
qed

text \<open>C14: A request that ran can be repeated: for the next 255 commands of any kind, sending it again returns the result of its
  run, field for field with the document it left, and changes neither the scene nor its history nor the files.\<close>

theorem repeated_request_replays:
  assumes "scene_reachable s" "admits v request s" "command v request s = (Inr result, s1)"
    and "length qs < 256" "s2 = after_commands qs s1" "quoting v' = quoting v"
  shows "fst (command v' request s2) = Inr result \<and> documents (snd (command v' request s2)) = documents s2"
proof -
  have same: "incoming_request v' = incoming_request v"
    by (rule ext) (simp only: incoming_request_def assms(6))
  from assms(3) show ?thesis
  proof (cases rule: command_cases)
    case (ran i p outcome s' s'' m)
    let ?r = "\<lparr>receipt_id = i, fingerprint = p, envelope = metadata_of (JObject m), receipt_document = scene s''\<rparr>"
    have "among_newest (0 + length qs) ?r (requests s2)"
      unfolding assms(5) by (rule after_commands_newest) (use recorded_newest ran(10) assms(4) in simp_all)
    moreover have "scene_inv s2"
      using assms(1,3,5) by (auto intro: after_commands_inv reachable_inv commanded)
    ultimately have "command v' request s2 = (Inr (receiptValue ?r), promote ?r s2)"
      using same ran(1) by (intro known_receipt_replays) simp_all
    then show ?thesis
      using receipt_gives_result [OF ran(7,8)] ran(9) by simp
  qed (use assms(2) in \<open>auto simp: admits_def\<close>)
qed


subsection \<open>Saving\<close>

named_theorems run_simps \<open>how basic operations run\<close>

lemma and_do_basic [run_simps]:
  "and_do (check b t) h s = (if b then h () s else (Inl (SceneError t), s))"
  "and_do (pure x) g s = (case x of Inl e \<Rightarrow> (Inl e, s) | Inr y \<Rightarrow> g y s)"
  "and_do (on_disk look) k s = (case look (disk s) of Inl e \<Rightarrow> (Inl e, s) | Inr z \<Rightarrow> k z s)"
  "and_do (meanwhile v p) h s = h () (s\<lparr>disk := others v p (disk s)\<rparr>)"
  "and_do (update f) h s = h () (f s)"
  "update f s = (Inr (), f s)"
  "and_do (syscall v p) h s = (case io_error v p of None \<Rightarrow> h () s | Some e \<Rightarrow> (Inl (SceneError e), s))"
  by (simp_all add: and_do_def check_def require_def pure_def on_disk_def meanwhile_def update_def syscall_def split: sum.split option.split)

lemma and_do_assoc: "and_do (and_do f g) h = and_do f (\<lambda>x. and_do (g x) h)"
  by (rule ext) (simp add: and_do_def split: prod.split sum.split)

lemma write_all_whole: "write_all results written rest = Inr whole \<Longrightarrow> whole = written @ rest"
proof (induction results written rest rule: write_all.induct)
  case (3 r results written c cs)
  then show ?case
    by (cases r) (auto split: nat.splits simp: append_take_drop_id)
qed auto

lemma syscall_run: "syscall v p s = (r, s') \<longleftrightarrow> s' = s \<and> r = (case io_error v p of None \<Rightarrow> Inr () | Some e \<Rightarrow> Inl (SceneError e))"
  by (auto simp: syscall_def)

lemma currentDigest_Inr: "currentDigest v p target fs = Inr x \<Longrightarrow> x = map_option (digest v) (fs target)"
  by (auto simp: currentDigest_def read_file_def split: if_splits option.splits)

text \<open>What a save makes of the disk: what the others left of it, with the target replaced at most once, by the whole text.\<close>

lemma write_target_disk:
  assumes "write_target v target expected encoded s = (r, s')" "target \<noteq> temporary v"
    and "\<And>p fs. others v p fs (temporary v) = fs (temporary v)"
    and f2: "f2 = others v AtSecondDigest ((disk s)(temporary v \<mapsto> encoded))" and f3: "f3 = others v AtReplace f2"
  obtains (kept) e where "r = Inl e" "disk s' target \<in> {disk s target, f2 target, f3 target}"
  | (replaced) "disk s' = f3(target \<mapsto> encoded, temporary v := None)" "map_option (digest v) (f2 target) = expected"
proof -
  have f: "f3 (temporary v) = Some encoded"
    by (simp add: f2 f3 assms(3))
  show thesis
    using assms(1) unfolding write_target_def
    by (auto simp: and_do_def pure_def syscall_def update_def meanwhile_def on_disk_def check_def require_def
        f f2 [symmetric] f3 [symmetric]
        dest!: write_all_whole currentDigest_Inr intro: kept replaced split: if_splits prod.splits sum.splits option.splits)
qed

text \<open>The environment of a save: the temporary name is new and only the store uses it.\<close>

definition private_temporary :: "services \<Rightarrow> path \<Rightarrow> bool" where
  "private_temporary v target \<longleftrightarrow> target \<noteq> temporary v \<and> (\<forall>p fs. others v p fs (temporary v) = fs (temporary v))"

lemma replace_target_disk:
  assumes "replace_target v target expected encoded s = (r, s')" "private_temporary v target" "disk s (temporary v) = None"
    and f2: "f2 = others v AtSecondDigest ((disk s)(temporary v \<mapsto> encoded))" and f3: "f3 = others v AtReplace f2"
  shows "disk s' (temporary v) = None"
    and "disk s' target \<in> {disk s target, f2 target, f3 target, Some encoded}"
    and "r = Inr () \<Longrightarrow> disk s' target = Some encoded \<and> map_option (digest v) (f2 target) = expected"
proof -
  consider (none) e where "r = Inl e" "s' = s"
    | (some) s1 where "write_target v target expected encoded (s\<lparr>disk := (disk s)(temporary v \<mapsto> [])\<rparr>) = (r, s1)" "s' = unlink_temporary v s1"
    using assms(1) by (auto simp: replace_target_def and_do_def syscall_def update_def split: option.splits prod.splits)
  then have "disk s' (temporary v) = None \<and> disk s' target \<in> {disk s target, f2 target, f3 target, Some encoded}
    \<and> (r = Inr () \<longrightarrow> disk s' target = Some encoded \<and> map_option (digest v) (f2 target) = expected)"
  proof cases
    case none
    then show ?thesis using assms(3) by simp
  next
    case some
    have priv: "target \<noteq> temporary v" "\<And>p fs. others v p fs (temporary v) = fs (temporary v)"
      using assms(2) by (auto simp: private_temporary_def)
    from some(1) show ?thesis
      by (rule write_target_disk [OF _ priv, of expected encoded _ r s1 f2 f3]) (use priv some(2) in \<open>auto simp: f2 f3 unlink_temporary_def\<close>)
  qed
  then show "disk s' (temporary v) = None"
    and "disk s' target \<in> {disk s target, f2 target, f3 target, Some encoded}"
    and "r = Inr () \<Longrightarrow> disk s' target = Some encoded \<and> map_option (digest v) (f2 target) = expected"
    by auto
qed

lemma save_document_disk:
  assumes "save_document v target current s = (r, s')" "private_temporary v target" "disk s (temporary v) = None"
    and "yaml_text v (scene s) = Inr encoded"
    and "f2 = others v AtSecondDigest ((disk s)(temporary v \<mapsto> encoded))" "f3 = others v AtReplace f2"
  shows "disk s' (temporary v) = None"
    and "disk s' target \<in> {disk s target, f2 target, f3 target, Some encoded}"
    and "r = Inr () \<Longrightarrow> disk s' target = Some encoded \<and> file_digests s' target = Some (digest v encoded) \<and> source s' = Some target
      \<and> saved_scene s' = scene s \<and> saved_revision s' = revision s \<and> map_option (digest v) (f2 target) = file_digests s target"
proof -
  obtain r1 s1 where run: "replace_target v target (file_digests s target) encoded s = (r1, s1)" by fastforce
  have kept: "edited s1 = edited s"
    using leavesD [OF replace_target_leaves run] .
  note facts = replace_target_disk [OF run assms(2,3,5,6)]
  consider (none) e where "r = Inl e" "s' = s" | (failed) e where "r = Inl e" "r1 = Inl e" "s' = s1"
    | (ok) "r = Inr ()" "r1 = Inr ()" "s' = s1\<lparr>source := Some target, file_digests := (file_digests s1)(target \<mapsto> digest v encoded),
                       saved_scene := scene s1, saved_revision := revision s1\<rparr>"
    using assms(1) run by (cases r1; auto simp: save_document_def run_simps assms(4) and_do_def [of "replace_target _ _ _ _"] split: if_splits)
  then have "disk s' (temporary v) = None \<and> disk s' target \<in> {disk s target, f2 target, f3 target, Some encoded}
    \<and> (r = Inr () \<longrightarrow> disk s' target = Some encoded \<and> file_digests s' target = Some (digest v encoded) \<and> source s' = Some target
      \<and> saved_scene s' = scene s \<and> saved_revision s' = revision s \<and> map_option (digest v) (f2 target) = file_digests s target)"
    by cases (use facts assms(3) kept in \<open>auto simp: edited_def\<close>)
  then show "disk s' (temporary v) = None"
    and "disk s' target \<in> {disk s target, f2 target, f3 target, Some encoded}"
    and "r = Inr () \<Longrightarrow> disk s' target = Some encoded \<and> file_digests s' target = Some (digest v encoded) \<and> source s' = Some target
      \<and> saved_scene s' = scene s \<and> saved_revision s' = revision s \<and> map_option (digest v) (f2 target) = file_digests s target"
    by blast+
qed

lemma and_do_result [run_simps]: "and_do (\<lambda>s. (f s, s)) g s = (case f s of Inl e \<Rightarrow> (Inl e, s) | Inr y \<Rightarrow> g y s)"
  by (simp add: and_do_def)

lemma save_to_run:
  "(\<exists>e. save_to v base target s = (Inl e, s)) \<or> (\<exists>e. save_to v base target s = (Inl e, s\<lparr>disk := others v AtTargetDigest (disk s)\<rparr>))
   \<or> (\<exists>current. save_to v base target s = save_document v target current (s\<lparr>disk := others v AtTargetDigest (disk s)\<rparr>))"
  unfolding save_to_def run_simps by (auto split: if_split sum.split)

lemma save_to_cases:
  assumes "save_to v base target s = (r, s')"
  obtains (refused) e where "r = Inl e" "s' = s"
  | (looked) e where "r = Inl e" "s' = s\<lparr>disk := others v AtTargetDigest (disk s)\<rparr>"
  | (saved) current where "save_document v target current (s\<lparr>disk := others v AtTargetDigest (disk s)\<rparr>) = (r, s')"
  using save_to_run [of v base target s] unfolding assms prod.inject
  by (elim disjE exE conjE) (blast intro: refused looked saved [OF sym])+

lemma save_cases:
  assumes "save v s = (r, s')" "(case working_file s of Some w \<Rightarrow> Some w | None \<Rightarrow> source s) = Some target"
  obtains (refused) e where "r = Inl e" "s' = s" | (tried) base where "save_to v base target s = (r, s')"
  using assms by (auto simp: save_def fail_with_def split: option.splits)


definition sample_saved :: store where
  "sample_saved = sample_store\<lparr>source := Some [''s'', ''a.yaml''], save_root := Some [''s''],
     file_digests := [[''s'', ''a.yaml''] \<mapsto> ''old''], disk := [[''s'', ''a.yaml''] \<mapsto> ''old'']\<rparr>"

lemma sample_temporary: "private_temporary sample_services [''s'', ''a.yaml'']"
  by (simp add: private_temporary_def sample_services_def)


lemma replace_target_knows: "leaves (\<lambda>s. (source s, file_digests s)) (replace_target v target expected encoded)"
proof -
  have "leaves (\<lambda>s. (source s, file_digests s)) (\<lambda>s. write_target v target expected encoded s)"
    unfolding write_target_def by (rule leaves_at_state) (intro leaves_rules; simp)
  then have "leaves (\<lambda>s. (source s, file_digests s)) (\<lambda>s. let (r, s') = write_target v target expected encoded s in (r, unlink_temporary v s'))"
    by (intro leaves_after) (simp_all add: unlink_temporary_def)
  then show ?thesis
    unfolding replace_target_def by (intro leaves_rules) simp_all
qed

lemma save_document_failed:
  assumes "save_document v target current s = (Inl e, s')"
  shows "source s' = source s \<and> file_digests s' = file_digests s"
proof -
  have run: "and_do (replace_target v target (file_digests s target) encoded) (\<lambda>_. update f) s = (Inl e, s')
    \<Longrightarrow> source s' = source s \<and> file_digests s' = file_digests s" for encoded f
    by (erule and_do_cases) (auto simp: update_def dest: leavesD [OF replace_target_knows])
  then show ?thesis
    using assms by (auto simp: save_document_def run_simps split: if_splits sum.splits)
qed

lemma save_failed:
  assumes "save v s = (Inl e, s')"
  shows "source s' = source s \<and> file_digests s' = file_digests s"
proof (cases "case working_file s of Some w \<Rightarrow> Some w | None \<Rightarrow> source s")
  case None
  then show ?thesis using assms by (auto simp: save_def fail_with_def split: option.splits)
next
  case (Some target)
  with assms show ?thesis
  proof (cases rule: save_cases)
    case (tried base)
    then show ?thesis
      by (cases rule: save_to_cases) (auto dest: save_document_failed)
  qed simp
qed

text \<open>C16: A save that fails after it replaced the file, because the directory could not be opened, synced or closed, leaves the store with
  the digest of the file before: every later edit is refused as if somebody else had changed the file, until a reload drops the
  history.\<close>

theorem failed_save_blocks_edits:
  assumes "save v s = (Inl e, s')" "source s = Some target" "disk s' target = Some encoded"
    and "file_digests s target \<noteq> Some (digest v encoded)" "length encoded \<le> kMaxDocumentBytes"
    and "digest w = digest v" "io_error w AtSourceDigest = None" "others w AtSourceDigest (disk s') = disk s'"
    and "\<not> json_eq d (scene s')"
  shows "commit_edit w d s' = (Inl (SceneError external_edit), s')"
proof -
  have "source s' = Some target" "file_digests s' target = file_digests s target"
    using save_failed [OF assms(1)] assms(2) by simp_all
  then have "checkSource w s' = (Inl (SceneError external_edit), s')"
    using assms(3-8) by (simp add: checkSource_def run_simps currentDigest_def read_file_def check_def require_def)
  then show ?thesis
    using assms(9) by (simp add: commit_edit_def prepareEdit_def and_do_def)
qed

definition unsynced_services :: services where
  "unsynced_services = sample_services\<lparr>io_error := (\<lambda>p. if p = AtSyncDirectory then Some ''Input/output error'' else None)\<rparr>"

lemma unsynced_replace:
  "replace_target unsynced_services [''s'', ''a.yaml''] (Some ''old'') ''scene'' sample_saved
   = (Inl (SceneError ''Input/output error''), sample_saved\<lparr>disk := [[''s'', ''a.yaml''] \<mapsto> ''scene'']\<rparr>)"
proof -
  have "write_target unsynced_services [''s'', ''a.yaml''] (Some ''old'') ''scene''
      (sample_saved\<lparr>disk := (disk sample_saved)([''s'', ''.t''] \<mapsto> [])\<rparr>)
    = (Inl (SceneError ''Input/output error''), sample_saved\<lparr>disk := [[''s'', ''a.yaml''] \<mapsto> ''scene'']\<rparr>)"
    by (simp add: write_target_def run_simps and_do_assoc unsynced_services_def sample_services_def sample_saved_def
        currentDigest_def read_file_def kMaxDocumentBytes_def fun_upd_twist)
  moreover have "io_error unsynced_services AtTemporary = None" "temporary unsynced_services = [''s'', ''.t'']"
    by (simp_all add: unsynced_services_def sample_services_def)
  ultimately show ?thesis
    by (simp add: replace_target_def run_simps unlink_temporary_def)
qed

lemma unsynced_save:
  "save unsynced_services sample_saved
   = (Inl (SceneError ''Input/output error''), sample_saved\<lparr>disk := [[''s'', ''a.yaml''] \<mapsto> ''scene'']\<rparr>)"
proof -
  have "yaml_name [''s'', ''a.yaml'']"
    by (simp add: yaml_name_def extension_def tolower_def less_eq_char_def)
  moreover have "save unsynced_services sample_saved = save_to unsynced_services [''s''] [''s'', ''a.yaml''] sample_saved"
    by (simp add: save_def sample_saved_def sample_store_def)
  moreover have "currentDigest unsynced_services AtTargetDigest [''s'', ''a.yaml''] (disk sample_saved) = Inr (Some ''old'')"
    "io_error unsynced_services AtCreateDirectories = None" "directory_exists unsynced_services"
    "sample_saved\<lparr>disk := others unsynced_services AtTargetDigest (disk sample_saved)\<rparr> = sample_saved"
    "file_digests sample_saved [''s'', ''a.yaml''] = Some ''old''" "yaml_text unsynced_services (scene sample_saved) = Inr ''scene''"
    "working_file sample_saved = None"
    by (simp_all add: unsynced_services_def sample_services_def sample_saved_def sample_store_def currentDigest_def read_file_def kMaxDocumentBytes_def)
  ultimately show ?thesis
    by (simp add: save_to_def run_simps save_document_def and_do_def [of "replace_target _ _ _ _"] unsynced_replace)
qed

theorem failed_save_blocks_edits_witness:
  "fst (commit_edit sample_services JNull (snd (save unsynced_services sample_saved))) = Inl (SceneError external_edit)"
  using failed_save_blocks_edits [OF unsynced_save, of "[''s'', ''a.yaml'']" "''scene''" sample_services JNull]
  by (simp add: unsynced_save) (simp add: sample_saved_def sample_store_def unsynced_services_def sample_services_def kMaxDocumentBytes_def sample_document_def)


theorem repeated_request_replays_witness:
  "fst (command sample_services resync_request (snd (command sample_services resync_request sample_store)))
   = fst (command sample_services resync_request sample_store)"
proof -
  obtain m s' where run: "command sample_services resync_request sample_store = (Inr (JObject m), s')"
    using sample_resynced by blast
  have "admits sample_services resync_request sample_store"
    using sample_incoming by (auto simp: admits_def expects_def resync_request_def sample_store_def oo_find_map_of)
  then show ?thesis
    using repeated_request_replays [OF sample_reachable _ run, of "[]" s' sample_services] by (simp add: run)
qed

subsection \<open>Undo and redo\<close>

text \<open>Undo after an edit brings back the scene before it, and redo after that brings back the edit, each as a new revision the apply
  hook has accepted, whatever is saved in between.\<close>

theorem undo_redo_round_trip:
  assumes "commit_edit v d s = (Inr (), s1)" "\<not> json_eq d (scene s)"
    and "travel v' True s1 = (Inr (), s2)" "travel v'' False s2 = (Inr (), s3)"
  shows "scene s1 = d \<and> scene s2 = scene s \<and> scene s3 = d \<and> undo_stack s3 = undo_stack s1 \<and> redo_stack s3 = []
    \<and> shown s2 = Some (scene s, next_revision s1) \<and> revision s1 < revision s2 \<and> revision s2 < revision s3"
proof -
  from assms(1) have one: "landed s s1 \<and> scene s1 = d \<and> redo_stack s1 = [] \<and> undo_stack s1 \<noteq> [] \<and> last (undo_stack s1) = scene s"
    by (cases rule: commit_edit_cases) (use assms(2) in \<open>auto simp: tl_append split: list.splits\<close>)
  from assms(3) have two: "landed s1 s2 \<and> scene s2 = scene s \<and> undo_stack s2 = butlast (undo_stack s1) \<and> redo_stack s2 = [d]"
    by (cases rule: travel_cases) (use one in auto)
  from assms(4) have three: "landed s2 s3 \<and> scene s3 = d \<and> redo_stack s3 = [] \<and> undo_stack s3 = butlast (undo_stack s1) @ [scene s]"
    by (cases rule: travel_cases) (use two in auto)
  have "undo_stack s3 = undo_stack s1"
    using one three append_butlast_last_id [of "undo_stack s1"] by simp
  then show ?thesis
    using one two three by (auto simp: landed_def)
qed

lemma sample_commit: "\<exists>s1. commit_edit sample_services JNull sample_store = (Inr (), s1) \<and> undo_stack s1 = [sample_document] \<and> redo_stack s1 = [] \<and> source s1 = None \<and> working_file s1 = None"
  by (simp add: commit_edit_def prepareEdit_def checkSource_def autosave_def apply_scene_def and_do_def update_def sample_store_def
      sample_services_def sample_document_def)

lemma sample_travel:
  assumes "source s = None" "working_file s = None" "(if u then undo_stack s else redo_stack s) \<noteq> []"
  shows "\<exists>s'. travel sample_services u s = (Inr (), s') \<and> source s' = None \<and> working_file s' = None
    \<and> (u \<longrightarrow> redo_stack s' \<noteq> []) \<and> (\<not> u \<longrightarrow> undo_stack s' \<noteq> [])"
  using assms
  by (simp add: travel_def prepareEdit_def checkSource_def autosave_def apply_scene_def and_do_def update_def Let_def sample_services_def)

theorem undo_redo_round_trip_witness:
  "\<exists>s1 s2 s3. travel sample_services True s1 = (Inr (), s2) \<and> travel sample_services False s2 = (Inr (), s3)
    \<and> scene s1 = JNull \<and> scene s2 = sample_document \<and> scene s3 = JNull"
proof -
  obtain s1 where s1: "commit_edit sample_services JNull sample_store = (Inr (), s1)" "undo_stack s1 = [sample_document]" "source s1 = None"
    "working_file s1 = None"
    using sample_commit by blast
  obtain s2 where s2: "travel sample_services True s1 = (Inr (), s2)" "source s2 = None" "working_file s2 = None" "redo_stack s2 \<noteq> []"
    using sample_travel [of s1 True] s1 by auto
  obtain s3 where s3: "travel sample_services False s2 = (Inr (), s3)"
    using sample_travel [of s2 False] s2 by auto
  have "\<not> json_eq JNull (scene sample_store)"
    by (simp add: sample_store_def sample_document_def)
  then show ?thesis
    using undo_redo_round_trip [OF s1(1) _ s2(1) s3] s2(1) s3 by (auto simp: sample_store_def)
qed

subsection \<open>Frozen stores\<close>

definition editing :: "store \<Rightarrow> _" where
  "editing s = (scene s, undo_stack s, redo_stack s, saved_scene s, source s, file_digests s, disk s)"

lemma editing_documents: "documents s' = documents s \<Longrightarrow> editing s' = editing s"
  by (simp add: documents_def editing_def)

lemma apply_scene_editing: "leaves editing (apply_scene v d)"
  by (simp add: leaves_def apply_scene_def Let_def editing_def split: option.split)

lemma execute_frozen:
  assumes "execute v request s = (r, s')" "frozen s"
  shows "editing s' = editing s"
proof -
  have resync: "leaves editing (and_do (apply_scene v d) (\<lambda>r. update (\<lambda>s'. s'\<lparr>revision := r\<rparr>)))" for d
    by (intro leaves_and_do apply_scene_editing leaves_update) (simp add: editing_def)
  have play: "leaves editing (playback v op)" for op
    using leaves_coarser [OF playback_leaves] editing_documents by blast
  from assms(1) show ?thesis
    unfolding execute_def
  proof (cases rule: and_do_cases)
    case (went_on op s1)
    then have s1: "s1 = s" by (simp add: pure_def)
    have refused: "and_do (candidate_of v op request) (commit_edit v) s = (r, s') \<Longrightarrow> op \<notin> set (map JString frozen_operations) \<Longrightarrow> s' = s"
      by (auto simp: candidate_of_def frozen_operations_def run_simps split: sum.splits)
    note run = went_on(2) [unfolded s1]
    show ?thesis
    proof (cases "is_array op \<or> is_object op \<or> op \<in> set (map JString frozen_operations)")
      case True
      then show ?thesis
        using run assms(2) by (simp add: fail_with_def split: if_split_asm)
    next
      case False
      then have "op \<noteq> JString ''save''" "op \<noteq> JString ''reload''" "op \<noteq> JString ''undo''" "op \<noteq> JString ''redo''"
        by (auto simp: frozen_operations_def)
      then show ?thesis
        using run assms(2) False leavesD [OF resync, of "scene s" s r s'] leavesD [OF play, of _ s r s'] refused
        by (simp split: if_split_asm)
    qed
  qed (simp add: pure_def)
qed

lemma command_frozen:
  assumes "command v request s = (r, s')" "frozen s"
  shows "editing s' = editing s"
  using assms(1)
proof (cases rule: command_cases)
  case (ran i p outcome s1 s2 m)
  have "editing s' = editing s2"
    unfolding ran(10) by (intro editing_documents documents_record)
  also have "\<dots> = editing s1"
    using ran(5) by (rule editing_documents)
  also have "\<dots> = editing s"
    using ran(4) assms(2) by (rule execute_frozen)
  finally show ?thesis .
next
  case (threw i p e)
  show ?thesis using threw(4) assms(2) by (rule execute_frozen)
next
  case answered
  show ?thesis using answered(2) by (rule editing_documents)
next
  case (replayed i p previous)
  show ?thesis unfolding replayed(4) by (intro editing_documents documents_promote)
qed

text \<open>No sequence of commands changes the scene of a frozen store, its history or any file: only playback, and the revision
  number of a resynchronisation, change.\<close>

theorem frozen_scene_is_fixed:
  assumes "frozen s" "s' = after_commands qs s"
  shows "scene s' = scene s \<and> undo_stack s' = undo_stack s \<and> redo_stack s' = redo_stack s \<and> disk s' = disk s"
proof -
  let ?P = "\<lambda>s'. frozen s' \<and> editing s' = editing s"
  have "?P (after_commands qs s)"
  proof (rule after_commands_induct [of ?P])
    show "?P (snd (command v request s'))" if "?P s'" for v request s'
      using that command_frozen [of v request s' "fst (command v request s')"] command_same_flags(3) [of v request s' "fst (command v request s')"]
      by simp
  qed (use assms(1) in simp)
  then show ?thesis
    using assms(2) by (simp add: editing_def)
qed

theorem frozen_scene_is_fixed_witness:
  "scene (after_commands [(sample_services, resync_request)] (sample_store\<lparr>frozen := True\<rparr>)) = sample_document"
proof -
  have "frozen (sample_store\<lparr>frozen := True\<rparr>)" "scene (sample_store\<lparr>frozen := True\<rparr>) = sample_document"
    by (simp_all add: sample_store_def)
  then show ?thesis
    using frozen_scene_is_fixed [OF _ refl, of "sample_store\<lparr>frozen := True\<rparr>"] by (simp del: after_commands_simps)
qed

end
