(* ===== verification/Yaml.thy ===== *)
theory Yaml
  imports Json
begin

section \<open>YAML text\<close>

text \<open>
  \<^verbatim>\<open>yaml_io.cpp\<close>: the implicit types of plain scalars (PyYAML's YAML 1.1 resolvers), the readers of numbers and the emitter of scene
  files. The grammar of YAML itself is yaml-cpp's. \<^verbatim>\<open>std::regex_match\<close> is membership in the language of a regular expression, here
  computed with derivatives.

  An emission is \<open>None\<close> when the emitter never returns. That is possible: the loop over a text passes a blank by comparing the
  character with one space byte, so a character that is not that byte but whose code point is 32 (an overlong encoding) is never
  passed.
\<close>

subsection \<open>Regular expressions\<close>

datatype regex = Zero | One | Sym "char \<Rightarrow> bool" | Cat regex regex | Alt regex regex | Star regex

primrec nullable :: "regex \<Rightarrow> bool" where
  "nullable Zero = False"
| "nullable One = True"
| "nullable (Sym p) = False"
| "nullable (Cat r s) = (nullable r \<and> nullable s)"
| "nullable (Alt r s) = (nullable r \<or> nullable s)"
| "nullable (Star r) = True"

primrec deriv :: "char \<Rightarrow> regex \<Rightarrow> regex" where
  "deriv c Zero = Zero"
| "deriv c One = Zero"
| "deriv c (Sym p) = (if p c then One else Zero)"
| "deriv c (Cat r s) = (if nullable r then Alt (Cat (deriv c r) s) (deriv c s) else Cat (deriv c r) s)"
| "deriv c (Alt r s) = Alt (deriv c r) (deriv c s)"
| "deriv c (Star r) = Cat (deriv c r) (Star r)"

fun regex_match :: "string \<Rightarrow> regex \<Rightarrow> bool" where
  "regex_match [] r = nullable r"
| "regex_match (c # s) r = regex_match s (deriv c r)"

definition optional :: "regex \<Rightarrow> regex" where
  "optional r = Alt One r"

definition plus :: "regex \<Rightarrow> regex" where
  "plus r = Cat r (Star r)"

definition literal :: "string \<Rightarrow> regex" where
  "literal s = foldr (\<lambda>c. Cat (Sym ((=) c))) s One"

definition one_of :: "regex list \<Rightarrow> regex" where
  "one_of rs = foldr Alt rs Zero"

definition times_of :: "nat \<Rightarrow> regex \<Rightarrow> regex" where
  "times_of n r = ((Cat r) ^^ n) One"

definition in_order :: "regex list \<Rightarrow> regex" where
  "in_order rs = foldr Cat rs One"

abbreviation sign_class :: regex where "sign_class \<equiv> Sym (\<lambda>c. c = CHR ''-'' \<or> c = CHR ''+'')"
abbreviation digit_class :: regex where "digit_class \<equiv> Sym digit"
abbreviation digits_class :: regex where "digits_class \<equiv> Sym (\<lambda>c. digit c \<or> c = CHR ''_'')"
abbreviation mark :: "char \<Rightarrow> regex" where "mark c \<equiv> Sym ((=) c)"
abbreviation exponent_part :: regex where
  "exponent_part \<equiv> optional (in_order [Sym (\<lambda>c. c = CHR ''e'' \<or> c = CHR ''E''), sign_class, plus digit_class])"
abbreviation sixties :: regex where
  "sixties \<equiv> plus (in_order [mark (CHR '':''), optional (Sym (Options.within (CHR ''0'') (CHR ''5''))), digit_class])"

definition boolean_texts :: "string list" where
  "boolean_texts =
     [''yes'', ''Yes'', ''YES'', ''no'', ''No'', ''NO'', ''true'', ''True'', ''TRUE'', ''false'', ''False'', ''FALSE'',
      ''on'', ''On'', ''ON'', ''off'', ''Off'', ''OFF'']"

definition integer_regex :: regex where
  "integer_regex = one_of
     [in_order [optional sign_class, literal ''0b'', plus (Sym (\<lambda>c. Options.within (CHR ''0'') (CHR ''1'') c \<or> c = CHR ''_''))],
      in_order [optional sign_class, mark (CHR ''0''), plus (Sym (\<lambda>c. Options.within (CHR ''0'') (CHR ''7'') c \<or> c = CHR ''_''))],
      in_order [optional sign_class, Alt (mark (CHR ''0'')) (in_order [Sym (Options.within (CHR ''1'') (CHR ''9'')), Star digits_class])],
      in_order [optional sign_class, literal ''0x'', plus (Sym (\<lambda>c. digit c \<or> Options.within (CHR ''a'') (CHR ''f'') c \<or> Options.within (CHR ''A'') (CHR ''F'') c \<or> c = CHR ''_''))],
      in_order [optional sign_class, Sym (Options.within (CHR ''1'') (CHR ''9'')), Star digits_class, sixties]]"

definition floating_regex :: regex where
  "floating_regex = one_of
     [in_order [optional sign_class, digit_class, Star digits_class, mark (CHR ''.''), Star digits_class, exponent_part],
      in_order [mark (CHR ''.''), plus digits_class, exponent_part],
      in_order [optional sign_class, digit_class, Star digits_class, sixties, mark (CHR ''.''), Star digits_class],
      in_order [optional sign_class, mark (CHR ''.''), one_of [literal ''inf'', literal ''Inf'', literal ''INF'']],
      in_order [mark (CHR ''.''), one_of [literal ''nan'', literal ''NaN'', literal ''NAN'']]]"

definition timestamp_regex :: regex where
  "timestamp_regex =
     (let blank = Sym (\<lambda>c. c = CHR '' '' \<or> c = CHR 0x09); one_or_two = Cat digit_class (optional digit_class) in one_of
     [in_order [times_of 4 digit_class, mark (CHR ''-''), times_of 2 digit_class, mark (CHR ''-''), times_of 2 digit_class],
      in_order [times_of 4 digit_class, mark (CHR ''-''), one_or_two, mark (CHR ''-''), one_or_two,
        Alt (Sym (\<lambda>c. c = CHR ''T'' \<or> c = CHR ''t'')) (plus blank), one_or_two, mark (CHR '':''), times_of 2 digit_class, mark (CHR '':''),
        times_of 2 digit_class, optional (Cat (mark (CHR ''.'')) (Star digit_class)),
        optional (in_order [Star blank, Alt (mark (CHR ''Z'')) (in_order [sign_class, one_or_two, optional (Cat (mark (CHR '':'')) (times_of 2 digit_class))])])]])"

subsection \<open>Implicit types\<close>

definition implicitTag :: "string \<Rightarrow> string" where
  "implicitTag value =
     (if value = [] \<or> value \<in> {''~'', ''null'', ''Null'', ''NULL''} then ''null''
      else if value \<in> set boolean_texts then ''bool''
      else
        (let first = hd value; numeric = (first = CHR ''-'' \<or> first = CHR ''+'' \<or> first = CHR ''.'' \<or> digit first) in
         if numeric \<and> regex_match value floating_regex then ''float''
         else if numeric \<and> regex_match value integer_regex then ''int''
         else if numeric \<and> regex_match value timestamp_regex then ''timestamp''
         else if value = ''<<'' then ''merge''
         else if value = ''='' then ''value''
         else ''str''))"

subsection \<open>The emitter\<close>

type_synonym 'a emission = "'a result option"

definition and_emit :: "'a emission \<Rightarrow> ('a \<Rightarrow> 'b emission) \<Rightarrow> 'b emission" where
  "and_emit x f = (case x of None \<Rightarrow> None | Some (Inl e) \<Rightarrow> Some (Inl e) | Some (Inr y) \<Rightarrow> f y)"

record emitter =
  written :: string
  column :: nat

definition put_text :: "string \<Rightarrow> emitter \<Rightarrow> emitter result" where
  "put_text t e = and_then (utf8Characters t) (\<lambda>cs. Inr \<lparr>written = written e @ t, column = column e + length cs\<rparr>)"

definition write_text :: "string \<Rightarrow> emitter \<Rightarrow> emitter emission" where
  "write_text t e = Some (put_text t e)"

definition line_feed :: char where
  "line_feed = CHR 0x0A"

definition indent :: "nat \<Rightarrow> emitter \<Rightarrow> emitter" where
  "indent n e = \<lparr>written = written e @ [line_feed] @ replicate n (CHR '' ''), column = n\<rparr>"

definition startLine :: "nat \<Rightarrow> emitter \<Rightarrow> emitter" where
  "startLine n e = \<lparr>written = written e @ replicate n (CHR '' ''), column = n\<rparr>"

definition break_with :: "string \<Rightarrow> emitter \<Rightarrow> emitter" where
  "break_with t e = \<lparr>written = written e @ t, column = 0\<rparr>"

definition end_line :: "emitter \<Rightarrow> emitter" where
  "end_line e = break_with [line_feed] e"

definition lineBreak :: "nat \<Rightarrow> bool" where
  "lineBreak c \<longleftrightarrow> c = 10 \<or> c = 0x85 \<or> c = 0x2028 \<or> c = 0x2029"

definition yamlWhitespace :: "nat \<Rightarrow> bool" where
  "yamlWhitespace c \<longleftrightarrow> c = 0 \<or> c = 32 \<or> c = 9 \<or> c = 13 \<or> lineBreak c"

text \<open>How a text is quoted: not at all, single or double.\<close>

datatype quoting_style = Plain | Single | Double_Quoted

definition indicator :: "nat \<Rightarrow> bool" where
  "indicator c \<longleftrightarrow> c < 128 \<and> char_of c \<in> set ''#,[]{}&*!|>%@`'' \<union> {CHR 0x27, CHR 0x22}"

definition printable :: "nat \<Rightarrow> bool" where
  "printable c \<longleftrightarrow> 0x20 \<le> c \<and> c \<le> 0x7e \<or> 0xa0 \<le> c \<and> c \<le> 0xd7ff \<or> 0xe000 \<le> c \<and> c \<le> 0xfffd"

definition not_plain :: "nat list \<Rightarrow> nat \<Rightarrow> bool" where
  "not_plain cs i =
     (let c = cs ! i; previous = (if i = 0 then 0 else cs ! (i - 1));
          followed = (i + 1 = length cs \<or> yamlWhitespace (cs ! (i + 1)))
      in i = 0 \<and> indicator c
         \<or> c = 58 \<and> followed \<or> i = 0 \<and> (c = 63 \<or> c = 45) \<and> followed \<or> c = 35 \<and> (i = 0 \<or> yamlWhitespace previous)
         \<or> (i = 0 \<or> i + 1 = length cs) \<and> (c = 32 \<or> lineBreak c)
         \<or> lineBreak c)"

definition not_single :: "nat list \<Rightarrow> nat \<Rightarrow> bool" where
  "not_single cs i =
     (let c = cs ! i; previous = (if i = 0 then 0 else cs ! (i - 1));
          special = (\<not> (c = 10 \<or> printable c \<or> c = 0x2028 \<or> c = 0x2029) \<or> c = 0xfeff)
      in special \<or> 0 < i \<and> (lineBreak previous \<and> c = 32 \<or> previous = 32 \<and> lineBreak c))"

definition style :: "string \<Rightarrow> bool \<Rightarrow> quoting_style result" where
  "style t key =
     (if t = [] then Inr Single
      else and_then (utf8Characters t) (\<lambda>characters.
        let cs = map codepoint characters;
            bad = list_ex (not_single cs) [0..<length cs];
            plain = (implicitTag t = ''str'' \<and> take 3 t \<noteq> ''---'' \<and> take 3 t \<noteq> ''...'' \<and> \<not> list_ex (not_plain cs) [0..<length cs] \<and> \<not> bad);
            single = (\<not> (key \<and> list_ex lineBreak cs) \<and> \<not> bad)
        in Inr (if plain then Plain else if single then Single else Double_Quoted)))"

fun upper_hex :: "nat \<Rightarrow> nat \<Rightarrow> string" where
  "upper_hex 0 c = []"
| "upper_hex (Suc width) c = upper_hex width (c div 16) @ [if c mod 16 < 10 then char_of (48 + c mod 16) else char_of (55 + c mod 16)]"

definition backslash :: char where
  "backslash = CHR 0x5C"

definition escape :: "nat \<Rightarrow> string \<Rightarrow> string" where
  "escape c character =
     (case map_of [(0, ''0''), (7, ''a''), (8, ''b''), (9, ''t''), (10, ''n''), (11, ''v''), (12, ''f''), (13, ''r''), (27, ''e''),
         (34, character), (92, character), (0x85, ''N''), (0xa0, ''_''), (0x2028, ''L''), (0x2029, ''P'')] c of
        Some t \<Rightarrow> backslash # t
      | None \<Rightarrow> backslash # (if c \<le> 0xff then ''x'' @ upper_hex 2 c else if c \<le> 0xffff then ''u'' @ upper_hex 4 c else ''U'' @ upper_hex 8 c))"

definition escaped :: "nat \<Rightarrow> bool" where
  "escaped c \<longleftrightarrow> c = 34 \<or> c = 92 \<or> c = 0x85 \<or> c = 0x2028 \<or> c = 0x2029 \<or> c = 0xfeff \<or> \<not> printable c"

text \<open>The body of a double-quoted text; \<open>first\<close> at its first character.\<close>

fun double_quoted :: "nat \<Rightarrow> bool \<Rightarrow> bool \<Rightarrow> string list \<Rightarrow> emitter \<Rightarrow> emitter emission" where
  "double_quoted continuation key first [] e = Some (Inr e)"
| "double_quoted continuation key first (character # rest) e =
     (let c = codepoint character in
      if \<not> key \<and> c = 32 \<and> \<not> first \<and> rest \<noteq> [] \<and> 80 < column e
      then and_emit (if hd rest = '' '' then write_text [backslash] (indent continuation e) else Some (Inr (indent continuation e)))
             (double_quoted continuation key False rest)
      else and_emit (write_text (if escaped c then escape c character else character) e) (double_quoted continuation key False rest))"

text \<open>Line breaks in a row (lines 332 to 336).\<close>

fun breaks :: "string list \<Rightarrow> emitter \<Rightarrow> emitter" where
  "breaks [] e = e"
| "breaks (character # rest) e =
     breaks rest (if character = [line_feed] then indent 0 e else break_with character e)"

text \<open>One turn of the loop over a plain or single-quoted text (lines 323 to 342): what is left of the text and the emitter.\<close>

definition flow_turn :: "bool \<Rightarrow> nat \<Rightarrow> bool \<Rightarrow> bool \<Rightarrow> string list \<Rightarrow> emitter \<Rightarrow> (string list \<times> emitter) result" where
  "flow_turn single continuation key first cs e =
     (let c = codepoint (hd cs) in
      if c = 32 then
        (let blanks = takeWhile (\<lambda>ch. ch = '' '') cs; after = dropWhile (\<lambda>ch. ch = '' '') cs in
         if \<not> key \<and> length blanks = 1 \<and> 80 < column e \<and> (\<not> single \<or> \<not> first \<and> after \<noteq> [])
         then Inr (after, indent continuation e)
         else and_then (put_text (replicate (length blanks) (CHR '' '')) e) (\<lambda>e1. Inr (after, e1)))
      else if lineBreak c then
        (let e1 = (if c = 10 then indent 0 e else e);
             e2 = breaks (takeWhile (\<lambda>ch. lineBreak (codepoint ch)) cs) e1
         in Inr (dropWhile (\<lambda>ch. lineBreak (codepoint ch)) cs, startLine continuation e2))
      else
        and_then (put_text (hd cs) e) (\<lambda>e1.
        and_then (if single \<and> c = 39 then put_text [CHR 0x27] e1 else Inr e1) (\<lambda>e2. Inr (tl cs, e2))))"

text \<open>The loop. A turn that does not shorten the text changes nothing (lemma \<open>stuck_turn\<close>), so the loop does not end.\<close>

function flow :: "bool \<Rightarrow> nat \<Rightarrow> bool \<Rightarrow> bool \<Rightarrow> string list \<Rightarrow> emitter \<Rightarrow> emitter emission" where
  "flow single continuation key first cs e =
     (if cs = [] then Some (Inr e)
      else case flow_turn single continuation key first cs e of
             Inl err \<Rightarrow> Some (Inl err)
           | Inr (cs', e') \<Rightarrow> if length cs' < length cs then flow single continuation key False cs' e' else None)"
  by pat_completeness auto

termination flow
  by (relation "measure (\<lambda>(_, _, _, _, cs, _). length cs)") auto

declare flow.simps [simp del]

lemma stuck_turn:
  assumes "flow_turn single continuation key first cs e = Inr (cs', e')" "cs \<noteq> []" "\<not> length cs' < length cs"
  shows "cs' = cs \<and> e' = e \<and> codepoint (hd cs) = 32 \<and> hd cs \<noteq> '' ''"
proof -
  have drop: "P (hd cs) \<Longrightarrow> length (dropWhile P cs) < length cs" for P
    using assms(2) by (cases cs) (simp_all add: le_imp_less_Suc length_dropWhile_le)
  have blank: "codepoint (hd cs) = 32 \<and> hd cs \<noteq> '' ''"
  proof (rule ccontr)
    assume "\<not> ?thesis"
    then show False
      using assms drop [of "\<lambda>ch. lineBreak (codepoint ch)"] drop [of "\<lambda>ch. ch = '' ''"]
      by (cases "codepoint (hd cs) = 32"; cases "lineBreak (codepoint (hd cs))") (auto simp: flow_turn_def Let_def split: if_splits)
  qed
  then have "takeWhile (\<lambda>ch. ch = '' '') cs = []" "dropWhile (\<lambda>ch. ch = '' '') cs = cs"
    using assms(2) by (cases cs; simp)+
  then show ?thesis
    using assms(1) blank by (cases e) (simp add: flow_turn_def put_text_def)
qed

definition yaml_string :: "string \<Rightarrow> nat \<Rightarrow> bool \<Rightarrow> emitter \<Rightarrow> emitter emission" where
  "yaml_string t continuation key e =
     and_emit (Some (style t key)) (\<lambda>how.
       let surround = (case how of Plain \<Rightarrow> [] | Single \<Rightarrow> [CHR 0x27] | Double_Quoted \<Rightarrow> [CHR 0x22]) in
       and_emit (write_text surround e) (\<lambda>e1.
       and_emit (Some (utf8Characters t)) (\<lambda>characters.
       and_emit (if how = Double_Quoted then double_quoted continuation key True characters e1
                 else flow (how = Single) continuation key True characters e1) (write_text surround))))"

fun inlineValue :: "json \<Rightarrow> bool" where
  "inlineValue (JArray xs) = (xs = [])"
| "inlineValue (JObject m) = (m = [])"
| "inlineValue _ = True"

definition yaml_float :: "double \<Rightarrow> string" where
  "yaml_float x =
     (let t = pythonFloat x in
      if t = ''nan'' then ''.nan'' else if t = ''inf'' then ''.inf'' else if t = ''-inf'' then ''-.inf''
      else if CHR ''.'' \<notin> set t \<and> CHR ''e'' \<in> set t
      then takeWhile (\<lambda>c. c \<noteq> CHR ''e'') t @ ''.0'' @ dropWhile (\<lambda>c. c \<noteq> CHR ''e'') t
      else t)"

fun yaml_scalar :: "json \<Rightarrow> nat \<Rightarrow> emitter \<Rightarrow> emitter emission" where
  "yaml_scalar (JString t) continuation e = yaml_string t continuation False e"
| "yaml_scalar JNull continuation e = write_text ''null'' e"
| "yaml_scalar (JBool b) continuation e = write_text (if b then ''true'' else ''false'') e"
| "yaml_scalar (JFloat x) continuation e = write_text (yaml_float x) e"
| "yaml_scalar (JInt i) continuation e = write_text (show_int i) e"
| "yaml_scalar (JUnsigned n) continuation e = write_text (show_nat n) e"
| "yaml_scalar (JArray xs) continuation e = write_text ''[]'' e"
| "yaml_scalar (JObject m) continuation e = write_text ''{}'' e"

text \<open>The name of a field up to its colon.\<close>

definition yaml_key :: "string \<Rightarrow> nat \<Rightarrow> emitter \<Rightarrow> emitter emission" where
  "yaml_key k level e =
     and_emit (Some (utf8Characters k)) (\<lambda>characters.
       let simple = (length characters \<le> 128 \<and> line_feed \<notin> set k) in
       and_emit (if simple then Some (Inr e) else write_text ''? '' e) (\<lambda>e1.
       and_emit (yaml_string k (level + 2) simple e1) (\<lambda>e2.
         write_text '':'' (if simple then e2 else indent level e2))))"

fun yaml_node :: "json \<Rightarrow> nat \<Rightarrow> bool \<Rightarrow> emitter \<Rightarrow> emitter emission"
  and yaml_fields :: "(string \<times> json) list \<Rightarrow> nat \<Rightarrow> bool \<Rightarrow> emitter \<Rightarrow> emitter emission"
  and yaml_items :: "json list \<Rightarrow> nat \<Rightarrow> bool \<Rightarrow> emitter \<Rightarrow> emitter emission" where
  "yaml_node value level first_inline e =
     (if inlineValue value
      then and_emit (yaml_scalar value (if first_inline then level else level + 2) (if first_inline then e else startLine level e))
             (\<lambda>e1. Some (Inr (end_line e1)))
      else case value of
             JObject m \<Rightarrow> yaml_fields m level first_inline e
           | JArray xs \<Rightarrow> yaml_items xs level first_inline e
           | _ \<Rightarrow> Some (Inr e))"
| "yaml_fields [] level first_inline e = Some (Inr e)"
| "yaml_fields ((k, v) # m) level first_inline e =
     and_emit (yaml_key k level (if first_inline then e else startLine level e)) (\<lambda>e1.
     and_emit (if inlineValue v
               then and_emit (write_text '' '' e1) (\<lambda>e2. and_emit (yaml_scalar v (level + 2) e2) (\<lambda>e3. Some (Inr (end_line e3))))
               else yaml_node v (level + (if is_array v then 0 else 2)) False (end_line e1)) (\<lambda>e4.
       yaml_fields m level False e4))"
| "yaml_items [] level first_inline e = Some (Inr e)"
| "yaml_items (x # xs) level first_inline e =
     and_emit (write_text ''- '' (if first_inline then e else startLine level e)) (\<lambda>e1.
     and_emit (yaml_node x (level + 2) True e1) (\<lambda>e2.
       yaml_items xs level False e2))"

declare yaml_node.simps [simp del]

definition dumpYaml :: "json \<Rightarrow> string emission" where
  "dumpYaml value = and_emit (yaml_node value 0 False \<lparr>written = [], column = 0\<rparr>) (\<lambda>e. Some (Inr (written e)))"

subsection \<open>The emitter only appends\<close>

definition prefixed :: "string \<Rightarrow> emitter \<Rightarrow> emitter" where
  "prefixed o1 e = e\<lparr>written := o1 @ written e\<rparr>"

definition after_prefix :: "string \<Rightarrow> emitter emission \<Rightarrow> emitter emission" where
  "after_prefix o1 x = and_emit x (\<lambda>e. Some (Inr (prefixed o1 e)))"

lemma and_emit_simps [simp]:
  "and_emit None f = None" "and_emit (Some (Inl e)) f = Some (Inl e)" "and_emit (Some (Inr x)) f = f x"
  by (simp_all add: and_emit_def)

lemma and_emit_assoc: "and_emit (and_emit x f) g = and_emit x (\<lambda>y. and_emit (f y) g)"
  by (simp add: and_emit_def split: option.split sum.split)

lemma and_emit_cong [fundef_cong]: "x = x' \<Longrightarrow> (\<And>y. x' = Some (Inr y) \<Longrightarrow> f y = g y) \<Longrightarrow> and_emit x f = and_emit x' g"
  by (simp add: and_emit_def split: option.split sum.split)

lemma after_prefix_simps [simp]:
  "after_prefix o1 None = None" "after_prefix o1 (Some (Inl x)) = Some (Inl x)" "after_prefix o1 (Some (Inr e)) = Some (Inr (prefixed o1 e))"
  by (simp_all add: after_prefix_def)

lemma after_prefix_bind:
  assumes "\<And>e. f (prefixed o1 e) = after_prefix o1 (f e)"
  shows "and_emit (after_prefix o1 x) f = after_prefix o1 (and_emit x f)"
  using assms by (simp add: after_prefix_def and_emit_def split: option.split sum.split)

named_theorems appends \<open>emission after a prefix\<close>

lemma bind_prefix [appends]:
  assumes "x' = after_prefix o1 x" "\<And>e. f' (prefixed o1 e) = after_prefix o1 (f e)"
  shows "and_emit x' f' = after_prefix o1 (and_emit x f)"
  using assms by (simp add: after_prefix_def and_emit_def split: option.split sum.split)

lemma same_prefix [appends]:
  assumes "\<And>y. f' y = after_prefix o1 (f y)"
  shows "and_emit x f' = after_prefix o1 (and_emit x f)"
  using assms by (simp add: after_prefix_def and_emit_def split: option.split sum.split)

lemma if_prefix [appends]:
  "(b \<Longrightarrow> x' = after_prefix o1 x) \<Longrightarrow> (\<not> b \<Longrightarrow> y' = after_prefix o1 y) \<Longrightarrow> (if b then x' else y') = after_prefix o1 (if b then x else y)"
  by simp

lemma result_prefix [appends]: "e' = prefixed o1 e \<Longrightarrow> Some (Inr e') = after_prefix o1 (Some (Inr e))"
  by simp

lemma put_text_prefix: "put_text t (prefixed o1 e) = and_then (put_text t e) (\<lambda>e. Inr (prefixed o1 e))"
  by (cases "utf8Characters t") (simp_all add: put_text_def prefixed_def)

lemma write_text_prefix: "write_text t (prefixed o1 e) = after_prefix o1 (write_text t e)"
  by (cases "put_text t e") (simp_all add: write_text_def put_text_prefix)

lemma prefixed_simps [simp]: "column (prefixed o1 e) = column e"
  "indent n (prefixed o1 e) = prefixed o1 (indent n e)" "startLine n (prefixed o1 e) = prefixed o1 (startLine n e)"
  "break_with t (prefixed o1 e) = prefixed o1 (break_with t e)"
  "end_line (prefixed o1 e) = prefixed o1 (end_line e)"
  "(if b then prefixed o1 e else prefixed o1 e') = prefixed o1 (if b then e else e')"
  by (simp_all add: prefixed_def indent_def startLine_def end_line_def break_with_def)

lemma breaks_prefix [simp]: "breaks cs (prefixed o1 e) = prefixed o1 (breaks cs e)"
  by (induction cs arbitrary: e) simp_all

lemma double_quoted_prefix:
  "double_quoted continuation key first cs (prefixed o1 e) = after_prefix o1 (double_quoted continuation key first cs e)"
proof (induction cs arbitrary: first e)
  case (Cons c cs)
  show ?case
    unfolding double_quoted.simps Let_def prefixed_simps by (intro appends write_text_prefix Cons.IH refl)
qed simp

lemma flow_turn_prefix:
  "flow_turn single continuation key first cs (prefixed o1 e)
   = and_then (flow_turn single continuation key first cs e) (\<lambda>(cs', e'). Inr (cs', prefixed o1 e'))"
proof -
  have bind: "and_then (and_then x f) g = and_then x (\<lambda>y. and_then (f y) g)" for x :: "emitter result" and f :: "_ \<Rightarrow> (string list \<times> emitter) result" and g :: "_ \<Rightarrow> (string list \<times> emitter) result"
    by (cases x) simp_all
  have bind2: "and_then (and_then x f) g = and_then x (\<lambda>y. and_then (f y) g)" for x :: "emitter result" and f :: "_ \<Rightarrow> emitter result" and g :: "_ \<Rightarrow> (string list \<times> emitter) result"
    by (cases x) simp_all
  show ?thesis
    by (simp add: flow_turn_def Let_def put_text_prefix bind bind2) (simp add: if_distrib [of "\<lambda>x. and_then x _"] bind put_text_prefix bind2 cong: if_cong, blast)
qed

lemma flow_prefix:
  "flow single continuation key first cs (prefixed o1 e) = after_prefix o1 (flow single continuation key first cs e)"
proof (induction single continuation key first cs e rule: flow.induct)
  case (1 single continuation key first cs e)
  then show ?case
    by (cases "flow_turn single continuation key first cs e")
       (auto simp: flow.simps [of _ _ _ _ cs] flow_turn_prefix)
qed

lemma yaml_string_prefix: "yaml_string t n key (prefixed o1 e) = after_prefix o1 (yaml_string t n key e)"
  unfolding yaml_string_def Let_def
  by (intro appends write_text_prefix double_quoted_prefix flow_prefix)

lemma yaml_scalar_prefix: "yaml_scalar v n (prefixed o1 e) = after_prefix o1 (yaml_scalar v n e)"
  by (cases v) (simp_all add: yaml_string_prefix write_text_prefix)

lemma yaml_key_prefix: "yaml_key k n (prefixed o1 e) = after_prefix o1 (yaml_key k n e)"
  unfolding yaml_key_def Let_def prefixed_simps
  by (intro appends write_text_prefix refl) (simp add: yaml_string_prefix, simp add: write_text_prefix)

lemma scalar_line_prefix:
  "and_emit (yaml_scalar v n (prefixed o1 e)) (\<lambda>e1. Some (Inr (end_line e1)))
   = after_prefix o1 (and_emit (yaml_scalar v n e) (\<lambda>e1. Some (Inr (end_line e1))))"
  by (intro appends yaml_scalar_prefix) simp

definition node_appends :: "json \<Rightarrow> bool" where
  "node_appends v \<longleftrightarrow> (\<forall>level inl o1 e. yaml_node v level inl (prefixed o1 e) = after_prefix o1 (yaml_node v level inl e))"

lemma yaml_items_prefix:
  assumes "\<And>x. x \<in> set xs \<Longrightarrow> node_appends x"
  shows "yaml_items xs level inl (prefixed o1 e) = after_prefix o1 (yaml_items xs level inl e)"
  using assms
proof (induction xs arbitrary: inl e)
  case (Cons x xs)
  have IH: "yaml_items xs level False (prefixed o1 e) = after_prefix o1 (yaml_items xs level False e)" for e
    using Cons by simp
  have node: "yaml_node x n i (prefixed o1 e) = after_prefix o1 (yaml_node x n i e)" for n i e
    using Cons.prems by (simp add: node_appends_def)
  show ?case
    unfolding yaml_items.simps prefixed_simps by (intro appends write_text_prefix node IH)
qed simp

lemma yaml_fields_prefix:
  assumes "\<And>k v. (k, v) \<in> set m \<Longrightarrow> node_appends v"
  shows "yaml_fields m level inl (prefixed o1 e) = after_prefix o1 (yaml_fields m level inl e)"
  using assms
proof (induction m arbitrary: inl e)
  case (Cons item m)
  obtain k v where item: "item = (k, v)" by fastforce
  have IH: "yaml_fields m level False (prefixed o1 e) = after_prefix o1 (yaml_fields m level False e)" for e
    using Cons by (meson list.set_intros(2))
  have node: "yaml_node v n i (prefixed o1 e) = after_prefix o1 (yaml_node v n i e)" for n i e
    using Cons.prems [of k v] item by (simp add: node_appends_def)
  show ?case
    unfolding item yaml_fields.simps prefixed_simps
    by (intro appends write_text_prefix yaml_key_prefix IH) (simp_all only: prefixed_simps node scalar_line_prefix write_text_prefix yaml_scalar_prefix)
qed simp

lemma node_appends_all: "node_appends v"
proof (induction v)
  case (JArray xs)
  then show ?case
    using yaml_items_prefix [of xs] scalar_line_prefix [of "JArray xs"] by (simp add: node_appends_def yaml_node.simps)
next
  case (JObject m)
  then have "\<And>k v. (k, v) \<in> set m \<Longrightarrow> node_appends v" by auto
  then show ?case
    using yaml_fields_prefix [of m] scalar_line_prefix [of "JObject m"] by (simp add: node_appends_def yaml_node.simps)
qed (use scalar_line_prefix in \<open>simp_all add: node_appends_def yaml_node.simps del: yaml_scalar.simps\<close>)

subsection \<open>Lower-case words\<close>

lemma utf8_ascii: "list_all (\<lambda>c. of_char c < (128 :: nat)) s \<Longrightarrow> utf8Characters s = Inr (map (\<lambda>c. [c]) s)"
  by (induction s) (simp_all add: utf8_count_def)

definition lower_word :: "string \<Rightarrow> bool" where
  "lower_word t \<longleftrightarrow> t \<noteq> [] \<and> list_all (Options.within (CHR ''a'') (CHR ''z'')) t"

lemma lower_code: "Options.within (CHR ''a'') (CHR ''z'') c \<Longrightarrow> 97 \<le> (of_char c :: nat) \<and> (of_char c :: nat) \<le> 122"
  by (simp add: within_def less_eq_char_def)

lemma codepoint_ascii [simp]: "codepoint [c] = of_char c"
  by (simp add: codepoint_def)

lemma lower_chars: "list_all (Options.within (CHR ''a'') (CHR ''z'')) t \<Longrightarrow> utf8Characters t = Inr (map (\<lambda>c. [c]) t)"
  by (rule utf8_ascii) (auto simp: list_all_iff dest!: lower_code)

lemma flow_lower:
  assumes "list_all (Options.within (CHR ''a'') (CHR ''z'')) t"
  shows "flow single n key first (map (\<lambda>c. [c]) t) e = Some (Inr \<lparr>written = written e @ t, column = column e + length t\<rparr>)"
  using assms
proof (induction t arbitrary: first e)
  case (Cons c t)
  have c: "97 \<le> (of_char c :: nat)" "(of_char c :: nat) \<le> 122"
    using Cons.prems lower_code by auto
  have "put_text [c] e = Inr \<lparr>written = written e @ [c], column = column e + 1\<rparr>"
    using c by (simp add: put_text_def utf8_count_def)
  then show ?case
    using Cons c by (simp add: lineBreak_def Let_def flow_turn_def flow.simps [of _ _ _ _ "_ # _"])
qed (simp add: flow.simps)

lemma style_lower:
  assumes "lower_word t" "implicitTag t = ''str''"
  shows "style t key = Inr Plain"
proof -
  have all: "list_all (Options.within (CHR ''a'') (CHR ''z'')) t" and ne: "t \<noteq> []"
    using assms(1) by (simp_all add: lower_word_def)
  let ?cs = "map of_char t :: nat list"
  have code: "97 \<le> ?cs ! i \<and> ?cs ! i \<le> 122" if "i < length t" for i
    using all that lower_code [of "t ! i"] by (simp add: list_all_length)
  have head: "97 \<le> (of_char (hd t) :: nat)" "(of_char (hd t) :: nat) \<le> 122"
    using all ne lower_code [of "hd t"] by (cases t; simp)+
  have "\<not> not_plain ?cs i" "\<not> not_single ?cs i" if "i < length t" for i
    using code [OF that] code [of "i - 1"] that
    by (auto simp: not_plain_def not_single_def Let_def lineBreak_def printable_def indicator_def)
  then have "\<not> list_ex (not_plain ?cs) [0..<length ?cs]" "\<not> list_ex (not_single ?cs) [0..<length ?cs]"
    by (auto simp: list_ex_iff)
  moreover have "take 3 t \<noteq> ''---''" "take 3 t \<noteq> ''...''"
    using head ne by (cases t; auto)+
  ultimately show ?thesis
    using assms(2) ne lower_chars [OF all] by (simp add: style_def Let_def comp_def)
qed

lemma yaml_string_lower:
  assumes "lower_word t" "implicitTag t = ''str''"
  shows "yaml_string t n key e = Some (Inr \<lparr>written = written e @ t, column = column e + length t\<rparr>)"
  using assms style_lower [OF assms] lower_chars [of t]
  by (simp add: yaml_string_def lower_word_def flow_lower) (simp add: write_text_def put_text_def)


subsection \<open>The emitter ends on well-encoded texts\<close>

text \<open>A text whose characters are complete and whose blanks are the space byte; UTF-8 has no other encoding of it.\<close>

definition well_encoded :: "string \<Rightarrow> bool" where
  "well_encoded t \<longleftrightarrow> (case utf8Characters t of Inl e \<Rightarrow> False | Inr cs \<Rightarrow> list_all (\<lambda>ch. codepoint ch = 32 \<longrightarrow> ch = '' '') cs)"

fun well_texts :: "json \<Rightarrow> bool" where
  "well_texts (JString t) = well_encoded t"
| "well_texts (JArray xs) = list_all well_texts xs"
| "well_texts (JObject m) = list_all (\<lambda>item. well_encoded (fst item) \<and> well_texts (snd item)) m"
| "well_texts _ = True"

definition emits :: "'a emission \<Rightarrow> bool" where
  "emits x \<longleftrightarrow> (\<exists>y. x = Some (Inr y))"

named_theorems emits_rules \<open>emissions that end\<close>

lemma emits_result [emits_rules]: "emits (Some (Inr y))"
  by (simp add: emits_def)

lemma emits_bind [emits_rules]: "emits x \<Longrightarrow> (\<And>y. emits (f y)) \<Longrightarrow> emits (and_emit x f)"
  by (auto simp: emits_def)

lemma emits_if [emits_rules]: "(b \<Longrightarrow> emits x) \<Longrightarrow> (\<not> b \<Longrightarrow> emits y) \<Longrightarrow> emits (if b then x else y)"
  by simp

definition readable :: "string \<Rightarrow> bool" where
  "readable t \<longleftrightarrow> (\<exists>cs. utf8Characters t = Inr cs)"

lemma put_text_readable: "readable t \<Longrightarrow> \<exists>e'. put_text t e = Inr e'"
  by (auto simp: readable_def put_text_def)

lemma emits_write [emits_rules]: "readable t \<Longrightarrow> emits (write_text t e)"
  using put_text_readable [of t e] by (auto simp: emits_def write_text_def)

lemma utf8_append:
  "utf8Characters a = Inr x \<Longrightarrow> utf8Characters (a @ b) = and_then (utf8Characters b) (\<lambda>y. Inr (x @ y))"
proof (induction a arbitrary: x rule: utf8Characters.induct)
  case 1
  then show ?case by (cases "utf8Characters b") simp_all
next
  case (2 c s)
  then obtain r where le: "utf8_count c \<le> length (c # s)" and r: "utf8Characters (drop (utf8_count c) (c # s)) = Inr r"
    and x: "x = take (utf8_count c) (c # s) # r"
    by (auto split: if_splits)
  have "utf8Characters (drop (utf8_count c) (c # s) @ b) = and_then (utf8Characters b) (\<lambda>y. Inr (r @ y))"
    using 2 le r by auto
  moreover have "drop (utf8_count c) ((c # s) @ b) = drop (utf8_count c) (c # s) @ b"
    "take (utf8_count c) ((c # s) @ b) = take (utf8_count c) (c # s)" "\<not> length ((c # s) @ b) < utf8_count c"
    using le by (simp_all only: drop_append take_append length_append) simp_all
  ultimately show ?case
    using x by (cases "utf8Characters b") (simp_all only: append_Cons utf8Characters.simps(2) if_False and_then.simps)
qed

lemma readable_append: "readable a \<Longrightarrow> readable b \<Longrightarrow> readable (a @ b)"
  by (auto simp: readable_def utf8_append)

lemma ascii_readable: "list_all (\<lambda>c. of_char c < (128 :: nat)) t \<Longrightarrow> readable t"
  by (simp add: readable_def utf8_ascii)

lemma characters_readable: "utf8Characters t = Inr cs \<Longrightarrow> list_all readable cs"
proof (induction t arbitrary: cs rule: utf8Characters.induct)
  case (2 c s)
  let ?n = "utf8_count c"
  obtain r where le: "?n \<le> length (c # s)" and r: "utf8Characters (drop ?n (c # s)) = Inr r" and cs: "cs = take ?n (c # s) # r"
    using 2(2) by (auto split: if_splits)
  have "readable (take ?n (c # s))"
    using le utf8_count_pos [of c] by (cases ?n) (simp_all add: readable_def)
  then show ?case
    using 2(1) le r cs by auto
qed simp

lemma char_code_below: "n < 128 \<Longrightarrow> of_char (char_of (n :: nat) :: char) < (128 :: nat)"
  by (simp add: of_char_of)

lemma upper_hex_ascii: "list_all (\<lambda>c. of_char c < (128 :: nat)) (upper_hex width c)"
  by (induction width arbitrary: c) (auto intro!: char_code_below)

lemma readable_Cons: "of_char c < (128 :: nat) \<Longrightarrow> readable t \<Longrightarrow> readable (c # t)"
  using readable_append [of "[c]" t] ascii_readable [of "[c]"] by simp

lemma escape_readable: "readable ch \<Longrightarrow> readable (escape c ch)"
  unfolding escape_def backslash_def
  by (auto intro!: readable_Cons ascii_readable [OF upper_hex_ascii] split: option.split if_splits simp: readable_def [of "[]"])

lemma double_quoted_emits:
  "list_all readable cs \<Longrightarrow> emits (double_quoted continuation key first cs e)"
proof (induction cs arbitrary: first e)
  case (Cons c cs)
  then have IH: "emits (double_quoted continuation key False cs e)" for e by simp
  show ?case
    using Cons.prems unfolding double_quoted.simps Let_def
    by (intro emits_rules IH) (auto simp: backslash_def intro!: ascii_readable escape_readable)
qed (simp add: emits_rules)

lemma flow_turn_progress:
  assumes "cs \<noteq> []" "list_all readable cs" "list_all (\<lambda>ch. codepoint ch = 32 \<longrightarrow> ch = '' '') cs"
  shows "\<exists>cs' e'. flow_turn single continuation key first cs e = Inr (cs', e') \<and> length cs' < length cs \<and> set cs' \<subseteq> set cs"
proof -
  have "readable (hd cs)" "readable (replicate n (CHR '' ''))" "readable [CHR 0x27]" for n
    using assms(1,2) by (cases cs; simp) (auto intro!: ascii_readable simp: list_all_iff)
  then have put: "\<exists>e'. put_text (hd cs) e = Inr e'" "\<exists>e'. put_text (replicate n (CHR '' '')) e = Inr e'" "\<exists>e'. put_text [CHR 0x27] e = Inr e'" for n e
    using put_text_readable by blast+
  have "\<exists>cs' e'. flow_turn single continuation key first cs e = Inr (cs', e') \<and> set cs' \<subseteq> set cs"
    using put(1) [of e] put(2) [of "length (takeWhile (\<lambda>ch. ch = '' '') cs)" e] put(3) assms(1)
    by (fastforce simp: flow_turn_def Let_def dest: set_dropWhileD list.set_sel(2))
  then obtain cs' e' where turn: "flow_turn single continuation key first cs e = Inr (cs', e')" "set cs' \<subseteq> set cs" by blast
  moreover have "length cs' < length cs"
  proof (rule ccontr)
    assume "\<not> ?thesis"
    from stuck_turn [OF turn(1) assms(1) this] show False
      using assms(1,3) by (cases cs) auto
  qed
  ultimately show ?thesis by blast
qed

lemma flow_emits:
  assumes "list_all readable cs" "list_all (\<lambda>ch. codepoint ch = 32 \<longrightarrow> ch = '' '') cs"
  shows "emits (flow single continuation key first cs e)"
  using assms
proof (induction "length cs" arbitrary: cs first e rule: less_induct)
  case less
  show ?case
  proof (cases "cs = []")
    case False
    obtain cs' e' where turn: "flow_turn single continuation key first cs e = Inr (cs', e')" "length cs' < length cs" "set cs' \<subseteq> set cs"
      using flow_turn_progress [OF False less.prems] by blast
    have "list_all readable cs'" "list_all (\<lambda>ch. codepoint ch = 32 \<longrightarrow> ch = '' '') cs'"
      using less.prems turn(3) by (auto simp: list_all_iff)
    then show ?thesis
      using less.hyps [OF turn(2)] turn False by (simp add: flow.simps [of _ _ _ _ cs])
  qed (simp add: flow.simps emits_rules)
qed

lemma yaml_string_emits [emits_rules]:
  assumes "well_encoded t"
  shows "emits (yaml_string t n key e)"
proof -
  obtain cs where cs: "utf8Characters t = Inr cs" "list_all (\<lambda>ch. codepoint ch = 32 \<longrightarrow> ch = '' '') cs"
    using assms by (auto simp: well_encoded_def split: sum.splits)
  have "\<exists>how. style t key = Inr how"
    by (simp add: style_def Let_def cs(1))
  then obtain how where how: "style t key = Inr how" ..
  have "readable (case how of Plain \<Rightarrow> [] | Single \<Rightarrow> [CHR 0x27] | Double_Quoted \<Rightarrow> [CHR 0x22])"
    by (cases how) (auto intro!: ascii_readable)
  then show ?thesis
    unfolding yaml_string_def how cs(1) and_emit_simps Let_def
    by (intro emits_rules double_quoted_emits flow_emits characters_readable [OF cs(1)] cs(2))
qed

end
