(* ===== verification/Scene_Yaml.thy ===== *)
theory Scene_Yaml
  imports Yaml
begin

section \<open>The YAML text of a document\<close>

text \<open>
  \<^verbatim>\<open>DocumentYaml\<close> of \<^verbatim>\<open>store.cpp\<close>: the text of a scene document for its file, with the texts of the obstacles of the last document kept for
  the next. The theorem says that the cache cannot be seen in the file.
\<close>

record yaml_cache =
  kept_items :: "string \<rightharpoonup> json \<times> string"
  yaml_emissions :: nat

text \<open>What a range-based loop over a JSON value visits.\<close>

fun elements :: "json \<Rightarrow> json list" where
  "elements JNull = []"
| "elements (JArray xs) = xs"
| "elements (JObject m) = map snd m"
| "elements v = [v]"

text \<open>The loop over the obstacles (lines 151 to 162).\<close>

fun emit_obstacles ::
  "(string \<rightharpoonup> json \<times> string) \<Rightarrow> (string \<rightharpoonup> json \<times> string) \<Rightarrow> nat \<Rightarrow> string \<Rightarrow> nat \<Rightarrow> json list
     \<Rightarrow> nat \<times> (string \<times> (string \<rightharpoonup> json \<times> string)) emission" where
  "emit_obstacles old items index t emissions [] = (emissions, Some (Inr (t, items)))"
| "emit_obstacles old items index t emissions (ob # rest) =
     (let key = itemKey ob index in
      case (case old key of Some (v, u) \<Rightarrow> if sameTextValue v ob then Some (v, u) else None | None \<Rightarrow> None) of
        Some item \<Rightarrow> emit_obstacles old (items(key \<mapsto> item)) (index + 1) (t @ snd item) emissions rest
      | None \<Rightarrow>
          (case dumpYaml (JArray [ob]) of
             None \<Rightarrow> (emissions, None)
           | Some (Inl e) \<Rightarrow> (emissions, Some (Inl e))
           | Some (Inr u) \<Rightarrow> emit_obstacles old (items(key \<mapsto> (ob, u))) (index + 1) (t @ u) (emissions + 1) rest))"

definition DocumentYaml_dump :: "yaml_cache \<Rightarrow> json \<Rightarrow> yaml_cache \<times> string emission" where
  "DocumentYaml_dump c value =
     (case json_at value ''obstacles'' of
        Inl e \<Rightarrow> (c, Some (Inl e))
      | Inr obstacles \<Rightarrow>
          if elements obstacles = [] \<or> fst (last (entries value)) \<noteq> ''obstacles''
          then (\<lparr>kept_items = Map.empty, yaml_emissions = yaml_emissions c + length (elements obstacles)\<rparr>, dumpYaml value)
          else
            (case emit_obstacles (kept_items c) Map.empty 0 [] (yaml_emissions c) (elements obstacles) of
               (n, None) \<Rightarrow> (c\<lparr>yaml_emissions := n\<rparr>, None)
             | (n, Some (Inl e)) \<Rightarrow> (c\<lparr>yaml_emissions := n\<rparr>, Some (Inl e))
             | (n, Some (Inr (t, items))) \<Rightarrow>
                 (\<lparr>kept_items = items, yaml_emissions = n\<rparr>,
                  and_emit (dumpYaml (JObject (filter (\<lambda>item. fst item \<noteq> ''obstacles'') (entries value)))) (\<lambda>header.
                    Some (Inr (header @ ''obstacles:'' @ [line_feed] @ t))))))"

subsection \<open>Equal values have equal texts\<close>

lemma yaml_float_cong:
  assumes "fp_eq (double_value x) (double_value y)" "\<not> fp_eq (double_value x) (Fin 0) \<or> signbit x = signbit y"
  shows "yaml_float x = yaml_float y"
  using pythonFloat_cong [OF assms] by (simp add: yaml_float_def)

lemma sameText_shape: "sameTextValue a b \<Longrightarrow> inlineValue a = inlineValue b \<and> is_array a = is_array b"
  by (cases a; cases b) auto

lemma sameText_scalar: "sameTextValue a b \<Longrightarrow> inlineValue a \<Longrightarrow> yaml_scalar a n e = yaml_scalar b n e"
  by (cases a; cases b) (auto dest: yaml_float_cong)

lemma sameText_yaml:
  "sameTextValue a b \<Longrightarrow> (\<And>level inl e. yaml_node a level inl e = yaml_node b level inl e)"
  "length xs = length ys \<Longrightarrow> same_items xs ys \<Longrightarrow> (\<And>level inl e. yaml_items xs level inl e = yaml_items ys level inl e)"
  "length m = length n \<Longrightarrow> same_fields m n \<Longrightarrow> (\<And>level inl e. yaml_fields m level inl e = yaml_fields n level inl e)"
proof (induction a b and xs ys and m n rule: sameTextValue_same_items_same_fields.induct)
  case (1 x b)
  then show ?case
    using sameText_scalar [of "JFloat x" b] sameText_shape [of "JFloat x" b] by (simp add: yaml_node.simps)
next
  case (2 xs b)
  then show ?case
    using sameText_shape [of "JArray xs" b] by (cases b) (simp_all add: yaml_node.simps)
next
  case (3 m b)
  then show ?case
    using sameText_shape [of "JObject m" b] by (cases b) (simp_all add: yaml_node.simps)
next
  case (9 x xs y ys)
  then have "yaml_items xs level inl = yaml_items ys level inl" "yaml_node x level inl = yaml_node y level inl" for level inl
    by (auto intro!: ext)
  then show ?case by simp
next
  case (11 k v m k' w n)
  then have "yaml_fields m level inl = yaml_fields n level inl" "yaml_node v level inl = yaml_node w level inl" for level inl
    by (auto intro!: ext)
  then show ?case
    using 11(4) sameText_scalar [of v w] sameText_shape [of v w] by (cases "inlineValue v") (simp_all del: yaml_scalar.simps)
qed (auto simp: Let_def)

lemma sameText_dumpYaml: "sameTextValue a b \<Longrightarrow> dumpYaml (JArray [a]) = dumpYaml (JArray [b])"
  using sameText_yaml(1) [of a b] by (simp add: dumpYaml_def yaml_node.simps [of "JArray _"])

subsection \<open>Lines put together\<close>

abbreviation blank_page :: emitter where
  "blank_page \<equiv> \<lparr>written = [], column = 0\<rparr>"

lemma fresh_line: "column e = 0 \<Longrightarrow> e = prefixed (written e) blank_page"
  by (simp add: prefixed_def)

lemma and_emit_Some: "and_emit x f = Some (Inr z) \<longleftrightarrow> (\<exists>y. x = Some (Inr y) \<and> f y = Some (Inr z))"
  by (simp add: and_emit_def split: option.split sum.split)

lemma yaml_node_column:
  "yaml_node v level inl e = Some (Inr e') \<Longrightarrow> column e' = 0"
  "yaml_fields m level inl e = Some (Inr e') \<Longrightarrow> column e' = (if m = [] then column e else 0)"
  "yaml_items xs level inl e = Some (Inr e') \<Longrightarrow> column e' = (if xs = [] then column e else 0)"
proof (induction v level inl e and m level inl e and xs level inl e arbitrary: e' and e' and e' rule: yaml_node_yaml_fields_yaml_items.induct)
  case (1 v level inl e)
  then show ?case
    by (cases v) (auto simp: yaml_node.simps and_emit_Some end_line_def break_with_def split: if_splits)
next
  case (3 k v m level inl e)
  then show ?case
    by (cases "inlineValue v") (auto simp: and_emit_Some end_line_def break_with_def)
next
  case (5 x xs level inl e)
  then show ?case by (auto simp: and_emit_Some)
qed simp_all

lemma node_prefix: "yaml_node v level inl (prefixed o1 e) = after_prefix o1 (yaml_node v level inl e)"
  using node_appends_all by (simp add: node_appends_def)

lemma items_prefix: "yaml_items xs level inl (prefixed o1 e) = after_prefix o1 (yaml_items xs level inl e)"
  by (rule yaml_items_prefix) (rule node_appends_all)

lemma after_prefix_Some: "after_prefix o1 x = Some (Inr e) \<longleftrightarrow> (\<exists>e'. x = Some (Inr e') \<and> e = prefixed o1 e')"
  by (auto simp: after_prefix_def and_emit_Some)

text \<open>The texts of the items of a list, one by one.\<close>

lemma items_one_by_one:
  assumes "column e = 0"
  shows "yaml_items (x # xs) 0 False e = Some (Inr e') \<longleftrightarrow>
    (\<exists>u. dumpYaml (JArray [x]) = Some (Inr u) \<and> yaml_items xs 0 False \<lparr>written = written e @ u, column = 0\<rparr> = Some (Inr e'))"
proof -
  have one: "yaml_items [x] 0 False e = Some (Inr e1) \<longleftrightarrow> (\<exists>u. dumpYaml (JArray [x]) = Some (Inr u) \<and> e1 = \<lparr>written = written e @ u, column = 0\<rparr>)" for e1
  proof -
    have "yaml_items [x] 0 False e = after_prefix (written e) (yaml_items [x] 0 False blank_page)"
      by (subst fresh_line [OF assms]) (rule items_prefix)
    moreover have "dumpYaml (JArray [x]) = and_emit (yaml_items [x] 0 False blank_page) (\<lambda>e. Some (Inr (written e)))"
      by (simp add: dumpYaml_def yaml_node.simps [of "JArray _"])
    moreover have "column e2 = 0" if "yaml_items [x] 0 False blank_page = Some (Inr e2)" for e2
      using yaml_node_column(3) [OF that] by simp
    ultimately show ?thesis
      by (auto simp: after_prefix_Some and_emit_Some prefixed_def)
  qed
  have split: "yaml_items (x # xs) 0 False e = and_emit (yaml_items [x] 0 False e) (yaml_items xs 0 False)"
    by (simp add: and_emit_assoc)
  show ?thesis
    unfolding split and_emit_Some one by (auto simp del: yaml_items.simps)
qed

definition item_texts :: "json list \<Rightarrow> string list \<Rightarrow> bool" where
  "item_texts = list_all2 (\<lambda>x u. dumpYaml (JArray [x]) = Some (Inr u))"

lemma items_texts:
  assumes "column e = 0"
  shows "yaml_items xs 0 False e = Some (Inr e') \<longleftrightarrow> (\<exists>us. item_texts xs us \<and> e' = \<lparr>written = written e @ concat us, column = 0\<rparr>)"
  using assms
proof (induction xs arbitrary: e)
  case Nil
  then show ?case by (cases e) (auto simp: item_texts_def)
next
  case (Cons x xs)
  have "yaml_items xs 0 False \<lparr>written = written e @ u, column = 0\<rparr> = Some (Inr e') \<longleftrightarrow>
      (\<exists>us. item_texts xs us \<and> e' = \<lparr>written = written e @ u @ concat us, column = 0\<rparr>)" for u
    using Cons.IH [of "\<lparr>written = written e @ u, column = 0\<rparr>"] by simp
  then show ?case
    unfolding items_one_by_one [OF Cons.prems] item_texts_def list_all2_Cons1 by (force simp del: yaml_items.simps)
qed

lemma fields_snoc:
  assumes "h \<noteq> []"
  shows "yaml_fields (h @ [item]) level inl e = and_emit (yaml_fields h level inl e) (yaml_fields [item] level False)"
  using assms
proof (induction h arbitrary: inl e)
  case (Cons a h)
  have "yaml_fields (h @ [item]) level False = (\<lambda>e. and_emit (yaml_fields h level False e) (yaml_fields [item] level False))"
    using Cons.IH by (cases "h = []") (auto simp del: yaml_fields.simps(2))
  then show ?case
    by (cases a) (simp add: and_emit_assoc del: yaml_fields.simps, simp add: and_emit_assoc)
qed simp

lemma obstacles_key: "yaml_key ''obstacles'' 0 (startLine 0 blank_page) = Some (Inr \<lparr>written = ''obstacles:'', column = 10\<rparr>)"
proof -
  have word: "lower_word ''obstacles''"
    by (simp add: lower_word_def within_def less_eq_char_def)
  then have chars: "utf8Characters ''obstacles'' = Inr (map (\<lambda>c. [c]) ''obstacles'')"
    unfolding lower_word_def by (intro lower_chars) blast
  have "implicitTag ''obstacles'' = ''str''"
    by (simp add: implicitTag_def boolean_texts_def digit_def within_def less_eq_char_def)
  then show ?thesis
    unfolding yaml_key_def chars yaml_string_lower [OF word]
    by (simp add: line_feed_def startLine_def write_text_def put_text_def utf8_count_def yaml_string_lower [OF word] del: utf8Characters.simps(2))
       (simp add: utf8_count_def)
qed

lemma document_lines:
  assumes "h \<noteq> []" "os \<noteq> []"
  shows "dumpYaml (JObject (h @ [(''obstacles'', JArray os)])) = Some (Inr t) \<longleftrightarrow>
    (\<exists>header us. dumpYaml (JObject h) = Some (Inr header) \<and> item_texts os us \<and> t = header @ ''obstacles:'' @ [line_feed] @ concat us)"
proof -
  have last: "yaml_fields [(''obstacles'', JArray os)] 0 False e = Some (Inr e') \<longleftrightarrow>
    (\<exists>us. item_texts os us \<and> e' = \<lparr>written = written e @ ''obstacles:'' @ [line_feed] @ concat us, column = 0\<rparr>)" if "column e = 0" for e e'
  proof -
    have "yaml_key ''obstacles'' 0 (startLine 0 e) = after_prefix (written e) (yaml_key ''obstacles'' 0 (startLine 0 blank_page))"
      by (subst fresh_line [OF that]) (simp add: yaml_key_prefix del: prefixed_simps(1))
    then have "yaml_fields [(''obstacles'', JArray os)] 0 False e
        = yaml_items os 0 False (end_line (prefixed (written e) \<lparr>written = ''obstacles:'', column = 10\<rparr>))"
      using assms(2) by (simp add: obstacles_key yaml_node.simps [of "JArray _"]) (simp add: and_emit_def split: option.split sum.split)
    then show ?thesis
      by (simp add: items_texts end_line_def break_with_def prefixed_def)
  qed
  have whole: "dumpYaml (JObject (h @ [(''obstacles'', JArray os)]))
      = and_emit (yaml_fields h 0 False blank_page) (\<lambda>e. and_emit (yaml_fields [(''obstacles'', JArray os)] 0 False e) (\<lambda>e. Some (Inr (written e))))"
    by (simp add: dumpYaml_def yaml_node.simps [of "JObject _"] fields_snoc [OF assms(1)] and_emit_assoc del: yaml_fields.simps)
  have header: "dumpYaml (JObject h) = and_emit (yaml_fields h 0 False blank_page) (\<lambda>e. Some (Inr (written e)))"
    using assms(1) by (simp add: dumpYaml_def yaml_node.simps [of "JObject _"])
  show ?thesis
  proof (cases "\<exists>e. yaml_fields h 0 False blank_page = Some (Inr e)")
    case True
    then obtain e where e: "yaml_fields h 0 False blank_page = Some (Inr e)" by blast
    then have "column e = 0"
      using yaml_node_column(2) [OF e] by simp
    then show ?thesis
      unfolding whole header e and_emit_simps and_emit_Some last [OF \<open>column e = 0\<close>] by auto
  next
    case False
    then show ?thesis
      unfolding whole header and_emit_Some by blast
  qed
qed

subsection \<open>The cache is invisible\<close>

definition yaml_texts_ok :: "(string \<rightharpoonup> json \<times> string) \<Rightarrow> bool" where
  "yaml_texts_ok items \<longleftrightarrow> (\<forall>k v u. items k = Some (v, u) \<longrightarrow> dumpYaml (JArray [v]) = Some (Inr u))"

definition texts_emitted :: "json list \<Rightarrow> string \<Rightarrow> (string \<times> (string \<rightharpoonup> json \<times> string)) emission \<Rightarrow> bool" where
  "texts_emitted os t x \<longleftrightarrow>
     (case x of
        Some (Inr (t', items)) \<Rightarrow> yaml_texts_ok items \<and> (\<exists>us. item_texts os us \<and> t' = t @ concat us)
      | _ \<Rightarrow> \<not> (\<exists>us. item_texts os us))"

lemma texts_emitted_Cons:
  assumes "dumpYaml (JArray [ob]) = Some (Inr u)" "texts_emitted os (t @ u) x"
  shows "texts_emitted (ob # os) t x"
  using assms by (auto simp: texts_emitted_def item_texts_def list_all2_Cons1 split: option.splits sum.splits prod.splits)

lemma emit_obstacles_exact:
  assumes "yaml_texts_ok old" "yaml_texts_ok items"
  shows "texts_emitted os t (snd (emit_obstacles old items index t emissions os))"
  using assms(2)
proof (induction os arbitrary: items index t emissions)
  case Nil
  then show ?case by (simp add: texts_emitted_def item_texts_def)
next
  case (Cons ob os)
  let ?hit = "case old (itemKey ob index) of Some (v, u) \<Rightarrow> if sameTextValue v ob then Some (v, u) else None | None \<Rightarrow> None"
  have step: "texts_emitted (ob # os) t (snd (emit_obstacles old (items(itemKey ob index \<mapsto> (v, u))) (index + 1) (t @ u) n os))"
    if "dumpYaml (JArray [ob]) = Some (Inr u)" "dumpYaml (JArray [v]) = Some (Inr u)" for v u n
    using that Cons by (intro texts_emitted_Cons [OF that(1)]) (simp add: yaml_texts_ok_def)
  show ?case
  proof (cases ?hit)
    case (Some item)
    then obtain v u where vu: "old (itemKey ob index) = Some (v, u)" "sameTextValue v ob" "item = (v, u)"
      by (auto split: option.splits if_splits)
    then have "dumpYaml (JArray [v]) = Some (Inr u)" "dumpYaml (JArray [ob]) = Some (Inr u)"
      using assms(1) sameText_dumpYaml [of v ob] by (auto simp: yaml_texts_ok_def)
    then show ?thesis
      using step [of u v emissions] Some vu(3) by (simp add: Let_def)
  next
    case None
    have failed: "texts_emitted (ob # os) t x" if "\<nexists>u. dumpYaml (JArray [ob]) = Some (Inr u)" "\<nexists>y. x = Some (Inr y)" for x
      using that by (auto simp: texts_emitted_def item_texts_def list_all2_Cons1 split: option.splits sum.splits)
    show ?thesis
    proof (cases "dumpYaml (JArray [ob])")
      case None': None
      then show ?thesis using failed [of None] None by (simp add: Let_def)
    next
      case (Some r)
      then show ?thesis
        using None failed [of "Some (Inl _)"] step [of _ ob "emissions + 1"] by (cases r) (simp_all add: Let_def)
    qed
  qed
qed

definition yaml_agrees :: "'a emission \<Rightarrow> 'a emission \<Rightarrow> bool" where
  "yaml_agrees x y \<longleftrightarrow> (\<forall>t. x = Some (Inr t) \<longleftrightarrow> y = Some (Inr t))"

text \<open>A scene document: obstacles in a list, among other fields, no field twice.\<close>

definition scene_fields :: "json \<Rightarrow> bool" where
  "scene_fields value \<longleftrightarrow>
     oo_ok (entries value) \<and> (\<exists>os. oo_find (entries value) ''obstacles'' = Some (JArray os)) \<and> 1 < length (entries value)"

lemma DocumentYaml_dump_exact:
  assumes "yaml_texts_ok (kept_items c)" "scene_fields d"
  shows "yaml_texts_ok (kept_items (fst (DocumentYaml_dump c d)))" and "yaml_agrees (snd (DocumentYaml_dump c d)) (dumpYaml d)"
proof -
  obtain m os where d: "d = JObject m" and found: "oo_find m ''obstacles'' = Some (JArray os)" and ok: "oo_ok m" and many: "1 < length m"
    using assms(2) by (cases d) (auto simp: scene_fields_def oo_find_map_of)
  have here: "json_at d ''obstacles'' = Inr (JArray os)"
    using found by (simp add: d json_at_def)
  have "yaml_texts_ok (kept_items (fst (DocumentYaml_dump c d))) \<and> yaml_agrees (snd (DocumentYaml_dump c d)) (dumpYaml d)"
  proof (cases "os = [] \<or> fst (last m) \<noteq> ''obstacles''")
    case True
    then have "DocumentYaml_dump c d = (\<lparr>kept_items = Map.empty, yaml_emissions = yaml_emissions c + length os\<rparr>, dumpYaml d)"
      using here by (simp add: DocumentYaml_dump_def d)
    then show ?thesis by (simp add: yaml_texts_ok_def yaml_agrees_def)
  next
    case False
    obtain h x where m': "m = h @ [x]"
      using many by (cases m rule: rev_cases) auto
    obtain v where m: "m = h @ [(''obstacles'', v)]"
      using False by (cases x) (simp add: m')
    have out: "''obstacles'' \<notin> fst ` set h"
      using ok by (auto simp: oo_ok_def m)
    then have "map_of h ''obstacles'' = None" by (simp add: map_of_eq_None_iff)
    then have v: "v = JArray os"
      using found by (simp add: m oo_find_map_of map_add_def)
    have h: "h \<noteq> []" "filter (\<lambda>item. fst item \<noteq> ''obstacles'') m = h"
      using many out by (auto simp: m filter_id_conv image_iff)
    obtain n x where run: "emit_obstacles (kept_items c) Map.empty 0 [] (yaml_emissions c) os = (n, x)" by fastforce
    have emitted: "texts_emitted os [] x"
      using emit_obstacles_exact [OF assms(1), of Map.empty os "[]" 0 "yaml_emissions c"] by (simp add: run yaml_texts_ok_def)
    have dump: "dumpYaml d = Some (Inr t) \<longleftrightarrow>
      (\<exists>header us. dumpYaml (JObject h) = Some (Inr header) \<and> item_texts os us \<and> t = header @ ''obstacles:'' @ [line_feed] @ concat us)" for t
      unfolding d m v using h(1) False by (intro document_lines) simp_all
    have unfold: "DocumentYaml_dump c d =
      (case (n, x) of
         (n, None) \<Rightarrow> (c\<lparr>yaml_emissions := n\<rparr>, None)
       | (n, Some (Inl e)) \<Rightarrow> (c\<lparr>yaml_emissions := n\<rparr>, Some (Inl e))
       | (n, Some (Inr (t, items))) \<Rightarrow>
           (\<lparr>kept_items = items, yaml_emissions = n\<rparr>,
            and_emit (dumpYaml (JObject h)) (\<lambda>header. Some (Inr (header @ ''obstacles:'' @ [line_feed] @ t)))))"
      using False here run h(2) by (simp add: DocumentYaml_dump_def d)
    have unique: "us = us'" if "item_texts os us" "item_texts os us'" for us us'
      using that unfolding item_texts_def by (auto intro!: nth_equalityI simp: list_all2_conv_all_nth)
    show ?thesis
    proof (cases "\<exists>t items. x = Some (Inr (t, items))")
      case True
      then obtain t items where x: "x = Some (Inr (t, items))" by blast
      then obtain us where us: "item_texts os us" "t = concat us" "yaml_texts_ok items"
        using emitted by (auto simp: texts_emitted_def)
      have "DocumentYaml_dump c d = (\<lparr>kept_items = items, yaml_emissions = n\<rparr>,
          and_emit (dumpYaml (JObject h)) (\<lambda>header. Some (Inr (header @ ''obstacles:'' @ [line_feed] @ concat us))))"
        by (simp add: unfold x us(2))
      moreover have "dumpYaml d = Some (Inr t') \<longleftrightarrow>
          (\<exists>header. dumpYaml (JObject h) = Some (Inr header) \<and> t' = header @ ''obstacles:'' @ [line_feed] @ concat us)" for t'
        unfolding dump using us(1) unique [OF us(1)] by blast
      ultimately show ?thesis
        using us(3) by (auto simp: yaml_agrees_def and_emit_Some)
    next
      case False
      then have "\<nexists>us. item_texts os us" "DocumentYaml_dump c d = (c\<lparr>yaml_emissions := n\<rparr>, None) \<or> (\<exists>e. DocumentYaml_dump c d = (c\<lparr>yaml_emissions := n\<rparr>, Some (Inl e)))"
        using emitted by (auto simp: texts_emitted_def unfold split: option.splits sum.splits)
      then show ?thesis
        using assms(1) by (auto simp: yaml_agrees_def dump)
    qed
  qed
  then show "yaml_texts_ok (kept_items (fst (DocumentYaml_dump c d)))" "yaml_agrees (snd (DocumentYaml_dump c d)) (dumpYaml d)"
    by blast+
qed

definition yaml_after :: "json list \<Rightarrow> yaml_cache" where
  "yaml_after ds = fold (\<lambda>d c. fst (DocumentYaml_dump c d)) ds \<lparr>kept_items = Map.empty, yaml_emissions = 0\<rparr>"

lemma yaml_after_ok: "list_all scene_fields ds \<Longrightarrow> yaml_texts_ok (kept_items (yaml_after ds))"
proof -
  have "yaml_texts_ok (kept_items c) \<Longrightarrow> list_all scene_fields ds \<Longrightarrow> yaml_texts_ok (kept_items (fold (\<lambda>d c. fst (DocumentYaml_dump c d)) ds c))" for c
    by (induction ds arbitrary: c) (simp_all add: DocumentYaml_dump_exact)
  moreover have "yaml_texts_ok (kept_items \<lparr>kept_items = Map.empty, yaml_emissions = 0\<rparr>)"
    by (simp add: yaml_texts_ok_def)
  ultimately show "list_all scene_fields ds \<Longrightarrow> yaml_texts_ok (kept_items (yaml_after ds))"
    unfolding yaml_after_def by blast
qed

text \<open>C35: The file of a scene does not depend on what was saved before: after any documents the caching writer gives a text exactly when the
  plain emitter does, and the same one.\<close>

theorem yaml_file_exact:
  assumes "list_all scene_fields ds" "scene_fields d"
  shows "snd (DocumentYaml_dump (yaml_after ds) d) = Some (Inr t) \<longleftrightarrow> dumpYaml d = Some (Inr t)"
  using DocumentYaml_dump_exact(2) [OF yaml_after_ok [OF assms(1)] assms(2)] by (simp add: yaml_agrees_def)

definition sample_fields :: json where
  "sample_fields = JObject [(''id'', JString ''s''), (''obstacles'', JArray [JNull])]"

theorem yaml_file_exact_witness:
  "snd (DocumentYaml_dump (yaml_after [sample_fields]) sample_fields) = Some (Inr ''x'') \<longleftrightarrow> dumpYaml sample_fields = Some (Inr ''x'')"
  by (rule yaml_file_exact) (simp_all add: scene_fields_def sample_fields_def oo_ok_def oo_find_map_of)

end
