(* ===== verification/Yaml_Scalars.thy ===== *)
theory Yaml_Scalars
  imports Yaml
begin

section \<open>Numbers in YAML\<close>

text \<open>
  The readers of number scalars (\<^verbatim>\<open>integerScalar\<close> and \<^verbatim>\<open>floatScalar\<close> of \<^verbatim>\<open>yaml_io.cpp\<close>) and their round trip with the emitter: the implicit type
  of a number's text is that of the number, and reading it gives the number back. \<^verbatim>\<open>std::strtod\<close> is an argument; what is relied on is
  that a decimal text gives the nearest double.
\<close>

subsection \<open>Reading numbers\<close>

text \<open>\<^verbatim>\<open>std::getline\<close> with a colon: a last empty part is not seen.\<close>

function colon_parts :: "string \<Rightarrow> string list" where
  "colon_parts s =
     (if s = [] then []
      else takeWhile (\<lambda>c. c \<noteq> CHR '':'') s # colon_parts (drop 1 (dropWhile (\<lambda>c. c \<noteq> CHR '':'') s)))"
  by auto

termination colon_parts
proof (relation "measure length")
  show "(drop 1 (dropWhile (\<lambda>c. c \<noteq> CHR '':'') s), s) \<in> measure length" if "s \<noteq> []" for s
    using that length_dropWhile_le [of "\<lambda>c. c \<noteq> CHR '':''" s] by (cases s) (auto simp: le_imp_less_Suc diff_less_Suc)
qed simp

declare colon_parts.simps [simp del]

abbreviation maximum64 :: nat where
  "maximum64 \<equiv> 2 ^ 64 - 1"

text \<open>The sum so far in 64 bits, in a \<^verbatim>\<open>long double\<close> (whose rounding is the argument \<open>wide\<close>), and whether the 64 bits overflowed.\<close>

type_synonym integer_sum = "nat \<times> rat \<times> bool"

definition add_digit :: "(rat \<Rightarrow> rat) \<Rightarrow> nat \<Rightarrow> nat \<Rightarrow> integer_sum \<Rightarrow> integer_sum" where
  "add_digit wide base d s =
     (case s of (integer, w, overflow) \<Rightarrow>
        let overflow' = (overflow \<or> (maximum64 - d) div base < integer) in
        (if overflow' then integer else integer * base + d, wide (wide (w * of_nat base) + of_nat d), overflow'))"

definition hex_value :: "nat \<Rightarrow> char \<Rightarrow> nat" where
  "hex_value base c =
     (if digit c then of_char c - 48
      else if Options.within (CHR ''a'') (CHR ''f'') c then of_char c - 97 + 10
      else if Options.within (CHR ''A'') (CHR ''F'') c then of_char c - 65 + 10 else base)"

fun sum_digits :: "(rat \<Rightarrow> rat) \<Rightarrow> nat \<Rightarrow> integer_sum \<Rightarrow> string \<Rightarrow> integer_sum result" where
  "sum_digits wide base s [] = Inr s"
| "sum_digits wide base s (c # cs) =
     (if base \<le> hex_value base c then Inl (SceneError ''Invalid scene YAML: invalid integer scalar'')
      else sum_digits wide base (add_digit wide base (hex_value base c) s) cs)"

text \<open>\<^verbatim>\<open>std::stoull\<close>: white space, a sign, digits; what follows is ignored, and a minus sign negates modulo \<open>2 ^ 64\<close>.\<close>

definition stoull :: "string \<Rightarrow> nat result" where
  "stoull s =
     (let signed = dropWhile (\<lambda>c. c = CHR '' '' \<or> 9 \<le> (of_char c :: nat) \<and> (of_char c :: nat) \<le> 13) s;
          negative = (take 1 signed = ''-'');
          digits = takeWhile digit (if negative \<or> take 1 signed = ''+'' then drop 1 signed else signed)
      in if digits = [] then Inl (InvalidArgument ''stoull'')
         else if maximum64 < digits_value digits then Inl (OtherError ''stoull'')
         else Inr (if negative then (2 ^ 64 - digits_value digits) mod 2 ^ 64 else digits_value digits))"

fun sum_parts :: "(rat \<Rightarrow> rat) \<Rightarrow> integer_sum \<Rightarrow> string list \<Rightarrow> integer_sum result" where
  "sum_parts wide s [] = Inr s"
| "sum_parts wide s (p # ps) = and_then (stoull p) (\<lambda>d. sum_parts wide (add_digit wide 60 d s) ps)"

definition unsigned_part :: "string \<Rightarrow> string" where
  "unsigned_part t = (if take 1 t = ''-'' \<or> take 1 t = ''+'' then drop 1 t else t)"

definition without_underscores :: "string \<Rightarrow> string" where
  "without_underscores t = filter (\<lambda>c. c \<noteq> CHR ''_'') t"

definition integerScalar :: "(rat \<Rightarrow> rat) \<Rightarrow> string \<Rightarrow> json result" where
  "integerScalar wide text_of =
     (let signed = without_underscores text_of; negative = (take 1 signed = ''-''); t = unsigned_part signed;
          base = (if take 2 t = ''0b'' then 2 else if take 2 t = ''0x'' then 16 else if 1 < length t \<and> hd t = CHR ''0'' then 8 else 10);
          digits = drop (if base = 2 \<or> base = 16 then 2 else 0) t in
      and_then (if CHR '':'' \<in> set t \<and> base = 10 then sum_parts wide (0, 0, False) (colon_parts t) else sum_digits wide base (0, 0, False) digits)
        (\<lambda>(integer, w, overflow).
          Inr (if overflow then JFloat (Double (read_double (if negative then - w else w)))
               else if \<not> negative then JUnsigned integer
               else if 2 ^ 63 < integer then JFloat (Double (Fin (- round_double (of_nat integer))))
               else JInt (- int integer))))"

text \<open>Sums and products of doubles.\<close>

fun double_add :: "fp \<Rightarrow> fp \<Rightarrow> fp" where
  "double_add (Fin x) (Fin y) = read_double (x + y)"
| "double_add NaN y = NaN"
| "double_add x NaN = NaN"
| "double_add PosInf NegInf = NaN"
| "double_add NegInf PosInf = NaN"
| "double_add PosInf y = PosInf"
| "double_add NegInf y = NegInf"
| "double_add x y = y"

fun double_times :: "fp \<Rightarrow> fp \<Rightarrow> fp" where
  "double_times (Fin x) (Fin y) = read_double (x * y)"
| "double_times NaN y = NaN"
| "double_times x NaN = NaN"
| "double_times (Fin x) y = (if x = 0 then NaN else if (0 < x) = (y = PosInf) then PosInf else NegInf)"
| "double_times x (Fin y) = (if y = 0 then NaN else if (0 < y) = (x = PosInf) then PosInf else NegInf)"
| "double_times x y = (if x = y then PosInf else NegInf)"

fun negated :: "fp \<Rightarrow> double" where
  "negated (Fin x) = (if x = 0 then NegZero else Double (Fin (- x)))"
| "negated PosInf = Double NegInf"
| "negated NegInf = Double PosInf"
| "negated NaN = Double NaN"

text \<open>The digits from right to left. The sum starts at zero and is never the negative zero.\<close>

fun sum_sixty :: "fp \<Rightarrow> fp \<Rightarrow> fp list \<Rightarrow> fp" where
  "sum_sixty acc base [] = acc"
| "sum_sixty acc base (d # ds) = sum_sixty (double_add acc (double_times d base)) (double_times base (Fin 60)) ds"

definition floatScalar :: "(string \<Rightarrow> fp option) \<Rightarrow> string \<Rightarrow> json result" where
  "floatScalar strtod text_of =
     (let signed = map tolower (without_underscores text_of); negative = (take 1 signed = ''-''); t = unsigned_part signed in
      if t = ''.inf'' then Inr (JFloat (Double (if negative then NegInf else PosInf)))
      else if t = ''.nan'' then Inr (JFloat (Double NaN))
      else and_then (traverse (\<lambda>p. case strtod p of None \<Rightarrow> Inl (SceneError ''Invalid scene YAML: invalid float scalar'') | Some d \<Rightarrow> Inr d)
                       (colon_parts t)) (\<lambda>ds.
        let sum = sum_sixty (Fin 0) (Fin 1) (rev ds)
        in Inr (JFloat (if negative then negated sum else Double sum))))"

text \<open>What \<^verbatim>\<open>construct\<close> makes of a plain, untagged scalar of ASCII characters.\<close>

definition plain_scalar :: "(string \<Rightarrow> fp option) \<Rightarrow> (rat \<Rightarrow> rat) \<Rightarrow> string \<Rightarrow> json result" where
  "plain_scalar strtod wide t =
     (let kind = implicitTag t; lower = map tolower t in
      if kind = ''str'' then Inr (JString t)
      else if kind = ''null'' then Inr JNull
      else if kind = ''int'' then integerScalar wide t
      else if kind = ''float'' then floatScalar strtod t
      else if kind = ''bool'' then
        (if lower \<in> {''true'', ''yes'', ''on''} then Inr (JBool True)
         else if lower \<in> {''false'', ''no'', ''off''} then Inr (JBool False)
         else Inl (SceneError ''Invalid scene YAML: invalid boolean scalar''))
      else Inl (SceneError ''Invalid scene YAML: unsupported scene document tag''))"

subsection \<open>The text of a double\<close>

lemma shortest_scientific:
  assumes "0 < digits"
  shows "\<exists>n > 0. shortest v digits = scientific v n"
  using assms
proof (induction v digits rule: shortest.induct)
  case (1 v digits)
  show ?case
  proof (cases "17 \<le> digits \<or> read_double (decimal_value (scientific v digits)) = Fin v")
    case True
    then show ?thesis
      using 1(2) by (subst shortest.simps) (auto simp: Let_def)
  next
    case False
    then have "shortest v digits = shortest v (digits + 1)"
      by (subst shortest.simps) (simp add: Let_def)
    then show ?thesis
      using 1 False by (simp add: Let_def)
  qed
qed

lemma strip_zeros_text:
  assumes "digits_only ds" "ds \<noteq> []"
  shows "digits_only (strip_zeros ds)" "strip_zeros ds \<noteq> []"
proof -
  have "set (rev (dropWhile (\<lambda>c. c = CHR ''0'') (rev ds))) \<subseteq> set ds"
    by (metis set_dropWhileD set_rev subsetI)
  then show "digits_only (strip_zeros ds)" "strip_zeros ds \<noteq> []"
    using assms by (auto simp: strip_zeros_def Let_def list_all_iff dest: in_set_takeD)
qed

lemma pythonFloat_text:
  assumes "v \<noteq> 0"
  shows "\<exists>e D. digits_only D \<and> D \<noteq> [] \<and> pythonFloat (Double (Fin v)) = (if v < 0 then ''-'' else []) @ arrange e D"
proof -
  obtain n where n: "0 < n" "shortest v 1 = scientific v n"
    using shortest_scientific [of 1 v] by auto
  obtain m e where me: "sci_parts \<bar>v\<bar> n = (m, e)" by fastforce
  have "pythonFloat (Double (Fin v)) = layout ((if v < 0 then ''-'' else []) @ sci_text (show_nat m) e)"
    using assms n scientific_text(1) [OF assms n(1) me] by (simp add: pythonFloat_def)
  also have "\<dots> = (if v < 0 then ''-'' else []) @ arrange e (strip_zeros (show_nat m))"
    using show_nat_digits [of m] by (intro layout_sci) simp_all
  finally show ?thesis
    using strip_zeros_text [of "show_nat m"] show_nat_digits [of m] by auto
qed

text \<open>A decimal text with a point.\<close>

definition decimal_text :: "string \<Rightarrow> bool" where
  "decimal_text t \<longleftrightarrow>
     (\<exists>w f x. t = w @ CHR ''.'' # f @ x \<and> digits_only w \<and> w \<noteq> [] \<and> digits_only f
        \<and> (x = [] \<or> (\<exists>n. x = CHR ''e'' # show_exponent n)))"

definition pointed :: "string \<Rightarrow> string" where
  "pointed t =
     (if CHR ''.'' \<notin> set t \<and> CHR ''e'' \<in> set t
      then takeWhile (\<lambda>c. c \<noteq> CHR ''e'') t @ ''.0'' @ dropWhile (\<lambda>c. c \<noteq> CHR ''e'') t else t)"

lemma decimal_textI:
  assumes "digits_only w" "w \<noteq> []" "digits_only f"
  shows "decimal_text (w @ CHR ''.'' # f)" "decimal_text (w @ CHR ''.'' # f @ CHR ''e'' # show_exponent n)"
proof -
  have "\<exists>x. w @ CHR ''.'' # f = w @ CHR ''.'' # f @ x \<and> (x = [] \<or> (\<exists>n. x = CHR ''e'' # show_exponent n))"
    by (rule exI [of _ "[]"]) simp
  then show "decimal_text (w @ CHR ''.'' # f)"
    unfolding decimal_text_def using assms by blast
  show "decimal_text (w @ CHR ''.'' # f @ CHR ''e'' # show_exponent n)"
    unfolding decimal_text_def using assms by blast
qed

lemma not_digits [simp]: "\<not> digit (CHR ''.'')" "\<not> digit (CHR ''n'')" "\<not> digit (CHR ''i'')" "\<not> digit (CHR '':'')" "\<not> digit (CHR ''_'')"
  by (simp_all add: digit_def within_def less_eq_char_def)

lemma show_exponent_chars: "show_exponent n = s # ds \<Longrightarrow> (s = CHR ''-'' \<or> s = CHR ''+'') \<and> digits_only ds \<and> ds \<noteq> []"
  using show_nat_digits [of "nat \<bar>n\<bar>"] by (auto simp: show_exponent_def Let_def split: if_splits)

lemma show_exponent_no_point: "CHR ''.'' \<notin> set (show_exponent n)"
  using show_exponent_chars [of n] by (cases "show_exponent n") (auto simp: list_all_iff)

lemma arrange_pointed:
  assumes D: "digits_only D" "D \<noteq> []"
  shows "decimal_text (pointed (arrange e D)) \<and> decimal_pos (pointed (arrange e D)) = decimal_pos (arrange e D)"
proof -
  have with_point: "pointed t = t" if "CHR ''.'' \<in> set t" for t
    using that by (simp add: pointed_def)
  have plain: ?thesis if "arrange e D = w @ CHR ''.'' # f" "digits_only w" "w \<noteq> []" "digits_only f" for w f
    using that with_point [of "arrange e D"] decimal_textI(1) by simp
  consider (sci) "e < - 4 \<or> 16 \<le> e" "arrange e D = sci_text D e"
    | (small) z where "arrange e D = ''0'' @ CHR ''.'' # replicate z (CHR ''0'') @ D"
    | (large) z where "arrange e D = (D @ replicate z (CHR ''0'')) @ CHR ''.'' # ''0''"
    | (middle) n where "arrange e D = take n D @ CHR ''.'' # drop n D" "0 < n"
    by (fastforce simp: arrange_def Let_def sci_text_def split: if_splits)
  then show ?thesis
  proof cases
    case sci
    from D(2) show ?thesis
    proof (cases rule: sci_text_cases [of _ e])
      case (1 c)
      have c: "digits_only [c]" using D(1) 1(1) by simp
      then have text_of: "pointed (arrange e D) = [c] @ CHR ''.'' # ''0'' @ CHR ''e'' # show_exponent e"
        using 1 sci(2) show_exponent_no_point [of e] by (auto simp: pointed_def)
      have "decimal_pos ([c] @ CHR ''.'' # ''0'' @ CHR ''e'' # show_exponent e) = of_nat (digits_value [c, CHR ''0'']) * 10 powi (e - 1)"
        using decimal_pos_text(1) [OF c, of "''0''" "show_exponent e"] by simp
      also have "\<dots> = of_nat (digits_value [c]) * 10 powi e"
        by (simp add: digits_value_def power_int_diff)
      also have "\<dots> = decimal_pos (arrange e D)"
        using sci(2) 1(2) decimal_pos_text(2) [OF c c, of "show_exponent e"] by simp
      finally show ?thesis
        unfolding text_of using decimal_textI(2) [OF c, of "''0''" e] by simp
    next
      case (2 c r)
      then have "digits_only [c]" "digits_only r" using D(1) by simp_all
      then have "decimal_text (arrange e D)"
        using decimal_textI(2) [of "[c]" r e] 2 sci(2) by simp
      then show ?thesis
        using with_point [of "arrange e D"] 2 sci(2) by simp
    qed
  next
    case (small z)
    then show ?thesis using D by (intro plain [of "''0''" "replicate z (CHR ''0'') @ D"]) (auto simp: list_all_iff)
  next
    case (large z)
    then show ?thesis using D by (intro plain [of "D @ replicate z (CHR ''0'')" "''0''"]) (auto simp: list_all_iff)
  next
    case (middle n)
    then show ?thesis using D digits_take_drop [OF D(1)] by (intro plain [of "take n D" "drop n D"]) auto
  qed
qed

lemma arrange_starts: "digits_only D \<Longrightarrow> D \<noteq> [] \<Longrightarrow> \<exists>c r. arrange e D = c # r \<and> digit c"
  by (cases D) (auto simp: arrange_def Let_def take_Cons' split: if_splits)

text \<open>What the emitter writes for a double.\<close>

lemma yaml_float_text:
  "\<exists>t. yaml_float (Double (Fin v)) = (if v < 0 then ''-'' else []) @ t \<and> decimal_text t
     \<and> decimal_value (pythonFloat (Double (Fin v))) = (if v < 0 then - decimal_pos t else decimal_pos t)"
proof (cases "v = 0")
  case True
  have "decimal_text ''0.0''" using decimal_textI(1) [of "''0''" "''0''"] by simp
  then show ?thesis
    by (simp add: True yaml_float_def pythonFloat_def decimal_value_def)
next
  case False
  obtain e D where D: "digits_only D" "D \<noteq> []" and text_of: "pythonFloat (Double (Fin v)) = (if v < 0 then ''-'' else []) @ arrange e D"
    using pythonFloat_text [OF False] by blast
  obtain c r where start: "arrange e D = c # r" "digit c"
    using arrange_starts [OF D] by blast
  have "yaml_float (Double (Fin v)) = pointed (pythonFloat (Double (Fin v)))"
    using start by (auto simp: yaml_float_def text_of pointed_def Let_def)
  also have "\<dots> = (if v < 0 then ''-'' else []) @ pointed (arrange e D)"
    by (simp add: text_of pointed_def)
  finally show ?thesis
    using arrange_pointed [OF D, of e] signed_value [of "arrange e D" "v < 0"] arrange_value(2) [OF D, of e] by (auto simp: text_of)
qed

subsection \<open>What a regular expression matches\<close>

named_theorems matching \<open>the languages of regular expressions\<close>

lemma match_Zero [matching]: "regex_match s Zero \<longleftrightarrow> False"
  by (induction s) simp_all

lemma match_One [matching]: "regex_match s One \<longleftrightarrow> s = []"
  by (cases s) (simp_all add: match_Zero)

lemma match_Sym [matching]: "regex_match s (Sym p) \<longleftrightarrow> (\<exists>c. s = [c] \<and> p c)"
  by (cases s) (simp_all add: match_Zero match_One)

lemma match_Alt [matching]: "regex_match s (Alt r r') \<longleftrightarrow> regex_match s r \<or> regex_match s r'"
  by (induction s arbitrary: r r') simp_all

lemma split_Cons: "(\<exists>a b. c # s = a @ b \<and> P a b) \<longleftrightarrow> P [] (c # s) \<or> (\<exists>a b. s = a @ b \<and> P (c # a) b)"
  by (auto simp: Cons_eq_append_conv)

lemma match_Cat [matching]: "regex_match s (Cat r r') \<longleftrightarrow> (\<exists>a b. s = a @ b \<and> regex_match a r \<and> regex_match b r')"
proof (induction s arbitrary: r r')
  case (Cons c s)
  show ?case
    unfolding split_Cons by (auto simp: match_Alt Cons.IH)
qed simp

lemma match_Star_Sym [matching]: "regex_match s (Star (Sym p)) \<longleftrightarrow> list_all p s"
proof (induction s)
  case (Cons c s)
  have "regex_match s (Cat Zero (Star (Sym p))) = False" "regex_match s (Cat One (Star (Sym p))) = regex_match s (Star (Sym p))"
    by (auto simp: match_Cat match_Zero match_One)
  then show ?case
    using Cons by simp
qed simp

lemma match_optional [matching]: "regex_match s (optional r) \<longleftrightarrow> s = [] \<or> regex_match s r"
  by (simp add: optional_def match_Alt match_One)

lemma match_plus_Sym [matching]: "regex_match s (plus (Sym p)) \<longleftrightarrow> s \<noteq> [] \<and> list_all p s"
  by (cases s) (simp_all add: plus_def match_Cat match_Sym match_Star_Sym split_Cons)

lemma match_in_order [matching]:
  "regex_match s (in_order []) \<longleftrightarrow> s = []"
  "regex_match s (in_order (r # rs)) \<longleftrightarrow> (\<exists>a b. s = a @ b \<and> regex_match a r \<and> regex_match b (in_order rs))"
  by (simp_all add: in_order_def match_Cat match_One)

lemma match_one_of [matching]: "regex_match s (one_of rs) \<longleftrightarrow> (\<exists>r \<in> set rs. regex_match s r)"
  by (induction rs) (simp_all add: one_of_def match_Zero match_Alt)

lemma in_order_append: "regex_match a r \<Longrightarrow> regex_match b (in_order rs) \<Longrightarrow> regex_match (a @ b) (in_order (r # rs))"
  unfolding match_in_order(2) by blast

lemma digits_class_all: "digits_only w \<Longrightarrow> list_all (\<lambda>c. digit c \<or> c = CHR ''_'') w"
  by (auto simp: list_all_iff)

text \<open>Signed decimal texts are floats.\<close>

lemma decimal_is_float:
  assumes "decimal_text t" "s = [] \<or> s = ''-''"
  shows "regex_match (s @ t) floating_regex"
proof -
  obtain w f x where t: "t = w @ CHR ''.'' # f @ x" and parts: "digits_only w" "w \<noteq> []" "digits_only f"
    and x: "x = [] \<or> (\<exists>n. x = CHR ''e'' # show_exponent n)"
    using assms(1) by (auto simp: decimal_text_def)
  obtain c w' where w: "w = [c] @ w'" using parts(2) by (cases w) auto
  have exponent: "regex_match x exponent_part"
  proof (cases "x = []")
    case True
    then show ?thesis by (simp add: match_optional)
  next
    case False
    then obtain n where n: "x = CHR ''e'' # show_exponent n" using x by blast
    obtain g ds where g: "show_exponent n = g # ds" by (cases "show_exponent n") (auto simp: show_exponent_def Let_def split: if_splits)
    have "regex_match ([CHR ''e''] @ [g] @ ds @ []) (in_order [Sym (\<lambda>c. c = CHR ''e'' \<or> c = CHR ''E''), sign_class, plus digit_class])"
      using show_exponent_chars [OF g] by (intro in_order_append) (simp_all add: matching)
    then show ?thesis by (simp add: match_optional n g)
  qed
  have "regex_match (s @ [c] @ w' @ ''.'' @ f @ x @ [])
      (in_order [optional sign_class, digit_class, Star digits_class, mark (CHR ''.''), Star digits_class, exponent_part])"
    using assms(2) parts w exponent by (intro in_order_append) (auto simp: matching digits_class_all)
  then show ?thesis
    unfolding floating_regex_def match_one_of by (simp add: t w)
qed

text \<open>A float has a point.\<close>

lemma float_has_point:
  assumes "regex_match s floating_regex"
  shows "CHR ''.'' \<in> set s"
  using assms unfolding floating_regex_def match_one_of
  by (auto simp: match_in_order match_Sym)


subsection \<open>Integers read back\<close>

lemma show_nat_first: "0 < n \<Longrightarrow> hd (show_nat n) \<noteq> CHR ''0''"
proof (induction n rule: show_nat.induct)
  case (1 n)
  show ?case
  proof (cases "n < 10")
    case True
    have "digit_char n \<noteq> CHR ''0''"
    proof
      assume "digit_char n = CHR ''0''"
      then have "of_char (digit_char n) = (48 :: nat)" by simp
      then show False using True 1(2) by simp
    qed
    then show ?thesis using True by (simp add: show_nat.simps [of n])
  next
    case False
    then have "hd (show_nat n) = hd (show_nat (n div 10))"
      by (simp add: show_nat.simps [of n])
    then show ?thesis using 1(1) False by simp
  qed
qed

lemma hex_value_digit: "digit c \<Longrightarrow> hex_value base c = of_char c - 48 \<and> of_char c - 48 < (10 :: nat)"
  by (auto simp: hex_value_def digit_def within_def less_eq_char_def)

lemma digits_value_Cons: "digits_value (c # cs) = (of_char c - 48) * 10 ^ length cs + digits_value cs"
  using digits_value_append [of "[c]" cs] by (simp add: digits_value_def)

lemma sum_digits_decimal:
  assumes "digits_only s" "k * 10 ^ length s + digits_value s \<le> maximum64"
  shows "\<exists>w'. sum_digits wide 10 (k, w, False) s = Inr (k * 10 ^ length s + digits_value s, w', False)"
  using assms
proof (induction s arbitrary: k w)
  case Nil
  then show ?case by (simp add: digits_value_def)
next
  case (Cons c s)
  let ?d = "of_char c - 48 :: nat"
  have d: "hex_value 10 c = ?d" "?d < 10"
    using Cons.prems(1) hex_value_digit [of c 10] by simp_all
  have next_sum: "(k * 10 + ?d) * 10 ^ length s + digits_value s = k * 10 ^ length (c # s) + digits_value (c # s)"
    by (simp add: digits_value_Cons algebra_simps)
  have "k * 10 + ?d \<le> (k * 10 + ?d) * 10 ^ length s"
    by simp
  also have "\<dots> \<le> maximum64"
    using next_sum Cons.prems(2) by (metis add_leD1)
  finally have "k * 10 + ?d \<le> maximum64" .
  then have "add_digit wide 10 ?d (k, w, False) = (k * 10 + ?d, wide (wide (w * 10) + of_nat ?d), False)"
    by (simp add: add_digit_def Let_def not_less less_eq_div_iff_mult_less_eq)
  then show ?case
    using Cons.IH [of "k * 10 + ?d" "wide (wide (w * 10) + of_nat ?d)"] Cons.prems d next_sum by simp
qed

lemma digits_simple:
  assumes "digits_only t" "t \<noteq> []"
  shows "without_underscores t = t" "unsigned_part t = t" "take 2 t \<noteq> ''0b''" "take 2 t \<noteq> ''0x''" "CHR '':'' \<notin> set t" "CHR ''.'' \<notin> set t"
proof -
  have "\<not> digit (CHR ''b'')" "\<not> digit (CHR ''x'')" "\<not> digit (CHR ''-'')" "\<not> digit (CHR ''+'')"
    by (simp_all add: digit_def within_def less_eq_char_def)
  moreover have "digits_only (take 2 t)" "digits_only (take 1 t)"
    using assms(1) digits_take_drop by blast+
  ultimately show "take 2 t \<noteq> ''0b''" "take 2 t \<noteq> ''0x''" "unsigned_part t = t"
    by (auto simp: unsigned_part_def)
  show "without_underscores t = t" "CHR '':'' \<notin> set t" "CHR ''.'' \<notin> set t"
    using assms(1) by (auto simp: without_underscores_def filter_id_conv list_all_iff)
qed

lemma show_nat_int: "regex_match (s @ show_nat n) integer_regex" if "s = [] \<or> s = ''-''"
proof -
  obtain c r where t: "show_nat n = c # r" by (cases "show_nat n") auto
  have d: "digit c" "digits_only r"
    using show_nat_digits [of n] by (simp_all add: t)
  have tail: "regex_match (show_nat n) (Alt (mark (CHR ''0'')) (in_order [Sym (Options.within (CHR ''1'') (CHR ''9'')), Star digits_class]))"
  proof (cases "n = 0")
    case True
    have "show_nat 0 = ''0''" by code_simp
    then show ?thesis by (simp add: True match_Alt match_Sym)
  next
    case False
    then have "c \<noteq> CHR ''0''" using show_nat_first [of n] t by simp
    then have "of_char c \<noteq> (of_char (CHR ''0'') :: nat)"
      unfolding of_char_eq_iff .
    then have "Options.within (CHR ''1'') (CHR ''9'') c"
      using d(1) by (simp add: digit_def within_def less_eq_char_def)
    then have "regex_match ([c] @ r @ []) (in_order [Sym (Options.within (CHR ''1'') (CHR ''9'')), Star digits_class])"
      using d by (intro in_order_append) (auto simp: matching digits_class_all)
    then show ?thesis by (simp add: match_Alt t)
  qed
  have "regex_match (s @ show_nat n @ [])
      (in_order [optional sign_class, Alt (mark (CHR ''0'')) (in_order [Sym (Options.within (CHR ''1'') (CHR ''9'')), Star digits_class])])"
    using that tail by (intro in_order_append) (auto simp: match_optional match_Sym match_in_order)
  then show ?thesis
    unfolding integer_regex_def match_one_of by simp
qed

text \<open>A text that starts like a number is neither a null nor a boolean.\<close>

lemma numeric_start:
  assumes "t \<noteq> []" "hd t = CHR ''-'' \<or> digit (hd t)"
  shows "regex_match t floating_regex \<Longrightarrow> implicitTag t = ''float''"
    and "\<not> regex_match t floating_regex \<Longrightarrow> regex_match t integer_regex \<Longrightarrow> implicitTag t = ''int''"
proof -
  have plain: "(t = [] \<or> t \<in> {''~'', ''null'', ''Null'', ''NULL''}) = False" "(t \<in> set boolean_texts) = False"
    "(hd t = CHR ''-'' \<or> hd t = CHR ''+'' \<or> hd t = CHR ''.'' \<or> digit (hd t)) = True"
    using assms by (auto simp: boolean_texts_def digit_def within_def less_eq_char_def)
  show "regex_match t floating_regex \<Longrightarrow> implicitTag t = ''float''"
    and "\<not> regex_match t floating_regex \<Longrightarrow> regex_match t integer_regex \<Longrightarrow> implicitTag t = ''int''"
    unfolding implicitTag_def Let_def plain by (simp_all only: if_True if_False simp_thms)
qed

lemma integer_tag:
  assumes "s = [] \<or> s = ''-''"
  shows "implicitTag (s @ show_nat n) = ''int''"
proof -
  obtain c r where t: "show_nat n = c # r" by (cases "show_nat n") auto
  have "CHR ''.'' \<notin> set (s @ show_nat n)"
    using assms digits_simple(6) [OF show_nat_digits show_nat_Nil, of n] by auto
  then have "\<not> regex_match (s @ show_nat n) floating_regex"
    using float_has_point by blast
  moreover have "hd (s @ show_nat n) = CHR ''-'' \<or> digit (hd (s @ show_nat n))"
    using assms show_nat_digits [of n] by (auto simp: t)
  ultimately show ?thesis
    using numeric_start(2) [of "s @ show_nat n"] show_nat_int [OF assms, of n] by simp
qed

lemma integer_reads:
  assumes "n \<le> maximum64"
  shows "integerScalar wide (show_nat n) = Inr (JUnsigned n)"
    and "n \<le> 2 ^ 63 \<Longrightarrow> integerScalar wide (CHR ''-'' # show_nat n) = Inr (JInt (- int n))"
proof -
  note simple = digits_simple [OF show_nat_digits show_nat_Nil, of n]
  obtain w where sum: "sum_digits wide 10 (0, 0, False) (show_nat n) = Inr (n, w, False)"
    using sum_digits_decimal [OF show_nat_digits, of 0 n wide 0] assms by auto
  have octal: "\<not> (1 < length (show_nat n) \<and> hd (show_nat n) = CHR ''0'')"
    using show_nat_first [of n] by (cases "n = 0") (simp_all add: show_nat.simps [of 0])
  have sign: "take 1 (show_nat n) \<noteq> ''-''"
    using show_nat_digits [of n] by (cases "show_nat n") auto
  show "integerScalar wide (show_nat n) = Inr (JUnsigned n)"
    using simple octal sum sign by (auto simp: integerScalar_def Let_def)
  have "without_underscores (CHR ''-'' # show_nat n) = CHR ''-'' # show_nat n" "unsigned_part (CHR ''-'' # show_nat n) = show_nat n"
    using simple(1) by (simp_all add: without_underscores_def unsigned_part_def)
  then show "integerScalar wide (CHR ''-'' # show_nat n) = Inr (JInt (- int n))" if "n \<le> 2 ^ 63"
    using simple octal sum that by (auto simp: integerScalar_def Let_def)
qed


subsection \<open>Doubles read back\<close>

text \<open>What is relied on of \<^verbatim>\<open>std::strtod\<close>: a decimal text gives the nearest double.\<close>

definition nearest_strtod :: "(string \<Rightarrow> fp option) \<Rightarrow> bool" where
  "nearest_strtod strtod \<longleftrightarrow> (\<forall>t. decimal_text t \<longrightarrow> strtod t = Some (read_double (decimal_pos t)))"

lemma decimal_text_chars:
  assumes "decimal_text t"
  shows "t \<noteq> []" "digit (hd t)" "CHR '':'' \<notin> set t" "without_underscores t = t" "map tolower t = t" "list_all (\<lambda>c. of_char c < (128 :: nat)) t"
proof -
  obtain w f x where t: "t = w @ CHR ''.'' # f @ x" and w: "digits_only w" "w \<noteq> []" "digits_only f"
    and x: "x = [] \<or> (\<exists>n. x = CHR ''e'' # show_exponent n)"
    using assms by (auto simp: decimal_text_def)
  have "digit c \<or> c = CHR ''e'' \<or> c = CHR ''-'' \<or> c = CHR ''+''" if member: "c \<in> set x" for c
  proof -
    obtain n where n: "x = CHR ''e'' # show_exponent n" using x member by auto
    obtain g ds where g: "show_exponent n = g # ds" by (cases "show_exponent n") (auto simp: show_exponent_def Let_def split: if_splits)
    show ?thesis
      using show_exponent_chars [OF g] member by (auto simp: n g list_all_iff)
  qed
  then have chars: "digit c \<or> c = CHR ''e'' \<or> c = CHR ''-'' \<or> c = CHR ''+'' \<or> c = CHR ''.''" if "c \<in> set t" for c
    using w that by (auto simp: t list_all_iff)
  show "t \<noteq> []" "digit (hd t)"
    using w by (cases w; simp add: t)+
  have small: "tolower c = c \<and> c \<noteq> CHR ''_'' \<and> c \<noteq> CHR '':'' \<and> of_char c < (128 :: nat)" if "c \<in> set t" for c
    using chars [OF that] by (elim disjE) (simp_all add: tolower_def digit_def within_def less_eq_char_def, auto)
  show "CHR '':'' \<notin> set t" "without_underscores t = t" "map tolower t = t" "list_all (\<lambda>c. of_char c < (128 :: nat)) t"
    using small by (auto simp: without_underscores_def filter_id_conv list_all_iff intro!: map_idI)
qed

lemma colon_parts_one: "t \<noteq> [] \<Longrightarrow> CHR '':'' \<notin> set t \<Longrightarrow> colon_parts t = [t]"
proof -
  assume "t \<noteq> []" "CHR '':'' \<notin> set t"
  then have "takeWhile (\<lambda>c. c \<noteq> CHR '':'') t = t" "dropWhile (\<lambda>c. c \<noteq> CHR '':'') t = []"
    by (auto simp: takeWhile_eq_all_conv dropWhile_eq_Nil_conv)
  then have "colon_parts t = t # colon_parts []"
    unfolding colon_parts.simps [of t] using \<open>t \<noteq> []\<close> by (simp only: if_False drop_Nil)
  then show ?thesis
    by (simp add: colon_parts.simps [of "[]"])
qed

lemma read_double_exact: "is_double v \<Longrightarrow> read_double v = Fin v"
  by (auto simp: is_double_def read_double_def Let_def abs_less_iff)

lemma sum_sixty_one: "is_double v \<Longrightarrow> sum_sixty (Fin 0) (Fin 1) [Fin v] = Fin v"
  by (simp add: read_double_exact)

lemma float_reads:
  assumes strtod: "nearest_strtod strtod" and v: "is_double v"
  shows "implicitTag (yaml_float (Double (Fin v))) = ''float'' \<and> floatScalar strtod (yaml_float (Double (Fin v))) = Inr (JFloat (Double (Fin v)))"
proof -
  obtain t where t: "yaml_float (Double (Fin v)) = (if v < 0 then ''-'' else []) @ t" "decimal_text t"
    and val: "decimal_value (pythonFloat (Double (Fin v))) = (if v < 0 then - decimal_pos t else decimal_pos t)"
    using yaml_float_text [of v] by blast
  note chars = decimal_text_chars [OF t(2)]
  let ?s = "if v < 0 then ''-'' else []"
  have tag_of: "implicitTag (?s @ t) = ''float''"
    using chars(1,2) decimal_is_float [OF t(2), of ?s] by (intro numeric_start(1)) auto
  have "read_double (if v < 0 then - decimal_pos t else decimal_pos t) = Fin v"
    using pythonFloat_reads_back [OF v] val by simp
  then have digits: "read_double (decimal_pos t) = Fin \<bar>v\<bar>"
    using read_double_minus [of "- decimal_pos t" v] by (auto split: if_splits)
  have sum: "sum_sixty (Fin 0) (Fin 1) [read_double (decimal_pos t)] = Fin \<bar>v\<bar>" if "is_double \<bar>v\<bar>"
    unfolding digits using that by (rule sum_sixty_one)
  have abs: "is_double \<bar>v\<bar>"
    using v by (auto simp: is_double_def round_double_def split: if_splits)
  have signed: "map tolower (without_underscores (?s @ t)) = ?s @ t" "unsigned_part (?s @ t) = t" "take 1 t \<noteq> ''-''"
    using chars by (auto simp: without_underscores_def tolower_def unsigned_part_def less_eq_char_def take_Suc hd_Cons_tl)
  have not_special: "t \<noteq> ''.inf''" "t \<noteq> ''.nan''"
    using chars(2) by auto
  have "floatScalar strtod (?s @ t) = Inr (JFloat (if v < 0 then negated (Fin \<bar>v\<bar>) else Double (Fin \<bar>v\<bar>)))"
    using signed not_special strtod t(2) chars(1,3) sum [OF abs]
    by (simp add: floatScalar_def Let_def colon_parts_one nearest_strtod_def del: sum_sixty.simps negated.simps)
  then show ?thesis
    using tag_of by (auto simp: t(1))
qed


lemma negative_zero_reads:
  assumes "nearest_strtod strtod"
  shows "implicitTag (yaml_float NegZero) = ''float'' \<and> floatScalar strtod (yaml_float NegZero) = Inr (JFloat NegZero)"
proof -
  have t: "decimal_text ''0.0''" using decimal_textI(1) [of "''0''" "''0''"] by simp
  have s: "strtod ''0.0'' = Some (Fin 0)"
    using assms t by (simp add: nearest_strtod_def decimal_pos_def digits_value_def read_double_def round_double_def)
  have "implicitTag ''-0.0'' = ''float''"
    using decimal_is_float [OF t, of "''-''"] by (intro numeric_start(1)) simp_all
  moreover have "sum_sixty (Fin 0) (Fin 1) [Fin 0] = Fin 0"
    by (intro sum_sixty_one) (simp add: is_double_def round_double_def)
  moreover have "colon_parts ''0.0'' = [''0.0'']"
    by (rule colon_parts_one) simp_all
  ultimately show ?thesis
    using s by (simp add: yaml_float_def pythonFloat_def floatScalar_def without_underscores_def unsigned_part_def tolower_def less_eq_char_def
        del: sum_sixty.simps)
qed

subsection \<open>What the emitter writes can be read\<close>

fun number_text :: "json \<Rightarrow> string" where
  "number_text (JInt i) = show_int i"
| "number_text (JUnsigned n) = show_nat n"
| "number_text (JFloat x) = yaml_float x"
| "number_text _ = []"

text \<open>A number of a document: an integer of 64 bits or a finite double.\<close>

fun number_ok :: "json \<Rightarrow> bool" where
  "number_ok (JInt i) \<longleftrightarrow> - (2 ^ 63) \<le> i \<and> i < 2 ^ 63"
| "number_ok (JUnsigned n) \<longleftrightarrow> n < 2 ^ 64"
| "number_ok (JFloat x) \<longleftrightarrow> (case x of NegZero \<Rightarrow> True | Double (Fin v) \<Rightarrow> is_double v | _ \<Rightarrow> False)"
| "number_ok _ \<longleftrightarrow> False"

lemma number_written:
  assumes "list_all (\<lambda>c. of_char c < (128 :: nat)) (number_text v)" "number_ok v"
  shows "yaml_scalar v n e = Some (Inr \<lparr>written = written e @ number_text v, column = column e + length (number_text v)\<rparr>)"
  using assms by (cases v) (simp_all add: write_text_def put_text_def utf8_ascii)

lemma digits_ascii: "digits_only t \<Longrightarrow> list_all (\<lambda>c. of_char c < (128 :: nat)) t"
  by (auto simp: list_all_iff digit_def within_def less_eq_char_def)

lemma yaml_float_ascii: "list_all (\<lambda>c. of_char c < (128 :: nat)) (yaml_float x)"
proof (cases x)
  case (Double y)
  show ?thesis
  proof (cases y)
    case (Fin v)
    obtain t where "yaml_float (Double (Fin v)) = (if v < 0 then ''-'' else []) @ t" "decimal_text t"
      using yaml_float_text [of v] by blast
    then show ?thesis
      using decimal_text_chars(6) [of t] by (simp add: Double Fin)
  qed (simp_all add: Double yaml_float_def pythonFloat_def)
qed (simp add: yaml_float_def pythonFloat_def)

lemma number_ascii: "number_ok v \<Longrightarrow> list_all (\<lambda>c. of_char c < (128 :: nat)) (number_text v)"
  by (cases v) (simp_all add: show_int_def digits_ascii show_nat_digits yaml_float_ascii)

text \<open>C36: Numbers survive a scene file: what the emitter writes for a 64-bit integer or a finite double has the implicit type of that number
  and reads back as an equal number, floats as floats and integers as integers, the negative zero and exponents without a point included.\<close>

theorem yaml_numbers_read_back:
  assumes "nearest_strtod strtod" "number_ok v"
  shows "\<exists>t r. yaml_scalar v n e = Some (Inr \<lparr>written = written e @ t, column = column e + length t\<rparr>)
    \<and> plain_scalar strtod wide t = Inr r \<and> json_eq v r \<and> is_number_integer r = is_number_integer v"
proof -
  have read: "\<exists>r. plain_scalar strtod wide (number_text v) = Inr r \<and> json_eq v r \<and> is_number_integer r = is_number_integer v"
  proof (cases v)
    case (JInt i)
    show ?thesis
    proof (cases "i < 0")
      case True
      then show ?thesis
        using JInt assms(2) integer_tag [of "''-''" "nat (- i)"] integer_reads(2) [of "nat (- i)" wide]
        by (simp add: plain_scalar_def show_int_def)
    next
      case False
      then have "int64_of (nat i) = i"
        using JInt assms(2) by (simp add: int64_of_def)
      then show ?thesis
        using JInt assms(2) False integer_tag [of "[]" "nat i"] integer_reads(1) [of "nat i" wide]
        by (simp add: plain_scalar_def show_int_def)
    qed
  next
    case (JUnsigned n)
    then show ?thesis
      using assms(2) integer_tag [of "[]" n] integer_reads(1) [of n wide] by (simp add: plain_scalar_def)
  next
    case (JFloat x)
    then show ?thesis
    proof (cases x)
      case NegZero
      then show ?thesis
        using JFloat negative_zero_reads [OF assms(1)] by (simp add: plain_scalar_def)
    next
      case (Double y)
      then obtain z where "y = Fin z" "is_double z"
        using JFloat assms(2) by (cases y) auto
      then show ?thesis
        using JFloat Double float_reads [OF assms(1), of z] by (simp add: plain_scalar_def)
    qed
  qed (use assms(2) in auto)
  then show ?thesis
    using number_written [OF number_ascii [OF assms(2)] assms(2), of n e] by blast
qed

theorem yaml_numbers_read_back_witness:
  "\<exists>t r. yaml_scalar (JInt (- 7)) 0 \<lparr>written = [], column = 0\<rparr> = Some (Inr \<lparr>written = t, column = length t\<rparr>)
    \<and> plain_scalar (\<lambda>t. Some (read_double (decimal_pos t))) id t = Inr r \<and> json_eq (JInt (- 7)) r \<and> is_number_integer r"
  using yaml_numbers_read_back [of "\<lambda>t. Some (read_double (decimal_pos t))" "JInt (- 7)" 0 "\<lparr>written = [], column = 0\<rparr>" id]
  by (simp add: nearest_strtod_def)

lemma yaml_scalar_emits [emits_rules]: "well_texts v \<Longrightarrow> emits (yaml_scalar v n e)"
  by (cases v)
     (auto intro!: emits_rules ascii_readable simp: yaml_float_ascii digits_ascii show_nat_digits show_int_def)

lemma yaml_key_emits [emits_rules]:
  assumes "well_encoded k"
  shows "emits (yaml_key k level e)"
proof -
  obtain cs where cs: "utf8Characters k = Inr cs"
    using assms by (auto simp: well_encoded_def split: sum.splits)
  show ?thesis
    unfolding yaml_key_def cs and_emit_simps Let_def
    by (intro emits_rules assms) (auto intro!: ascii_readable)
qed

lemma yaml_node_emits:
  assumes "well_texts v"
  shows "emits (yaml_node v level inl e)"
  using assms
proof (induction v arbitrary: level inl e)
  case (JArray xs)
  have "emits (yaml_items ys l i e)" if "set ys \<subseteq> set xs" for ys l i e
    using that
  proof (induction ys arbitrary: i e)
    case (Cons y ys)
    have node: "emits (yaml_node y l' i' e')" for l' i' e'
      using Cons.prems JArray by (simp add: list_all_iff)
    have rest: "emits (yaml_items ys l False e')" for e'
      using Cons by simp
    show ?case
      unfolding yaml_items.simps by (intro emits_rules node rest) (auto intro!: ascii_readable)
  qed (simp add: emits_rules)
  then show ?case
    using yaml_scalar_emits [OF JArray.prems] by (auto simp: yaml_node.simps intro!: emits_rules simp del: yaml_scalar.simps)
next
  case (JObject m)
  have "emits (yaml_fields n l i e)" if "set n \<subseteq> set m" for n l i e
    using that
  proof (induction n arbitrary: i e)
    case (Cons item n)
    obtain k v where item: "item = (k, v)" by fastforce
    have member: "(k, v) \<in> set m" using Cons.prems item by auto
    then have ok: "well_encoded k" "well_texts v"
      using JObject.prems by (auto simp: list_all_iff)
    have node: "emits (yaml_node v l' i' e')" for l' i' e'
      using JObject.IH [OF member, of v] ok(2) by simp
    have rest: "emits (yaml_fields n l False e')" for e'
      using Cons by simp
    show ?case
      unfolding item yaml_fields.simps by (intro emits_rules node rest ok) (auto intro!: ascii_readable)
  qed (simp add: emits_rules)
  then show ?case
    using yaml_scalar_emits [OF JObject.prems] by (auto simp: yaml_node.simps intro!: emits_rules simp del: yaml_scalar.simps)
qed (simp_all add: yaml_node.simps emits_rules del: yaml_scalar.simps)

text \<open>C37: The emitter always ends with a text when every string and every field name of the value is made of complete characters and has no
  blank but the space byte, as valid UTF-8 has.\<close>

theorem dumpYaml_total:
  assumes "well_texts v"
  shows "\<exists>t. dumpYaml v = Some (Inr t)"
  using yaml_node_emits [OF assms, of 0 False "\<lparr>written = [], column = 0\<rparr>"] by (auto simp: dumpYaml_def emits_def)

theorem dumpYaml_total_witness: "\<exists>t. dumpYaml (JObject [(''id'', JString ''a b''), (''size'', JArray [JUnsigned 1, JNull])]) = Some (Inr t)"
  by (rule dumpYaml_total) (simp add: well_encoded_def utf8_count_def)


end
