(* ===== verification/Scene_Dispatch.thy ===== *)
theory Scene_Dispatch
  imports Json
begin

section \<open>Dispatch of a scene command to its lane\<close>

text \<open>
  \<^verbatim>\<open>dispatchCommand\<close> of \<^verbatim>\<open>command_dispatch.hpp\<close>: a caller posts a command to the lane of the scene and waits for its result, for as long as
  its deadline and the process allow. Lane and caller share one atomic \<open>phase\<close> and one promise; each atomic access is a step,
  and the two threads interleave freely. What \<^verbatim>\<open>context.expired()\<close> and the stop flag say at a step is free.
\<close>

datatype command_phase = Command_Queued | Command_Running | Command_Completed | Command_Cancelled

text \<open>What the promise holds: a value, \<^verbatim>\<open>CommandExpired\<close>, or another exception of the command.\<close>

datatype command_outcome = Command_Value json | Command_Expired | Command_Threw

datatype lane_pc = Lane_Posted | Lane_Claimed | Lane_Stored | Lane_Done

datatype caller_pc = Caller_Waiting | Caller_Checking | Caller_Got command_outcome | Caller_Unknown

record command_dispatch =
  command_phase :: command_phase
  promise :: "command_outcome option"
  lane :: lane_pc
  caller :: caller_pc
  runs :: "command_outcome list"

definition dispatch_start :: command_dispatch where
  "dispatch_start = \<lparr>command_phase = Command_Queued, promise = None, lane = Lane_Posted, caller = Caller_Waiting, runs = []\<rparr>"

text \<open>The posted function: the claim (line 36), the command (lines 37 to 40), the last store (line 41). \<open>runs\<close> records what the command
  did each time it was applied. The scene's command itself starts with the same check (line 203 of \<^verbatim>\<open>node.cpp\<close>) and throws \<^verbatim>\<open>CommandExpired\<close>
  before it touches the store: \<open>stop_or_expired\<close> covers both checks.\<close>

definition lane_claim :: "command_dispatch \<Rightarrow> command_dispatch" where
  "lane_claim d =
     (if command_phase d = Command_Queued then d\<lparr>command_phase := Command_Running, lane := Lane_Claimed\<rparr> else d\<lparr>lane := Lane_Done\<rparr>)"

definition lane_run :: "bool \<Rightarrow> command_outcome \<Rightarrow> command_dispatch \<Rightarrow> command_dispatch" where
  "lane_run stop_or_expired result d =
     (if stop_or_expired then d\<lparr>promise := Some Command_Expired, lane := Lane_Stored\<rparr>
      else d\<lparr>promise := Some result, lane := Lane_Stored, runs := runs d @ [result]\<rparr>)"

definition lane_complete :: "command_dispatch \<Rightarrow> command_dispatch" where
  "lane_complete d = d\<lparr>command_phase := Command_Completed, lane := Lane_Done\<rparr>"

text \<open>The caller: a wait that ends ready (line 52), a wait that times out after the budget (lines 45 to 47), and the last look at the future
  (lines 48 and 49).\<close>

definition caller_get :: "command_dispatch \<Rightarrow> command_dispatch" where
  "caller_get d = (case promise d of Some r \<Rightarrow> d\<lparr>caller := Caller_Got r\<rparr> | None \<Rightarrow> d)"

definition caller_give_up :: "command_dispatch \<Rightarrow> command_dispatch" where
  "caller_give_up d =
     (if command_phase d = Command_Queued then d\<lparr>command_phase := Command_Cancelled, caller := Caller_Got Command_Expired\<rparr>
      else d\<lparr>caller := Caller_Checking\<rparr>)"

definition caller_check :: "command_dispatch \<Rightarrow> command_dispatch" where
  "caller_check d = (case promise d of Some r \<Rightarrow> d\<lparr>caller := Caller_Got r\<rparr> | None \<Rightarrow> d\<lparr>caller := Caller_Unknown\<rparr>)"

inductive dispatch_step :: "command_dispatch \<Rightarrow> command_dispatch \<Rightarrow> bool" where
  claim: "lane d = Lane_Posted \<Longrightarrow> dispatch_step d (lane_claim d)"
| run: "lane d = Lane_Claimed \<Longrightarrow> result \<noteq> Command_Expired \<Longrightarrow> dispatch_step d (lane_run b result d)"
| complete: "lane d = Lane_Stored \<Longrightarrow> dispatch_step d (lane_complete d)"
| got: "caller d = Caller_Waiting \<Longrightarrow> promise d \<noteq> None \<Longrightarrow> dispatch_step d (caller_get d)"
| give_up: "caller d = Caller_Waiting \<Longrightarrow> dispatch_step d (caller_give_up d)"
| look: "caller d = Caller_Checking \<Longrightarrow> dispatch_step d (caller_check d)"

definition dispatched :: "command_dispatch \<Rightarrow> bool" where
  "dispatched d \<longleftrightarrow> dispatch_step\<^sup>*\<^sup>* dispatch_start d"

text \<open>The invariant: the phase follows the lane, the promise says what the lane did, and what the caller got is in the promise or was its own
  cancellation.\<close>

definition dispatch_ok :: "command_dispatch \<Rightarrow> bool" where
  "dispatch_ok d \<longleftrightarrow>
     (case lane d of
        Lane_Posted \<Rightarrow> command_phase d \<in> {Command_Queued, Command_Cancelled} \<and> promise d = None
      | Lane_Claimed \<Rightarrow> command_phase d = Command_Running \<and> promise d = None
      | Lane_Stored \<Rightarrow> command_phase d = Command_Running \<and> promise d \<noteq> None
      | Lane_Done \<Rightarrow> command_phase d = Command_Cancelled \<and> promise d = None \<or> command_phase d = Command_Completed \<and> promise d \<noteq> None)
     \<and> (runs d = (case promise d of None \<Rightarrow> [] | Some r \<Rightarrow> if r = Command_Expired then [] else [r]))
     \<and> (case caller d of
          Caller_Waiting \<Rightarrow> command_phase d \<noteq> Command_Cancelled
        | Caller_Checking \<Rightarrow> command_phase d \<in> {Command_Running, Command_Completed}
        | Caller_Got r \<Rightarrow> promise d = Some r \<or> r = Command_Expired \<and> command_phase d = Command_Cancelled
        | Caller_Unknown \<Rightarrow> command_phase d \<in> {Command_Running, Command_Completed})"

lemma dispatch_start_ok: "dispatch_ok dispatch_start"
  by (simp add: dispatch_ok_def dispatch_start_def)

lemmas dispatch_defs =
  lane_claim_def lane_run_def lane_complete_def caller_get_def caller_give_up_def caller_check_def

lemma dispatch_step_ok:
  assumes "dispatch_step d d'" "dispatch_ok d"
  shows "dispatch_ok d'"
  using assms by cases (auto simp: dispatch_defs dispatch_ok_def split: lane_pc.splits caller_pc.splits option.splits if_splits)

lemma dispatched_ok: "dispatched d \<Longrightarrow> dispatch_ok d"
  unfolding dispatched_def by (induction rule: rtranclp_induct) (auto intro: dispatch_start_ok dispatch_step_ok)

text \<open>What is settled stays settled.\<close>

lemma dispatch_step_settled:
  assumes "dispatch_step d d'" "dispatch_ok d"
  shows "caller d = Caller_Got r \<Longrightarrow> caller d' = Caller_Got r" "caller d = Caller_Unknown \<Longrightarrow> caller d' = Caller_Unknown"
  using assms by (auto simp: dispatch_defs dispatch_ok_def elim!: dispatch_step.cases split: option.splits)

lemma dispatch_steps_settled:
  assumes "dispatch_step\<^sup>*\<^sup>* d d'" "dispatch_ok d" "caller d = Caller_Got r"
  shows "caller d' = Caller_Got r \<and> dispatch_ok d'"
  using assms by (induction rule: rtranclp_induct) (auto intro: dispatch_step_ok simp: dispatch_step_settled)

text \<open>C17: A command runs at most once. A caller that is told the command expired can rely on it: it has not run and, in every later state, has not
  run; a caller that gets a value got what its one run returned; and a caller that is told that the outcome is unknown gave up
  only after the lane had claimed the command.\<close>

theorem expired_command_never_runs:
  assumes "dispatched d" "dispatch_step\<^sup>*\<^sup>* d d'"
  shows "length (runs d) \<le> 1
    \<and> (caller d = Caller_Got Command_Expired \<longrightarrow> runs d' = [])
    \<and> (\<forall>v. caller d = Caller_Got (Command_Value v) \<longrightarrow> runs d' = [Command_Value v])
    \<and> (caller d = Caller_Unknown \<longrightarrow> lane d \<noteq> Lane_Posted)"
proof -
  have ok: "dispatch_ok d" using assms(1) by (rule dispatched_ok)
  have later: "caller d' = Caller_Got r \<and> dispatch_ok d'" if "caller d = Caller_Got r" for r
    using dispatch_steps_settled [OF assms(2) ok that] .
  have "length (runs d) \<le> 1" "caller d = Caller_Unknown \<longrightarrow> lane d \<noteq> Lane_Posted"
    using ok by (auto simp: dispatch_ok_def split: option.splits lane_pc.splits)
  moreover have "runs d' = []" if "caller d = Caller_Got Command_Expired"
    using later [OF that] by (auto simp: dispatch_ok_def split: option.splits lane_pc.splits)
  moreover have "runs d' = [Command_Value v]" if "caller d = Caller_Got (Command_Value v)" for v
    using later [OF that] by (auto simp: dispatch_ok_def split: option.splits)
  ultimately show ?thesis by blast
qed

lemma dispatch_runs: "dispatched (caller_get (lane_run False (Command_Value JNull) (lane_claim dispatch_start)))"
proof -
  have "dispatch_step dispatch_start (lane_claim dispatch_start)"
    by (intro claim) (simp add: dispatch_start_def)
  moreover have "dispatch_step (lane_claim dispatch_start) (lane_run False (Command_Value JNull) (lane_claim dispatch_start))"
    by (intro run) (simp_all add: lane_claim_def dispatch_start_def)
  moreover have "dispatch_step (lane_run False (Command_Value JNull) (lane_claim dispatch_start))
      (caller_get (lane_run False (Command_Value JNull) (lane_claim dispatch_start)))"
    by (intro got) (simp_all add: lane_run_def lane_claim_def dispatch_start_def)
  ultimately show ?thesis
    unfolding dispatched_def by (meson converse_rtranclp_into_rtranclp rtranclp.rtrancl_refl)
qed

theorem expired_command_never_runs_witness:
  "caller (caller_get (lane_run False (Command_Value JNull) (lane_claim dispatch_start))) = Caller_Got (Command_Value JNull)
   \<and> runs (caller_get (lane_run False (Command_Value JNull) (lane_claim dispatch_start))) = [Command_Value JNull]"
proof -
  let ?d = "caller_get (lane_run False (Command_Value JNull) (lane_claim dispatch_start))"
  have "caller ?d = Caller_Got (Command_Value JNull)"
    by (simp add: caller_get_def lane_run_def lane_claim_def dispatch_start_def)
  then show ?thesis
    using expired_command_never_runs [OF dispatch_runs rtranclp.rtrancl_refl] by blast
qed

end
