(* ===== verification/Scene_Service.thy ===== *)
theory Scene_Service
  imports Scene_Dispatch Envelope
begin

section \<open>The scene authoring service\<close>

text \<open>
  \<^verbatim>\<open>SceneService\<close> of \<^verbatim>\<open>service.cpp\<close>: HTTP requests on one side, the scene's node on the other. A handler answers at once, parks a
  description until the scene is ready, or queues work for one worker thread; a second thread releases parked descriptions.
  Every critical section of the mutex is one function on the record \<open>scene_service\<close>; what a thread keeps between two sections is
  part of the record. The clock, cancellation, the parsers and the node's answers are arguments of the step that reads them.
\<close>

subsection \<open>Responses\<close>

record http_response =
  http_status :: nat
  http_body :: string

text \<open>The compact text: blanks outside strings go. \<open>quoted\<close> and \<open>escaped\<close> are the loop's flags.\<close>

fun compact :: "bool \<Rightarrow> bool \<Rightarrow> string \<Rightarrow> string" where
  "compact quoted escaping [] = []"
| "compact quoted escaping (c # s) =
     (if quoted \<or> c \<noteq> CHR '' '' then [c] else [])
     @ compact (if \<not> escaping \<and> \<not> (quoted \<and> c = CHR 0x5C) \<and> c = CHR 0x22 then \<not> quoted else quoted)
         (\<not> escaping \<and> quoted \<and> c = CHR 0x5C) s"

text \<open>\<open>encode\<close> is \<^verbatim>\<open>envelopeJson\<close>, \<open>http_error\<close> that of xrpc.\<close>

definition scene_response ::
  "(json \<Rightarrow> string result) \<Rightarrow> (nat \<Rightarrow> string \<Rightarrow> string \<Rightarrow> http_response) \<Rightarrow> json \<Rightarrow> nat \<Rightarrow> http_response result" where
  "scene_response encode http_error v status =
     and_then (encode v) (\<lambda>spaced.
       let text_of = compact False False spaced in
       Inr (if 8 * 1024 * 1024 + 65536 < length text_of
            then http_error 503 ''resource_exhausted'' ''JSON response limit exceeded''
            else \<lparr>http_status = status, http_body = text_of\<rparr>))"

definition fault_value :: "string \<Rightarrow> string \<Rightarrow> json" where
  "fault_value code message = JObject [(''error'', JObject [(''code'', JString code), (''message'', JString message)])]"

text \<open>The answer to a request: a value with its status, or one of the faults.\<close>

datatype answer = Answer json | Fault nat string string

definition answer_response ::
  "(json \<Rightarrow> string result) \<Rightarrow> (nat \<Rightarrow> string \<Rightarrow> string \<Rightarrow> http_response) \<Rightarrow> answer \<Rightarrow> http_response result" where
  "answer_response encode http_error a =
     (case a of Answer v \<Rightarrow> scene_response encode http_error v 200
      | Fault status code message \<Rightarrow> scene_response encode http_error (fault_value code message) status)"

subsection \<open>Requests\<close>

definition waitBudget :: "string \<Rightarrow> nat option" where
  "waitBudget target =
     (if target = ''/v1/describe'' then Some 0
      else
        (let prefix = ''/v1/describe?wait_ready_ms=''; digits = drop (length prefix) target in
         if take (length prefix) target \<noteq> prefix then None
         else if digits = [] \<or> 5 < length digits \<or> \<not> list_all digit digits then None
         else if 30000 < digits_value digits then None
         else Some (digits_value digits)))"

definition trimmed :: "string \<Rightarrow> string" where
  "trimmed s = rev (dropWhile (\<lambda>c. c = CHR '' '' \<or> c = CHR 0x09) (rev (dropWhile (\<lambda>c. c = CHR '' '' \<or> c = CHR 0x09) s)))"

definition jsonContentType :: "(string \<times> string) list \<Rightarrow> bool" where
  "jsonContentType headers =
     (let types = map (\<lambda>h. trimmed (map tolower (takeWhile (\<lambda>c. c \<noteq> CHR '';'') (snd h))))
                    (filter (\<lambda>h. map tolower (fst h) = ''content-type'') headers)
      in list_all (\<lambda>t. t = ''application/json'') types \<and> length types = 1)"

record http_request =
  http_method :: string
  http_target :: string
  http_headers :: "(string \<times> string) list"
  request_body :: string
  request_header_id :: string
  deadline :: int

text \<open>What the worker reads while it executes one piece of work: cancellation and the clock at the two checks, xrpc's strict parser, the scene's
  parser, and the node.\<close>

datatype node_outcome = Node_Value json | Node_Expired | Node_Failed

record work_env =
  cancelled_first :: bool
  clock_first :: int
  strict_json :: "string \<Rightarrow> bool"
  parse_json :: "string \<Rightarrow> json result"
  node_envelope :: node_outcome
  node_request_result :: "string \<Rightarrow> json option"
  cancelled_again :: bool
  clock_again :: int
  node_command :: "json \<Rightarrow> node_outcome"

fun node_answer :: "node_outcome \<Rightarrow> answer" where
  "node_answer (Node_Value v) = Answer v"
| "node_answer Node_Expired = Fault 408 ''deadline_exceeded'' ''Scene command was cancelled or expired before application''"
| "node_answer Node_Failed = Fault 500 ''outcome_unknown'' ''Scene operation did not produce a known terminal result''"

abbreviation expired_fault :: answer where
  "expired_fault \<equiv> Fault 408 ''deadline_exceeded'' ''Scene request was cancelled or expired''"

text \<open>\<^verbatim>\<open>execute\<close> with the handlers of \<^verbatim>\<open>work\<close>, and the commands it sent to the node.\<close>

definition execute_command :: "string \<Rightarrow> http_request \<Rightarrow> work_env \<Rightarrow> json \<Rightarrow> answer \<times> json list" where
  "execute_command profile r env v =
     (if \<not> is_object v \<or> contains v ''requestId''
      then (Fault 400 ''invalid_argument'' ''Command identity must come from X-Request-ID'', [])
      else if profile = ''xsim'' \<and> oo_find (entries v) ''operation'' = Some (JString ''resync'')
      then (Fault 501 ''unsupported'' ''Scene resync is unsupported for profile xsim'', [])
      else if cancelled_again env \<or> deadline r \<le> clock_again env then (expired_fault, [])
      else (let c = put ''requestId'' (JString (request_header_id r)) v in (node_answer (node_command env c), [c])))"

definition execute_result :: "work_env \<Rightarrow> json \<Rightarrow> answer" where
  "execute_result env v =
     (case v of
        JObject [(k, JString i)] \<Rightarrow>
          if k = ''request_id''
          then (case node_request_result env i of
                  None \<Rightarrow> Fault 404 ''not_found'' ''Request result is unknown or outside retained history''
                | Some result \<Rightarrow> Answer result)
          else Fault 400 ''invalid_argument'' ''request_id is required''
      | _ \<Rightarrow> Fault 400 ''invalid_argument'' ''request_id is required'')"

definition execute_work :: "string \<Rightarrow> http_request \<Rightarrow> work_env \<Rightarrow> answer \<times> json list" where
  "execute_work profile r env =
     (if cancelled_first env \<or> deadline r \<le> clock_first env then (expired_fault, [])
      else if http_method r = ''GET'' then (node_answer (node_envelope env), [])
      else if 8 * 1024 * 1024 < length (request_body r) then (Fault 413 ''resource_exhausted'' ''JSON request limit exceeded'', [])
      else if request_body r \<noteq> [] \<and> \<not> jsonContentType (http_headers r) then (Fault 415 ''invalid_argument'' ''application/json required'', [])
      else if request_body r \<noteq> [] \<and> \<not> strict_json env (request_body r) then (Fault 400 ''invalid_argument'' ''invalid JSON request'', [])
      else
        (case (if request_body r = [] then Inr JNull else parse_json env (request_body r)) of
           Inl e \<Rightarrow> (node_answer Node_Failed, [])
         | Inr v \<Rightarrow>
             if http_target r = ''/v1/commands/result'' then (execute_result env v, [])
             else execute_command profile r env v))"

subsection \<open>The service\<close>

record work =
  work_id :: nat
  work_request :: http_request

record waiter =
  waiter_id :: nat
  until :: int

text \<open>\<open>node_set\<close> says whether \<^verbatim>\<open>node_\<close> is set. \<open>worker_hand\<close> is the work the worker holds with the flag it read, \<open>released\<close> the waiters the
  readiness thread holds with the description it made. The last three fields record what the threads did: completed requests,
  requests dropped because their caller had cancelled, commands sent to the node.\<close>

record scene_service =
  profile :: string
  reference :: json
  facts :: json
  node_set :: bool
  stopping :: bool
  closed :: bool
  queue :: "work list"
  waiters :: "waiter list"
  worker_hand :: "(work \<times> bool) option"
  released :: "waiter list"
  released_description :: json
  worker_ended :: bool
  readiness_ended :: bool
  answers :: "(nat \<times> answer) list"
  dropped :: "nat list"
  sent_commands :: "(nat \<times> json) list"

definition valid_profile :: "string \<Rightarrow> bool" where
  "valid_profile p \<longleftrightarrow> p = ''gazebo'' \<or> p = ''xsim'' \<or> p = ''physical''"

definition profile_error :: exn where
  "profile_error = SceneError ''Scene profile must be gazebo, xsim or physical''"

text \<open>The constructor; \<open>instance_id\<close> is xrpc's.\<close>

definition service_start :: "string \<Rightarrow> string \<Rightarrow> string \<Rightarrow> string \<Rightarrow> scene_service result" where
  "service_start instance_id path target p =
     (if \<not> valid_profile p then Inl profile_error
      else Inr \<lparr>profile = p,
        reference = JObject [(''target_id'', JString target), (''service'', JString ''xgc2.scene.authoring''), (''api_version'', JString ''v1''),
          (''instance_id'', JString instance_id), (''profile'', JString ''http.v1''),
          (''endpoint'', JObject [(''kind'', JString ''unix''), (''address'', JString path)])],
        facts = JObject [], node_set = False, stopping = False, closed = False, queue = [], waiters = [], worker_hand = None,
        released = [], released_description = JNull, worker_ended = False, readiness_ended = False,
        answers = [], dropped = [], sent_commands = []\<rparr>)"

text \<open>\<open>online\<close> is what the node says of itself, \<open>current\<close> what \<^verbatim>\<open>current_facts_\<close> returns (nothing when there is no such function).\<close>

definition describeLocked :: "bool \<Rightarrow> (string \<times> json) list \<Rightarrow> scene_service \<Rightarrow> json" where
  "describeLocked online current s =
     (let capabilities = [JString ''scene.read'', JString ''scene.edit'']
            @ (if valid_profile (profile s) then [JString ''scene.motion''] else []) @ [JString ''scene.save''];
          updated = fold (\<lambda>(k, v). put k v) current (facts s);
          profiled = put ''profile'' (JString (profile s)) updated;
          known = put ''scene_application''
            (JString (if profile s = ''gazebo'' then ''native'' else if profile s = ''xsim'' then ''unsupported'' else ''visualization'')) profiled
      in JObject
        [(''service_ref'', reference s), (''capabilities'', JArray capabilities),
         (''limits'', JObject [(''document_bytes'', JUnsigned (8 * 1024 * 1024)), (''in_flight'', JInt 4), (''request_results'', JInt 256)]),
         (''completion'', JString (''The command commits local desired state. Native application completes asynchronously and is reported ''
            @ ''in the scene envelope; reconnect replays the current scene once per world instance.'')),
         (''service'', JString ''xgc2.scene.authoring''), (''api_version'', JString ''v1''),
         (''instance_id'', (case oo_find (entries (reference s)) ''instance_id'' of Some v \<Rightarrow> v | None \<Rightarrow> JNull)),
         (''ready'', JBool (node_set s \<and> online \<and> \<not> stopping s)),
         (''facts'', known)])"

definition complete_with :: "nat \<Rightarrow> answer \<Rightarrow> scene_service \<Rightarrow> scene_service" where
  "complete_with i a s = s\<lparr>answers := answers s @ [(i, a)]\<rparr>"

text \<open>\<^verbatim>\<open>handle\<close>, where \<open>now\<close> is the clock.\<close>

definition handle_describe :: "bool \<Rightarrow> (string \<times> json) list \<Rightarrow> int \<Rightarrow> nat \<Rightarrow> http_request \<Rightarrow> scene_service \<Rightarrow> scene_service" where
  "handle_describe online current now i r s =
     (case waitBudget (http_target r) of
        None \<Rightarrow> complete_with i (Fault 400 ''invalid_argument'' ''the only query is wait_ready_ms between 0 and 30000'') s
      | Some wait \<Rightarrow>
          if node_set s \<or> stopping s \<or> wait = 0 then complete_with i (Answer (describeLocked online current s)) s
          else s\<lparr>waiters := waiters s @ [\<lparr>waiter_id = i, until = min (now + int wait) (deadline r - 250)\<rparr>]\<rparr>)"

definition handle_queue :: "nat \<Rightarrow> http_request \<Rightarrow> scene_service \<Rightarrow> scene_service" where
  "handle_queue i r s =
     (if \<not> node_set s \<or> stopping s then complete_with i (Fault 503 ''unavailable'' ''Scene authoring is not ready'') s
      else if 4 \<le> length (queue s) then complete_with i (Fault 503 ''resource_exhausted'' ''Scene work capacity exhausted'') s
      else s\<lparr>queue := queue s @ [\<lparr>work_id = i, work_request = r\<rparr>]\<rparr>)"

definition handle :: "bool \<Rightarrow> (string \<times> json) list \<Rightarrow> int \<Rightarrow> nat \<Rightarrow> http_request \<Rightarrow> scene_service \<Rightarrow> scene_service" where
  "handle online current now i r s =
     (if http_method r = ''GET'' \<and> takeWhile (\<lambda>c. c \<noteq> CHR ''?'') (http_target r) = ''/v1/describe''
      then handle_describe online current now i r s
      else if http_method r = ''GET'' \<and> http_target r = ''/v1/health'' then
        complete_with i (Answer (JObject [(''lifecycle'', JString (if \<not> stopping s \<and> node_set s \<and> online then ''ready'' else ''stopping''))])) s
      else if \<not> (http_method r = ''GET'' \<and> http_target r = ''/v1/scene''
                 \<or> http_method r = ''POST'' \<and> (http_target r = ''/v1/commands'' \<or> http_target r = ''/v1/commands/result''))
      then complete_with i (Fault 404 ''not_found'' ''unknown scene authoring operation'') s
      else handle_queue i r s)"

text \<open>\<^verbatim>\<open>ready\<close> with the readiness facts, \<^verbatim>\<open>facts\<close>, \<^verbatim>\<open>stopping\<close>, and the first section of \<^verbatim>\<open>close\<close>.\<close>

definition set_ready :: "bool \<Rightarrow> json \<Rightarrow> scene_service \<Rightarrow> scene_service result" where
  "set_ready node_given new_facts s =
     (if \<not> node_given \<or> \<not> is_object new_facts then Inl (SceneError ''Scene readiness requires a node and object facts'')
      else if stopping s then Inr s
      else if node_set s then Inl (SceneError ''Scene service is already ready'')
      else
        (case oo_find (entries new_facts) ''profile'' of
           None \<Rightarrow> Inr (s\<lparr>node_set := True, facts := new_facts\<rparr>)
         | Some (JString p) \<Rightarrow>
             if valid_profile p then Inr (s\<lparr>profile := p, node_set := True, facts := new_facts\<rparr>) else Inl profile_error
         | Some _ \<Rightarrow> Inl profile_error))"

definition set_facts :: "json \<Rightarrow> scene_service \<Rightarrow> scene_service result" where
  "set_facts new_facts s =
     (if \<not> is_object new_facts then Inl (SceneError ''Scene facts must be an object'') else Inr (s\<lparr>facts := new_facts\<rparr>))"

definition set_stopping :: "scene_service \<Rightarrow> scene_service" where
  "set_stopping s = s\<lparr>stopping := True\<rparr>"

definition set_closed :: "scene_service \<Rightarrow> scene_service" where
  "set_closed s = s\<lparr>stopping := True, closed := True\<rparr>"

text \<open>The worker: its wait ends, and it takes the front of the queue or returns; then it drops cancelled work or completes it.\<close>

definition worker_wakes :: "scene_service \<Rightarrow> bool" where
  "worker_wakes s \<longleftrightarrow> \<not> worker_ended s \<and> worker_hand s = None \<and> (closed s \<or> queue s \<noteq> [])"

definition worker_take :: "scene_service \<Rightarrow> scene_service" where
  "worker_take s =
     (case queue s of
        [] \<Rightarrow> s\<lparr>worker_ended := True\<rparr>
      | w # rest \<Rightarrow> s\<lparr>queue := rest, worker_hand := Some (w, stopping s)\<rparr>)"

definition worker_finish :: "bool \<Rightarrow> work_env \<Rightarrow> scene_service \<Rightarrow> scene_service" where
  "worker_finish cancelled env s =
     (case worker_hand s of
        None \<Rightarrow> s
      | Some (w, stopped) \<Rightarrow>
          if cancelled then s\<lparr>worker_hand := None, dropped := dropped s @ [work_id w]\<rparr>
          else
            (let result = (if stopped then (Fault 503 ''unavailable'' ''Scene authoring is stopping'', [])
                            else execute_work (profile s) (work_request w) env)
             in s\<lparr>worker_hand := None, answers := answers s @ [(work_id w, fst result)],
                  sent_commands := sent_commands s @ map (Pair (work_id w)) (snd result)\<rparr>))"

text \<open>The readiness thread: its wait ends when the first waiter is due; it takes the waiters that are due, each at its own reading of the
  clock, then answers those that are not cancelled. Without waiters it returns once the service is closed.\<close>

definition due :: "int \<Rightarrow> scene_service \<Rightarrow> waiter \<Rightarrow> bool" where
  "due now s w \<longleftrightarrow> node_set s \<or> stopping s \<or> until w \<le> now"

definition readiness_wakes :: "int \<Rightarrow> scene_service \<Rightarrow> bool" where
  "readiness_wakes now s \<longleftrightarrow> \<not> readiness_ended s \<and> released s = [] \<and> list_ex (due now s) (waiters s)"

definition readiness_take :: "bool \<Rightarrow> (string \<times> json) list \<Rightarrow> (nat \<Rightarrow> int) \<Rightarrow> scene_service \<Rightarrow> scene_service" where
  "readiness_take online current clock s =
     s\<lparr>waiters := filter (\<lambda>w. \<not> due (clock (waiter_id w)) s w) (waiters s),
       released := filter (\<lambda>w. due (clock (waiter_id w)) s w) (waiters s),
       released_description := describeLocked online current s\<rparr>"

definition readiness_finish :: "(nat \<Rightarrow> bool) \<Rightarrow> scene_service \<Rightarrow> scene_service" where
  "readiness_finish cancelled s =
     s\<lparr>released := [],
       answers := answers s @ map (\<lambda>w. (waiter_id w, Answer (released_description s))) (filter (\<lambda>w. \<not> cancelled (waiter_id w)) (released s)),
       dropped := dropped s @ map waiter_id (filter (\<lambda>w. cancelled (waiter_id w)) (released s))\<rparr>"

definition readiness_returns :: "scene_service \<Rightarrow> bool" where
  "readiness_returns s \<longleftrightarrow> \<not> readiness_ended s \<and> released s = [] \<and> waiters s = [] \<and> closed s"

definition readiness_end :: "scene_service \<Rightarrow> scene_service" where
  "readiness_end s = s\<lparr>readiness_ended := True\<rparr>"

subsection \<open>Runs of the service\<close>

text \<open>The requests of a service, by identity.\<close>

definition requests_of :: "scene_service \<Rightarrow> nat list" where
  "requests_of s =
     map work_id (queue s) @ (case worker_hand s of None \<Rightarrow> [] | Some (w, _) \<Rightarrow> [work_id w])
     @ map waiter_id (waiters s) @ map waiter_id (released s) @ map fst (answers s) @ dropped s"

inductive service_step :: "scene_service \<Rightarrow> scene_service \<Rightarrow> bool" where
  request: "i \<notin> set (requests_of s) \<Longrightarrow> service_step s (handle online current now i r s)"
| ready: "set_ready given new_facts s = Inr s' \<Longrightarrow> service_step s s'"
| facts: "set_facts new_facts s = Inr s' \<Longrightarrow> service_step s s'"
| stop: "service_step s (set_stopping s)"
| close: "service_step s (set_closed s)"
| take: "worker_wakes s \<Longrightarrow> service_step s (worker_take s)"
| finish: "worker_hand s \<noteq> None \<Longrightarrow> service_step s (worker_finish cancelled env s)"
| release: "readiness_wakes now s \<Longrightarrow> service_step s (readiness_take online current clock s)"
| answer: "released s \<noteq> [] \<Longrightarrow> service_step s (readiness_finish cancelled' s)"
| leave: "readiness_returns s \<Longrightarrow> service_step s (readiness_end s)"

definition serving :: "scene_service \<Rightarrow> bool" where
  "serving s \<longleftrightarrow> (\<exists>instance_id path target p s0. service_start instance_id path target p = Inr s0 \<and> service_step\<^sup>*\<^sup>* s0 s)"

subsection \<open>Conservation of requests\<close>

lemmas thread_defs =
  worker_wakes_def worker_take_def worker_finish_def readiness_wakes_def readiness_take_def readiness_finish_def readiness_returns_def
  readiness_end_def set_stopping_def set_closed_def

lemma set_ready_requests: "set_ready given new_facts s = Inr s' \<Longrightarrow> requests_of s' = requests_of s"
  by (auto simp: set_ready_def requests_of_def split: if_splits option.splits json.splits)

lemma set_facts_requests: "set_facts new_facts s = Inr s' \<Longrightarrow> requests_of s' = requests_of s"
  by (auto simp: set_facts_def requests_of_def split: if_splits)

lemma flag_requests:
  "requests_of (set_stopping s) = requests_of s" "requests_of (set_closed s) = requests_of s" "requests_of (readiness_end s) = requests_of s"
  by (simp_all add: requests_of_def set_stopping_def set_closed_def readiness_end_def)

lemma handle_requests: "mset (requests_of (handle online current now i r s)) = add_mset i (mset (requests_of s))"
  by (auto simp: handle_def handle_describe_def handle_queue_def complete_with_def requests_of_def split: option.splits)

lemma worker_take_requests: "worker_hand s = None \<Longrightarrow> mset (requests_of (worker_take s)) = mset (requests_of s)"
  by (auto simp: worker_take_def requests_of_def split: list.splits)

lemma worker_finish_requests: "mset (requests_of (worker_finish cancelled env s)) = mset (requests_of s)"
  by (auto simp: worker_finish_def requests_of_def Let_def split: option.splits)

lemma mset_map_filter_split: "mset (map f (filter P xs)) + mset (map f (filter (\<lambda>x. \<not> P x) xs)) = mset (map f xs)"
  by (induction xs) auto

lemma readiness_take_requests:
  assumes "released s = []"
  shows "mset (requests_of (readiness_take online current clock s)) = mset (requests_of s)"
  using assms mset_map_filter_split [of waiter_id "\<lambda>w. due (clock (waiter_id w)) s w" "waiters s"]
  by (simp add: readiness_take_def requests_of_def ac_simps)

lemma readiness_finish_requests: "mset (requests_of (readiness_finish cancelled s)) = mset (requests_of s)"
  using mset_map_filter_split [of waiter_id "\<lambda>w. cancelled (waiter_id w)" "released s"]
  by (simp add: readiness_finish_def requests_of_def comp_def ac_simps)

lemma service_step_requests:
  assumes "service_step s s'"
  shows "mset (requests_of s') = mset (requests_of s) \<or> (\<exists>i. i \<notin> set (requests_of s) \<and> mset (requests_of s') = add_mset i (mset (requests_of s)))"
  using assms
proof cases
  case (ready given new_facts)
  then show ?thesis by (simp add: set_ready_requests)
next
  case (facts new_facts)
  then show ?thesis by (simp add: set_facts_requests)
qed (auto simp: handle_requests worker_take_requests worker_finish_requests readiness_take_requests readiness_finish_requests
       flag_requests worker_wakes_def readiness_wakes_def)

subsection \<open>The invariant\<close>

definition service_ok :: "scene_service \<Rightarrow> bool" where
  "service_ok s \<longleftrightarrow>
     distinct (requests_of s) \<and> length (queue s) \<le> 4 \<and> valid_profile (profile s)
     \<and> (closed s \<longrightarrow> stopping s)
     \<and> (worker_ended s \<longrightarrow> closed s \<and> queue s = [] \<and> worker_hand s = None)
     \<and> (readiness_ended s \<longrightarrow> closed s \<and> waiters s = [] \<and> released s = [])
     \<and> distinct (map fst (sent_commands s)) \<and> set (map fst (sent_commands s)) \<subseteq> set (map fst (answers s))"

text \<open>What \<open>service_ok\<close> says besides the requests.\<close>

definition flow_ok :: "scene_service \<Rightarrow> bool" where
  "flow_ok s \<longleftrightarrow> length (queue s) \<le> 4 \<and> valid_profile (profile s)
     \<and> (closed s \<longrightarrow> stopping s)
     \<and> (worker_ended s \<longrightarrow> closed s \<and> queue s = [] \<and> worker_hand s = None)
     \<and> (readiness_ended s \<longrightarrow> closed s \<and> waiters s = [] \<and> released s = [])"

definition sent_ok :: "scene_service \<Rightarrow> bool" where
  "sent_ok s \<longleftrightarrow> distinct (map fst (sent_commands s)) \<and> set (map fst (sent_commands s)) \<subseteq> set (map fst (answers s))"

lemma service_ok_iff: "service_ok s \<longleftrightarrow> distinct (requests_of s) \<and> flow_ok s \<and> sent_ok s"
  unfolding service_ok_def flow_ok_def sent_ok_def by blast

lemma handle_flow: "flow_ok s \<Longrightarrow> flow_ok (handle online current now i r s)"
  by (auto simp: handle_def handle_describe_def handle_queue_def complete_with_def flow_ok_def split: option.splits)

lemma set_ready_flow: "set_ready given new_facts s = Inr s' \<Longrightarrow> flow_ok s \<Longrightarrow> flow_ok s'"
  by (auto simp: set_ready_def flow_ok_def split: if_splits option.splits json.splits)

lemma set_facts_flow: "set_facts new_facts s = Inr s' \<Longrightarrow> flow_ok s \<Longrightarrow> flow_ok s'"
  by (auto simp: set_facts_def flow_ok_def split: if_splits)

lemma service_step_flow:
  assumes "service_step s s'" "flow_ok s"
  shows "flow_ok s'"
  using assms
proof cases
  case (ready given new_facts)
  then show ?thesis using assms(2) by (rule set_ready_flow)
next
  case (facts new_facts)
  then show ?thesis using assms(2) by (rule set_facts_flow)
next
  case (request i online current now r)
  then show ?thesis using assms(2) by (simp add: handle_flow)
qed (use assms(2) in \<open>auto simp: flow_ok_def thread_defs Let_def split: list.splits option.splits\<close>)

text \<open>A piece of work sends at most one command.\<close>

lemma execute_work_commands: "length (snd (execute_work p r env)) \<le> 1"
  by (auto simp: execute_work_def execute_command_def Let_def split: sum.splits)

lemma short_distinct: "length (xs :: 'a list) \<le> 1 \<Longrightarrow> distinct (map (\<lambda>_. i) xs)"
  by (cases xs) auto

lemma hand_fresh: "distinct (requests_of s) \<Longrightarrow> worker_hand s = Some (w, stopped) \<Longrightarrow> work_id w \<notin> fst ` set (answers s)"
  by (auto simp: requests_of_def)

lemma worker_finish_sent:
  assumes "sent_ok s" "distinct (requests_of s)"
  shows "sent_ok (worker_finish cancelled env s)"
proof -
  have "distinct (map (\<lambda>_. work_id w) (snd (execute_work p r env)))" for w p r
    using execute_work_commands by (rule short_distinct)
  moreover have "(work_id w, c) \<notin> set (sent_commands s)" if "worker_hand s = Some (w, stopped)" for w stopped c
    using hand_fresh [OF assms(2) that] assms(1) by (force simp: sent_ok_def)
  ultimately show ?thesis
    using assms(1) by (auto simp: worker_finish_def sent_ok_def Let_def comp_def split: option.splits)
qed

lemma sent_ok_more: "sent_ok s \<Longrightarrow> sent_commands s' = sent_commands s \<Longrightarrow> answers s' = answers s @ extra \<Longrightarrow> sent_ok s'"
  by (simp add: sent_ok_def le_supI1)

lemmas sent_ok_same = sent_ok_more [where extra = "[]", simplified]

lemma service_step_sent:
  assumes "service_step s s'" "sent_ok s" "distinct (requests_of s)"
  shows "sent_ok s'"
  using assms(1)
proof cases
  case (ready given new_facts)
  then have "sent_commands s' = sent_commands s \<and> answers s' = answers s"
    by (auto simp: set_ready_def split: if_splits option.splits json.splits)
  then show ?thesis using sent_ok_same [OF assms(2)] by blast
next
  case (facts new_facts)
  then have "sent_commands s' = sent_commands s \<and> answers s' = answers s"
    by (auto simp: set_facts_def split: if_splits)
  then show ?thesis using sent_ok_same [OF assms(2)] by blast
next
  case (finish cancelled env)
  then show ?thesis using assms(2,3) by (simp add: worker_finish_sent)
next
  case (request i online current now r)
  then have "\<exists>extra. sent_commands s' = sent_commands s \<and> answers s' = answers s @ extra"
    by (auto simp: handle_def handle_describe_def handle_queue_def complete_with_def split: option.splits)
  then show ?thesis using sent_ok_more [OF assms(2)] by blast
next
  case (answer cancelled)
  then show ?thesis using sent_ok_more [OF assms(2)] by (simp add: readiness_finish_def)
qed (rule sent_ok_same [OF assms(2)]; simp add: thread_defs split: list.splits)+

lemma service_step_ok: "service_step s s' \<Longrightarrow> service_ok s \<Longrightarrow> service_ok s'"
  unfolding service_ok_iff
  using service_step_requests [of s s'] service_step_flow [of s s'] service_step_sent [of s s']
  by (metis distinct.simps(2) mset.simps(2) mset_eq_imp_distinct_iff)

lemma service_steps_ok: "service_step\<^sup>*\<^sup>* s s' \<Longrightarrow> service_ok s \<Longrightarrow> service_ok s'"
  by (induction rule: rtranclp_induct) (auto intro: service_step_ok)

lemma service_start_ok: "service_start instance_id path target p = Inr s \<Longrightarrow> service_ok s"
  by (auto simp: service_start_def service_ok_def requests_of_def split: if_splits)

lemma serving_ok: "serving s \<Longrightarrow> service_ok s"
  unfolding serving_def using service_start_ok service_steps_ok by blast

lemma service_steps_keep: "service_step\<^sup>*\<^sup>* s s' \<Longrightarrow> set (requests_of s) \<subseteq> set (requests_of s')"
proof (induction rule: rtranclp_induct)
  case (step s' s'')
  have "set (requests_of s') \<subseteq> set (requests_of s'')"
    using service_step_requests [OF step(2)] by (metis insert_subset set_mset_add_mset_insert set_mset_mset subset_insertI order_refl)
  then show ?case using step(3) by blast
qed simp

subsection \<open>Answers\<close>

lemma ended_answered:
  assumes "service_ok s" "worker_ended s" "readiness_ended s"
  shows "set (requests_of s) = fst ` set (answers s) \<union> set (dropped s)"
  using assms by (simp add: service_ok_def requests_of_def)

text \<open>C18: Every request the service has taken is in exactly one place: queued, at the worker, waiting for readiness, released, completed
  or dropped for its caller's cancellation; so it is completed at most once. No step loses one, at most four are queued, and when both
  threads have returned each request is completed or dropped.\<close>

theorem scene_requests_answered_once:
  assumes "serving s" "service_step\<^sup>*\<^sup>* s s'"
  shows "distinct (requests_of s') \<and> set (requests_of s) \<subseteq> set (requests_of s') \<and> length (queue s') \<le> 4
    \<and> (worker_ended s' \<and> readiness_ended s' \<longrightarrow> set (requests_of s) \<subseteq> fst ` set (answers s') \<union> set (dropped s'))"
proof -
  have "service_ok s'" using service_steps_ok [OF assms(2) serving_ok [OF assms(1)]] .
  then show ?thesis
    using service_steps_keep [OF assms(2)] ended_answered [of s'] unfolding service_ok_def by blast
qed

text \<open>The work that is left for the threads of a closed service.\<close>

definition thread_work :: "scene_service \<Rightarrow> nat" where
  "thread_work s = 2 * length (queue s) + (if worker_hand s = None then 0 else 1) + (if worker_ended s then 0 else 1)
     + 2 * length (waiters s) + length (released s) + (if readiness_ended s then 0 else 1)"

lemma worker_step_decreases:
  assumes "service_ok s" "closed s" "\<not> worker_ended s"
  shows "\<exists>s'. service_step s s' \<and> closed s' \<and> thread_work s' < thread_work s"
proof (cases "worker_hand s")
  case None
  then have "service_step s (worker_take s)" using assms by (intro service_step.take) (simp add: worker_wakes_def)
  moreover have "closed (worker_take s) \<and> thread_work (worker_take s) < thread_work s"
    using None assms by (auto simp: worker_take_def thread_work_def split: list.splits)
  ultimately show ?thesis by blast
next
  case (Some h)
  then have "service_step s (worker_finish True env s)" for env by (intro service_step.finish) simp
  moreover have "closed (worker_finish True env s) \<and> thread_work (worker_finish True env s) < thread_work s" for env
    using Some assms by (cases h) (auto simp: worker_finish_def thread_work_def)
  ultimately show ?thesis by blast
qed

lemma readiness_step_decreases:
  assumes "service_ok s" "closed s" "\<not> readiness_ended s"
  shows "\<exists>s'. service_step s s' \<and> closed s' \<and> thread_work s' < thread_work s"
proof -
  have all: "due now s w" for now w using assms by (simp add: service_ok_def due_def)
  consider "released s \<noteq> []" | "released s = []" "waiters s = []" | "released s = []" "waiters s \<noteq> []" by blast
  then show ?thesis
  proof cases
    case 1
    then have "service_step s (readiness_finish cancelled s)" for cancelled by (rule service_step.answer)
    moreover have "closed (readiness_finish cancelled s) \<and> thread_work (readiness_finish cancelled s) < thread_work s" for cancelled
      using 1 assms by (simp add: readiness_finish_def thread_work_def)
    ultimately show ?thesis by blast
  next
    case 2
    then have "service_step s (readiness_end s)" using assms by (intro service_step.leave) (simp add: readiness_returns_def)
    moreover have "closed (readiness_end s) \<and> thread_work (readiness_end s) < thread_work s"
      using assms by (simp add: readiness_end_def thread_work_def)
    ultimately show ?thesis by blast
  next
    case 3
    then have "readiness_wakes 0 s" using assms all by (cases "waiters s") (auto simp: readiness_wakes_def)
    then have "service_step s (readiness_take False [] (\<lambda>_. 0) s)" by (rule service_step.release)
    moreover have "closed (readiness_take False [] (\<lambda>_. 0) s) \<and> thread_work (readiness_take False [] (\<lambda>_. 0) s) < thread_work s"
      using 3 assms all by (simp add: readiness_take_def thread_work_def)
    ultimately show ?thesis by blast
  qed
qed

lemma closed_reaches_end:
  "service_ok s \<Longrightarrow> closed s \<Longrightarrow> \<exists>s'. service_step\<^sup>*\<^sup>* s s' \<and> worker_ended s' \<and> readiness_ended s'"
proof (induction "thread_work s" arbitrary: s rule: less_induct)
  case less
  show ?case
  proof (cases "worker_ended s \<and> readiness_ended s")
    case False
    then obtain t where t: "service_step s t" "closed t" "thread_work t < thread_work s"
      using worker_step_decreases [OF less.prems] readiness_step_decreases [OF less.prems] by blast
    then show ?thesis
      using less.hyps [OF t(3) service_step_ok [OF t(1) less.prems(1)] t(2)] by (meson converse_rtranclp_into_rtranclp)
  qed blast
qed

lemma closed_step_never_adds:
  assumes "service_step s s'" "closed s" "service_ok s"
  shows "closed s' \<and> thread_work s' \<le> thread_work s"
  using assms(1)
proof cases
  case (ready given new_facts)
  then show ?thesis
    using assms(2,3) by (auto simp: set_ready_def thread_work_def service_ok_def split: if_splits)
next
  case (facts new_facts)
  then show ?thesis using assms(2) by (auto simp: set_facts_def thread_work_def split: if_splits)
next
  case (request i online current now r)
  then show ?thesis
    using assms(2,3)
    by (auto simp: handle_def handle_describe_def handle_queue_def complete_with_def thread_work_def service_ok_def split: option.splits)
next
  case (release now online current clock)
  have "due k s w" for k w using assms(2,3) by (simp add: service_ok_def due_def)
  then show ?thesis using release assms(2) by (simp add: readiness_take_def thread_work_def readiness_wakes_def)
qed (use assms(2) in \<open>auto simp: thread_defs thread_work_def Let_def split: list.splits option.splits\<close>)

lemma thread_work_zero: "service_ok s \<Longrightarrow> thread_work s = 0 \<longleftrightarrow> worker_ended s \<and> readiness_ended s"
  by (auto simp: thread_work_def service_ok_def)

text \<open>C19: \<^verbatim>\<open>close\<close> returns. From the moment a service is closed no step, not even a new request, adds work for its two threads; while one of
  them has not returned, one of them has a step that takes work away; and they reach their returns with every earlier request completed or
  dropped.\<close>

theorem scene_close_joins:
  assumes "serving s" "closed s"
  shows "(\<forall>s'. service_step s s' \<longrightarrow> closed s' \<and> thread_work s' \<le> thread_work s)
    \<and> (thread_work s = 0 \<longleftrightarrow> worker_ended s \<and> readiness_ended s)
    \<and> (thread_work s \<noteq> 0 \<longrightarrow> (\<exists>s'. service_step s s' \<and> thread_work s' < thread_work s))
    \<and> (\<exists>s'. service_step\<^sup>*\<^sup>* s s' \<and> worker_ended s' \<and> readiness_ended s' \<and> set (requests_of s) \<subseteq> fst ` set (answers s') \<union> set (dropped s'))"
proof -
  have ok: "service_ok s" using assms(1) by (rule serving_ok)
  obtain s' where s': "service_step\<^sup>*\<^sup>* s s'" "worker_ended s'" "readiness_ended s'"
    using closed_reaches_end [OF ok assms(2)] by blast
  have "set (requests_of s) \<subseteq> fst ` set (answers s') \<union> set (dropped s')"
    using service_steps_keep [OF s'(1)] ended_answered [OF service_steps_ok [OF s'(1) ok] s'(2,3)] by simp
  moreover have "thread_work s \<noteq> 0 \<longrightarrow> (\<exists>s'. service_step s s' \<and> thread_work s' < thread_work s)"
    using worker_step_decreases [OF ok assms(2)] readiness_step_decreases [OF ok assms(2)] thread_work_zero [OF ok]
    by (cases "worker_ended s"; cases "readiness_ended s") auto
  ultimately show ?thesis
    using closed_step_never_adds [OF _ assms(2) ok] thread_work_zero [OF ok] s' by blast
qed

subsection \<open>Commands\<close>

text \<open>C20: What the node is asked to do. A piece of work sends at most one command, and only a POST to the commands whose body is a JSON
  object within eight megabytes, declared as JSON and accepted by the strict parser, without an identity of its own, before its deadline and
  while its caller has not cancelled; the command is the body with the identity of the HTTP request, and nothing else of it changes. A resync never
  reaches xsim.\<close>

theorem scene_command_is_the_request:
  assumes "c \<in> set (snd (execute_work p r env))" "http_target r = ''/v1/commands'' \<or> http_target r = ''/v1/commands/result''"
  shows "snd (execute_work p r env) = [c] \<and> http_method r \<noteq> ''GET'' \<and> http_target r = ''/v1/commands''
    \<and> jsonContentType (http_headers r) \<and> length (request_body r) \<le> 8 * 1024 * 1024 \<and> strict_json env (request_body r)
    \<and> \<not> cancelled_first env \<and> \<not> cancelled_again env \<and> clock_first env < deadline r \<and> clock_again env < deadline r
    \<and> (\<exists>m. parse_json env (request_body r) = Inr (JObject m) \<and> oo_find m ''requestId'' = None
         \<and> \<not> (p = ''xsim'' \<and> oo_find m ''operation'' = Some (JString ''resync''))
         \<and> oo_find (entries c) ''requestId'' = Some (JString (request_header_id r))
         \<and> (\<forall>k. k \<noteq> ''requestId'' \<longrightarrow> oo_find (entries c) k = oo_find m k))"
proof -
  obtain v where v: "(if request_body r = [] then Inr JNull else parse_json env (request_body r)) = Inr v"
    and c: "c \<in> set (snd (execute_command p r env v))" and target: "http_target r = ''/v1/commands''"
    and guards: "http_method r \<noteq> ''GET''" "request_body r = [] \<or> jsonContentType (http_headers r)"
      "length (request_body r) \<le> 8 * 1024 * 1024" "request_body r = [] \<or> strict_json env (request_body r)"
      "\<not> cancelled_first env" "clock_first env < deadline r"
    and whole: "execute_work p r env = execute_command p r env v"
    using assms by (auto simp: execute_work_def split: if_splits sum.splits)
  obtain m where m: "v = JObject m" "oo_find m ''requestId'' = None" "\<not> (p = ''xsim'' \<and> oo_find m ''operation'' = Some (JString ''resync''))"
      "\<not> cancelled_again env" "clock_again env < deadline r" "c = JObject (oo_set ''requestId'' (JString (request_header_id r)) m)"
      "snd (execute_command p r env v) = [c]"
    using c by (cases v) (auto simp: execute_command_def contains_def Let_def split: if_splits)
  have "request_body r \<noteq> []" using v m(1) by auto
  then show ?thesis
    using v m guards target whole by (auto simp: oo_find_set)
qed

subsection \<open>The text of a response\<close>

text \<open>The reference: Python's \<^verbatim>\<open>json.dumps\<close> with compact separators.\<close>

fun compactJson :: "quote \<Rightarrow> json \<Rightarrow> string result"
  and compact_array :: "quote \<Rightarrow> bool \<Rightarrow> json list \<Rightarrow> string result"
  and compact_object :: "quote \<Rightarrow> bool \<Rightarrow> (string \<times> json) list \<Rightarrow> string result" where
  "compactJson quote (JArray xs) = and_then (compact_array quote True xs) (\<lambda>t. Inr (''['' @ t @ '']''))"
| "compactJson quote (JObject m) = and_then (compact_object quote True m) (\<lambda>t. Inr (''{'' @ t @ ''}''))"
| "compactJson quote v = dumpJson quote v"
| "compact_array quote first [] = Inr []"
| "compact_array quote first (x # xs) =
     and_then (compactJson quote x) (\<lambda>t. and_then (compact_array quote False xs) (\<lambda>r.
       Inr ((if first then [] else '','') @ t @ r)))"
| "compact_object quote first [] = Inr []"
| "compact_object quote first ((k, v) # m) =
     and_then (quote k) (\<lambda>name. and_then (compactJson quote v) (\<lambda>t. and_then (compact_object quote False m) (\<lambda>r.
       Inr ((if first then [] else '','') @ name @ '':'' @ t @ r))))"

text \<open>What a JSON string looks like between its quotes, and what is asked of nlohmann's encoder of strings.\<close>

fun string_body :: "string \<Rightarrow> bool" where
  "string_body [] = True"
| "string_body (c # s) = (if c = CHR 0x5C then (case s of [] \<Rightarrow> False | d # r \<Rightarrow> string_body r) else c \<noteq> CHR 0x22 \<and> string_body s)"

definition quotes_strings :: "quote \<Rightarrow> bool" where
  "quotes_strings quote \<longleftrightarrow> (\<forall>s t. quote s = Inr t \<longrightarrow> (\<exists>b. t = [CHR 0x22] @ b @ [CHR 0x22] \<and> string_body b))"

definition passes :: "string \<Rightarrow> string \<Rightarrow> bool" where
  "passes t t' \<longleftrightarrow> (\<forall>r. compact False False (t @ r) = t' @ compact False False r)"

lemma passes_append: "passes t t' \<Longrightarrow> passes u u' \<Longrightarrow> passes (t @ u) (t' @ u')"
  by (simp add: passes_def)

lemma passes_Nil [simp]: "passes [] []"
  by (simp add: passes_def)

lemma passes_plain: "list_all (\<lambda>c. c \<noteq> CHR '' '' \<and> c \<noteq> CHR 0x22) t \<Longrightarrow> passes t t"
proof (induction t)
  case (Cons c t)
  then have "passes [c] [c]" by (simp add: passes_def)
  then show ?case using Cons passes_append [of "[c]" "[c]" t t] by simp
qed simp

lemma compact_body: "string_body b \<Longrightarrow> compact True False (b @ CHR 0x22 # r) = b @ CHR 0x22 # compact False False r"
proof (induction b rule: string_body.induct)
  case (2 c s)
  show ?case
  proof (cases "c = CHR 0x5C")
    case True
    then obtain d u where "s = d # u" "string_body u" using 2 by (cases s) simp_all
    then show ?thesis using True 2(1) [of d u] by simp
  next
    case False
    then show ?thesis using 2 by simp
  qed
qed simp

lemma passes_quoted: "string_body b \<Longrightarrow> passes ([CHR 0x22] @ b @ [CHR 0x22]) ([CHR 0x22] @ b @ [CHR 0x22])"
  by (simp add: passes_def compact_body)

lemma rel_and_then:
  assumes "rel_sum (=) P a b" "\<And>x y. P x y \<Longrightarrow> b = Inr y \<Longrightarrow> rel_sum (=) Q (f x) (g y)"
  shows "rel_sum (=) Q (and_then a f) (and_then b g)"
  using assms by (cases a; cases b) auto

definition numeric :: "char \<Rightarrow> bool" where
  "numeric c \<longleftrightarrow> digit c \<or> c \<in> {CHR ''-'', CHR ''+'', CHR ''.'', CHR ''e''}"

lemma numeric_simps [simp]:
  "numeric (CHR ''-'')" "numeric (CHR ''+'')" "numeric (CHR ''.'')" "numeric (CHR ''e'')" "numeric (CHR ''0'')" "digit c \<Longrightarrow> numeric c"
  by (simp_all add: numeric_def)

lemma numeric_plain: "list_all numeric t \<Longrightarrow> passes t t"
  by (rule passes_plain) (auto simp: list_all_iff numeric_def digit_def Options.within_def less_eq_char_def)

lemma list_all_parts:
  "list_all P s \<Longrightarrow> list_all P (take n s)" "list_all P s \<Longrightarrow> list_all P (drop n s)"
  "list_all P s \<Longrightarrow> list_all P (takeWhile Q s)" "list_all P s \<Longrightarrow> list_all P (dropWhile Q s)"
  by (auto simp: list_all_iff dest: in_set_takeD in_set_dropD set_takeWhileD set_dropWhileD)

lemma show_nat_numeric [simp]: "list_all numeric (show_nat n)"
  using show_nat_digits [of n] by (auto simp: list_all_iff)

lemma show_int_numeric [simp]: "list_all numeric (show_int i)"
  by (simp add: show_int_def)

lemma show_exponent_numeric [simp]: "list_all numeric (show_exponent i)"
  by (simp add: show_exponent_def Let_def)

lemma replicate_numeric [simp]: "list_all numeric (replicate n CHR ''0'')"
  by (simp add: list_all_iff)

lemma arrange_numeric: "list_all numeric D \<Longrightarrow> list_all numeric (arrange e D)"
  by (simp add: arrange_def Let_def list_all_parts)

lemma layout_numeric: "list_all numeric s \<Longrightarrow> list_all numeric (layout s)"
  by (simp add: layout_def Let_def strip_zeros_def list_all_parts arrange_numeric)

lemma scientific_numeric: "list_all numeric (scientific v n)"
  by (simp add: scientific_def Let_def list_all_parts split: prod.split)

lemma shortest_numeric: "list_all numeric (shortest v n)"
proof (induction v n rule: shortest.induct)
  case (1 v n)
  then show ?case by (subst shortest.simps) (auto simp: Let_def scientific_numeric)
qed

lemma pythonFloat_numeric: "isfinite (double_value x) \<Longrightarrow> list_all numeric (pythonFloat x)"
  by (auto simp: pythonFloat_def layout_numeric shortest_numeric split: fp.splits)

lemma quote_passes: "quotes_strings quote \<Longrightarrow> rel_sum (=) passes (quote s) (quote s)"
  using passes_quoted unfolding quotes_strings_def by (cases "quote s") (simp, metis rel_sum_simps(4))

lemma separator_passes: "passes (if first then [] else '', '') (if first then [] else '','')" "passes '': '' '':''"
  by (simp_all add: passes_def)

lemma mark_passes: "passes ''['' ''[''" "passes '']'' '']''" "passes ''{'' ''{''" "passes ''}'' ''}''"
  by (simp_all add: passes_def)

lemmas passes_intros = passes_append separator_passes mark_passes passes_Nil

lemma dump_passes:
  "quotes_strings quote \<Longrightarrow> rel_sum (=) passes (dumpJson quote v) (compactJson quote v)"
  "quotes_strings quote \<Longrightarrow> rel_sum (=) passes (dump_array quote first xs) (compact_array quote first xs)"
  "quotes_strings quote \<Longrightarrow> rel_sum (=) passes (dump_object quote first m) (compact_object quote first m)"
proof (induction quote v and quote first xs and quote first m rule: compactJson_compact_array_compact_object.induct)
  case (1 quote xs)
  then show ?case
    unfolding dumpJson.simps compactJson.simps
    by (intro rel_and_then [where P = passes]) (simp_all del: append.simps add: passes_intros)
next
  case (2 quote m)
  then show ?case
    unfolding dumpJson.simps compactJson.simps
    by (intro rel_and_then [where P = passes]) (simp_all del: append.simps add: passes_intros)
next
  case (5 quote first x xs)
  then show ?case
    unfolding dump_array.simps compact_array.simps
    by (intro rel_and_then [where P = passes]) (simp_all del: append.simps add: passes_intros)
next
  case (7 quote first k v m)
  then show ?case
    unfolding dump_object.simps compact_object.simps
    by (intro rel_and_then [where P = passes]) (simp_all del: append.simps add: passes_intros quote_passes)
qed (auto simp: numeric_plain pythonFloat_numeric quote_passes intro!: passes_plain)

lemma passes_whole: "passes t t' \<Longrightarrow> compact False False t = t'"
  unfolding passes_def by (drule spec [of _ "[]"]) simp

lemma compact_dump:
  assumes "quotes_strings quote"
  shows "map_sum id (compact False False) (dumpJson quote v) = compactJson quote v"
proof (cases "dumpJson quote v")
  case (Inl e)
  then show ?thesis using dump_passes(1) [OF assms, of v] by (cases "compactJson quote v") auto
next
  case (Inr t)
  then obtain t' where "compactJson quote v = Inr t'" "passes t t'"
    using dump_passes(1) [OF assms, of v] by (cases "compactJson quote v") auto
  then show ?thesis using Inr by (simp add: passes_whole)
qed

text \<open>The body of a response: whatever values the thread's caching encoder has written before, a value gives exactly the text of Python's compact
  encoder, blanks inside strings kept, unless that text is above the limit, where the answer is the exhaustion error.\<close>

theorem response_text_compact:
  assumes "quotes_strings quote" "list_all keys_ok earlier" "keys_ok v"
  shows "scene_response (\<lambda>v. snd (dumps quote (cache_after quote earlier) v)) http_error v status = Inr r
    \<longleftrightarrow> (\<exists>t. compactJson quote v = Inr t
          \<and> r = (if 8 * 1024 * 1024 + 65536 < length t then http_error 503 ''resource_exhausted'' ''JSON response limit exceeded''
                 else \<lparr>http_status = status, http_body = t\<rparr>))"
proof -
  let ?encode = "\<lambda>v. snd (dumps quote (cache_after quote earlier) v)"
  let ?answer = "\<lambda>t. if 8 * 1024 * 1024 + 65536 < length t then http_error 503 ''resource_exhausted'' ''JSON response limit exceeded''
    else \<lparr>http_status = status, http_body = t\<rparr>"
  have "scene_response ?encode http_error v status = Inr r \<longleftrightarrow> (\<exists>u. ?encode v = Inr u \<and> r = ?answer (compact False False u))"
    unfolding scene_response_def Let_def by (cases "?encode v") (simp_all add: eq_commute [of r])
  also have "\<dots> \<longleftrightarrow> (\<exists>u. dumpJson quote v = Inr u \<and> r = ?answer (compact False False u))"
    using dumps_exact(2) [OF cache_after_ok [OF assms(2), of quote] assms(3)] by (simp only: agrees_def)
  also have "\<dots> \<longleftrightarrow> (\<exists>t. compactJson quote v = Inr t \<and> r = ?answer t)"
    using compact_dump [OF assms(1), of v, symmetric] by (cases "dumpJson quote v") simp_all
  finally show ?thesis .
qed

text \<open>An encoder of strings for the witness: two escapes, and every other character as it is.\<close>

fun quote_body :: "string \<Rightarrow> string" where
  "quote_body [] = []"
| "quote_body (c # s) = (if c = CHR 0x22 \<or> c = CHR 0x5C then [CHR 0x5C, c] else [c]) @ quote_body s"

definition quote_simple :: quote where
  "quote_simple s = Inr ([CHR 0x22] @ quote_body s @ [CHR 0x22])"

lemma quote_simple_quotes: "quotes_strings quote_simple"
proof -
  have "string_body (quote_body s)" for s by (induction s) auto
  then show ?thesis by (auto simp: quotes_strings_def quote_simple_def)
qed

theorem response_text_compact_witness:
  "scene_response (\<lambda>v. snd (dumps quote_simple (cache_after quote_simple []) v)) (\<lambda>status _ _. \<lparr>http_status = status, http_body = []\<rparr>)
     (JObject [(''a b'', JArray [JNull, JBool True])]) 200
   = Inr \<lparr>http_status = 200, http_body = [CHR ''{'', CHR 0x22] @ ''a b'' @ [CHR 0x22] @ '':[null,true]}''\<rparr>"
  by (subst response_text_compact [OF quote_simple_quotes]) (simp_all add: oo_ok_def quote_simple_def)

text \<open>A service that takes one request and is closed.\<close>

definition demo_service :: scene_service where
  "demo_service = (case service_start ''i'' ''/s'' ''t'' ''gazebo'' of Inr s \<Rightarrow> s)"

definition demo_request :: "string \<Rightarrow> string \<Rightarrow> http_request" where
  "demo_request method target =
     \<lparr>http_method = method, http_target = target, http_headers = [(''content-type'', ''application/json; charset=utf-8'')],
      request_body = ''{}'', request_header_id = ''q'', deadline = 1000\<rparr>"

definition demo_waiting :: scene_service where
  "demo_waiting = handle False [] 0 7 (demo_request ''GET'' ''/v1/describe?wait_ready_ms=50'') demo_service"

lemma demo_requests: "requests_of demo_service = []" "requests_of demo_waiting = [7]"
proof -
  have "waitBudget ''/v1/describe?wait_ready_ms=50'' = Some 50" by code_simp
  then show "requests_of demo_service = []" "requests_of demo_waiting = [7]"
    by (simp_all add: demo_waiting_def demo_service_def demo_request_def service_start_def valid_profile_def handle_def handle_describe_def
        requests_of_def)
qed

lemma demo_serving: "serving demo_waiting" "service_step demo_waiting (set_closed demo_waiting)" "serving (set_closed demo_waiting)"
proof -
  have "service_start ''i'' ''/s'' ''t'' ''gazebo'' = Inr demo_service"
    by (simp add: demo_service_def service_start_def valid_profile_def)
  moreover have steps: "service_step demo_service demo_waiting" "service_step demo_waiting (set_closed demo_waiting)"
    unfolding demo_waiting_def by (simp_all add: service_step.request service_step.close demo_requests)
  ultimately show "serving demo_waiting" "serving (set_closed demo_waiting)"
    unfolding serving_def by (meson r_into_rtranclp rtranclp.rtrancl_into_rtrancl)+
  show "service_step demo_waiting (set_closed demo_waiting)" by (rule steps)
qed

theorem scene_requests_answered_once_witness: "7 \<in> set (requests_of (set_closed demo_waiting)) \<and> distinct (requests_of (set_closed demo_waiting))"
  using scene_requests_answered_once [OF demo_serving(1) r_into_rtranclp [of service_step, OF demo_serving(2)]] by (simp add: demo_requests)

theorem scene_close_joins_witness:
  "\<exists>s'. service_step\<^sup>*\<^sup>* (set_closed demo_waiting) s' \<and> worker_ended s' \<and> readiness_ended s' \<and> 7 \<in> fst ` set (answers s') \<union> set (dropped s')"
proof -
  have "closed (set_closed demo_waiting)" "requests_of (set_closed demo_waiting) = [7]"
    by (simp_all add: set_closed_def demo_requests flag_requests [unfolded set_closed_def])
  then show ?thesis
    using scene_close_joins [OF demo_serving(3)] by fastforce
qed

definition demo_env :: work_env where
  "demo_env = \<lparr>cancelled_first = False, clock_first = 0, strict_json = (\<lambda>_. True), parse_json = (\<lambda>_. Inr (JObject [])),
     node_envelope = Node_Failed, node_request_result = (\<lambda>_. None), cancelled_again = False, clock_again = 1, node_command = Node_Value\<rparr>"

theorem scene_command_is_the_request_witness:
  "snd (execute_work ''gazebo'' (demo_request ''POST'' ''/v1/commands'') demo_env) = [JObject [(''requestId'', JString ''q'')]]"
proof -
  have "jsonContentType [(''content-type'', ''application/json; charset=utf-8'')]"
    by (simp add: jsonContentType_def trimmed_def tolower_def)
  then have "JObject [(''requestId'', JString ''q'')] \<in> set (snd (execute_work ''gazebo'' (demo_request ''POST'' ''/v1/commands'') demo_env))"
    by (simp add: execute_work_def execute_command_def demo_request_def demo_env_def contains_def oo_find_def oo_set_def oo_emplace_def Let_def)
  then show ?thesis
    using scene_command_is_the_request [of _ "''gazebo''" "demo_request ''POST'' ''/v1/commands''" demo_env] by (simp add: demo_request_def)
qed

end
