(* ===== verification/Service_Frames.thy ===== *)
theory Service_Frames
  imports Prelude "HOL-Library.Word"
begin

section \<open>Frames between the tools adapter and its service helper\<close>

text \<open>
  \<^verbatim>\<open>service_helper_protocol.hpp\<close> of \<^verbatim>\<open>src/ros1_tools_adapter\<close>: the fixed header that precedes every section on the private socket, its four
  makers and its four validators. Fields are words of their width; a size narrowed by \<^verbatim>\<open>static_cast\<close> wraps. The struct crosses the socket
  as its 64 bytes in memory, without padding, in the little-endian order of the machine both processes run on.
\<close>

type_synonym byte = "8 word"

record service_frame =
  magic :: "32 word"
  version :: "16 word"
  kind :: "16 word"
  request_id :: "64 word"
  status :: "32 word"
  service_name_bytes :: "32 word"
  service_md5_bytes :: "32 word"
  payload_bytes :: "32 word"
  wait_for_service_ms :: "32 word"
  reserved :: "byte list"

definition kServiceHelperProtocolMagic :: "32 word" where
  "kServiceHelperProtocolMagic = 0x58325253"

abbreviation kMaximumServiceNameBytes :: nat where
  "kMaximumServiceNameBytes \<equiv> 4096"

abbreviation kServiceMd5Bytes :: nat where
  "kServiceMd5Bytes \<equiv> 32"

abbreviation kMaximumServicePayloadBytes :: nat where
  "kMaximumServicePayloadBytes \<equiv> 8 * 1024 * 1024"

abbreviation kMaximumServiceWaitMilliseconds :: nat where
  "kMaximumServiceWaitMilliseconds \<equiv> 300000"

datatype frame_kind = Request_Frame | Ready_Frame | Commit_Frame | Response_Frame

fun kind_code :: "frame_kind \<Rightarrow> 16 word" where
  "kind_code Request_Frame = 1" | "kind_code Ready_Frame = 2" | "kind_code Commit_Frame = 3" | "kind_code Response_Frame = 4"

datatype ready_status = Ready | Service_Unavailable | Ready_Protocol_Error

fun ready_code :: "ready_status \<Rightarrow> 32 word" where
  "ready_code Ready = 1" | "ready_code Service_Unavailable = 2" | "ready_code Ready_Protocol_Error = 3"

datatype response_status = Completed | Call_Failed | Response_Too_Large | Response_Protocol_Error

fun response_code :: "response_status \<Rightarrow> 32 word" where
  "response_code Completed = 1" | "response_code Call_Failed = 2" | "response_code Response_Too_Large = 3"
| "response_code Response_Protocol_Error = 4"

definition serviceHelperBytesAreZero :: "byte list \<Rightarrow> bool" where
  "serviceHelperBytesAreZero bs = list_all (\<lambda>b. b = 0) bs"

definition validServiceMd5 :: "string \<Rightarrow> bool" where
  "validServiceMd5 s \<longleftrightarrow>
     length s = kServiceMd5Bytes
     \<and> list_all (\<lambda>c. CHR ''0'' \<le> c \<and> c \<le> CHR ''9'' \<or> CHR ''a'' \<le> c \<and> c \<le> CHR ''f'' \<or> CHR ''A'' \<le> c \<and> c \<le> CHR ''F'') s"

subsection \<open>Making frames\<close>

text \<open>A frame with every field but magic, version, kind and request zero.\<close>

definition bare_frame :: "frame_kind \<Rightarrow> 64 word \<Rightarrow> service_frame" where
  "bare_frame k i =
     \<lparr>magic = kServiceHelperProtocolMagic, version = 1, kind = kind_code k, request_id = i, status = 0, service_name_bytes = 0,
      service_md5_bytes = 0, payload_bytes = 0, wait_for_service_ms = 0, reserved = replicate 28 0\<rparr>"

definition makeServiceHelperRequest :: "64 word \<Rightarrow> nat \<Rightarrow> nat \<Rightarrow> nat \<Rightarrow> 32 word \<Rightarrow> service_frame" where
  "makeServiceHelperRequest i name_bytes md5_bytes bytes wait =
     (bare_frame Request_Frame i)\<lparr>service_name_bytes := word_of_nat name_bytes, service_md5_bytes := word_of_nat md5_bytes,
       payload_bytes := word_of_nat bytes, wait_for_service_ms := wait\<rparr>"

definition makeServiceHelperReady :: "64 word \<Rightarrow> ready_status \<Rightarrow> service_frame" where
  "makeServiceHelperReady i s = (bare_frame Ready_Frame i)\<lparr>status := ready_code s\<rparr>"

definition makeServiceHelperCommit :: "64 word \<Rightarrow> service_frame" where
  "makeServiceHelperCommit i = bare_frame Commit_Frame i"

definition makeServiceHelperResponse :: "64 word \<Rightarrow> response_status \<Rightarrow> nat \<Rightarrow> service_frame" where
  "makeServiceHelperResponse i s bytes = (bare_frame Response_Frame i)\<lparr>status := response_code s, payload_bytes := word_of_nat bytes\<rparr>"

subsection \<open>Validating frames\<close>

definition validServiceHelperFrameBase :: "service_frame \<Rightarrow> bool" where
  "validServiceHelperFrameBase f \<longleftrightarrow>
     magic f = kServiceHelperProtocolMagic \<and> version f = 1 \<and> request_id f \<noteq> 0 \<and> serviceHelperBytesAreZero (reserved f)"

definition validateServiceHelperRequest :: "service_frame \<Rightarrow> bool" where
  "validateServiceHelperRequest f \<longleftrightarrow>
     validServiceHelperFrameBase f \<and> kind f = kind_code Request_Frame \<and> status f = 0 \<and> 0 < service_name_bytes f
     \<and> unat (service_name_bytes f) \<le> kMaximumServiceNameBytes \<and> unat (service_md5_bytes f) = kServiceMd5Bytes
     \<and> unat (payload_bytes f) \<le> kMaximumServicePayloadBytes \<and> unat (wait_for_service_ms f) \<le> kMaximumServiceWaitMilliseconds"

definition validateServiceHelperReady :: "service_frame \<Rightarrow> 64 word \<Rightarrow> bool" where
  "validateServiceHelperReady f i \<longleftrightarrow>
     \<not> (\<not> validServiceHelperFrameBase f \<or> request_id f \<noteq> i \<or> kind f \<noteq> kind_code Ready_Frame \<or> service_name_bytes f \<noteq> 0
        \<or> service_md5_bytes f \<noteq> 0 \<or> payload_bytes f \<noteq> 0 \<or> wait_for_service_ms f \<noteq> 0)
     \<and> (status f = ready_code Ready \<or> status f = ready_code Service_Unavailable \<or> status f = ready_code Ready_Protocol_Error)"

definition validateServiceHelperCommit :: "service_frame \<Rightarrow> 64 word \<Rightarrow> bool" where
  "validateServiceHelperCommit f i \<longleftrightarrow>
     validServiceHelperFrameBase f \<and> request_id f = i \<and> kind f = kind_code Commit_Frame \<and> status f = 0 \<and> service_name_bytes f = 0
     \<and> service_md5_bytes f = 0 \<and> payload_bytes f = 0 \<and> wait_for_service_ms f = 0"

definition validateServiceHelperResponse :: "service_frame \<Rightarrow> 64 word \<Rightarrow> bool" where
  "validateServiceHelperResponse f i \<longleftrightarrow>
     \<not> (\<not> validServiceHelperFrameBase f \<or> request_id f \<noteq> i \<or> kind f \<noteq> kind_code Response_Frame \<or> service_name_bytes f \<noteq> 0
        \<or> service_md5_bytes f \<noteq> 0 \<or> wait_for_service_ms f \<noteq> 0 \<or> kMaximumServicePayloadBytes < unat (payload_bytes f))
     \<and> (if status f = response_code Completed then True
        else payload_bytes f = 0
          \<and> (status f = response_code Call_Failed \<or> status f = response_code Response_Too_Large \<or> status f = response_code Response_Protocol_Error))"

subsection \<open>Bytes\<close>

fun nat_bytes :: "nat \<Rightarrow> nat \<Rightarrow> nat list" where
  "nat_bytes 0 k = []"
| "nat_bytes (Suc n) k = (k mod 256) # nat_bytes n (k div 256)"

fun bytes_nat :: "nat list \<Rightarrow> nat" where
  "bytes_nat [] = 0"
| "bytes_nat (b # bs) = b + 256 * bytes_nat bs"

definition word_bytes :: "nat \<Rightarrow> 'a::len word \<Rightarrow> byte list" where
  "word_bytes n w = map word_of_nat (nat_bytes n (unat w))"

definition bytes_word :: "byte list \<Rightarrow> 'a::len word" where
  "bytes_word bs = word_of_nat (bytes_nat (map unat bs))"

definition frame_bytes :: "service_frame \<Rightarrow> byte list" where
  "frame_bytes f = word_bytes 4 (magic f) @ word_bytes 2 (version f) @ word_bytes 2 (kind f) @ word_bytes 8 (request_id f)
     @ word_bytes 4 (status f) @ word_bytes 4 (service_name_bytes f) @ word_bytes 4 (service_md5_bytes f) @ word_bytes 4 (payload_bytes f)
     @ word_bytes 4 (wait_for_service_ms f) @ reserved f"

definition read_frame :: "byte list \<Rightarrow> service_frame" where
  "read_frame bs =
     \<lparr>magic = bytes_word (take 4 bs), version = bytes_word (take 2 (drop 4 bs)), kind = bytes_word (take 2 (drop 6 bs)),
      request_id = bytes_word (take 8 (drop 8 bs)), status = bytes_word (take 4 (drop 16 bs)),
      service_name_bytes = bytes_word (take 4 (drop 20 bs)), service_md5_bytes = bytes_word (take 4 (drop 24 bs)),
      payload_bytes = bytes_word (take 4 (drop 28 bs)), wait_for_service_ms = bytes_word (take 4 (drop 32 bs)), reserved = drop 36 bs\<rparr>"

lemma length_nat_bytes [simp]: "length (nat_bytes n k) = n"
  by (induction n arbitrary: k) auto

lemma nat_bytes_bound: "b \<in> set (nat_bytes n k) \<Longrightarrow> b < 256"
  by (induction n arbitrary: k) auto

lemma bytes_nat_bytes: "bytes_nat (nat_bytes n k) = k mod 256 ^ n"
proof (induction n arbitrary: k)
  case (Suc n)
  then show ?case by (simp add: mod_mult2_eq ac_simps)
qed simp

lemma length_word_bytes [simp]: "length (word_bytes n w) = n"
  by (simp add: word_bytes_def)

lemma bytes_word_bytes:
  assumes "LENGTH('a) = 8 * n"
  shows "bytes_word (word_bytes n w) = (w :: 'a::len word)"
proof -
  have "map unat (word_bytes n w) = nat_bytes n (unat w)"
    using nat_bytes_bound [of _ n "unat w"]
    by (auto simp: word_bytes_def comp_def unat_of_nat take_bit_eq_mod intro!: map_idI)
  moreover have "unat w < 256 ^ n"
    using unsigned_less [of w, where 'a = nat] assms by (simp add: power_mult)
  ultimately show ?thesis by (simp add: bytes_word_def bytes_nat_bytes)
qed

lemma length_frame_bytes: "length (reserved f) = 28 \<Longrightarrow> length (frame_bytes f) = 64"
  by (simp add: frame_bytes_def)

lemma read_frame_bytes [simp]: "read_frame (frame_bytes f) = f"
  by (simp add: read_frame_def frame_bytes_def bytes_word_bytes)

subsection \<open>Makers and validators agree\<close>

lemma zero_bytes: "serviceHelperBytesAreZero bs \<longleftrightarrow> bs = replicate (length bs) 0"
  by (induction bs) (auto simp: serviceHelperBytesAreZero_def)

lemma base_replicate [simp]: "serviceHelperBytesAreZero (replicate n 0)"
  by (simp add: zero_bytes)

lemma unat_small: "n < 2 ^ LENGTH('a) \<Longrightarrow> unat (word_of_nat n :: 'a::len word) = n"
  by (simp add: unat_of_nat take_bit_eq_mod)

lemmas make_defs =
  makeServiceHelperRequest_def makeServiceHelperReady_def makeServiceHelperCommit_def makeServiceHelperResponse_def bare_frame_def

lemmas validate_defs =
  validateServiceHelperRequest_def validateServiceHelperReady_def validateServiceHelperCommit_def validateServiceHelperResponse_def
  validServiceHelperFrameBase_def

lemma reserved_made [simp]:
  "length (reserved (makeServiceHelperRequest i n m p w)) = 28" "length (reserved (makeServiceHelperReady i r)) = 28"
  "length (reserved (makeServiceHelperCommit i)) = 28" "length (reserved (makeServiceHelperResponse i s p)) = 28"
  by (simp_all add: make_defs)

lemma request_made_valid:
  assumes "i \<noteq> 0" "0 < n" "n \<le> kMaximumServiceNameBytes" "p \<le> kMaximumServicePayloadBytes" "unat w \<le> kMaximumServiceWaitMilliseconds"
  shows "validateServiceHelperRequest (makeServiceHelperRequest i n kServiceMd5Bytes p w)"
  using assms by (simp add: validate_defs make_defs unat_small word_less_nat_alt)

lemma request_made_sizes:
  assumes "n \<le> kMaximumServiceNameBytes" "p \<le> kMaximumServicePayloadBytes"
  shows "unat (service_name_bytes (makeServiceHelperRequest i n kServiceMd5Bytes p w)) = n"
    and "unat (service_md5_bytes (makeServiceHelperRequest i n kServiceMd5Bytes p w)) = kServiceMd5Bytes"
    and "unat (payload_bytes (makeServiceHelperRequest i n kServiceMd5Bytes p w)) = p"
  using assms by (simp_all add: make_defs unat_small)

lemma request_valid_made:
  assumes "validateServiceHelperRequest f" "length (reserved f) = 28"
  shows "f = makeServiceHelperRequest (request_id f) (unat (service_name_bytes f)) kServiceMd5Bytes (unat (payload_bytes f)) (wait_for_service_ms f)"
proof -
  have "service_md5_bytes f = word_of_nat (unat (service_md5_bytes f))" by simp
  then have "service_md5_bytes f = word_of_nat kServiceMd5Bytes"
    using assms(1) unfolding validateServiceHelperRequest_def by simp
  then show ?thesis
    using assms by (intro service_frame.equality) (auto simp: validate_defs make_defs zero_bytes)
qed

lemma ready_made_valid: "i \<noteq> 0 \<Longrightarrow> validateServiceHelperReady (makeServiceHelperReady i r) i"
  by (cases r) (simp_all add: validate_defs make_defs)

lemma ready_valid_made:
  assumes "validateServiceHelperReady f i" "length (reserved f) = 28"
  shows "\<exists>r. f = makeServiceHelperReady i r"
proof -
  obtain r where "status f = ready_code r" using assms(1) unfolding validateServiceHelperReady_def by blast
  then have "f = makeServiceHelperReady i r"
    using assms by (intro service_frame.equality) (auto simp: validate_defs make_defs zero_bytes)
  then show ?thesis ..
qed

lemma commit_valid_iff: "validateServiceHelperCommit f i \<and> length (reserved f) = 28 \<longleftrightarrow> i \<noteq> 0 \<and> f = makeServiceHelperCommit i"
  by (auto simp: validate_defs make_defs zero_bytes intro!: service_frame.equality)

lemma response_made_valid:
  assumes "i \<noteq> 0" "p \<le> kMaximumServicePayloadBytes" "s = Completed \<or> p = 0"
  shows "validateServiceHelperResponse (makeServiceHelperResponse i s p) i"
  using assms by (cases s) (auto simp: validate_defs make_defs unat_small)

lemma response_valid_made:
  assumes "validateServiceHelperResponse f i" "length (reserved f) = 28"
  shows "\<exists>s. f = makeServiceHelperResponse i s (unat (payload_bytes f)) \<and> (s = Completed \<or> payload_bytes f = 0)"
proof -
  obtain s where "status f = response_code s" "s = Completed \<or> payload_bytes f = 0"
    using assms(1) unfolding validateServiceHelperResponse_def by metis
  moreover from this(1) have "f = makeServiceHelperResponse i s (unat (payload_bytes f))"
    using assms by (intro service_frame.equality) (auto simp: validate_defs make_defs zero_bytes)
  ultimately show ?thesis by blast
qed

text \<open>C24: The validators accept exactly the frames the makers make within the limits, and a frame survives the socket: no other 64 bytes are taken
  for a request, a readiness, a commit or a response.\<close>

theorem valid_frames_are_made:
  assumes "length (reserved f) = 28"
  shows "(validateServiceHelperRequest f
      \<longleftrightarrow> (\<exists>i n p w. i \<noteq> 0 \<and> 0 < n \<and> n \<le> kMaximumServiceNameBytes \<and> p \<le> kMaximumServicePayloadBytes
            \<and> unat w \<le> kMaximumServiceWaitMilliseconds \<and> f = makeServiceHelperRequest i n kServiceMd5Bytes p w))
    \<and> (validateServiceHelperReady f i \<longleftrightarrow> i \<noteq> 0 \<and> (\<exists>r. f = makeServiceHelperReady i r))
    \<and> (validateServiceHelperCommit f i \<longleftrightarrow> i \<noteq> 0 \<and> f = makeServiceHelperCommit i)
    \<and> (validateServiceHelperResponse f i
      \<longleftrightarrow> i \<noteq> 0 \<and> (\<exists>s p. p \<le> kMaximumServicePayloadBytes \<and> (s = Completed \<or> p = 0) \<and> f = makeServiceHelperResponse i s p))
    \<and> length (frame_bytes f) = 64 \<and> read_frame (frame_bytes f) = f"
proof (intro conjI)
  show "validateServiceHelperReady f i \<longleftrightarrow> i \<noteq> 0 \<and> (\<exists>r. f = makeServiceHelperReady i r)"
    using ready_valid_made [OF _ assms] ready_made_valid by (auto simp: validate_defs)
  show "validateServiceHelperCommit f i \<longleftrightarrow> i \<noteq> 0 \<and> f = makeServiceHelperCommit i"
    using commit_valid_iff assms by blast
  show "length (frame_bytes f) = 64" "read_frame (frame_bytes f) = f"
    using length_frame_bytes [OF assms] by simp_all
  show "validateServiceHelperRequest f
      \<longleftrightarrow> (\<exists>i n p w. i \<noteq> 0 \<and> 0 < n \<and> n \<le> kMaximumServiceNameBytes \<and> p \<le> kMaximumServicePayloadBytes
            \<and> unat w \<le> kMaximumServiceWaitMilliseconds \<and> f = makeServiceHelperRequest i n kServiceMd5Bytes p w)" (is "?valid \<longleftrightarrow> ?made")
  proof
    assume valid: ?valid
    then have "request_id f \<noteq> 0" "0 < unat (service_name_bytes f)" "unat (service_name_bytes f) \<le> kMaximumServiceNameBytes"
        "unat (payload_bytes f) \<le> kMaximumServicePayloadBytes" "unat (wait_for_service_ms f) \<le> kMaximumServiceWaitMilliseconds"
      by (simp_all add: validate_defs word_less_nat_alt)
    then show ?made using request_valid_made [OF valid assms] by blast
  qed (use request_made_valid in blast)
  show "validateServiceHelperResponse f i
      \<longleftrightarrow> i \<noteq> 0 \<and> (\<exists>s p. p \<le> kMaximumServicePayloadBytes \<and> (s = Completed \<or> p = 0) \<and> f = makeServiceHelperResponse i s p)" (is "?valid \<longleftrightarrow> ?made")
  proof
    assume valid: ?valid
    then have "i \<noteq> 0" "unat (payload_bytes f) \<le> kMaximumServicePayloadBytes" by (auto simp: validate_defs)
    then show ?made using response_valid_made [OF valid assms] by (metis unat_0)
  qed (use response_made_valid in blast)
qed

theorem valid_frames_are_made_witness: "validateServiceHelperCommit (makeServiceHelperCommit 1) 1 \<and> \<not> validateServiceHelperCommit (makeServiceHelperCommit 1) 2"
  using valid_frames_are_made [OF reserved_made(3) [of 1], of 1] valid_frames_are_made [OF reserved_made(3) [of 1], of 2]
  by (simp add: make_defs)

end
