(* ===== verification/Service_Call.thy ===== *)
theory Service_Call
  imports Service_Frames
begin

section \<open>Calls of ROS services through a helper process\<close>

text \<open>
  \<^verbatim>\<open>service_invoker.cpp\<close>, \<^verbatim>\<open>service_helper_main.cpp\<close> and \<^verbatim>\<open>error.hpp\<close> of \<^verbatim>\<open>src/ros1_tools_adapter\<close>. A call starts a helper process, sends it the request, waits until
  the helper says that it could call the service, and then sends a commit; the helper calls the service only after a whole, matching
  commit. Every failure of the caller is classed: an \<^verbatim>\<open>uncertain\<close> one may have reached the service, any other one has not.

  Both ends loop around system calls. A loop is a recursion over the events it meets, one per turn: what the clock and the cancellation
  say, and what the system call returns; events that run out leave a loop that has not returned (\<open>None\<close>). The stream of bytes the other end writes is
  an argument. Starting and killing the process, the type registry, the JSON codec and roscpp are arguments too.
\<close>

subsection \<open>Errors\<close>

record tools_error =
  code :: string
  errorClass :: string
  message :: string

definition permanentError :: "string \<Rightarrow> string \<Rightarrow> tools_error" where
  "permanentError c m = \<lparr>code = c, errorClass = ''permanent'', message = m\<rparr>"

definition transientError :: "string \<Rightarrow> string \<Rightarrow> tools_error" where
  "transientError c m = \<lparr>code = c, errorClass = ''transient'', message = m\<rparr>"

definition uncertainError :: "string \<Rightarrow> string \<Rightarrow> tools_error" where
  "uncertainError c m = \<lparr>code = c, errorClass = ''uncertain'', message = m\<rparr>"

definition cancelledError :: "string \<Rightarrow> string \<Rightarrow> tools_error" where
  "cancelledError c m = \<lparr>code = c, errorClass = ''cancelled'', message = m\<rparr>"

definition deadlineError :: "string \<Rightarrow> string \<Rightarrow> tools_error" where
  "deadlineError c m = \<lparr>code = c, errorClass = ''deadline'', message = m\<rparr>"

definition resourceExhaustedError :: "string \<Rightarrow> string \<Rightarrow> tools_error" where
  "resourceExhaustedError c m = \<lparr>code = c, errorClass = ''resource-exhausted'', message = m\<rparr>"

lemmas error_defs =
  permanentError_def transientError_def uncertainError_def cancelledError_def deadlineError_def resourceExhaustedError_def

text \<open>What a piece of code did: a value, an error of the adapter, another exception with its text, or anything else thrown.\<close>

datatype 'a caught = Fine 'a | Threw_Tools tools_error | Threw_Exception string | Threw_Other

fun and_catch :: "'a caught \<Rightarrow> ('a \<Rightarrow> 'b caught) \<Rightarrow> 'b caught" where
  "and_catch (Fine x) f = f x"
| "and_catch (Threw_Tools e) f = Threw_Tools e"
| "and_catch (Threw_Exception m) f = Threw_Exception m"
| "and_catch Threw_Other f = Threw_Other"

definition quoted_name :: "string \<Rightarrow> string" where
  "quoted_name s = [CHR 0x27] @ s @ [CHR 0x27]"

subsection \<open>Requests and clocks\<close>

record 'j service_request =
  service :: string
  service_type :: string
  request_value :: 'j
  wait_ms :: "32 word"
  call_timeout_ms :: "32 word"
  deadline_unix_nanos :: int

text \<open>What one look at the request and the clocks gives; both clocks count nanoseconds in 64 bits.\<close>

record moment =
  cancelled_now :: bool
  unix_now :: int
  steady_now :: int

abbreviation steady_max :: int where
  "steady_max \<equiv> 0x7FFFFFFFFFFFFFFF"

definition deadlineExpired :: "int \<Rightarrow> int \<Rightarrow> bool" where
  "deadlineExpired d now \<longleftrightarrow> \<not> d \<le> 0 \<and> d \<le> now"

definition requirePreDispatchAllowed :: "'j service_request \<Rightarrow> moment \<Rightarrow> unit caught" where
  "requirePreDispatchAllowed r m =
     (if cancelled_now m then Threw_Tools (cancelledError ''service_call_cancelled'' ''ROS1 service call was cancelled before dispatch'')
      else if deadlineExpired (deadline_unix_nanos r) (unix_now m)
      then Threw_Tools (deadlineError ''service_deadline_elapsed'' ''ROS1 service deadline elapsed before dispatch'')
      else Fine ())"

definition runtimeDeadline :: "int \<Rightarrow> moment \<Rightarrow> int" where
  "runtimeDeadline d m =
     (if d \<le> 0 then steady_max
      else if d \<le> unix_now m then steady_now m
      else
        (let remaining = d - unix_now m; maximum_remaining = steady_max - steady_now m
         in if maximum_remaining \<le> remaining then steady_max else steady_now m + remaining))"

definition pollTimeout :: "int \<Rightarrow> int \<Rightarrow> int" where
  "pollTimeout d now =
     (if d = steady_max then 5
      else if d \<le> now then 0
      else max 1 (min 5 ((d - now) div 1000000 + 1)))"

subsection \<open>The caller's loops\<close>

datatype pre_commit = Pre_Complete | Pre_Cancelled | Pre_Deadline | Pre_Transport string

text \<open>\<open>Poll_Events hit broken\<close>: the requested events are there, an error or a hang-up is there.\<close>

datatype poll_event = Poll_Interrupted | Poll_Failed string | Poll_Timeout | Poll_Events bool bool

definition stops :: "'j service_request \<Rightarrow> int \<Rightarrow> moment \<Rightarrow> pre_commit option" where
  "stops r d m =
     (if cancelled_now m then Some Pre_Cancelled
      else if deadlineExpired (deadline_unix_nanos r) (unix_now m) \<or> d \<le> steady_now m then Some Pre_Deadline
      else None)"

fun waitPreCommitEvent :: "'j service_request \<Rightarrow> int \<Rightarrow> (moment \<times> poll_event) list \<Rightarrow> pre_commit option" where
  "waitPreCommitEvent r d [] = None"
| "waitPreCommitEvent r d ((m, e) # turns) =
     (case stops r d m of
        Some s \<Rightarrow> Some s
      | None \<Rightarrow>
          (case e of
             Poll_Interrupted \<Rightarrow> waitPreCommitEvent r d turns
           | Poll_Failed t \<Rightarrow> Some (Pre_Transport t)
           | Poll_Timeout \<Rightarrow> waitPreCommitEvent r d turns
           | Poll_Events hit broken \<Rightarrow>
               if hit then Some Pre_Complete
               else if broken then Some (Pre_Transport ''service helper disconnected'')
               else waitPreCommitEvent r d turns))"

text \<open>A \<^verbatim>\<open>send\<close> that takes \<open>k + 1\<close> bytes (or all that are left), is interrupted, takes nothing, fails, or would block.\<close>

datatype send_event = Sent nat | Send_Interrupted | Send_Zero | Send_Failed string | Send_Again "(moment \<times> poll_event) list"

text \<open>The result: the bytes the socket took, and how the loop returned.\<close>

fun writePreCommit :: "'j service_request \<Rightarrow> int \<Rightarrow> (moment \<times> send_event) list \<Rightarrow> byte list \<Rightarrow> byte list \<times> pre_commit option" where
  "writePreCommit r d turns [] = ([], Some Pre_Complete)"
| "writePreCommit r d [] (b # bs) = ([], None)"
| "writePreCommit r d ((m, e) # turns) (b # bs) =
     (case stops r d m of
        Some s \<Rightarrow> ([], Some s)
      | None \<Rightarrow>
          (case e of
             Sent k \<Rightarrow> (let (more, result) = writePreCommit r d turns (drop k bs) in (b # take k bs @ more, result))
           | Send_Interrupted \<Rightarrow> writePreCommit r d turns (b # bs)
           | Send_Zero \<Rightarrow> ([], Some (Pre_Transport ''service helper socket closed''))
           | Send_Failed t \<Rightarrow> ([], Some (Pre_Transport t))
           | Send_Again waits \<Rightarrow>
               (case waitPreCommitEvent r d waits of
                  Some Pre_Complete \<Rightarrow> writePreCommit r d turns (b # bs)
                | result \<Rightarrow> ([], result))))"

text \<open>A \<^verbatim>\<open>recv\<close> that gives up to \<open>k + 1\<close> of the bytes that are asked for; none, when the stream has ended.\<close>

datatype 'w recv_event = Received nat | Recv_Interrupted | Recv_Failed string | Recv_Again 'w

definition recv :: "nat \<Rightarrow> nat \<Rightarrow> byte list \<Rightarrow> byte list" where
  "recv k n incoming = take (min (Suc k) n) incoming"

text \<open>The result: the bytes read, the stream that is left, and how the loop returned.\<close>

fun readPreCommit ::
  "'j service_request \<Rightarrow> int \<Rightarrow> (moment \<times> (moment \<times> poll_event) list recv_event) list \<Rightarrow> nat \<Rightarrow> byte list
   \<Rightarrow> byte list \<times> byte list \<times> pre_commit option" where
  "readPreCommit r d turns 0 incoming = ([], incoming, Some Pre_Complete)"
| "readPreCommit r d [] (Suc n) incoming = ([], incoming, None)"
| "readPreCommit r d ((m, e) # turns) (Suc n) incoming =
     (case stops r d m of
        Some s \<Rightarrow> ([], incoming, Some s)
      | None \<Rightarrow>
          (case e of
             Received k \<Rightarrow>
               (let chunk = recv k (Suc n) incoming in
                if chunk = [] then ([], incoming, Some (Pre_Transport ''service helper disconnected''))
                else (let (more, rest, result) = readPreCommit r d turns (Suc n - length chunk) (drop (length chunk) incoming)
                      in (chunk @ more, rest, result)))
           | Recv_Interrupted \<Rightarrow> readPreCommit r d turns (Suc n) incoming
           | Recv_Failed t \<Rightarrow> ([], incoming, Some (Pre_Transport t))
           | Recv_Again waits \<Rightarrow>
               (case waitPreCommitEvent r d waits of
                  Some Pre_Complete \<Rightarrow> readPreCommit r d turns (Suc n) incoming
                | result \<Rightarrow> ([], incoming, result))))"

definition failPreCommit :: "pre_commit \<Rightarrow> tools_error" where
  "failPreCommit result =
     (case result of
        Pre_Cancelled \<Rightarrow> cancelledError ''service_call_cancelled'' ''ROS1 service call was cancelled before dispatch''
      | Pre_Deadline \<Rightarrow> deadlineError ''service_deadline_elapsed'' ''ROS1 service deadline elapsed before dispatch''
      | Pre_Transport t \<Rightarrow> transientError ''service_helper_unavailable'' (''ROS1 service helper failed before dispatch: '' @ t)
      | Pre_Complete \<Rightarrow> transientError ''service_helper_unavailable'' ''ROS1 service helper failed before dispatch'')"

datatype post_commit = Post_Complete | Post_Cancelled | Post_Runtime_Deadline | Post_Call_Timeout | Post_Transport string

definition post_stops :: "'j service_request \<Rightarrow> int \<Rightarrow> int \<Rightarrow> moment \<Rightarrow> post_commit option" where
  "post_stops r d call_deadline m =
     (if cancelled_now m then Some Post_Cancelled
      else if deadlineExpired (deadline_unix_nanos r) (unix_now m) \<or> d \<le> steady_now m then Some Post_Runtime_Deadline
      else if call_deadline \<le> steady_now m then Some Post_Call_Timeout
      else None)"

text \<open>\<open>final\<close> is the look after the loop.\<close>

fun readPostCommit ::
  "'j service_request \<Rightarrow> int \<Rightarrow> int \<Rightarrow> moment \<Rightarrow> (moment \<times> poll_event recv_event) list \<Rightarrow> nat \<Rightarrow> byte list
   \<Rightarrow> byte list \<times> byte list \<times> post_commit option" where
  "readPostCommit r d c final turns 0 incoming =
     ([], incoming, Some (case post_stops r d c final of Some s \<Rightarrow> s | None \<Rightarrow> Post_Complete))"
| "readPostCommit r d c final [] (Suc n) incoming = ([], incoming, None)"
| "readPostCommit r d c final ((m, e) # turns) (Suc n) incoming =
     (case post_stops r d c m of
        Some s \<Rightarrow> ([], incoming, Some s)
      | None \<Rightarrow>
          (case e of
             Received k \<Rightarrow>
               (let chunk = recv k (Suc n) incoming in
                if chunk = [] then ([], incoming, Some (Post_Transport ''service helper disconnected''))
                else (let (more, rest, result) = readPostCommit r d c final turns (Suc n - length chunk) (drop (length chunk) incoming)
                      in (chunk @ more, rest, result)))
           | Recv_Interrupted \<Rightarrow> readPostCommit r d c final turns (Suc n) incoming
           | Recv_Failed t \<Rightarrow> ([], incoming, Some (Post_Transport t))
           | Recv_Again (Poll_Failed t) \<Rightarrow> ([], incoming, Some (Post_Transport t))
           | Recv_Again (Poll_Events hit broken) \<Rightarrow>
               if \<not> hit \<and> broken then ([], incoming, Some (Post_Transport ''service helper disconnected''))
               else readPostCommit r d c final turns (Suc n) incoming
           | Recv_Again _ \<Rightarrow> readPostCommit r d c final turns (Suc n) incoming))"

definition failPostCommit :: "post_commit \<Rightarrow> string \<Rightarrow> tools_error" where
  "failPostCommit result s =
     (case result of
        Post_Cancelled \<Rightarrow> uncertainError ''service_call_cancelled''
          (''ROS1 service call to '' @ quoted_name s @ '' was cancelled after commit; the server may have executed the request'')
      | Post_Runtime_Deadline \<Rightarrow> uncertainError ''service_deadline_elapsed''
          (''ROS1 service call to '' @ quoted_name s @ '' crossed its Runtime deadline after commit; the server may have executed the request'')
      | Post_Call_Timeout \<Rightarrow> uncertainError ''service_call_timeout''
          (''ROS1 service call to '' @ quoted_name s @ '' exceeded callTimeoutMs after commit; the server may have executed the request'')
      | Post_Transport t \<Rightarrow> uncertainError ''service_call_failed''
          (''ROS1 service helper failed after commit for '' @ quoted_name s @ '': '' @ t)
      | Post_Complete \<Rightarrow> uncertainError ''service_call_failed'' (''ROS1 service helper failed after commit for '' @ quoted_name s))"

subsection \<open>The call\<close>

text \<open>The type registry and the codec. \<open>describe\<close> resolves a service type: its MD5 text and whether a response could be made;
  \<open>decode\<close> gives the serialized size of the request and the bytes that were written; \<open>read_response\<close> reads a message from bytes and says how many it
  used, none when it fails.\<close>

record ('j, 'm) service_types =
  describe :: "string \<Rightarrow> (string \<times> bool) caught"
  decode :: "string \<Rightarrow> 'j \<Rightarrow> (nat \<times> byte list) caught"
  read_response :: "string \<Rightarrow> byte list \<Rightarrow> ('m option \<times> nat) caught"
  encode :: "'m \<Rightarrow> 'j caught"

definition serializeServiceRequest :: "nat \<Rightarrow> byte list \<Rightarrow> byte list caught" where
  "serializeServiceRequest size_in_bytes written =
     (if kMaximumServicePayloadBytes < size_in_bytes \<or> 2 ^ 32 - 1 < size_in_bytes
      then Threw_Tools (permanentError ''service_request_too_large'' ''serialized ROS1 service request exceeds the helper limit'')
      else if size_in_bytes \<noteq> 0 \<and> length written \<noteq> size_in_bytes
      then Threw_Tools (permanentError ''service_request_serialization_failed'' ''serialized ROS1 service request length changed'')
      else Fine (if size_in_bytes = 0 then [] else written))"

text \<open>\<^verbatim>\<open>fetch_add\<close> until the number is not zero; the counter wraps.\<close>

definition nextRequestId :: "64 word \<Rightarrow> 64 word \<times> 64 word" where
  "nextRequestId following = (if following \<noteq> 0 then (following, following + 1) else (following + 1, following + 2))"

text \<open>\<^verbatim>\<open>acquireInFlight\<close> and the permit's destructor: what the successful exchange and the subtraction do to the counter.\<close>

definition acquireInFlight :: "32 word \<Rightarrow> 32 word \<Rightarrow> 32 word option" where
  "acquireInFlight maximum current = (if maximum \<le> current then None else Some (current + 1))"

definition releaseInFlight :: "32 word \<Rightarrow> 32 word" where
  "releaseInFlight current = current - 1"

text \<open>What the call meets, in order.\<close>

record call_env =
  at_entry :: moment
  at_payload :: moment
  permitted :: bool
  start_failure :: "string option"
  at_start_failure :: moment
  at_deadline :: moment
  sends_frame :: "(moment \<times> send_event) list"
  sends_name :: "(moment \<times> send_event) list"
  sends_md5 :: "(moment \<times> send_event) list"
  sends_payload :: "(moment \<times> send_event) list"
  reads_ready :: "(moment \<times> (moment \<times> poll_event) list recv_event) list"
  at_commit :: moment
  sends_commit :: "(moment \<times> send_event) list"
  committed_at :: int
  reads_response :: "(moment \<times> poll_event recv_event) list"
  after_response :: moment
  reads_payload :: "(moment \<times> poll_event recv_event) list"
  after_payload :: moment

text \<open>What the call wrote to the socket, and its result; none while it has not returned.\<close>

type_synonym 'j invoked = "byte list \<times> 'j caught option"

definition text_bytes :: "string \<Rightarrow> byte list" where
  "text_bytes s = map of_char s"

definition raised :: "tools_error \<Rightarrow> 'j invoked" where
  "raised e = ([], Some (Threw_Tools e))"

definition send_precommit :: "byte list \<times> pre_commit option \<Rightarrow> 'j invoked \<Rightarrow> 'j invoked" where
  "send_precommit io rest =
     (case snd io of
        None \<Rightarrow> (fst io, None)
      | Some Pre_Complete \<Rightarrow> (fst io @ fst rest, snd rest)
      | Some failed \<Rightarrow> (fst io, Some (Threw_Tools (failPreCommit failed))))"

text \<open>After the commit: the response is read and decoded (lines 700 to 769), and every failure becomes uncertain (lines 770 to 784).\<close>

definition decode_response :: "('j, 'm) service_types \<Rightarrow> 'j service_request \<Rightarrow> byte list \<Rightarrow> 'j caught" where
  "decode_response types r payload =
     and_catch (read_response types (service_type r) payload) (\<lambda>(made, bytes_read).
       case made of
         None \<Rightarrow> Threw_Tools (uncertainError ''invalid_service_response'' ''ROS1 service response length did not match its type'')
       | Some answer \<Rightarrow>
           if bytes_read \<noteq> length payload
           then Threw_Tools (uncertainError ''invalid_service_response'' ''ROS1 service response length did not match its type'')
           else encode types answer)"

definition conclude :: "('j, 'm) service_types \<Rightarrow> 'j service_request \<Rightarrow> service_frame \<Rightarrow> byte list \<Rightarrow> 'j caught" where
  "conclude types r response payload =
     (if status response = response_code Call_Failed
      then Threw_Tools (uncertainError ''service_call_failed'' (''ROS1 service call to '' @ quoted_name (service r) @ '' failed after commit''))
      else if status response = response_code Response_Too_Large
      then Threw_Tools (uncertainError ''service_response_too_large'' ''ROS1 service response exceeded the helper limit after commit'')
      else if status response \<noteq> response_code Completed
      then Threw_Tools (uncertainError ''invalid_service_response'' ''ROS1 service helper failed after commit'')
      else decode_response types r payload)"

definition read_result ::
  "('j, 'm) service_types \<Rightarrow> 'j service_request \<Rightarrow> 64 word \<Rightarrow> int \<Rightarrow> call_env \<Rightarrow> byte list \<Rightarrow> 'j caught option" where
  "read_result types r i d env incoming =
     (let c = committed_at env + 1000000 * int (unat (call_timeout_ms r));
          (bs, rest, result) = readPostCommit r d c (after_response env) (reads_response env) 64 incoming
      in case result of
           None \<Rightarrow> None
         | Some Post_Complete \<Rightarrow>
             (let response = read_frame bs in
              if \<not> validateServiceHelperResponse response i
              then Some (Threw_Tools (uncertainError ''invalid_service_response'' ''ROS1 service helper returned an invalid post-commit frame''))
              else
                (let n = unat (payload_bytes response);
                     (payload, result2) =
                       (if n = 0 then ([], Some Post_Complete)
                        else (let (p, _, q) = readPostCommit r d c (after_payload env) (reads_payload env) n rest in (p, q)))
                 in case result2 of
                      None \<Rightarrow> None
                    | Some Post_Complete \<Rightarrow> Some (conclude types r response payload)
                    | Some failed \<Rightarrow> Some (Threw_Tools (failPostCommit failed (service r)))))
         | Some failed \<Rightarrow> Some (Threw_Tools (failPostCommit failed (service r))))"

fun after_commit :: "'j caught \<Rightarrow> 'j caught" where
  "after_commit (Fine v) = Fine v"
| "after_commit (Threw_Tools e) =
     Threw_Tools (if errorClass e = ''uncertain'' then e
                  else uncertainError ''service_result_failed'' (''ROS1 service processing failed after commit: '' @ message e))"
| "after_commit (Threw_Exception m) =
     Threw_Tools (uncertainError ''service_result_failed'' (''ROS1 service processing failed after commit: '' @ m))"
| "after_commit Threw_Other = Threw_Tools (uncertainError ''service_result_failed'' ''ROS1 service processing failed after commit'')"

text \<open>From the answer of the helper to the commit (lines 660 to 694).\<close>

definition await_ready ::
  "('j, 'm) service_types \<Rightarrow> 'j service_request \<Rightarrow> 64 word \<Rightarrow> int \<Rightarrow> call_env \<Rightarrow> byte list \<Rightarrow> 'j invoked" where
  "await_ready types r i d env incoming =
     (let (bs, rest, result) = readPreCommit r d (reads_ready env) 64 incoming in
      case result of
        None \<Rightarrow> ([], None)
      | Some Pre_Complete \<Rightarrow>
          (let ready = read_frame bs in
           if \<not> validateServiceHelperReady ready i
           then raised (transientError ''service_helper_protocol_error'' ''ROS1 service helper returned an invalid pre-commit frame'')
           else if status ready = ready_code Service_Unavailable
           then raised (transientError ''service_unavailable''
                  (''ROS1 service '' @ quoted_name (service r) @ '' was not available before waitForServiceMs elapsed''))
           else if status ready \<noteq> ready_code Ready
           then raised (transientError ''service_helper_protocol_error'' ''ROS1 service helper rejected the pre-commit request'')
           else
             (case requirePreDispatchAllowed r (at_commit env) of
                Fine _ \<Rightarrow>
                  send_precommit (writePreCommit r d (sends_commit env) (frame_bytes (makeServiceHelperCommit i)))
                    ([], map_option after_commit (read_result types r i d env rest))
              | Threw_Tools e \<Rightarrow> raised e
              | Threw_Exception m \<Rightarrow> ([], Some (Threw_Exception m))
              | Threw_Other \<Rightarrow> ([], Some Threw_Other)))
      | Some failed \<Rightarrow> raised (failPreCommit failed))"

text \<open>The request: frame, name, digest and payload (lines 640 to 658).\<close>

definition send_request ::
  "('j, 'm) service_types \<Rightarrow> 'j service_request \<Rightarrow> 64 word \<Rightarrow> call_env \<Rightarrow> byte list \<Rightarrow> string \<Rightarrow> byte list \<Rightarrow> 'j invoked" where
  "send_request types r i env incoming md5 payload =
     (let d = runtimeDeadline (deadline_unix_nanos r) (at_deadline env);
          frame = makeServiceHelperRequest i (length (service r)) (length md5) (length payload) (wait_ms r)
      in send_precommit (writePreCommit r d (sends_frame env) (frame_bytes frame))
        (send_precommit (writePreCommit r d (sends_name env) (text_bytes (service r)))
          (send_precommit (writePreCommit r d (sends_md5 env) (text_bytes md5))
            (if payload \<noteq> [] then send_precommit (writePreCommit r d (sends_payload env) payload) (await_ready types r i d env incoming)
             else await_ready types r i d env incoming))))"

text \<open>Before the helper: lines 600 to 622 give the MD5 text and the payload.\<close>

definition prepare_call :: "('j, 'm) service_types \<Rightarrow> 'j service_request \<Rightarrow> call_env \<Rightarrow> (string \<times> byte list) caught" where
  "prepare_call types r env =
     and_catch (requirePreDispatchAllowed r (at_entry env)) (\<lambda>_.
     and_catch (describe types (service_type r)) (\<lambda>(md5, has_response).
       if \<not> has_response
       then Threw_Tools (permanentError ''invalid_service_description'' ''ROS1 service response description is incomplete'')
       else
         and_catch (decode types (service_type r) (request_value r)) (\<lambda>(size_in_bytes, written).
         and_catch (serializeServiceRequest size_in_bytes written) (\<lambda>payload.
         and_catch (requirePreDispatchAllowed r (at_payload env)) (\<lambda>_.
           if \<not> validServiceMd5 md5
           then Threw_Tools (permanentError ''invalid_service_description'' ''ROS1 service description has an invalid MD5 digest'')
           else if service r = [] \<or> kMaximumServiceNameBytes < length (service r)
           then Threw_Tools (permanentError ''invalid_service_name'' ''ROS1 service name exceeds the helper protocol limit'')
           else Fine (md5, payload))))))"

text \<open>\<^verbatim>\<open>ServiceInvoker::call\<close>; \<open>i\<close> is the number of the request.\<close>

definition call :: "('j, 'm) service_types \<Rightarrow> 'j service_request \<Rightarrow> 64 word \<Rightarrow> call_env \<Rightarrow> byte list \<Rightarrow> 'j invoked" where
  "call types r i env incoming =
     (case prepare_call types r env of
        Threw_Tools e \<Rightarrow> raised e
      | Threw_Exception m \<Rightarrow> ([], Some (Threw_Exception m))
      | Threw_Other \<Rightarrow> ([], Some Threw_Other)
      | Fine (md5, payload) \<Rightarrow>
          if \<not> permitted env then raised (resourceExhaustedError ''service_call_busy'' ''maximum concurrent ROS1 service calls reached'')
          else
            (case start_failure env of
               Some t \<Rightarrow>
                 (case requirePreDispatchAllowed r (at_start_failure env) of
                    Threw_Tools e \<Rightarrow> raised e
                  | _ \<Rightarrow> raised (transientError ''service_helper_unavailable'' (''unable to start ROS1 service helper: '' @ t)))
             | None \<Rightarrow> send_request types r i env incoming md5 payload))"


subsection \<open>Numbers, permits and waits\<close>

lemma nextRequestId_not_zero: "fst (nextRequestId following) \<noteq> 0"
  by (auto simp: nextRequestId_def)

text \<open>Callers that take and return permits: the counter is their number and stays within the maximum, without wrap-around.\<close>

inductive permit_step :: "32 word \<Rightarrow> 32 word \<times> nat \<Rightarrow> 32 word \<times> nat \<Rightarrow> bool" for maximum :: "32 word" where
  taken: "acquireInFlight maximum current = Some current' \<Longrightarrow> permit_step maximum (current, held) (current', Suc held)"
| given: "permit_step maximum (current, Suc held) (releaseInFlight current, held)"

lemma permits_exact: "(permit_step maximum)\<^sup>*\<^sup>* (0, 0) s \<Longrightarrow> unat (fst s) = snd s \<and> snd s \<le> unat maximum"
proof (induction rule: rtranclp_induct)
  case (step s s')
  from step(2) show ?case
  proof cases
    case (taken current current' held)
    then have less: "unat current < unat maximum"
      by (auto simp: acquireInFlight_def word_le_nat_alt split: if_splits)
    moreover have "unat (current + 1) = Suc (unat current)"
      using less unsigned_less [of maximum, where 'a = nat] by (simp add: unat_word_ariths)
    ultimately show ?thesis using taken step(3) by (auto simp: acquireInFlight_def split: if_splits)
  next
    case (given current held)
    then have "current \<noteq> 0" using step(3) by auto
    then show ?thesis using given step(3) by (simp add: releaseInFlight_def unat_minus_one)
  qed
qed simp

lemma runtimeDeadline_range:
  assumes "steady_now m \<le> steady_max"
  shows "steady_now m \<le> runtimeDeadline d m \<and> runtimeDeadline d m \<le> steady_max"
  using assms by (auto simp: runtimeDeadline_def Let_def)

text \<open>A wait is at most five milliseconds, and none only when the deadline has passed.\<close>

lemma pollTimeout_range: "0 \<le> pollTimeout d now \<and> pollTimeout d now \<le> 5 \<and> (pollTimeout d now = 0 \<longleftrightarrow> d \<noteq> steady_max \<and> d \<le> now)"
  by (auto simp: pollTimeout_def)

text \<open>A loop that has not returned met no turn at which the request was cancelled or late.\<close>

lemma wait_running: "waitPreCommitEvent r d turns = None \<Longrightarrow> list_all (\<lambda>(m, e). stops r d m = None) turns"
  by (induction r d turns rule: waitPreCommitEvent.induct) (auto split: option.splits poll_event.splits if_splits)


end
