(* ===== verification/Service_Helper.thy ===== *)
theory Service_Helper
  imports Service_Call "HOL-Library.Sublist"
begin

section \<open>The service helper and the dispatch fence\<close>

text \<open>
  \<^verbatim>\<open>service_helper_main.cpp\<close>: \<^verbatim>\<open>runHelper\<close> over the bytes that reach its socket, and what the caller of \<open>Service_Call\<close> and the helper
  guarantee together. The helper's effects are listed in their order: the bytes it wrote and the call of the service. roscpp (name rules, lookup,
  client, call) is an argument; a helper that is killed, or whose loops have not returned, has done a part of them.
\<close>

subsection \<open>The helper's loops\<close>

text \<open>\<^verbatim>\<open>waitForSocket\<close>: polls that were interrupted are repeated; the others end it.\<close>

fun waitForSocket :: "poll_event list \<Rightarrow> bool option" where
  "waitForSocket [] = None"
| "waitForSocket (e # events) =
     (case e of
        Poll_Interrupted \<Rightarrow> waitForSocket events
      | Poll_Failed t \<Rightarrow> Some False
      | Poll_Timeout \<Rightarrow> Some False
      | Poll_Events hit broken \<Rightarrow> Some (\<not> broken \<and> hit))"

fun readExact :: "poll_event list recv_event list \<Rightarrow> nat \<Rightarrow> byte list \<Rightarrow> byte list \<times> byte list \<times> bool option" where
  "readExact turns 0 incoming = ([], incoming, Some True)"
| "readExact [] (Suc n) incoming = ([], incoming, None)"
| "readExact (e # turns) (Suc n) incoming =
     (case e of
        Received k \<Rightarrow>
          (let chunk = recv k (Suc n) incoming in
           if chunk = [] then ([], incoming, Some False)
           else (let (more, rest, result) = readExact turns (Suc n - length chunk) (drop (length chunk) incoming)
                 in (chunk @ more, rest, result)))
      | Recv_Interrupted \<Rightarrow> readExact turns (Suc n) incoming
      | Recv_Failed t \<Rightarrow> ([], incoming, Some False)
      | Recv_Again waits \<Rightarrow>
          (case waitForSocket waits of
             Some True \<Rightarrow> readExact turns (Suc n) incoming
           | result \<Rightarrow> ([], incoming, result)))"

datatype exact_send = Put nat | Put_Interrupted | Put_Zero | Put_Failed | Put_Again "poll_event list"

fun writeExact :: "exact_send list \<Rightarrow> byte list \<Rightarrow> byte list \<times> bool option" where
  "writeExact turns [] = ([], Some True)"
| "writeExact [] (b # bs) = ([], None)"
| "writeExact (e # turns) (b # bs) =
     (case e of
        Put k \<Rightarrow> (let (more, result) = writeExact turns (drop k bs) in (b # take k bs @ more, result))
      | Put_Interrupted \<Rightarrow> writeExact turns (b # bs)
      | Put_Zero \<Rightarrow> ([], Some False)
      | Put_Failed \<Rightarrow> ([], Some False)
      | Put_Again waits \<Rightarrow>
          (case waitForSocket waits of
             Some True \<Rightarrow> writeExact turns (b # bs)
           | result \<Rightarrow> ([], result)))"

text \<open>\<^verbatim>\<open>serviceAvailable\<close>: each turn asks the master, \<^verbatim>\<open>ros::ok\<close> and the clock.\<close>

fun serviceAvailable :: "(bool \<times> bool \<times> int) list \<Rightarrow> 32 word \<Rightarrow> int \<Rightarrow> bool option" where
  "serviceAvailable [] wait d = None"
| "serviceAvailable ((found, ok, now) # turns) wait d =
     (if found then Some True
      else if \<not> ok \<or> wait = 0 \<or> d \<le> now then Some False
      else serviceAvailable turns wait d)"

text \<open>A serialized response of roscpp: its size, its buffer, and where in the buffer the message starts.\<close>

record serialized_response =
  num_bytes :: nat
  buf :: "byte list option"
  message_start :: "int option"

definition responsePayload :: "serialized_response \<Rightarrow> byte list option" where
  "responsePayload s =
     (if num_bytes s = 0 then Some []
      else
        (case (buf s, message_start s) of
           (Some b, Some offset) \<Rightarrow>
             if offset < 0 \<or> int (num_bytes s) < offset then None
             else Some (take (num_bytes s - nat offset) (drop (nat offset) b))
         | _ \<Rightarrow> None))"

text \<open>The request that goes to roscpp: the length before the payload.\<close>

definition serviceRequest :: "byte list \<Rightarrow> byte list" where
  "serviceRequest payload = word_bytes 4 (word_of_nat (length payload) :: 32 word) @ payload"

subsection \<open>runHelper\<close>

datatype helper_effect = Wrote "byte list" | Called string string "byte list"

record helper_env =
  gets_frame :: "poll_event list recv_event list"
  gets_name :: "poll_event list recv_event list"
  gets_md5 :: "poll_event list recv_event list"
  gets_payload :: "poll_event list recv_event list"
  valid_name :: "string \<Rightarrow> bool"
  lookups :: "(bool \<times> bool \<times> int) list"
  looked_at :: int
  client_made :: bool
  puts_ready :: "exact_send list"
  gets_commit :: "poll_event list recv_event list"
  service_result :: "string \<Rightarrow> string \<Rightarrow> byte list \<Rightarrow> serialized_response option"
  puts_response :: "exact_send list"
  puts_payload :: "exact_send list"

definition validAbsoluteServiceName :: "helper_env \<Rightarrow> string \<Rightarrow> bool" where
  "validAbsoluteServiceName h s \<longleftrightarrow> s \<noteq> [] \<and> hd s = CHR ''/'' \<and> s \<noteq> ''/'' \<and> valid_name h s"

definition bytes_text :: "byte list \<Rightarrow> string" where
  "bytes_text bs = map (\<lambda>b. char_of (unat b)) bs"

definition wrote :: "exact_send list \<Rightarrow> byte list \<Rightarrow> helper_effect list" where
  "wrote turns bs = [Wrote (fst (writeExact turns bs))]"

text \<open>After the fence (lines 300 to 338). \<open>service_result\<close> gives none when the call returns false or throws.\<close>

definition helper_respond :: "helper_env \<Rightarrow> 64 word \<Rightarrow> string \<Rightarrow> string \<Rightarrow> byte list \<Rightarrow> helper_effect list" where
  "helper_respond h i s md5 payload =
     Called s md5 payload #
     (case service_result h s md5 (serviceRequest payload) of
        None \<Rightarrow> wrote (puts_response h) (frame_bytes (makeServiceHelperResponse i Call_Failed 0))
      | Some response \<Rightarrow>
          (case responsePayload response of
             None \<Rightarrow> wrote (puts_response h) (frame_bytes (makeServiceHelperResponse i Response_Protocol_Error 0))
           | Some answer \<Rightarrow>
               if kMaximumServicePayloadBytes < length answer
               then wrote (puts_response h) (frame_bytes (makeServiceHelperResponse i Response_Too_Large 0))
               else
                 (let bs = frame_bytes (makeServiceHelperResponse i Completed (length answer)) in
                  wrote (puts_response h) bs
                  @ (if snd (writeExact (puts_response h) bs) = Some True \<and> answer \<noteq> [] then wrote (puts_payload h) answer else []))))"

text \<open>The fence (lines 286 to 298).\<close>

definition helper_fence :: "helper_env \<Rightarrow> 64 word \<Rightarrow> string \<Rightarrow> string \<Rightarrow> byte list \<Rightarrow> byte list \<Rightarrow> helper_effect list" where
  "helper_fence h i s md5 payload incoming =
     (let bs = frame_bytes (makeServiceHelperReady i Ready); (commit, rest, result) = readExact (gets_commit h) 64 incoming in
      wrote (puts_ready h) bs
      @ (if snd (writeExact (puts_ready h) bs) = Some True \<and> result = Some True \<and> validateServiceHelperCommit (read_frame commit) i
         then helper_respond h i s md5 payload else []))"

definition helper_prepare :: "helper_env \<Rightarrow> service_frame \<Rightarrow> string \<Rightarrow> string \<Rightarrow> byte list \<Rightarrow> byte list \<Rightarrow> helper_effect list" where
  "helper_prepare h frame s md5 payload incoming =
     (let i = request_id frame; wait = wait_for_service_ms frame in
      if \<not> validAbsoluteServiceName h s \<or> \<not> validServiceMd5 md5
      then wrote (puts_ready h) (frame_bytes (makeServiceHelperReady i Ready_Protocol_Error))
      else
        (case serviceAvailable (lookups h) wait (looked_at h + 1000000 * int (unat wait)) of
           None \<Rightarrow> []
         | Some False \<Rightarrow> wrote (puts_ready h) (frame_bytes (makeServiceHelperReady i Service_Unavailable))
         | Some True \<Rightarrow>
             if \<not> client_made h then wrote (puts_ready h) (frame_bytes (makeServiceHelperReady i Ready_Protocol_Error))
             else helper_fence h i s md5 payload incoming))"

text \<open>A read that does not complete ends the helper.\<close>

definition reading :: "poll_event list recv_event list \<Rightarrow> nat \<Rightarrow> byte list \<Rightarrow> (byte list \<Rightarrow> byte list \<Rightarrow> helper_effect list) \<Rightarrow> helper_effect list" where
  "reading turns n incoming rest =
     (let (bs, left, result) = readExact turns n incoming in if result = Some True then rest bs left else [])"

definition runHelper :: "helper_env \<Rightarrow> byte list \<Rightarrow> helper_effect list" where
  "runHelper h incoming =
     reading (gets_frame h) 64 incoming (\<lambda>bs left.
       let frame = read_frame bs in
       if \<not> validateServiceHelperRequest frame then []
       else
         reading (gets_name h) (unat (service_name_bytes frame)) left (\<lambda>name left.
         reading (gets_md5 h) (unat (service_md5_bytes frame)) left (\<lambda>md5 left.
         reading (gets_payload h) (unat (payload_bytes frame)) left (\<lambda>payload left.
           helper_prepare h frame (bytes_text name) (bytes_text md5) payload left))))"

subsection \<open>Exact transfers\<close>

text \<open>What the four loops promise: a writer moves a prefix of its text and the whole text exactly when it completes; a reader splits the
  stream, and holds what it was asked for when it completes.\<close>

locale exact_writer =
  fixes run :: "'e list \<Rightarrow> byte list \<Rightarrow> byte list \<times> 'r option" and complete :: 'r
  assumes moves_prefix: "prefix (fst (run turns bs)) bs"
    and moves_all: "snd (run turns bs) = Some complete \<longleftrightarrow> fst (run turns bs) = bs"
begin

lemma incomplete_is_shorter: "snd (run turns bs) \<noteq> Some complete \<Longrightarrow> \<not> prefix bs (fst (run turns bs))"
  using moves_prefix [of turns bs] moves_all [of turns bs] by (meson prefix_order.antisym)

end

locale exact_reader =
  fixes run :: "'e list \<Rightarrow> nat \<Rightarrow> byte list \<Rightarrow> byte list \<times> byte list \<times> 'r option" and complete :: 'r
  assumes splits: "run turns n incoming = (bs, rest, result) \<Longrightarrow> bs @ rest = incoming"
    and fills: "run turns n incoming = (bs, rest, Some complete) \<Longrightarrow> length bs = n"
begin

lemma complete_takes:
  assumes "run turns n incoming = (bs, rest, Some complete)"
  shows "n \<le> length incoming \<and> bs = take n incoming \<and> rest = drop n incoming"
  using splits [OF assms] fills [OF assms] by auto

end

lemma write_pre_moves:
  "prefix (fst (writePreCommit r d turns bs)) bs
   \<and> (snd (writePreCommit r d turns bs) = Some Pre_Complete \<longleftrightarrow> fst (writePreCommit r d turns bs) = bs)"
proof (induction r d turns bs rule: writePreCommit.induct)
  case (3 r d m e turns b bs)
  show ?case
  proof (cases "stops r d m")
    case None
    show ?thesis
    proof (cases e)
      case (Sent k)
      have IH: "prefix (fst (writePreCommit r d turns (drop k bs))) (drop k bs)
          \<and> (snd (writePreCommit r d turns (drop k bs)) = Some Pre_Complete \<longleftrightarrow> fst (writePreCommit r d turns (drop k bs)) = drop k bs)"
        using 3(1) [OF None Sent] .
      obtain more result where run: "writePreCommit r d turns (drop k bs) = (more, result)" by fastforce
      have "prefix (take k bs @ more) (take k bs @ drop k bs) \<and> (result = Some Pre_Complete \<longleftrightarrow> take k bs @ more = take k bs @ drop k bs)"
        using IH run by (simp only: fst_conv snd_conv same_prefix_prefix append_same_eq same_append_eq)
      then show ?thesis
        using None Sent run by (simp del: same_append_eq same_prefix_prefix)
    next
      case Send_Interrupted
      then show ?thesis using None 3(2) by simp
    next
      case (Send_Again waits)
      then show ?thesis
        using None 3(3) by (cases "waitPreCommitEvent r d waits") (auto split: pre_commit.splits)
    qed (use None in simp_all)
  next
    case (Some s)
    then have "s \<noteq> Pre_Complete" by (auto simp: stops_def split: if_splits)
    then show ?thesis using Some by simp
  qed
qed simp_all

lemma write_exact_moves:
  "prefix (fst (writeExact turns bs)) bs \<and> (snd (writeExact turns bs) = Some True \<longleftrightarrow> fst (writeExact turns bs) = bs)"
proof (induction turns bs rule: writeExact.induct)
  case (3 e turns b bs)
  show ?case
  proof (cases e)
    case (Put k)
    obtain more result where run: "writeExact turns (drop k bs) = (more, result)" by fastforce
    have "prefix (take k bs @ more) (take k bs @ drop k bs) \<and> (result = Some True \<longleftrightarrow> take k bs @ more = take k bs @ drop k bs)"
      using 3(1) [OF Put] run by (simp only: fst_conv snd_conv same_prefix_prefix append_same_eq same_append_eq)
    then show ?thesis using Put run by (simp del: same_append_eq same_prefix_prefix)
  next
    case (Put_Again waits)
    then show ?thesis using 3(3) by (cases "waitForSocket waits") (auto split: bool.splits)
  qed (use 3(2) in simp_all)
qed simp_all

lemma recv_length: "recv k (Suc n) incoming \<noteq> [] \<Longrightarrow> 0 < length (recv k (Suc n) incoming) \<and> length (recv k (Suc n) incoming) \<le> Suc n"
  by (simp add: recv_def)

lemma recv_rest: "recv k n incoming @ drop (length (recv k n incoming)) incoming = incoming"
  by (metis append_take_drop_id length_take min_def recv_def take_all_iff drop_all nle_le append_Nil2)

text \<open>The step all three readers share: a chunk, then the rest.\<close>

lemma chunk_step:
  assumes "later @ rest = drop (length chunk) incoming" "chunk @ drop (length chunk) incoming = incoming" "length chunk \<le> Suc n"
    and "result = Some complete \<longrightarrow> length later = Suc n - length chunk"
  shows "(chunk @ later) @ rest = incoming \<and> (result = Some complete \<longrightarrow> length (chunk @ later) = Suc n)"
  using assms by simp

lemma read_pre_splits:
  "readPreCommit r d turns n incoming = (bs, rest, result)
   \<Longrightarrow> bs @ rest = incoming \<and> (result = Some Pre_Complete \<longrightarrow> length bs = n)"
proof (induction r d turns n incoming arbitrary: bs rest result rule: readPreCommit.induct)
  case (3 r d m e turns n incoming)
  show ?case
  proof (cases "stops r d m")
    case None
    show ?thesis
    proof (cases e)
      case (Received k)
      let ?chunk = "recv k (Suc n) incoming"
      obtain later rest' result' where run: "readPreCommit r d turns (Suc n - length ?chunk) (drop (length ?chunk) incoming) = (later, rest', result')"
        using prod_cases3 by blast
      show ?thesis
      proof (cases "?chunk = []")
        case True
        then show ?thesis using 3(4) None Received by (auto simp: Let_def)
      next
        case False
        then show ?thesis
          using 3(1) [OF None Received refl False run] 3(4) None Received run recv_length [OF False] recv_rest [of k "Suc n" incoming]
            chunk_step [of later rest' ?chunk incoming n result' Pre_Complete]
          by (simp add: Let_def)
      qed
    next
      case Recv_Interrupted
      then show ?thesis using None 3(2) [OF None Recv_Interrupted] 3(4) by simp
    next
      case (Recv_Again waits)
      then show ?thesis
        using None 3(3) [OF None Recv_Again] 3(4) by (auto split: option.splits pre_commit.splits)
    qed (use None 3(4) in auto)
  next
    case (Some s)
    then have "s \<noteq> Pre_Complete" by (auto simp: stops_def split: if_splits)
    then show ?thesis using Some 3(4) by auto
  qed
qed auto

lemma read_exact_splits:
  "readExact turns n incoming = (bs, rest, result) \<Longrightarrow> bs @ rest = incoming \<and> (result = Some True \<longrightarrow> length bs = n)"
proof (induction turns n incoming arbitrary: bs rest result rule: readExact.induct)
  case (3 e turns n incoming)
  show ?case
  proof (cases e)
    case (Received k)
    let ?chunk = "recv k (Suc n) incoming"
    obtain later rest' result' where run: "readExact turns (Suc n - length ?chunk) (drop (length ?chunk) incoming) = (later, rest', result')"
      using prod_cases3 by blast
    show ?thesis
    proof (cases "?chunk = []")
      case True
      then show ?thesis using 3(4) Received by (auto simp: Let_def)
    next
      case False
      then show ?thesis
        using 3(1) [OF Received refl False run] 3(4) Received run recv_length [OF False] recv_rest [of k "Suc n" incoming]
          chunk_step [of later rest' ?chunk incoming n result' True]
        by (simp add: Let_def)
    qed
  next
    case Recv_Interrupted
    then show ?thesis using 3(2) [OF Recv_Interrupted] 3(4) by simp
  next
    case (Recv_Again waits)
    then show ?thesis using 3(3) [OF Recv_Again] 3(4) by (auto split: option.splits bool.splits)
  qed (use 3(4) in auto)
qed auto

lemma read_post_splits:
  "readPostCommit r d c final turns n incoming = (bs, rest, result)
   \<Longrightarrow> bs @ rest = incoming \<and> (result = Some Post_Complete \<longrightarrow> length bs = n)"
proof (induction r d c final turns n incoming arbitrary: bs rest result rule: readPostCommit.induct)
  case (3 r d c final m e turns n incoming)
  show ?case
  proof (cases "post_stops r d c m")
    case None
    show ?thesis
    proof (cases e)
      case (Received k)
      let ?chunk = "recv k (Suc n) incoming"
      obtain later rest' result'
        where run: "readPostCommit r d c final turns (Suc n - length ?chunk) (drop (length ?chunk) incoming) = (later, rest', result')"
        using prod_cases3 by blast
      have IH: "later @ rest' = drop (length ?chunk) incoming \<and> (result' = Some Post_Complete \<longrightarrow> length later = Suc n - length ?chunk)"
        if "?chunk \<noteq> []" using 3(1) [OF None Received refl that run] .
      show ?thesis
        using 3(6) None Received run IH recv_length [of k n incoming] recv_rest [of k "Suc n" incoming]
          chunk_step [of later rest' ?chunk incoming n result' Post_Complete]
        by (cases "?chunk = []") (auto simp: Let_def)
    next
      case Recv_Interrupted
      show ?thesis using None 3(2) [OF None Recv_Interrupted] Recv_Interrupted 3(6) by simp
    next
      case (Recv_Again p)
      show ?thesis
        using None 3(3) [OF None Recv_Again] 3(4) [OF None Recv_Again] 3(5) [OF None Recv_Again] Recv_Again 3(6)
        by (cases p) (auto split: if_splits)
    qed (use None 3(6) in auto)
  next
    case (Some s)
    then have "s \<noteq> Post_Complete" by (auto simp: post_stops_def split: if_splits)
    then show ?thesis using Some 3(6) by auto
  qed
qed auto

interpretation pre_writer: exact_writer "writePreCommit r d" Pre_Complete
  using write_pre_moves by unfold_locales blast+

interpretation helper_writer: exact_writer writeExact True
  using write_exact_moves by unfold_locales blast+

interpretation pre_reader: exact_reader "readPreCommit r d" Pre_Complete
  using read_pre_splits by unfold_locales blast+

interpretation post_reader: exact_reader "readPostCommit r d c final" Post_Complete
  using read_post_splits by unfold_locales blast+

interpretation helper_reader: exact_reader readExact True
  using read_exact_splits by unfold_locales blast+

subsection \<open>What the caller wrote\<close>

text \<open>A result after which the service may have run: a value, or an uncertain error.\<close>

fun may_have_run :: "'j caught \<Rightarrow> bool" where
  "may_have_run (Fine v) = True"
| "may_have_run (Threw_Tools e) = (errorClass e = ''uncertain'')"
| "may_have_run (Threw_Exception m) = False"
| "may_have_run Threw_Other = False"

text \<open>The caller wrote a prefix of the text, and not all of it when its result rules a run out.\<close>

definition fenced :: "byte list \<Rightarrow> 'j invoked \<Rightarrow> bool" where
  "fenced whole result \<longleftrightarrow>
     prefix (fst result) whole \<and> (\<forall>v. snd result = Some v \<longrightarrow> \<not> may_have_run v \<longrightarrow> fst result \<noteq> whole)"

lemma fenced_send:
  assumes "fenced whole rest"
  shows "fenced (bs @ whole) (send_precommit (writePreCommit r d turns bs) rest)"
proof (cases "snd (writePreCommit r d turns bs) = Some Pre_Complete")
  case True
  moreover from this have "fst (writePreCommit r d turns bs) = bs" by (simp add: pre_writer.moves_all)
  ultimately show ?thesis using assms by (auto simp: send_precommit_def fenced_def)
next
  case False
  let ?sent = "fst (writePreCommit r d turns bs)"
  have "prefix ?sent bs" by (rule pre_writer.moves_prefix)
  moreover have "?sent \<noteq> bs @ whole"
    using pre_writer.incomplete_is_shorter [OF False] by auto
  moreover have "fst (send_precommit (writePreCommit r d turns bs) rest) = ?sent"
    using False by (auto simp: send_precommit_def split: option.splits pre_commit.splits)
  ultimately show ?thesis by (simp add: fenced_def)
qed

lemma fenced_before: "whole \<noteq> [] \<Longrightarrow> fenced whole ([], result)"
  by (simp add: fenced_def)

lemma fenced_raised: "whole \<noteq> [] \<Longrightarrow> fenced whole (raised e)"
  by (simp add: raised_def fenced_before)

lemma after_commit_uncertain: "may_have_run (after_commit v)"
  by (cases v) (auto simp: error_defs)

lemma commit_bytes_not_empty: "frame_bytes (makeServiceHelperCommit i) \<noteq> []"
  using length_frame_bytes [OF reserved_made(3), of i] by force

lemma fenced_await: "fenced (frame_bytes (makeServiceHelperCommit i)) (await_ready types r i d env incoming)"
proof -
  have last: "fenced [] ([], map_option after_commit (read_result types r i d env rest))" for rest
    by (auto simp: fenced_def after_commit_uncertain)
  show ?thesis
    using fenced_send [OF last, where bs = "frame_bytes (makeServiceHelperCommit i)"]
    by (auto simp: await_ready_def Let_def commit_bytes_not_empty fenced_before fenced_raised
        split: prod.splits option.splits pre_commit.splits caught.splits)
qed

definition request_text :: "'j service_request \<Rightarrow> 64 word \<Rightarrow> string \<Rightarrow> byte list \<Rightarrow> byte list" where
  "request_text r i md5 payload =
     frame_bytes (makeServiceHelperRequest i (length (service r)) (length md5) (length payload) (wait_ms r))
     @ text_bytes (service r) @ text_bytes md5 @ payload"

definition whole_text :: "'j service_request \<Rightarrow> 64 word \<Rightarrow> string \<Rightarrow> byte list \<Rightarrow> byte list" where
  "whole_text r i md5 payload = request_text r i md5 payload @ frame_bytes (makeServiceHelperCommit i)"

lemma fenced_request: "fenced (whole_text r i md5 payload) (send_request types r i env incoming md5 payload)"
proof -
  let ?d = "runtimeDeadline (deadline_unix_nanos r) (at_deadline env)"
  have "fenced (payload @ frame_bytes (makeServiceHelperCommit i))
      (if payload \<noteq> [] then send_precommit (writePreCommit r ?d (sends_payload env) payload) (await_ready types r i ?d env incoming)
       else await_ready types r i ?d env incoming)"
    using fenced_await fenced_send by (cases "payload = []") (auto simp: fenced_await intro!: fenced_send)
  then show ?thesis
    unfolding send_request_def Let_def whole_text_def request_text_def append_assoc by (intro fenced_send)
qed

lemma and_catch_Fine [simp]: "and_catch v f = Fine y \<longleftrightarrow> (\<exists>x. v = Fine x \<and> f x = Fine y)"
  by (cases v) auto

lemma call_prepared: "prepare_call types r env = Fine (md5, payload)
  \<Longrightarrow> validServiceMd5 md5 \<and> service r \<noteq> [] \<and> length (service r) \<le> kMaximumServiceNameBytes \<and> length payload \<le> kMaximumServicePayloadBytes"
  by (auto simp: prepare_call_def serializeServiceRequest_def split: if_splits prod.splits)

lemma call_fenced:
  assumes "call types r i env incoming = (sent, result)"
  shows "sent = [] \<or> (\<exists>md5 payload. prepare_call types r env = Fine (md5, payload) \<and> fenced (whole_text r i md5 payload) (sent, result))"
proof (cases "prepare_call types r env")
  case (Fine v)
  obtain md5 payload where v: "v = (md5, payload)" by fastforce
  have "sent = [] \<or> send_request types r i env incoming md5 payload = (sent, result)"
    using assms by (auto simp: call_def Fine v raised_def split: if_splits option.splits caught.splits)
  then show ?thesis
    using fenced_request [of r i md5 payload types env incoming] Fine v by auto
qed (use assms in \<open>auto simp: call_def raised_def\<close>)

subsection \<open>What the helper calls\<close>

lemma reading_effect:
  assumes "x \<in> set (reading turns n incoming k)"
  shows "n \<le> length incoming \<and> reading turns n incoming k = k (take n incoming) (drop n incoming)"
proof -
  obtain bs left result where run: "readExact turns n incoming = (bs, left, result)" using prod_cases3 by blast
  then have "result = Some True" using assms by (simp add: reading_def split: if_splits)
  then show ?thesis
    using run helper_reader.complete_takes [of turns n incoming bs left] by (simp add: reading_def)
qed

lemma prefix_section:
  assumes "prefix p (a @ rest)" "length a \<le> length p"
  shows "take (length a) p = a \<and> prefix (drop (length a) p) rest"
proof -
  obtain q where "p = a @ q" using assms by (metis append_eq_append_conv_if append_take_drop_id prefix_def)
  then show ?thesis using assms(1) by simp
qed

lemma wrote_not_called [simp]: "Called s m q \<notin> set (wrote turns bs)"
  by (simp add: wrote_def)

lemma helper_respond_called: "Called s' m q \<in> set (helper_respond h i s md5 payload) \<Longrightarrow> s' = s \<and> m = md5 \<and> q = payload"
  by (auto simp: helper_respond_def Let_def split: option.splits if_splits)

lemma helper_fence_called:
  assumes "Called s' m q \<in> set (helper_fence h i s md5 payload incoming)"
  shows "64 \<le> length incoming \<and> s' = s \<and> m = md5 \<and> q = payload"
proof -
  obtain commit rest result where run: "readExact (gets_commit h) 64 incoming = (commit, rest, result)" using prod_cases3 by blast
  then have "result = Some True" "Called s' m q \<in> set (helper_respond h i s md5 payload)"
    using assms by (simp_all add: helper_fence_def Let_def split: if_splits)
  then show ?thesis using run helper_reader.complete_takes helper_respond_called by blast
qed

lemma helper_prepare_called:
  "Called s' m q \<in> set (helper_prepare h frame s md5 payload incoming) \<Longrightarrow> 64 \<le> length incoming \<and> s' = s \<and> m = md5 \<and> q = payload"
  unfolding helper_prepare_def Let_def
  by (auto split: if_splits option.splits bool.splits dest!: helper_fence_called)

lemma bytes_text_bytes [simp]: "bytes_text (text_bytes s) = s"
proof -
  have "unat (word_of_nat (of_char c) :: byte) = of_char c" for c by (rule unat_small) simp
  then have "char_of (unat (of_char c :: byte)) = c" for c by (simp only: of_nat_of_char char_of_char)
  then show ?thesis by (simp add: bytes_text_def text_bytes_def comp_def)
qed

lemma length_text_bytes [simp]: "length (text_bytes s) = length s"
  by (simp add: text_bytes_def)

lemma runHelper_called:
  assumes "Called s m q \<in> set (runHelper h p)" "prefix p (whole_text r i md5 payload)"
    and "validServiceMd5 md5" "length (service r) \<le> kMaximumServiceNameBytes" "length payload \<le> kMaximumServicePayloadBytes"
  shows "p = whole_text r i md5 payload \<and> s = service r \<and> m = md5 \<and> q = payload"
proof -
  let ?frame = "makeServiceHelperRequest i (length (service r)) (length md5) (length payload) (wait_ms r)"
  let ?commit = "frame_bytes (makeServiceHelperCommit i)"
  have md5: "length md5 = kServiceMd5Bytes" using assms(3) by (simp add: validServiceMd5_def)
  note sizes = request_made_sizes [OF assms(4,5), of i "wait_ms r", folded md5]
  have first: "64 \<le> length p"
    using reading_effect [OF assms(1) [unfolded runHelper_def]] by blast
  have p: "take 64 p = frame_bytes ?frame" "prefix (drop 64 p) (text_bytes (service r) @ text_bytes md5 @ payload @ ?commit)"
    using prefix_section [of p "frame_bytes ?frame"] first assms(2) length_frame_bytes [of ?frame]
    by (simp_all add: whole_text_def request_text_def)
  define p1 where "p1 = drop 64 p"
  have in1: "Called s m q \<in> set (reading (gets_name h) (length (service r)) p1 (\<lambda>name left.
      reading (gets_md5 h) (length md5) left (\<lambda>md5' left. reading (gets_payload h) (length payload) left (\<lambda>payload' left.
        helper_prepare h ?frame (bytes_text name) (bytes_text md5') payload' left))))" (is "_ \<in> set (reading _ _ _ ?k1)")
    using reading_effect [OF assms(1) [unfolded runHelper_def]] assms(1) p(1) sizes
    by (auto simp: runHelper_def Let_def p1_def split: if_splits)
  note step1 = reading_effect [OF in1] prefix_section [OF p(2) [folded p1_def]]
  define p2 where "p2 = drop (length (service r)) p1"
  have p2: "prefix p2 (text_bytes md5 @ payload @ ?commit)" and name: "take (length (service r)) p1 = text_bytes (service r)"
    using step1 by (simp_all add: p2_def)
  have in2: "Called s m q \<in> set (reading (gets_md5 h) (length md5) p2 (\<lambda>md5' left. reading (gets_payload h) (length payload) left (\<lambda>payload' left.
        helper_prepare h ?frame (service r) (bytes_text md5') payload' left)))" (is "_ \<in> set (reading _ _ _ ?k2)")
    using in1 step1 name by (simp add: p2_def)
  note step2 = reading_effect [OF in2] prefix_section [OF p2]
  define p3 where "p3 = drop (length md5) p2"
  have p3: "prefix p3 (payload @ ?commit)" and digest: "take (length md5) p2 = text_bytes md5"
    using step2 by (simp_all add: p3_def)
  have in3: "Called s m q \<in> set (reading (gets_payload h) (length payload) p3 (\<lambda>payload' left.
        helper_prepare h ?frame (service r) md5 payload' left))"
    using in2 step2 digest by (simp add: p3_def)
  note step3 = reading_effect [OF in3] prefix_section [OF p3]
  have last: "Called s m q \<in> set (helper_prepare h ?frame (service r) md5 payload (drop (length payload) p3))"
    using in3 step3 by simp
  have "drop (length payload) p3 = ?commit"
    using helper_prepare_called [OF last] step3 length_frame_bytes [OF reserved_made(3), of i]
    by (metis prefix_def append_Nil2 append_eq_append_conv_if length_append le_add1 nle_le take_all)
  then have "p3 = payload @ ?commit" using step3 by (metis append_take_drop_id)
  then have "p2 = text_bytes md5 @ payload @ ?commit" using digest p3_def by (metis append_take_drop_id)
  then have "p1 = text_bytes (service r) @ text_bytes md5 @ payload @ ?commit" using name p2_def by (metis append_take_drop_id)
  then have "p = whole_text r i md5 payload"
    using p(1) p1_def append_take_drop_id [of 64 p] by (simp add: whole_text_def request_text_def)
  then show ?thesis using helper_prepare_called [OF last] by simp
qed

subsection \<open>The fence\<close>

fun is_call :: "helper_effect \<Rightarrow> bool" where
  "is_call (Called s m q) = True"
| "is_call (Wrote bs) = False"

lemma wrote_no_call [simp]: "filter is_call (wrote turns bs) = []"
  by (simp add: wrote_def)

lemma respond_one_call: "filter is_call (helper_respond h i s md5 payload) = [Called s md5 payload]"
  by (auto simp: helper_respond_def Let_def split: option.splits)

lemma fence_one_call: "length (filter is_call (helper_fence h i s md5 payload incoming)) \<le> 1"
  by (auto simp: helper_fence_def Let_def respond_one_call split: prod.splits)

lemma prepare_one_call: "length (filter is_call (helper_prepare h frame s md5 payload incoming)) \<le> 1"
  using fence_one_call unfolding helper_prepare_def Let_def by (auto split: option.splits bool.splits)

lemma reading_one_call:
  "(\<And>bs left. length (filter is_call (k bs left)) \<le> 1) \<Longrightarrow> length (filter is_call (reading turns n incoming k)) \<le> 1"
  unfolding reading_def Let_def by (auto split: prod.splits)

lemma runHelper_one_call: "length (filter is_call (runHelper h p)) \<le> 1"
  unfolding runHelper_def Let_def
  by (rule reading_one_call, split if_split, intro conjI impI reading_one_call prepare_one_call) simp

lemma dispatch_facts:
  assumes "call types r i env incoming = (sent, result)" "prefix p sent" "Called s m q \<in> set (runHelper h p)"
  shows "\<exists>md5 payload. prepare_call types r env = Fine (md5, payload) \<and> s = service r \<and> m = md5 \<and> q = payload
    \<and> p = whole_text r i md5 payload \<and> sent = p \<and> (\<forall>v. result = Some v \<longrightarrow> may_have_run v)"
proof -
  have "64 \<le> length p"
    using reading_effect [OF assms(3) [unfolded runHelper_def]] by blast
  then have "sent \<noteq> []" using assms(2) by auto
  then obtain md5 payload where ready: "prepare_call types r env = Fine (md5, payload)" and fence: "fenced (whole_text r i md5 payload) (sent, result)"
    using call_fenced [OF assms(1)] by blast
  have "prefix p (whole_text r i md5 payload)"
    using assms(2) fence unfolding fenced_def by (metis fst_conv prefix_order.trans)
  then have p: "p = whole_text r i md5 payload \<and> s = service r \<and> m = md5 \<and> q = payload"
    using runHelper_called [OF assms(3)] call_prepared [OF ready] by blast
  then have "sent = p"
    using assms(2) fence unfolding fenced_def by (metis fst_conv prefix_order.antisym)
  then show ?thesis using p ready fence by (auto simp: fenced_def)
qed

text \<open>C21: The dispatch fence. If a service call ends with an error that is not classed as uncertain (cancelled, past its deadline, busy, no helper, transport
  failure, service unavailable, bad frame, ...), then the helper has not called the service, whatever part of the caller's bytes reached it,
  however both sockets chopped them and whatever the helper met.\<close>

theorem refused_call_never_runs:
  assumes "call types r i env incoming = (sent, Some result)" "\<not> may_have_run result" "prefix p sent"
  shows "Called s m q \<notin> set (runHelper h p)"
  using dispatch_facts [OF assms(1,3)] assms(2) by blast

text \<open>C22: What the helper calls, if it calls: once, the service, digest and payload of the request, and only after the caller's whole text, the
  commit included, arrived.\<close>

theorem helper_calls_the_request:
  assumes "call types r i env incoming = (sent, result)" "prefix p sent" "Called s m q \<in> set (runHelper h p)"
  shows "\<exists>md5 payload. prepare_call types r env = Fine (md5, payload) \<and> filter is_call (runHelper h p) = [Called (service r) md5 payload]
    \<and> validServiceMd5 md5 \<and> length payload \<le> kMaximumServicePayloadBytes \<and> p = request_text r i md5 payload @ frame_bytes (makeServiceHelperCommit i)"
proof -
  obtain md5 payload where facts: "prepare_call types r env = Fine (md5, payload)" "Called s m q = Called (service r) md5 payload"
      "p = whole_text r i md5 payload"
    using dispatch_facts [OF assms] by blast
  have "Called s m q \<in> set (filter is_call (runHelper h p))" using assms(3) by simp
  then have "filter is_call (runHelper h p) = [Called s m q]"
    using runHelper_one_call [of h p] by (cases "filter is_call (runHelper h p)") auto
  then show ?thesis using facts call_prepared [OF facts(1)] by (auto simp: whole_text_def)
qed

subsection \<open>A call that goes through\<close>

definition gets_all :: "poll_event list recv_event list \<Rightarrow> nat \<Rightarrow> bool" where
  "gets_all turns n \<longleftrightarrow> (\<forall>incoming. n \<le> length incoming \<longrightarrow> snd (snd (readExact turns n incoming)) = Some True)"

text \<open>The helper meets no failure: its reads and writes complete, it finds the service, and the service answers.\<close>

definition helper_unhindered :: "helper_env \<Rightarrow> 'j service_request \<Rightarrow> 64 word \<Rightarrow> string \<Rightarrow> byte list \<Rightarrow> byte list \<Rightarrow> bool" where
  "helper_unhindered h r i md5 payload answer \<longleftrightarrow>
     gets_all (gets_frame h) 64 \<and> gets_all (gets_name h) (length (service r)) \<and> gets_all (gets_md5 h) (length md5)
     \<and> gets_all (gets_payload h) (length payload) \<and> gets_all (gets_commit h) 64
     \<and> validAbsoluteServiceName h (service r) \<and> client_made h
     \<and> serviceAvailable (lookups h) (wait_ms r) (looked_at h + 1000000 * int (unat (wait_ms r))) = Some True
     \<and> snd (writeExact (puts_ready h) (frame_bytes (makeServiceHelperReady i Ready))) = Some True
     \<and> snd (writeExact (puts_response h) (frame_bytes (makeServiceHelperResponse i Completed (length answer)))) = Some True
     \<and> snd (writeExact (puts_payload h) answer) = Some True
     \<and> Option.bind (service_result h (service r) md5 (serviceRequest payload)) responsePayload = Some answer
     \<and> length answer \<le> kMaximumServicePayloadBytes"

lemma gets_all_takes:
  "gets_all turns n \<Longrightarrow> n \<le> length incoming \<Longrightarrow> readExact turns n incoming = (take n incoming, drop n incoming, Some True)"
  unfolding gets_all_def using helper_reader.complete_takes by (metis prod.collapse)

lemma reading_all: "gets_all turns n \<Longrightarrow> n \<le> length incoming \<Longrightarrow> reading turns n incoming k = k (take n incoming) (drop n incoming)"
  by (simp add: reading_def gets_all_takes)

lemma wrote_all: "snd (writeExact turns bs) = Some True \<Longrightarrow> wrote turns bs = [Wrote bs]"
  by (simp add: wrote_def helper_writer.moves_all)

lemma fence_through:
  assumes "helper_unhindered h r i md5 payload answer" "i \<noteq> 0"
  shows "helper_fence h i (service r) md5 payload (frame_bytes (makeServiceHelperCommit i))
    = [Wrote (frame_bytes (makeServiceHelperReady i Ready)), Called (service r) md5 payload,
       Wrote (frame_bytes (makeServiceHelperResponse i Completed (length answer)))] @ (if answer = [] then [] else [Wrote answer])"
proof -
  let ?commit = "frame_bytes (makeServiceHelperCommit i)"
  have n: "length ?commit = 64" by (rule length_frame_bytes) simp
  have run: "readExact (gets_commit h) 64 ?commit = (?commit, [], Some True)"
    using gets_all_takes [of "gets_commit h" 64 ?commit] assms(1) n unfolding helper_unhindered_def by simp
  have "validateServiceHelperCommit (read_frame ?commit) i" using commit_valid_iff assms(2) by auto
  moreover obtain response where "service_result h (service r) md5 (serviceRequest payload) = Some response" "responsePayload response = Some answer"
    using assms(1) by (auto simp: helper_unhindered_def bind_eq_Some_conv)
  ultimately show ?thesis
    using assms(1) run by (simp add: helper_fence_def helper_respond_def Let_def helper_unhindered_def wrote_all)
qed

lemma helper_through:
  assumes "helper_unhindered h r i md5 payload answer" "i \<noteq> 0" "validServiceMd5 md5"
    and "service r \<noteq> []" "length (service r) \<le> kMaximumServiceNameBytes" "length payload \<le> kMaximumServicePayloadBytes"
    and "unat (wait_ms r) \<le> kMaximumServiceWaitMilliseconds"
  shows "runHelper h (whole_text r i md5 payload)
    = [Wrote (frame_bytes (makeServiceHelperReady i Ready)), Called (service r) md5 payload,
       Wrote (frame_bytes (makeServiceHelperResponse i Completed (length answer)))] @ (if answer = [] then [] else [Wrote answer])"
proof -
  let ?frame = "makeServiceHelperRequest i (length (service r)) (length md5) (length payload) (wait_ms r)"
  have md5: "length md5 = kServiceMd5Bytes" using assms(3) by (simp add: validServiceMd5_def)
  note sizes = request_made_sizes [OF assms(5,6), of i "wait_ms r", folded md5]
  have n: "length (frame_bytes ?frame) = 64" by (rule length_frame_bytes) simp
  have "validateServiceHelperRequest ?frame"
    using request_made_valid [OF assms(2) _ assms(5-7)] assms(4) md5 by simp
  moreover have "request_id ?frame = i" "wait_for_service_ms ?frame = wait_ms r" by (simp_all add: make_defs)
  ultimately show ?thesis
    using assms(1,3) n sizes fence_through [OF assms(1,2)]
    by (simp add: runHelper_def whole_text_def request_text_def reading_all helper_unhindered_def Let_def helper_prepare_def)
qed

text \<open>The caller meets no failure: its loops complete on what they are given.\<close>

definition caller_unhindered ::
  "('j, 'm) service_types \<Rightarrow> 'j service_request \<Rightarrow> 64 word \<Rightarrow> call_env \<Rightarrow> string \<Rightarrow> byte list \<Rightarrow> byte list \<Rightarrow> bool" where
  "caller_unhindered types r i env md5 payload answer \<longleftrightarrow>
     (let d = runtimeDeadline (deadline_unix_nanos r) (at_deadline env);
          c = committed_at env + 1000000 * int (unat (call_timeout_ms r));
          sends = \<lambda>turns bs. snd (writePreCommit r d turns bs) = Some Pre_Complete;
          frame = makeServiceHelperRequest i (length (service r)) (length md5) (length payload) (wait_ms r)
      in prepare_call types r env = Fine (md5, payload) \<and> permitted env \<and> start_failure env = None
         \<and> sends (sends_frame env) (frame_bytes frame) \<and> sends (sends_name env) (text_bytes (service r)) \<and> sends (sends_md5 env) (text_bytes md5)
         \<and> sends (sends_payload env) payload \<and> sends (sends_commit env) (frame_bytes (makeServiceHelperCommit i))
         \<and> requirePreDispatchAllowed r (at_commit env) = Fine ()
         \<and> (\<forall>incoming. 64 \<le> length incoming \<longrightarrow> snd (snd (readPreCommit r d (reads_ready env) 64 incoming)) = Some Pre_Complete)
         \<and> (\<forall>incoming. 64 \<le> length incoming
              \<longrightarrow> snd (snd (readPostCommit r d c (after_response env) (reads_response env) 64 incoming)) = Some Post_Complete)
         \<and> (\<forall>incoming. length answer \<le> length incoming
              \<longrightarrow> snd (snd (readPostCommit r d c (after_payload env) (reads_payload env) (length answer) incoming)) = Some Post_Complete))"

lemma send_through: "snd (writePreCommit r d turns bs) = Some Pre_Complete
    \<Longrightarrow> send_precommit (writePreCommit r d turns bs) rest = (bs @ fst rest, snd rest)"
  by (simp add: send_precommit_def pre_writer.moves_all [symmetric])

lemma pre_reader_takes:
  "snd (snd (readPreCommit r d turns n incoming)) = Some Pre_Complete
   \<Longrightarrow> readPreCommit r d turns n incoming = (take n incoming, drop n incoming, Some Pre_Complete)"
  using pre_reader.complete_takes by (metis prod.collapse)

lemma post_reader_takes:
  "snd (snd (readPostCommit r d c final turns n incoming)) = Some Post_Complete
   \<Longrightarrow> readPostCommit r d c final turns n incoming = (take n incoming, drop n incoming, Some Post_Complete)"
  using post_reader.complete_takes by (metis prod.collapse)

lemma result_through:
  assumes "caller_unhindered types r i env md5 payload answer" "i \<noteq> 0" "length answer \<le> kMaximumServicePayloadBytes"
  shows "read_result types r i (runtimeDeadline (deadline_unix_nanos r) (at_deadline env)) env
      (frame_bytes (makeServiceHelperResponse i Completed (length answer)) @ answer) = Some (decode_response types r answer)"
proof -
  let ?frame = "makeServiceHelperResponse i Completed (length answer)"
  let ?d = "runtimeDeadline (deadline_unix_nanos r) (at_deadline env)"
  let ?c = "committed_at env + 1000000 * int (unat (call_timeout_ms r))"
  have n: "length (frame_bytes ?frame) = 64" by (rule length_frame_bytes) simp
  have header: "readPostCommit r ?d ?c (after_response env) (reads_response env) 64 (frame_bytes ?frame @ answer)
      = (frame_bytes ?frame, answer, Some Post_Complete)"
    using assms(1) n post_reader_takes [of r ?d ?c "after_response env" "reads_response env" 64 "frame_bytes ?frame @ answer"]
    unfolding caller_unhindered_def Let_def by simp
  have body: "readPostCommit r ?d ?c (after_payload env) (reads_payload env) (length answer) answer = (answer, [], Some Post_Complete)"
    using assms(1) post_reader_takes [of r ?d ?c "after_payload env" "reads_payload env" "length answer" answer]
    unfolding caller_unhindered_def Let_def by simp
  have valid: "validateServiceHelperResponse ?frame i" using response_made_valid [OF assms(2,3)] by blast
  have size: "unat (payload_bytes ?frame) = length answer" using assms(3) by (simp add: make_defs unat_small)
  have status: "status ?frame = response_code Completed" by (simp add: make_defs)
  have "conclude types r ?frame answer = decode_response types r answer"
    by (simp add: conclude_def status)
  then show ?thesis
    using valid size body header by (cases "answer = []") (simp_all add: read_result_def Let_def)
qed

lemma ready_through:
  assumes "caller_unhindered types r i env md5 payload answer" "i \<noteq> 0" "length answer \<le> kMaximumServicePayloadBytes"
  shows "await_ready types r i (runtimeDeadline (deadline_unix_nanos r) (at_deadline env)) env
      (frame_bytes (makeServiceHelperReady i Ready) @ frame_bytes (makeServiceHelperResponse i Completed (length answer)) @ answer)
    = (frame_bytes (makeServiceHelperCommit i), Some (after_commit (decode_response types r answer)))"
proof -
  let ?ready = "makeServiceHelperReady i Ready"
  let ?d = "runtimeDeadline (deadline_unix_nanos r) (at_deadline env)"
  let ?rest = "frame_bytes (makeServiceHelperResponse i Completed (length answer)) @ answer"
  have n: "length (frame_bytes ?ready) = 64" by (rule length_frame_bytes) simp
  have got: "readPreCommit r ?d (reads_ready env) 64 (frame_bytes ?ready @ ?rest) = (frame_bytes ?ready, ?rest, Some Pre_Complete)"
    using assms(1) n pre_reader_takes [of r ?d "reads_ready env" 64 "frame_bytes ?ready @ ?rest"]
    unfolding caller_unhindered_def Let_def by simp
  have status: "status ?ready = ready_code Ready" by (simp add: make_defs)
  have "requirePreDispatchAllowed r (at_commit env) = Fine ()"
      "snd (writePreCommit r ?d (sends_commit env) (frame_bytes (makeServiceHelperCommit i))) = Some Pre_Complete"
    using assms(1) unfolding caller_unhindered_def Let_def by simp_all
  then show ?thesis
    using ready_made_valid [OF assms(2), of Ready] result_through [OF assms]
    by (simp add: await_ready_def got status send_through)
qed

definition written_by :: "helper_effect list \<Rightarrow> byte list" where
  "written_by effects = concat (map (\<lambda>e. case e of Wrote bs \<Rightarrow> bs | Called s m q \<Rightarrow> []) effects)"

lemma call_goes_through:
  assumes "caller_unhindered types r i env md5 payload answer" "helper_unhindered h r i md5 payload answer" "i \<noteq> 0"
    and "unat (wait_ms r) \<le> kMaximumServiceWaitMilliseconds"
  shows "call types r i env (written_by (runHelper h (whole_text r i md5 payload)))
      = (whole_text r i md5 payload, Some (after_commit (decode_response types r answer)))
    \<and> filter is_call (runHelper h (whole_text r i md5 payload)) = [Called (service r) md5 payload]"
proof -
  have ready: "prepare_call types r env = Fine (md5, payload)" "permitted env" "start_failure env = None"
    using assms(1) unfolding caller_unhindered_def Let_def by simp_all
  have size: "length answer \<le> kMaximumServicePayloadBytes" using assms(2) unfolding helper_unhindered_def by blast
  have effects: "runHelper h (whole_text r i md5 payload)
      = [Wrote (frame_bytes (makeServiceHelperReady i Ready)), Called (service r) md5 payload,
         Wrote (frame_bytes (makeServiceHelperResponse i Completed (length answer)))] @ (if answer = [] then [] else [Wrote answer])"
    using helper_through [OF assms(2,3) _ _ _ _ assms(4)] call_prepared [OF ready(1)] by blast
  then have "written_by (runHelper h (whole_text r i md5 payload))
      = frame_bytes (makeServiceHelperReady i Ready) @ frame_bytes (makeServiceHelperResponse i Completed (length answer)) @ answer"
    by (simp add: written_by_def)
  moreover have "send_request types r i env (frame_bytes (makeServiceHelperReady i Ready)
        @ frame_bytes (makeServiceHelperResponse i Completed (length answer)) @ answer) md5 payload
      = (whole_text r i md5 payload, Some (after_commit (decode_response types r answer)))"
    using assms(1) ready_through [OF assms(1,3) size] unfolding caller_unhindered_def send_request_def Let_def
    by (cases "payload = []") (simp_all add: send_through whole_text_def request_text_def)
  ultimately show ?thesis using ready effects by (simp add: call_def)
qed

text \<open>C23: A service call goes through. When neither side meets a failure, the caller reading exactly what the helper writes and the helper exactly what
  the caller writes, however the sockets chop it, the helper calls the service once with the request, and the caller's result is the decoding of the bytes the
  service answered.\<close>

theorem service_call_round_trip:
  assumes "caller_unhindered types r i env md5 payload answer" "helper_unhindered h r i md5 payload answer" "i \<noteq> 0"
    and "unat (wait_ms r) \<le> kMaximumServiceWaitMilliseconds"
  shows "call types r i env (written_by (runHelper h (whole_text r i md5 payload)))
      = (whole_text r i md5 payload, Some (after_commit (decode_response types r answer)))
    \<and> filter is_call (runHelper h (whole_text r i md5 payload)) = [Called (service r) md5 payload]"
  using assms by (rule call_goes_through)

subsection \<open>A concrete call\<close>

definition demo_moment :: "bool \<Rightarrow> moment" where
  "demo_moment c = \<lparr>cancelled_now = c, unix_now = 0, steady_now = 0\<rparr>"

definition demo_types :: "(byte list, byte list) service_types" where
  "demo_types = \<lparr>describe = (\<lambda>_. Fine (replicate 32 (CHR ''0''), True)), decode = (\<lambda>_ v. Fine (length v, v)),
     read_response = (\<lambda>_ bs. Fine (Some bs, length bs)), encode = Fine\<rparr>"

definition demo_call :: "byte list service_request" where
  "demo_call = \<lparr>service = ''/s'', service_type = ''t'', request_value = [7], wait_ms = 0, call_timeout_ms = 5, deadline_unix_nanos = 0\<rparr>"

text \<open>Whether the caller cancels while it sends the commit.\<close>

definition demo_callenv :: "bool \<Rightarrow> call_env" where
  "demo_callenv c =
     (let m = demo_moment False; send = [(m, Sent 99)] in
      \<lparr>at_entry = m, at_payload = m, permitted = True, start_failure = None, at_start_failure = m, at_deadline = m,
       sends_frame = send, sends_name = send, sends_md5 = send, sends_payload = send, reads_ready = [(m, Received 99)], at_commit = m,
       sends_commit = [(m, Sent 9), (demo_moment c, Sent 99)], committed_at = 0, reads_response = [(m, Received 99)], after_response = m,
       reads_payload = [(m, Received 99)], after_payload = m\<rparr>)"

definition demo_helper :: helper_env where
  "demo_helper =
     \<lparr>gets_frame = [Received 99], gets_name = [Received 99], gets_md5 = [Received 99], gets_payload = [Received 99], valid_name = (\<lambda>_. True),
      lookups = [(True, True, 0)], looked_at = 0, client_made = True, puts_ready = [Put 99], gets_commit = [Received 99],
      service_result = (\<lambda>_ _ _. Some \<lparr>num_bytes = 3, buf = Some [0, 8, 9], message_start = Some 1\<rparr>), puts_response = [Put 99], puts_payload = [Put 99]\<rparr>"

lemma one_send: "stops r d m = None \<Longrightarrow> length bs \<le> Suc k \<Longrightarrow> snd (writePreCommit r d ((m, Sent k) # turns) bs) = Some Pre_Complete"
  by (cases bs) simp_all

lemma one_put: "length bs \<le> Suc k \<Longrightarrow> snd (writeExact [Put k] bs) = Some True"
  by (cases bs) simp_all

lemma one_get: "n \<le> Suc k \<Longrightarrow> gets_all [Received k] n"
  by (cases n) (auto simp: gets_all_def recv_def Let_def min_def)

lemma one_ready: "stops r d m = None \<Longrightarrow> 64 \<le> length incoming \<Longrightarrow> snd (snd (readPreCommit r d [(m, Received 99)] 64 incoming)) = Some Pre_Complete"
  by (auto simp: recv_def Let_def min_def numeral_eq_Suc)

lemma one_response:
  "post_stops r d c m = None \<Longrightarrow> n \<le> length incoming \<Longrightarrow> n \<le> 100
   \<Longrightarrow> snd (snd (readPostCommit r d c m [(m, Received 99)] n incoming)) = Some Post_Complete"
  by (cases n) (auto simp: recv_def Let_def min_def)

lemma demo_prepared: "prepare_call demo_types demo_call (demo_callenv c) = Fine (replicate 32 (CHR ''0''), [7])"
  by (simp add: prepare_call_def demo_types_def demo_call_def demo_callenv_def Let_def requirePreDispatchAllowed_def demo_moment_def
      deadlineExpired_def serializeServiceRequest_def validServiceMd5_def list_all_iff)

lemma demo_stops: "stops demo_call steady_max (demo_moment c) = (if c then Some Pre_Cancelled else None)"
  by (simp add: stops_def demo_call_def demo_moment_def deadlineExpired_def)

lemma demo_deadline: "runtimeDeadline (deadline_unix_nanos demo_call) m = steady_max"
  by (simp add: runtimeDeadline_def demo_call_def)

lemma demo_post: "post_stops demo_call steady_max 5000000 (demo_moment False) = None"
  by (simp add: post_stops_def demo_call_def demo_moment_def deadlineExpired_def)

lemma demo_commit:
  assumes "length bs = 64"
  shows "writePreCommit demo_call steady_max (sends_commit (demo_callenv c)) bs
    = (if c then (take 10 bs, Some Pre_Cancelled) else (bs, Some Pre_Complete))"
proof -
  obtain b rest where bs: "bs = b # rest" "length rest = 63" using assms by (cases bs) auto
  obtain b' rest' where rest: "drop 9 rest = b' # rest'" "length rest' = 53"
    using bs(2) by (cases "drop 9 rest") (auto dest: arg_cong [where f = length])
  have "take 9 rest @ b' # rest' = rest" using rest(1) by (metis append_take_drop_id)
  then show ?thesis
    using rest by (simp add: demo_callenv_def Let_def demo_stops bs(1))
qed

lemma frame_lengths [simp]:
  "length (frame_bytes (makeServiceHelperRequest i n m p w)) = 64" "length (frame_bytes (makeServiceHelperReady i s)) = 64"
  "length (frame_bytes (makeServiceHelperCommit i)) = 64" "length (frame_bytes (makeServiceHelperResponse i t p)) = 64"
  by (simp_all add: length_frame_bytes)

lemma demo_caller: "caller_unhindered demo_types demo_call i (demo_callenv False) (replicate 32 (CHR ''0'')) [7] [8, 9]"
proof -
  let ?m = "demo_moment False"
  have send: "snd (writePreCommit demo_call steady_max [(?m, Sent 99)] bs) = Some Pre_Complete" if "length bs \<le> 100" for bs
    using that by (intro one_send) (simp_all add: demo_stops)
  have "requirePreDispatchAllowed demo_call ?m = Fine ()"
    by (simp add: requirePreDispatchAllowed_def demo_call_def demo_moment_def deadlineExpired_def)
  moreover have "int (unat (call_timeout_ms demo_call)) = 5" by (simp add: demo_call_def)
  moreover have "length (service demo_call) = 2" by (simp add: demo_call_def)
  ultimately show ?thesis
    unfolding caller_unhindered_def Let_def demo_deadline
    using demo_prepared [of False] demo_commit [of _ False] send one_ready [of demo_call steady_max ?m]
      one_response [of demo_call steady_max 5000000 ?m 64] one_response [of demo_call steady_max 5000000 ?m "Suc (Suc 0)"]
    by (simp add: demo_callenv_def Let_def demo_stops demo_post del: of_nat_unat readPostCommit.simps)
qed

lemma demo_helper_through: "helper_unhindered demo_helper demo_call 1 (replicate 32 (CHR ''0'')) [7] [8, 9]"
  by (simp add: helper_unhindered_def demo_helper_def one_get one_put demo_call_def validAbsoluteServiceName_def responsePayload_def)

theorem service_call_round_trip_witness:
  "snd (call demo_types demo_call 1 (demo_callenv False) (written_by (runHelper demo_helper (whole_text demo_call 1 (replicate 32 (CHR ''0'')) [7]))))
   = Some (Fine [8, 9])"
proof -
  have "decode_response demo_types demo_call [8, 9] = Fine [8, 9]" by (simp add: decode_response_def demo_types_def)
  then show ?thesis
    using service_call_round_trip [OF demo_caller demo_helper_through] by (simp add: demo_call_def)
qed

theorem helper_calls_the_request_witness:
  "filter is_call (runHelper demo_helper (whole_text demo_call 1 (replicate 32 (CHR ''0'')) [7])) = [Called ''/s'' (replicate 32 (CHR ''0'')) [7]]"
proof -
  let ?md5 = "replicate 32 (CHR ''0'')"
  have run: "call demo_types demo_call 1 (demo_callenv False) (written_by (runHelper demo_helper (whole_text demo_call 1 ?md5 [7])))
      = (whole_text demo_call 1 ?md5 [7], Some (after_commit (decode_response demo_types demo_call [8, 9])))
    \<and> filter is_call (runHelper demo_helper (whole_text demo_call 1 ?md5 [7])) = [Called (service demo_call) ?md5 [7]]"
    by (rule call_goes_through [OF demo_caller demo_helper_through]) (simp_all add: demo_call_def)
  then have "Called (service demo_call) ?md5 [7] \<in> set (runHelper demo_helper (whole_text demo_call 1 ?md5 [7]))"
    using filter_is_subset [of is_call "runHelper demo_helper (whole_text demo_call 1 ?md5 [7])"] by simp
  then show ?thesis
    using helper_calls_the_request [OF conjunct1 [OF run] prefix_order.refl] demo_prepared [of False] by (simp add: demo_call_def)
qed

lemma demo_fields:
  "permitted (demo_callenv c)" "start_failure (demo_callenv c) = None" "sends_frame (demo_callenv c) = [(demo_moment False, Sent 99)]"
  "sends_name (demo_callenv c) = [(demo_moment False, Sent 99)]" "sends_md5 (demo_callenv c) = [(demo_moment False, Sent 99)]"
  "sends_payload (demo_callenv c) = [(demo_moment False, Sent 99)]" "reads_ready (demo_callenv c) = [(demo_moment False, Received 99)]"
  "at_commit (demo_callenv c) = demo_moment False"
  by (simp_all add: demo_callenv_def Let_def)

lemma demo_cancelled:
  "call demo_types demo_call 1 (demo_callenv True) (frame_bytes (makeServiceHelperReady 1 Ready))
   = (request_text demo_call 1 (replicate 32 (CHR ''0'')) [7] @ take 10 (frame_bytes (makeServiceHelperCommit 1)),
      Some (Threw_Tools (failPreCommit Pre_Cancelled)))"
proof -
  let ?m = "demo_moment False"
  have send: "writePreCommit demo_call steady_max [(?m, Sent 99)] bs = (bs, Some Pre_Complete)" if "length bs \<le> 100" for bs
    using one_send [of demo_call steady_max ?m bs 99 "[]"] pre_writer.moves_all [of demo_call steady_max "[(?m, Sent 99)]" bs] that
    by (simp add: demo_stops prod_eq_iff)
  have allowed: "requirePreDispatchAllowed demo_call ?m = Fine ()"
    by (simp add: requirePreDispatchAllowed_def demo_call_def demo_moment_def deadlineExpired_def)
  have "readPreCommit demo_call steady_max [(?m, Received 99)] 64 (frame_bytes (makeServiceHelperReady 1 Ready))
      = (frame_bytes (makeServiceHelperReady 1 Ready), [], Some Pre_Complete)"
    using pre_reader_takes [OF one_ready [of demo_call steady_max ?m]] by (simp add: demo_stops)
  moreover have "status (makeServiceHelperReady 1 Ready) = 1" by (simp add: make_defs)
  ultimately have "await_ready demo_types demo_call 1 steady_max (demo_callenv True) (frame_bytes (makeServiceHelperReady 1 Ready))
      = (take 10 (frame_bytes (makeServiceHelperCommit 1)), Some (Threw_Tools (failPreCommit Pre_Cancelled)))"
    using demo_commit [of "frame_bytes (makeServiceHelperCommit 1)" True] ready_made_valid [of 1 Ready] allowed
    by (simp add: await_ready_def demo_fields Let_def send_precommit_def)
  moreover have "length (service demo_call) = 2" by (simp add: demo_call_def)
  ultimately show ?thesis
    using send by (simp add: call_def demo_prepared send_request_def demo_deadline Let_def demo_fields send_precommit_def request_text_def
        del: writePreCommit.simps)
qed

theorem refused_call_never_runs_witness:
  "Called ''/s'' (replicate 32 (CHR ''0'')) [7] \<notin> set (runHelper demo_helper
     (request_text demo_call 1 (replicate 32 (CHR ''0'')) [7] @ take 10 (frame_bytes (makeServiceHelperCommit 1))))"
  using refused_call_never_runs [OF demo_cancelled _ prefix_order.refl] by (simp add: failPreCommit_def error_defs)

end
