(* ===== verification/Publishers.thy ===== *)
theory Publishers
  imports Service_Call
begin

section \<open>The publishers of the tools adapter\<close>

text \<open>
  \<^verbatim>\<open>publisher_registry.cpp\<close> of \<^verbatim>\<open>src/ros1_tools_adapter\<close>: the cache of ROS publishers and the publication of a message. Entries are shared between the
  table and the calls that use them, so they live in a heap and the table holds their addresses; a call keeps its entry while others
  change the table. Each critical section is one function on the record \<open>registry\<close>. The part of a publication outside the lock is
  a function of the events it meets: the clock, cancellation, roscpp's answers. The type registry and the codec are arguments.
\<close>

subsection \<open>State\<close>

record publisher_entry =
  entry_type :: string
  entry_latch :: bool
  entry_queue :: "32 word"
  active_calls :: nat
  native_dispatch_committed :: bool
  declared :: bool

record registry =
  maximum_publishers :: nat
  master_generation :: int
  entries :: "(string, nat) std_map"
  heap :: "nat \<Rightarrow> publisher_entry"
  next_entry :: nat

record publisher_configuration =
  topic :: string
  message_type :: string
  latch :: bool
  queue_size :: "32 word"

record publish_request = publisher_configuration +
  publish_count :: "32 word"
  wait_for_subscribers_ms :: "32 word"
  publish_deadline :: int

record publish_result =
  result_topic :: string
  result_type :: string
  serialized_bytes :: nat
  published_count :: nat
  subscriber_count :: nat

definition PublisherRegistry :: "int \<Rightarrow> nat \<Rightarrow> registry caught" where
  "PublisherRegistry bound_master_pid maximum =
     (if maximum = 0 then Threw_Tools (permanentError ''invalid_configuration'' ''maximum cached ROS1 publishers must be greater than zero'')
      else if bound_master_pid \<le> 0
      then Threw_Tools (permanentError ''invalid_configuration'' ''bound ROS1 master PID must be positive'')
      else Fine \<lparr>maximum_publishers = maximum, master_generation = bound_master_pid, entries = [],
             heap = (\<lambda>_. \<lparr>entry_type = [], entry_latch = False, entry_queue = 0, active_calls = 0, native_dispatch_committed = False, declared = False\<rparr>),
             next_entry = 0\<rparr>)"

definition set_entry :: "nat \<Rightarrow> publisher_entry \<Rightarrow> registry \<Rightarrow> registry" where
  "set_entry e v s = s\<lparr>heap := (heap s)(e := v)\<rparr>"

text \<open>\<^verbatim>\<open>select\<close>; \<open>advertised\<close> is what roscpp's advertise does.\<close>

definition select :: "'a publisher_configuration_scheme \<Rightarrow> unit caught \<Rightarrow> registry \<Rightarrow> registry \<times> nat caught" where
  "select c advertised s =
     (case sm_find (entries s) (topic c) of
        None \<Rightarrow>
          if maximum_publishers s \<le> length (entries s)
          then (s, Threw_Tools (resourceExhaustedError ''publisher_capacity_exhausted''
                 ''maximum cached ROS1 publishers reached; replace or stop the Adapter instance before publishing another topic''))
          else
            (case advertised of
               Fine _ \<Rightarrow>
                 (let e = next_entry s;
                      v = \<lparr>entry_type = message_type c, entry_latch = latch c, entry_queue = queue_size c, active_calls = 0,
                           native_dispatch_committed = False, declared = False\<rparr>
                  in ((set_entry e v s)\<lparr>next_entry := Suc e, entries := sm_set (topic c) e (entries s)\<rparr>, Fine e))
             | Threw_Tools x \<Rightarrow> (s, Threw_Tools x)
             | Threw_Exception m \<Rightarrow> (s, Threw_Exception m)
             | Threw_Other \<Rightarrow> (s, Threw_Other))
      | Some e \<Rightarrow>
          if entry_type (heap s e) \<noteq> message_type c \<or> entry_latch (heap s e) \<noteq> latch c \<or> entry_queue (heap s e) \<noteq> queue_size c
          then (s, Threw_Tools (permanentError ''publisher_configuration_conflict''
                 (''topic '' @ quoted_name (topic c) @ '' is already cached with a different type, latch, or queueSize'')))
          else (s, Fine e))"

definition refreshMasterGeneration :: "int \<Rightarrow> registry \<Rightarrow> registry \<times> unit caught" where
  "refreshMasterGeneration observed s =
     (if observed \<le> 0
      then (s, Threw_Tools (transientError ''ros_master_generation_unavailable'' ''ROS1 master process generation is invalid''))
      else if master_generation s \<noteq> observed
      then (s\<lparr>entries := []\<rparr>, Threw_Tools (transientError ''ros_master_generation_changed''
              ''ROS1 master process generation changed; this Adapter process is bound to the previous master and must be recycled''))
      else (s, Fine ()))"

definition declare_publisher :: "'a publisher_configuration_scheme \<Rightarrow> int \<Rightarrow> unit caught \<Rightarrow> registry \<Rightarrow> registry \<times> unit caught" where
  "declare_publisher c observed advertised s =
     (case refreshMasterGeneration observed s of
        (s1, Fine _) \<Rightarrow>
          (case select c advertised s1 of
             (s2, Fine e) \<Rightarrow> (set_entry e ((heap s2 e)\<lparr>declared := True\<rparr>) s2, Fine ())
           | (s2, Threw_Tools x) \<Rightarrow> (s2, Threw_Tools x)
           | (s2, Threw_Exception m) \<Rightarrow> (s2, Threw_Exception m)
           | (s2, Threw_Other) \<Rightarrow> (s2, Threw_Other))
      | (s1, failed) \<Rightarrow> (s1, failed))"

definition release :: "string \<Rightarrow> nat \<Rightarrow> bool \<Rightarrow> registry \<Rightarrow> registry" where
  "release t e committed s =
     (let v = (heap s e)\<lparr>active_calls := active_calls (heap s e) - 1,
                native_dispatch_committed := native_dispatch_committed (heap s e) \<or> committed\<rparr>;
          s1 = set_entry e v s
      in if sm_find (entries s) t = Some e \<and> active_calls v = 0 \<and> \<not> native_dispatch_committed v \<and> \<not> declared v
         then s1\<lparr>entries := sm_erase t (entries s)\<rparr> else s1)"

definition clear_publishers :: "registry \<Rightarrow> registry" where
  "clear_publishers s = s\<lparr>entries := []\<rparr>"

definition size_publishers :: "registry \<Rightarrow> nat" where
  "size_publishers s = length (entries s)"

subsection \<open>A publication\<close>

definition requireDispatchAllowed :: "publish_request \<Rightarrow> moment \<Rightarrow> unit caught" where
  "requireDispatchAllowed r m =
     (if cancelled_now m then Threw_Tools (cancelledError ''publish_cancelled'' ''ROS1 topic publish was cancelled before dispatch'')
      else if deadlineExpired (publish_deadline r) (unix_now m)
      then Threw_Tools (deadlineError ''publish_deadline_elapsed'' ''ROS1 topic publish deadline elapsed before dispatch'')
      else Fine ())"

definition requireContinuationAllowed :: "publish_request \<Rightarrow> moment \<Rightarrow> unit caught" where
  "requireContinuationAllowed r m =
     (if cancelled_now m
      then Threw_Tools (uncertainError ''publish_cancelled_after_dispatch'' ''ROS1 topic publish was cancelled after native dispatch'')
      else if deadlineExpired (publish_deadline r) (unix_now m)
      then Threw_Tools (uncertainError ''publish_deadline_after_dispatch'' ''ROS1 topic publish crossed its deadline after native dispatch'')
      else Fine ())"

text \<open>The loop looks at the clock, then at the request.\<close>

fun waitUntil :: "publish_request \<Rightarrow> int \<Rightarrow> (int \<times> moment) list \<Rightarrow> unit caught option" where
  "waitUntil r target [] = None"
| "waitUntil r target ((now, m) # turns) =
     (if target \<le> now then Some (Fine ())
      else
        (case requireContinuationAllowed r m of
           Fine _ \<Rightarrow> waitUntil r target turns
         | failed \<Rightarrow> Some failed))"

text \<open>Up to the lease (lines 132 to 149 of the file): the checks, the message and \<^verbatim>\<open>select\<close>. \<open>serialized\<close> is the size of the message, none when the serializer gave
  nothing.\<close>

definition publish_begin ::
  "publish_request \<Rightarrow> moment \<Rightarrow> int \<Rightarrow> nat option caught \<Rightarrow> unit caught \<Rightarrow> registry \<Rightarrow> registry \<times> (nat \<times> nat) caught" where
  "publish_begin r m observed serialized advertised s =
     (case requireDispatchAllowed r m of
        Fine _ \<Rightarrow>
          (case refreshMasterGeneration observed s of
             (s1, Fine _) \<Rightarrow>
               (case serialized of
                  Fine (Some bytes) \<Rightarrow>
                    (case select r advertised s1 of
                       (s2, Fine e) \<Rightarrow> (set_entry e ((heap s2 e)\<lparr>active_calls := Suc (active_calls (heap s2 e))\<rparr>) s2, Fine (e, bytes))
                     | (s2, Threw_Tools x) \<Rightarrow> (s2, Threw_Tools x)
                     | (s2, Threw_Exception t) \<Rightarrow> (s2, Threw_Exception t)
                     | (s2, Threw_Other) \<Rightarrow> (s2, Threw_Other))
                | Fine None \<Rightarrow>
                    (s1, Threw_Tools (permanentError ''message_serialization_failed'' ''dynamic ROS1 serializer returned no message''))
                | Threw_Tools x \<Rightarrow> (s1, Threw_Tools x)
                | Threw_Exception t \<Rightarrow> (s1, Threw_Exception t)
                | Threw_Other \<Rightarrow> (s1, Threw_Other))
           | (s1, Threw_Tools x) \<Rightarrow> (s1, Threw_Tools x)
           | (s1, Threw_Exception t) \<Rightarrow> (s1, Threw_Exception t)
           | (s1, Threw_Other) \<Rightarrow> (s1, Threw_Other))
      | Threw_Tools x \<Rightarrow> (s, Threw_Tools x)
      | Threw_Exception t \<Rightarrow> (s, Threw_Exception t)
      | Threw_Other \<Rightarrow> (s, Threw_Other))"

text \<open>The wait for subscribers: each turn reads their number, \<^verbatim>\<open>ros::ok\<close>, the clock and, if it stays, the request.\<close>

fun awaitSubscribers :: "publish_request \<Rightarrow> int \<Rightarrow> (nat \<times> bool \<times> int \<times> moment) list \<Rightarrow> unit caught option" where
  "awaitSubscribers r d [] = None"
| "awaitSubscribers r d ((subscribers, ok, now, m) # turns) =
     (if subscribers = 0 \<and> ok \<and> now < d
      then (case requireDispatchAllowed r m of Fine _ \<Rightarrow> awaitSubscribers r d turns | failed \<Rightarrow> Some failed)
      else Some (Fine ()))"

datatype native_publish = Published | Publish_Threw string | Publish_Threw_Other

record publish_turn =
  pauses :: "(int \<times> moment) list"
  turn_ok :: bool
  before_publish :: moment
  native :: native_publish
  after_publish :: moment

record publish_env =
  publisher_valid :: bool
  wait_started :: int
  subscriber_turns :: "(nat \<times> bool \<times> int \<times> moment) list"
  after_wait :: moment
  subscribers_after_wait :: nat
  ok_before :: bool
  at_dispatch :: moment
  first_publish :: int
  interval :: int
  publish_turns :: "publish_turn list"
  subscribers_at_end :: nat

text \<open>Before the side-effect boundary (lines 153 to 194).\<close>

definition wait_for_subscribers :: "publish_request \<Rightarrow> publish_env \<Rightarrow> unit caught option" where
  "wait_for_subscribers r env =
     (if wait_for_subscribers_ms r = 0 then Some (Fine ())
      else
        (case awaitSubscribers r (wait_started env + 1000000 * int (unat (wait_for_subscribers_ms r))) (subscriber_turns env) of
           None \<Rightarrow> None
         | Some waited \<Rightarrow>
             Some (and_catch waited (\<lambda>_. and_catch (requireDispatchAllowed r (after_wait env)) (\<lambda>_.
               if subscribers_after_wait env = 0
               then Threw_Tools (transientError ''subscriber_wait_timeout''
                      (''no subscriber connected to topic '' @ quoted_name (topic r) @ '' before waitForSubscribersMs elapsed''))
               else Fine ())))))"

definition before_dispatch :: "publish_request \<Rightarrow> publish_env \<Rightarrow> unit caught option" where
  "before_dispatch r env =
     (if \<not> publisher_valid env
      then Some (Threw_Tools (transientError ''publisher_unavailable'' (''ROS1 publisher is not available for topic '' @ quoted_name (topic r))))
      else
        (case wait_for_subscribers r env of
           None \<Rightarrow> None
         | Some waited \<Rightarrow>
             Some (and_catch waited (\<lambda>_.
               if \<not> ok_before env
               then Threw_Tools (transientError ''ros_shutdown'' ''ROS1 is shutting down before the message can be published'')
               else requireDispatchAllowed r (at_dispatch env)))))"

text \<open>The loop (lines 204 to 229): how many times \<^verbatim>\<open>publish\<close> of roscpp was entered, and how the loop ended. \<open>index\<close> counts up.\<close>

fun publish_loop :: "publish_request \<Rightarrow> int \<Rightarrow> publish_turn list \<Rightarrow> nat \<Rightarrow> int \<Rightarrow> nat \<times> unit caught option" where
  "publish_loop r step [] index target = (0, if unat (publish_count r) \<le> index then Some (Fine ()) else None)"
| "publish_loop r step (t # turns) index target =
     (if unat (publish_count r) \<le> index then (0, Some (Fine ()))
      else
        (let target' = (if 0 < index then target + step else target) in
         case (if 0 < index then waitUntil r target' (pauses t) else Some (Fine ())) of
           None \<Rightarrow> (0, None)
         | Some (Fine _) \<Rightarrow>
             if \<not> turn_ok t
             then (0, Some (Threw_Tools (uncertainError ''ros_shutdown_after_dispatch''
                     ''ROS1 shut down after one or more messages may have been published'')))
             else
               (case requireContinuationAllowed r (before_publish t) of
                  Fine _ \<Rightarrow>
                    (case native t of
                       Published \<Rightarrow>
                         (case requireContinuationAllowed r (after_publish t) of
                            Fine _ \<Rightarrow> (let (n, result) = publish_loop r step turns (Suc index) target' in (Suc n, result))
                          | failed \<Rightarrow> (1, Some failed))
                     | Publish_Threw m \<Rightarrow>
                         (1, Some (Threw_Tools (uncertainError ''publish_dispatch_failed'' (''ROS1 topic publish may have been dispatched: '' @ m))))
                     | Publish_Threw_Other \<Rightarrow>
                         (1, Some (Threw_Tools (uncertainError ''publish_dispatch_failed'' ''ROS1 topic publish may have been dispatched''))))
                | failed \<Rightarrow> (0, Some failed))
         | Some failed \<Rightarrow> (0, Some failed)))"

text \<open>After the lease: whether it was given back as committed, the entries into \<^verbatim>\<open>publish\<close>, and the result.\<close>

definition publish_rest :: "publish_request \<Rightarrow> nat \<Rightarrow> publish_env \<Rightarrow> bool \<times> nat \<times> publish_result caught option" where
  "publish_rest r bytes env =
     (case before_dispatch r env of
        None \<Rightarrow> (False, 0, None)
      | Some (Fine _) \<Rightarrow>
          (let (n, ended) = publish_loop r (interval env) (publish_turns env) 0 (first_publish env) in
           (True, n, map_option (\<lambda>v. and_catch v (\<lambda>_.
             Fine \<lparr>result_topic = topic r, result_type = message_type r, serialized_bytes = bytes, published_count = n,
                   subscriber_count = subscribers_at_end env\<rparr>)) ended))
      | Some (Threw_Tools x) \<Rightarrow> (False, 0, Some (Threw_Tools x))
      | Some (Threw_Exception m) \<Rightarrow> (False, 0, Some (Threw_Exception m))
      | Some Threw_Other \<Rightarrow> (False, 0, Some Threw_Other))"

subsection \<open>What a publication did\<close>

fun uncertain_or_fine :: "'a caught \<Rightarrow> bool" where
  "uncertain_or_fine (Fine v) = True"
| "uncertain_or_fine (Threw_Tools e) = (errorClass e = ''uncertain'')"
| "uncertain_or_fine _ = False"

lemma continuation_uncertain: "uncertain_or_fine (requireContinuationAllowed r m)"
  by (simp add: requireContinuationAllowed_def error_defs)

lemma continuation_cases: "requireContinuationAllowed r m = Fine () \<or> (\<exists>e. requireContinuationAllowed r m = Threw_Tools e \<and> errorClass e = ''uncertain'')"
  by (simp add: requireContinuationAllowed_def error_defs)

lemma waitUntil_uncertain: "waitUntil r target turns = Some v \<Longrightarrow> v = Fine () \<or> (\<exists>e. v = Threw_Tools e \<and> errorClass e = ''uncertain'')"
proof (induction r target turns rule: waitUntil.induct)
  case (2 r target now m turns)
  then show ?case using continuation_cases [of r m] by (auto split: if_splits)
qed simp

lemma publish_loop_result:
  "publish_loop r step turns index target = (n, Some v) \<Longrightarrow> index \<le> unat (publish_count r)
   \<Longrightarrow> index + n \<le> unat (publish_count r) \<and> uncertain_or_fine v \<and> (v = Fine () \<longrightarrow> index + n = unat (publish_count r))"
proof (induction r step turns index target arbitrary: n v rule: publish_loop.induct)
  case (2 r step t turns index target)
  show ?case
  proof (cases "unat (publish_count r) \<le> index")
    case False
    let ?target = "if 0 < index then target + step else target"
    let ?wait = "if 0 < index then waitUntil r ?target (pauses t) else Some (Fine ())"
    obtain w where w: "?wait = Some w" using 2(2) False by (auto simp: Let_def split: option.splits)
    have "w = Fine () \<or> (\<exists>e. w = Threw_Tools e \<and> errorClass e = ''uncertain'')"
      using w waitUntil_uncertain [of r ?target "pauses t" w] by (auto split: if_splits)
    then show ?thesis
    proof
      assume fine: "w = Fine ()"
      show ?thesis
      proof (cases "turn_ok t \<and> requireContinuationAllowed r (before_publish t) = Fine () \<and> native t = Published
          \<and> requireContinuationAllowed r (after_publish t) = Fine ()")
        case True
        obtain n' result where run: "publish_loop r step turns (Suc index) ?target = (n', result)" by fastforce
        then have n: "n = Suc n'" "result = Some v"
          using 2(2) False w fine True by (auto simp: Let_def)
        have parts: "\<not> \<not> turn_ok t" "requireContinuationAllowed r (before_publish t) = Fine ()" "native t = Published"
            "requireContinuationAllowed r (after_publish t) = Fine ()"
          using True by auto
        show ?thesis
          using 2(1) [OF False refl w fine parts run [unfolded n(2)]] n(1) False by simp
      next
        case stop: False
        then show ?thesis
          using 2(2) False w fine continuation_cases [of r "before_publish t"] continuation_cases [of r "after_publish t"]
          by (auto simp: Let_def error_defs continuation_uncertain split: native_publish.splits if_splits)
      qed
    next
      assume "\<exists>e. w = Threw_Tools e \<and> errorClass e = ''uncertain''"
      then show ?thesis using 2(2) False w by (auto simp: Let_def)
    qed
  qed (use 2 in auto)
qed (auto split: if_splits)


subsection \<open>The table\<close>

text \<open>The registry and the leases: publications between \<open>publish_begin\<close> and their \<open>release\<close>, with the topic and the entry each holds.\<close>

inductive registry_step :: "registry \<times> (string \<times> nat) list \<Rightarrow> registry \<times> (string \<times> nat) list \<Rightarrow> bool" where
  leased: "publish_begin r m observed serialized advertised s = (s', Fine (e, bytes)) \<Longrightarrow> registry_step (s, ls) (s', (topic r, e) # ls)"
| refused: "publish_begin r m observed serialized advertised s = (s', v) \<Longrightarrow> \<nexists>x. v = Fine x \<Longrightarrow> registry_step (s, ls) (s', ls)"
| released: "(t, e) \<in> set ls \<Longrightarrow> registry_step (s, ls) (release t e committed s, remove1 (t, e) ls)"
| declares: "declare_publisher (c :: publisher_configuration) observed advertised s = (s', v') \<Longrightarrow> registry_step (s, ls) (s', ls)"
| clears: "registry_step (s, ls) (clear_publishers s, ls)"

definition registered :: "registry \<times> (string \<times> nat) list \<Rightarrow> bool" where
  "registered q \<longleftrightarrow> (\<exists>pid maximum s. PublisherRegistry pid maximum = Fine s \<and> registry_step\<^sup>*\<^sup>* (s, []) q)"

definition kept :: "publisher_entry \<Rightarrow> bool" where
  "kept v \<longleftrightarrow> 0 < active_calls v \<or> native_dispatch_committed v \<or> declared v"

text \<open>What holds for the table and the leases, apart from \<open>kept\<close>: it also holds inside \<open>publish_begin\<close>, between \<open>select\<close> and the lease.\<close>

definition table_ok :: "registry \<Rightarrow> (string \<times> nat) list \<Rightarrow> bool" where
  "table_ok s ls \<longleftrightarrow>
     sm_ok (entries s) \<and> length (entries s) \<le> maximum_publishers s
     \<and> (\<forall>t e. sm_find (entries s) t = Some e \<longrightarrow> e < next_entry s)
     \<and> (\<forall>t t' e. sm_find (entries s) t = Some e \<and> sm_find (entries s) t' = Some e \<longrightarrow> t = t')
     \<and> (\<forall>t e. (t, e) \<in> set ls \<longrightarrow> e < next_entry s \<and> (\<forall>t'. sm_find (entries s) t' = Some e \<longrightarrow> t' = t))
     \<and> (\<forall>e < next_entry s. active_calls (heap s e) = count_list (map snd ls) e)"

definition all_kept :: "registry \<Rightarrow> bool" where
  "all_kept s \<longleftrightarrow> (\<forall>t e. sm_find (entries s) t = Some e \<longrightarrow> kept (heap s e))"

lemma no_lease_above: "table_ok s ls \<Longrightarrow> count_list (map snd ls) (next_entry s) = 0"
  by (force simp: table_ok_def count_list_0_iff)

lemma select_table:
  assumes "select c advertised s = (s', v)" "table_ok s ls" "all_kept s"
  shows "table_ok s' ls
    \<and> (case v of Fine e \<Rightarrow> sm_find (entries s') (topic c) = Some e \<and> (\<forall>t e'. sm_find (entries s') t = Some e' \<longrightarrow> e' \<noteq> e \<longrightarrow> kept (heap s' e'))
       | _ \<Rightarrow> all_kept s')"
proof (cases "\<exists>e u. v = Fine e \<and> sm_find (entries s) (topic c) = None \<and> advertised = Fine u")
  case True
  then obtain e where new: "sm_find (entries s) (topic c) = None" and v: "v = Fine e" by blast
  have room: "length (entries s) < maximum_publishers s" and e: "e = next_entry s"
    and s': "s' = (set_entry e \<lparr>entry_type = message_type c, entry_latch = latch c, entry_queue = queue_size c, active_calls = 0,
                           native_dispatch_committed = False, declared = False\<rparr> s)\<lparr>next_entry := Suc e, entries := sm_set (topic c) e (entries s)\<rparr>"
    using assms(1) True v by (auto simp: select_def new Let_def split: if_splits caught.splits)
  have ok: "sm_ok (entries s)" using assms(2) by (simp add: table_ok_def)
  have found: "sm_find (entries s') t = (if t = topic c then Some e else sm_find (entries s) t)" for t
    using ok by (simp add: s' sm_find_set)
  have below: "sm_find (entries s) t = Some x \<Longrightarrow> x < next_entry s" "(t, x) \<in> set ls \<Longrightarrow> x < next_entry s" for t x
    using assms(2) by (auto simp: table_ok_def)
  have "table_ok s' ls"
    using assms(2) ok room new below no_lease_above [OF assms(2)] unfolding table_ok_def found
    by (auto simp: s' e set_entry_def sm_ok_set sm_length_set less_Suc_eq split: if_splits)
  moreover have "\<forall>t e'. sm_find (entries s') t = Some e' \<longrightarrow> e' \<noteq> e \<longrightarrow> kept (heap s' e')"
    using assms(3) unfolding all_kept_def found by (auto simp: s' set_entry_def)
  ultimately show ?thesis using v found by simp
next
  case False
  then have "s' = s \<and> (\<forall>e. v = Fine e \<longrightarrow> sm_find (entries s) (topic c) = Some e)"
    using assms(1) by (auto simp: select_def Let_def split: option.splits if_splits caught.splits)
  then show ?thesis using assms(2,3) by (auto simp: all_kept_def split: caught.splits)
qed

lemma refresh_table:
  "refreshMasterGeneration observed s = (s', v) \<Longrightarrow> table_ok s ls \<Longrightarrow> all_kept s \<Longrightarrow> table_ok s' ls \<and> all_kept s'"
  by (auto simp: refreshMasterGeneration_def table_ok_def all_kept_def split: if_splits)

text \<open>A field of a selected entry changes, and the entry is kept from then on.\<close>

lemma set_kept:
  assumes "\<forall>t e'. sm_find (entries s) t = Some e' \<longrightarrow> e' \<noteq> e \<longrightarrow> kept (heap s e')" "kept v"
  shows "all_kept (set_entry e v s)"
  using assms by (auto simp: all_kept_def set_entry_def)

lemma lease_table:
  assumes "table_ok s ls" "sm_find (entries s) t = Some e"
  shows "table_ok (set_entry e ((heap s e)\<lparr>active_calls := Suc (active_calls (heap s e))\<rparr>) s) ((t, e) # ls)"
  using assms by (auto simp: table_ok_def set_entry_def)

lemma begin_table:
  assumes "publish_begin r m observed serialized advertised s = (s', v)" "table_ok s ls" "all_kept s"
  shows "all_kept s' \<and> table_ok s' (case v of Fine (e, bytes) \<Rightarrow> (topic r, e) # ls | _ \<Rightarrow> ls)"
proof -
  obtain s1 v1 where one: "refreshMasterGeneration observed s = (s1, v1)" by fastforce
  have ok1: "table_ok s1 ls" "all_kept s1" using refresh_table [OF one assms(2,3)] by auto
  obtain s2 v2 where two: "select r advertised s1 = (s2, v2)" by fastforce
  note ok2 = select_table [OF two ok1]
  have "(\<exists>e bytes. v2 = Fine e \<and> v = Fine (e, bytes) \<and> s' = set_entry e ((heap s2 e)\<lparr>active_calls := Suc (active_calls (heap s2 e))\<rparr>) s2)
      \<or> (\<nexists>x. v = Fine x) \<and> (s' = s \<or> s' = s1 \<or> s' = s2 \<and> (\<nexists>x. v2 = Fine x))"
    using assms(1) one two by (auto simp: publish_begin_def split: caught.splits option.splits prod.splits)
  then show ?thesis
  proof (elim disjE exE conjE)
    fix e bytes
    assume e: "v2 = Fine e" "v = Fine (e, bytes)" "s' = set_entry e ((heap s2 e)\<lparr>active_calls := Suc (active_calls (heap s2 e))\<rparr>) s2"
    have "kept ((heap s2 e)\<lparr>active_calls := Suc (active_calls (heap s2 e))\<rparr>)" by (simp add: kept_def)
    then show ?thesis using ok2 e set_kept [of s2 e] lease_table [of s2 ls "topic r" e] by auto
  qed (use assms(2,3) ok1 ok2 in \<open>auto split: caught.splits\<close>)
qed

lemma declare_table:
  assumes "declare_publisher c observed advertised s = (s', v)" "table_ok s ls" "all_kept s"
  shows "all_kept s' \<and> table_ok s' ls"
proof -
  obtain s1 v1 where one: "refreshMasterGeneration observed s = (s1, v1)" by fastforce
  have ok1: "table_ok s1 ls" "all_kept s1" using refresh_table [OF one assms(2,3)] by auto
  obtain s2 v2 where two: "select c advertised s1 = (s2, v2)" by fastforce
  note ok2 = select_table [OF two ok1]
  have "(\<exists>e. v2 = Fine e \<and> s' = set_entry e ((heap s2 e)\<lparr>declared := True\<rparr>) s2) \<or> s' = s1 \<or> s' = s2 \<and> (\<nexists>x. v2 = Fine x)"
    using assms(1) one two by (auto simp: declare_publisher_def split: caught.splits)
  then show ?thesis
  proof (elim disjE exE conjE)
    fix e
    assume e: "v2 = Fine e" "s' = set_entry e ((heap s2 e)\<lparr>declared := True\<rparr>) s2"
    have "kept ((heap s2 e)\<lparr>declared := True\<rparr>)" by (simp add: kept_def)
    moreover have "table_ok s' ls" using ok2 e by (auto simp: table_ok_def set_entry_def)
    ultimately show ?thesis using ok2 e set_kept [of s2 e] by auto
  qed (use ok1 ok2 in \<open>auto split: caught.splits\<close>)
qed

lemma count_remove1: "(t, e) \<in> set ls \<Longrightarrow> count_list (map snd (remove1 (t, e) ls)) e' = count_list (map snd ls) e' - (if e' = e then 1 else 0)"
proof (induction ls)
  case (Cons a ls)
  have "0 < count_list (map snd ls) e" if "(t, e) \<in> set ls" 
  proof -
    have "e \<in> set (map snd ls)" using that by force
    then show ?thesis by (simp add: count_list_0_iff flip: neq0_conv)
  qed
  then show ?case using Cons by (auto split: if_splits)
qed simp

lemma table_erase: "table_ok s ls \<Longrightarrow> table_ok (s\<lparr>entries := sm_erase t (entries s)\<rparr>) ls"
  by (simp add: table_ok_def sm_find_erase sm_ok_erase sm_length_erase) linarith

lemma table_fewer_leases:
  assumes "table_ok s ls" "\<And>t e. (t, e) \<in> set ls' \<Longrightarrow> (t, e) \<in> set ls"
    and "\<forall>e < next_entry s. active_calls (heap (s\<lparr>heap := h\<rparr>) e) = count_list (map snd ls') e"
  shows "table_ok (s\<lparr>heap := h\<rparr>) ls'"
proof -
  have "\<forall>t e. (t, e) \<in> set ls' \<longrightarrow> e < next_entry s \<and> (\<forall>t'. sm_find (entries s) t' = Some e \<longrightarrow> t' = t)"
    using assms(1,2) unfolding table_ok_def by blast
  then show ?thesis using assms(1,3) unfolding table_ok_def by simp
qed

lemma release_table:
  assumes "table_ok s ls" "all_kept s" "(t, e) \<in> set ls"
  shows "all_kept (release t e committed s) \<and> table_ok (release t e committed s) (remove1 (t, e) ls)"
proof -
  let ?v = "(heap s e)\<lparr>active_calls := active_calls (heap s e) - 1, native_dispatch_committed := native_dispatch_committed (heap s e) \<or> committed\<rparr>"
  let ?drop = "sm_find (entries s) t = Some e \<and> \<not> kept ?v"
  have form: "release t e committed s = (if ?drop then (set_entry e ?v s)\<lparr>entries := sm_erase t (entries s)\<rparr> else set_entry e ?v s)"
    by (auto simp: release_def Let_def kept_def)
  have ok: "sm_ok (entries s)" using assms(1) by (simp add: table_ok_def)
  have only: "sm_find (entries s) t' = Some e \<Longrightarrow> t' = t" for t' using assms(1,3) by (auto simp: table_ok_def)
  have others: "sm_find (entries s) t' = Some e' \<Longrightarrow> kept (heap s e')" for t' e' using assms(2) by (auto simp: all_kept_def)
  have counts: "\<forall>e' < next_entry s. active_calls (heap (set_entry e ?v s) e') = count_list (map snd (remove1 (t, e) ls)) e'"
    using assms(1,3) by (auto simp: table_ok_def set_entry_def count_remove1)
  have leases: "(t', e') \<in> set (remove1 (t, e) ls) \<Longrightarrow> (t', e') \<in> set ls" for t' e'
    using set_remove1_subset by fast
  have all: "all_kept (release t e committed s)"
    using only others ok unfolding form by (auto simp: all_kept_def set_entry_def sm_find_erase)
  have "table_ok (set_entry e ?v s) (remove1 (t, e) ls)"
    using table_fewer_leases [OF assms(1) leases counts [unfolded set_entry_def]] by (simp only: set_entry_def)
  then have "table_ok (release t e committed s) (remove1 (t, e) ls)"
    using table_erase [of "set_entry e ?v s" _ t] unfolding form by (simp add: set_entry_def)
  then show ?thesis using all by simp
qed

lemma registry_step_table:
  assumes "registry_step q q'" "table_ok (fst q) (snd q)" "all_kept (fst q)"
  shows "table_ok (fst q') (snd q') \<and> all_kept (fst q')"
  using assms
proof cases
  case (leased r m observed serialized advertised s s' e bytes ls)
  then show ?thesis using begin_table [OF leased(3)] assms(2,3) by simp
next
  case (refused r m observed serialized advertised s s' v ls)
  then show ?thesis using begin_table [OF refused(3)] assms(2,3) by (cases v) auto
next
  case (released t e ls s committed)
  then show ?thesis using release_table [of s ls t e committed] assms(2,3) by simp
next
  case (declares c observed advertised s s' v' ls)
  then show ?thesis using declare_table [OF declares(3)] assms(2,3) by simp
qed (use assms(2,3) in \<open>auto simp: clear_publishers_def table_ok_def all_kept_def\<close>)

lemma registered_table: "registered q \<Longrightarrow> table_ok (fst q) (snd q) \<and> all_kept (fst q)"
proof -
  assume "registered q"
  then obtain pid maximum s where start: "PublisherRegistry pid maximum = Fine s" and steps: "registry_step\<^sup>*\<^sup>* (s, []) q"
    by (auto simp: registered_def)
  have "table_ok s [] \<and> all_kept s"
    using start by (auto simp: PublisherRegistry_def table_ok_def all_kept_def split: if_splits)
  with steps show ?thesis
    by (induction rule: rtranclp_induct) (simp_all add: registry_step_table)
qed

text \<open>C28: The cache of publishers, after any interleaving of publications, declarations and clearings: it holds at most the configured number of
  entries, an entry's counter is the number of publications that hold it, and every cached entry is in use, declared, or was dispatched to: a topic whose
  publications all failed before dispatch leaves nothing behind.\<close>

theorem publisher_table_exact:
  assumes "registered (s, ls)"
  shows "size_publishers s \<le> maximum_publishers s
    \<and> (\<forall>t e. sm_find (entries s) t = Some e \<longrightarrow>
         active_calls (heap s e) = count_list (map snd ls) e
         \<and> (e \<in> snd ` set ls \<or> native_dispatch_committed (heap s e) \<or> declared (heap s e)))"
proof -
  have ok: "table_ok s ls" "all_kept s" using registered_table [OF assms] by simp_all
  have exact: "active_calls (heap s e) = count_list (map snd ls) e" if "sm_find (entries s) t = Some e" for t e
    using ok(1) that by (auto simp: table_ok_def)
  moreover have "e \<in> snd ` set ls \<or> native_dispatch_committed (heap s e) \<or> declared (heap s e)" if "sm_find (entries s) t = Some e" for t e
  proof -
    have "kept (heap s e)" using ok(2) that by (auto simp: all_kept_def)
    then show ?thesis using exact [OF that] count_list_0_iff [of "map snd ls" e] by (auto simp: kept_def)
  qed
  moreover have "size_publishers s \<le> maximum_publishers s" using ok(1) by (simp add: table_ok_def size_publishers_def)
  ultimately show ?thesis by blast
qed

definition demo_publish :: publish_request where
  "demo_publish = \<lparr>topic = ''/t'', message_type = ''m'', latch = False, queue_size = 1, publish_count = 2, wait_for_subscribers_ms = 0,
     publish_deadline = 0\<rparr>"

definition demo_registry :: registry where
  "demo_registry = (case PublisherRegistry 5 1 of Fine s \<Rightarrow> s)"

abbreviation quiet_moment :: moment where
  "quiet_moment \<equiv> \<lparr>cancelled_now = False, unix_now = 0, steady_now = 0\<rparr>"

lemma demo_lease:
  "registered (fst (publish_begin demo_publish quiet_moment 5 (Fine (Some 3)) (Fine ()) demo_registry), [(''/t'', 0)])"
proof -
  have start: "PublisherRegistry 5 1 = Fine demo_registry" by (simp add: demo_registry_def PublisherRegistry_def)
  have "snd (publish_begin demo_publish quiet_moment 5 (Fine (Some 3)) (Fine ()) demo_registry) = Fine (0, 3)"
    by (simp add: publish_begin_def requireDispatchAllowed_def deadlineExpired_def demo_publish_def demo_registry_def PublisherRegistry_def
        refreshMasterGeneration_def select_def)
  then have run: "publish_begin demo_publish quiet_moment 5 (Fine (Some 3)) (Fine ()) demo_registry
      = (fst (publish_begin demo_publish quiet_moment 5 (Fine (Some 3)) (Fine ()) demo_registry), Fine (0, 3))"
    by (simp only: prod_eq_iff fst_conv snd_conv)
  have "topic demo_publish = ''/t''" by (simp add: demo_publish_def)
  then show ?thesis
    using start r_into_rtranclp [of registry_step, OF leased [OF run, of "[]"]] unfolding registered_def by metis
qed

theorem publisher_table_exact_witness:
  "size_publishers (fst (publish_begin demo_publish quiet_moment 5 (Fine (Some 3)) (Fine ()) demo_registry)) \<le> 1"
proof -
  have "maximum_publishers (fst (publish_begin demo_publish quiet_moment 5 (Fine (Some 3)) (Fine ()) demo_registry)) = 1"
    by (simp add: publish_begin_def requireDispatchAllowed_def deadlineExpired_def demo_publish_def demo_registry_def PublisherRegistry_def
        refreshMasterGeneration_def select_def set_entry_def)
  then show ?thesis using publisher_table_exact [OF demo_lease] by simp
qed

text \<open>A publication of two messages.\<close>

definition demo_publish_env :: publish_env where
  "demo_publish_env =
     \<lparr>publisher_valid = True, wait_started = 0, subscriber_turns = [], after_wait = quiet_moment, subscribers_after_wait = 1, ok_before = True,
      at_dispatch = quiet_moment, first_publish = 0, interval = 10,
      publish_turns = [\<lparr>pauses = [], turn_ok = True, before_publish = quiet_moment, native = Published, after_publish = quiet_moment\<rparr>,
                       \<lparr>pauses = [(10, quiet_moment)], turn_ok = True, before_publish = quiet_moment, native = Published, after_publish = quiet_moment\<rparr>],
      subscribers_at_end = 1\<rparr>"


end
