(* ===== verification/Ros_Calls.thy ===== *)
theory Ros_Calls
  imports Json "HOL-Library.Code_Target_Nat"
begin

section \<open>Service calls on the command loop\<close>

text \<open>
  \<^verbatim>\<open>async_ros_services.cpp\<close> of \<^verbatim>\<open>src/common\<close>: the narrow TCPROS client of the multirotor adapter. A call looks its service up at the ROS master,
  connects, exchanges headers, sends the request and reads the response; all calls share one loop. Each method of \<^verbatim>\<open>Call\<close> is a function on the
  record \<open>ros_call\<close>, and what a socket, the resolver or the clock does is an argument of the step that meets it. c-ares, the XML-RPC parser
  and the kernel are such arguments. A string is its bytes; lengths are far below \<open>2\<^sup>3\<^sup>2\<close> and do not wrap.
\<close>

subsection \<open>Bytes and addresses\<close>

abbreviation maximum_frame :: nat where
  "maximum_frame \<equiv> 1024 * 1024"

definition u32 :: "nat \<Rightarrow> string" where
  "u32 v = map (\<lambda>i. char_of (v div 256 ^ i mod 256)) [0..<4]"

definition read32 :: "string \<Rightarrow> nat" where
  "read32 bytes = (\<Sum>i<4. of_char (bytes ! i) * 256 ^ i)"

definition framed :: "string \<Rightarrow> string" where
  "framed bytes = u32 (length bytes mod 2 ^ 32) @ bytes"

definition xmlEscape :: "string \<Rightarrow> string" where
  "xmlEscape s = concat (map (\<lambda>c. if c = CHR ''&'' then ''&amp;'' else if c = CHR ''<'' then ''&lt;'' else if c = CHR ''>'' then ''&gt;'' else [c]) s)"

record net_address =
  host :: string
  path :: string
  port :: nat

definition parseAddress :: "string \<Rightarrow> string \<Rightarrow> net_address option" where
  "parseAddress uri scheme =
     (let prefix = scheme @ ''://''; rest = drop (length prefix) uri;
          authority = takeWhile (\<lambda>c. c \<noteq> CHR ''/'') rest; tail = dropWhile (\<lambda>c. c \<noteq> CHR ''/'') rest;
          port_text = rev (takeWhile (\<lambda>c. c \<noteq> CHR '':'') (rev authority));
          host_text = take (length authority - length port_text - 1) authority;
          name = (if host_text \<noteq> [] \<and> hd host_text = CHR ''['' \<and> List.last host_text = CHR '']'' then butlast (tl host_text) else host_text)
      in if take (length prefix) uri \<noteq> prefix then None
         else if CHR '':'' \<notin> set authority \<or> host_text = [] then None
         else if port_text = [] \<or> 5 < length port_text \<or> \<not> list_all digit port_text then None
         else if digits_value port_text = 0 \<or> 65535 < digits_value port_text then None
         else if name = [] \<or> 253 < length name then None
         else Some \<lparr>host = name, path = (if tail = [] then ''/'' else tail), port = digits_value port_text\<rparr>)"

text \<open>The position of the first occurrence.\<close>

fun find_text :: "string \<Rightarrow> string \<Rightarrow> nat option" where
  "find_text p [] = (if p = [] then Some 0 else None)"
| "find_text p (c # s) = (if take (length p) (c # s) = p then Some 0 else map_option Suc (find_text p s))"

subsection \<open>A call\<close>

datatype ros_stage =
    ResolveMaster | ConnectMaster | WriteMaster | ReadMaster
  | ResolveService | ConnectService | WriteHeader | ReadHeader | WriteRequest | ReadResponse

datatype call_outcome = Response | NotSent | Deadline | Cancelled | Unknown

record ros_result =
  outcome :: call_outcome
  response :: string
  detail :: string

record ros_request =
  master_uri :: string
  caller_id :: string
  service_name :: string
  request_type :: string
  md5 :: string
  request_bytes :: string
  master_xml :: string
  request_deadline :: int

text \<open>Sockets and resolver channels are open or not; a socket address is a number. \<open>handed\<close> says that \<^verbatim>\<open>finish\<close> gave the socket back for the next request to the
  master, \<open>wire\<close> records the bytes of the request that the service's socket took, and \<open>answered_by\<close> the header fields of the service.\<close>

record ros_call =
  request :: ros_request
  stage :: ros_stage
  address :: net_address
  resolver :: bool
  fd :: bool
  addresses :: "nat list"
  next_address :: nat
  send :: string
  received :: string
  sent :: nat
  resolve_done :: bool
  request_sent :: bool
  finished :: bool
  ipv6_query :: bool
  master_keepalive :: bool
  result :: ros_result
  handed :: bool
  wire :: string
  answered_by :: "(string \<times> string) list"

definition new_call :: "ros_request \<Rightarrow> ros_call" where
  "new_call r =
     \<lparr>request = r, stage = ResolveMaster, address = \<lparr>host = [], path = [], port = 0\<rparr>, resolver = False, fd = False, addresses = [], next_address = 0,
      send = [], received = [], sent = 0, resolve_done = False, request_sent = False, finished = False, ipv6_query = False, master_keepalive = False,
      result = \<lparr>outcome = NotSent, response = [], detail = []\<rparr>, handed = False, wire = [], answered_by = []\<rparr>"

text \<open>\<open>free\<close>: the owner holds no socket to the master.\<close>

definition finish_call :: "bool \<Rightarrow> call_outcome \<Rightarrow> string \<Rightarrow> string \<Rightarrow> ros_call \<Rightarrow> ros_call" where
  "finish_call free how d text_of c =
     (if finished c then c
      else c\<lparr>finished := True,
             result := \<lparr>outcome = (if request_sent c \<and> how \<noteq> Response then Unknown else how), response = text_of, detail = d\<rparr>,
             handed := (fd c \<and> how = Response \<and> master_keepalive c \<and> master_xml (request c) \<noteq> [] \<and> free),
             fd := False, resolver := False\<rparr>)"

definition not_sent :: "string \<Rightarrow> ros_call \<Rightarrow> ros_call" where
  "not_sent d c = finish_call False NotSent d [] c"

text \<open>The resolver's answer: the addresses it found, none when it failed.\<close>

definition resolved :: "nat list \<Rightarrow> ros_call \<Rightarrow> ros_call" where
  "resolved found c = (if finished c then c else c\<lparr>addresses := addresses c @ found, resolve_done := True\<rparr>)"

text \<open>\<open>numeric\<close> is the address when the host is one; the others are what c-ares says.\<close>

definition resolve :: "nat option \<Rightarrow> bool \<Rightarrow> bool \<Rightarrow> bool \<Rightarrow> ros_call \<Rightarrow> ros_call" where
  "resolve numeric channel_ok servers_ok master c =
     (let c1 = c\<lparr>stage := (if master then ResolveMaster else ResolveService), addresses := [], next_address := 0, resolve_done := False, ipv6_query := False\<rparr>
      in case numeric of
           Some a \<Rightarrow> c1\<lparr>addresses := [a], resolve_done := True\<rparr>
         | None \<Rightarrow>
             if \<not> channel_ok then not_sent ''DNS channel initialization failed'' c1
             else if \<not> servers_ok then not_sent ''invalid resolver server'' (c1\<lparr>resolver := True\<rparr>)
             else c1\<lparr>resolver := True\<rparr>)"

text \<open>\<open>works a\<close>: a socket for the address opens and its connection starts.\<close>

function connect_from :: "(nat \<Rightarrow> bool) \<Rightarrow> bool \<Rightarrow> ros_call \<Rightarrow> ros_call" where
  "connect_from works master c =
     (if length (addresses c) \<le> next_address c then not_sent ''connection failed'' c
      else
        (let c1 = c\<lparr>next_address := Suc (next_address c)\<rparr> in
         if works (addresses c ! next_address c)
         then c1\<lparr>fd := True, stage := (if master then ConnectMaster else ConnectService)\<rparr>
         else connect_from works master c1))"
  by auto
termination
  by (relation "measure (\<lambda>(works, master, c). length (addresses c) - next_address c)") auto

declare connect_from.simps [simp del]

definition connectNext :: "(nat \<Rightarrow> bool) \<Rightarrow> bool \<Rightarrow> ros_call \<Rightarrow> ros_call" where
  "connectNext works master c = connect_from works master (c\<lparr>fd := False\<rparr>)"

definition prepareSend :: "string \<Rightarrow> ros_stage \<Rightarrow> ros_call \<Rightarrow> ros_call" where
  "prepareSend bytes following c = c\<lparr>send := bytes, sent := 0, received := [], stage := following\<rparr>"

abbreviation crlf :: string where
  "crlf \<equiv> [CHR 0x0D, CHR 0x0A]"

definition lookup_body :: "ros_request \<Rightarrow> string" where
  "lookup_body r =
     ''<?xml version='' @ [CHR 0x22] @ ''1.0'' @ [CHR 0x22] @ ''?><methodCall><methodName>lookupService</methodName><params>''
     @ ''<param><value><string>'' @ xmlEscape (caller_id r) @ ''</string></value></param>''
     @ ''<param><value><string>'' @ xmlEscape (service_name r) @ ''</string></value></param>''
     @ ''</params></methodCall>''"

definition master_post :: "net_address \<Rightarrow> ros_request \<Rightarrow> string" where
  "master_post a r =
     (let body = (if master_xml r \<noteq> [] then master_xml r else lookup_body r)
      in ''POST '' @ path a @ '' HTTP/1.1'' @ crlf @ ''Host: '' @ host a @ crlf @ ''Content-Type: text/xml'' @ crlf @ ''Connection: ''
         @ (if master_xml r = [] then ''close'' else ''keep-alive'') @ crlf @ ''Content-Length: '' @ show_nat (length body) @ crlf @ crlf @ body)"

definition header_fields :: "ros_request \<Rightarrow> string list" where
  "header_fields r = [''callerid='' @ caller_id r, ''service='' @ service_name r, ''md5sum='' @ md5 r, ''type='' @ request_type r, ''persistent=0'']"

definition connected :: "bool \<Rightarrow> (nat \<Rightarrow> bool) \<Rightarrow> ros_call \<Rightarrow> ros_call" where
  "connected failed works c =
     (if failed then connectNext works (stage c = ConnectMaster) c
      else if stage c = ConnectMaster then prepareSend (master_post (address c) (request c)) WriteMaster c
      else prepareSend (framed (concat (map framed (header_fields (request c))))) WriteHeader c)"

text \<open>A \<^verbatim>\<open>send\<close> takes \<open>k + 1\<close> bytes or all that are left, is interrupted, would block, or fails.\<close>

datatype net_send = Took nat | Send_Interrupted | Send_Blocked | Send_Broken

definition next_stage :: "ros_stage \<Rightarrow> ros_stage" where
  "next_stage s = (if s = WriteMaster then ReadMaster else if s = WriteHeader then ReadHeader else ReadResponse)"

fun write_call :: "net_send list \<Rightarrow> ros_call \<Rightarrow> ros_call" where
  "write_call events c =
     (if length (send c) \<le> sent c then c\<lparr>stage := next_stage (stage c), send := [], received := []\<rparr>
      else
        (case events of
           [] \<Rightarrow> c
         | Took k # later \<Rightarrow>
             (let chunk = take (Suc k) (drop (sent c) (send c)) in
              write_call later
                (c\<lparr>sent := sent c + length chunk, request_sent := (request_sent c \<or> stage c = WriteRequest),
                   wire := (if stage c = WriteRequest then wire c @ chunk else wire c)\<rparr>))
         | Send_Interrupted # later \<Rightarrow> write_call later c
         | Send_Blocked # later \<Rightarrow> c
         | Send_Broken # later \<Rightarrow> not_sent ''socket write failed'' c))"

declare write_call.simps [simp del]

subsection \<open>Reading\<close>

text \<open>The answer of the XML-RPC parser to a lookup: the service's URI, anything else, or an exception.\<close>

datatype lookup = Lookup_Uri string | Lookup_Other | Lookup_Threw

text \<open>What the resolver meets when the service's address is resolved in turn.\<close>

record resolve_env =
  numeric_of :: "nat option"
  channel_made :: bool
  servers_set :: bool

definition content_length :: "string \<Rightarrow> string option" where
  "content_length headers =
     (case find_text (crlf @ ''content-length:'') headers of
        None \<Rightarrow> None
      | Some start \<Rightarrow>
          (let rest = dropWhile (\<lambda>c. c = CHR '' '') (drop (start + 17) headers)
           in Some (case find_text crlf rest of None \<Rightarrow> rest | Some n \<Rightarrow> take n rest)))"

definition master_body :: "bool \<Rightarrow> (string \<Rightarrow> lookup) \<Rightarrow> resolve_env \<Rightarrow> string \<Rightarrow> ros_call \<Rightarrow> ros_call" where
  "master_body free xmlrpc env xml c =
     (if master_xml (request c) \<noteq> [] then finish_call free Response ''ROS master response'' xml c
      else if find_text ''<value>'' xml = None then not_sent ''invalid XMLRPC response'' c
      else
        (case xmlrpc xml of
           Lookup_Threw \<Rightarrow> not_sent ''malformed XMLRPC response'' c
         | Lookup_Other \<Rightarrow> not_sent ''ROS service lookup failed'' c
         | Lookup_Uri uri \<Rightarrow>
             (case parseAddress uri ''rosrpc'' of
                None \<Rightarrow> not_sent ''ROS service lookup failed'' c
              | Some a \<Rightarrow> resolve (numeric_of env) (channel_made env) (servers_set env) False (c\<lparr>address := a, fd := False, received := []\<rparr>))))"

definition parseMaster :: "bool \<Rightarrow> (string \<Rightarrow> lookup) \<Rightarrow> resolve_env \<Rightarrow> ros_call \<Rightarrow> ros_call" where
  "parseMaster free xmlrpc env c =
     (case find_text (crlf @ crlf) (received c) of
        None \<Rightarrow> c
      | Some end_of \<Rightarrow>
          if take 12 (received c) \<noteq> ''HTTP/1.1 200'' \<and> take 12 (received c) \<noteq> ''HTTP/1.0 200'' then not_sent ''ROS master HTTP error'' c
          else
            (let headers = map tolower (take end_of (received c));
                 c1 = c\<lparr>master_keepalive := (take 8 (received c) = ''HTTP/1.1'' \<and> find_text ''connection: close'' headers = None)\<rparr>
             in case content_length headers of
                  None \<Rightarrow> not_sent ''master response lacks length'' c1
                | Some digits \<Rightarrow>
                    if digits = [] \<or> 7 < length digits \<or> \<not> list_all digit digits then not_sent ''invalid master response length'' c1
                    else if maximum_frame < digits_value digits then not_sent ''master response too large'' c1
                    else if length (received c) < end_of + 4 + digits_value digits then c1
                    else master_body free xmlrpc env (take (digits_value digits) (drop (end_of + 4) (received c))) c1))"

text \<open>The fields of a header: each has its length before it; a name occurs once.\<close>

function parse_fields :: "string \<Rightarrow> (string \<times> string) list \<Rightarrow> string + (string \<times> string) list" where
  "parse_fields body named =
     (if body = [] then Inr named
      else if length body < 4 then Inl ''truncated TCPROS field''
      else
        (let n = read32 body; rest = drop 4 body in
         if length rest < n then Inl ''invalid TCPROS field length''
         else
           (let field = take n rest; name = takeWhile (\<lambda>c. c \<noteq> CHR ''='') field in
            if CHR ''='' \<notin> set field \<or> map_of named name \<noteq> None then Inl ''invalid TCPROS header field''
            else parse_fields (drop n rest) (named @ [(name, drop (Suc (length name)) field)]))))"
  by auto
termination
  by (relation "measure (\<lambda>(body, named). length body)") auto

declare parse_fields.simps [simp del]

text \<open>\<^verbatim>\<open>named[k]\<close> of a missing field is the empty text.\<close>

definition field_of :: "(string \<times> string) list \<Rightarrow> string \<Rightarrow> string" where
  "field_of named k = (case map_of named k of Some v \<Rightarrow> v | None \<Rightarrow> [])"

definition parseHeader :: "ros_call \<Rightarrow> ros_call" where
  "parseHeader c =
     (if length (received c) < 4 then c
      else
        (let n = read32 (received c) in
         if maximum_frame < n then not_sent ''TCPROS header too large'' c
         else if length (received c) < n + 4 then c
         else
           (case parse_fields (take n (drop 4 (received c))) [] of
              Inl d \<Rightarrow> not_sent d c
            | Inr named \<Rightarrow>
                if map_of named ''error'' \<noteq> None \<or> field_of named ''md5sum'' \<noteq> md5 (request c) \<or> field_of named ''type'' \<noteq> request_type (request c)
                then not_sent ''TCPROS service type/MD5 mismatch'' c
                else (prepareSend (framed (request_bytes (request c))) WriteRequest c)\<lparr>answered_by := named\<rparr>)))"

definition parseResponse :: "bool \<Rightarrow> ros_call \<Rightarrow> ros_call" where
  "parseResponse free c =
     (if length (received c) < 5 then c
      else
        (let n = read32 (drop 1 (received c)) in
         if maximum_frame < n then finish_call free Unknown ''TCPROS response too large'' [] c
         else if length (received c) < n + 5 then c
         else if hd (received c) \<noteq> CHR 0x01 then finish_call free Unknown ''native service reported an error'' [] c
         else finish_call free Response ''native response'' (take n (drop 5 (received c))) c))"

datatype net_recv = Got string | Recv_Interrupted | Recv_Blocked | Recv_Broken

definition parse_call :: "bool \<Rightarrow> (string \<Rightarrow> lookup) \<Rightarrow> resolve_env \<Rightarrow> ros_call \<Rightarrow> ros_call" where
  "parse_call free xmlrpc env c =
     (if stage c = ReadMaster then parseMaster free xmlrpc env c
      else if stage c = ReadHeader then parseHeader c
      else parseResponse free c)"

fun read_call :: "bool \<Rightarrow> (string \<Rightarrow> lookup) \<Rightarrow> resolve_env \<Rightarrow> net_recv list \<Rightarrow> ros_call \<Rightarrow> ros_call" where
  "read_call free xmlrpc env [] c = c"
| "read_call free xmlrpc env (Got chunk # later) c =
     (if maximum_frame + 16384 < length (received c) + length chunk then not_sent ''response exceeds frame limit'' c
      else
        (let c1 = parse_call free xmlrpc env (c\<lparr>received := received c @ chunk\<rparr>) in
         if finished c1 \<or> stage c1 \<noteq> stage c then c1 else read_call free xmlrpc env later c1))"
| "read_call free xmlrpc env (Recv_Interrupted # later) c = read_call free xmlrpc env later c"
| "read_call free xmlrpc env (Recv_Blocked # later) c = c"
| "read_call free xmlrpc env (Recv_Broken # later) c = not_sent ''socket closed before complete response'' c"

subsection \<open>Steps of a call\<close>

text \<open>What \<^verbatim>\<open>Pump\<close>, c-ares and \<^verbatim>\<open>Cancel\<close> do to a call.\<close>

definition expire :: "ros_call \<Rightarrow> ros_call" where
  "expire c = finish_call False Deadline ''absolute service deadline expired'' [] c"

definition cancel_call :: "ros_call \<Rightarrow> ros_call" where
  "cancel_call c = finish_call False Cancelled ''local I/O cancelled'' [] c"

definition resolving :: "ros_call \<Rightarrow> bool" where
  "resolving c \<longleftrightarrow> stage c = ResolveMaster \<or> stage c = ResolveService"

definition pump_resolved :: "(nat \<Rightarrow> bool) \<Rightarrow> ros_call \<Rightarrow> ros_call" where
  "pump_resolved works c =
     (if addresses c = [] \<and> resolver c \<and> \<not> ipv6_query c then c\<lparr>ipv6_query := True, resolve_done := False\<rparr>
      else if addresses c = [] then not_sent ''DNS lookup failed'' c
      else connectNext works (stage c = ResolveMaster) (c\<lparr>resolver := False\<rparr>))"

definition pump_ready :: "bool \<Rightarrow> bool \<Rightarrow> (nat \<Rightarrow> bool) \<Rightarrow> net_send list \<Rightarrow> (string \<Rightarrow> lookup) \<Rightarrow> resolve_env \<Rightarrow> net_recv list \<Rightarrow> ros_call \<Rightarrow> ros_call" where
  "pump_ready free failed works sends xmlrpc env gets c =
     (if stage c = ConnectMaster \<or> stage c = ConnectService then connected failed works c
      else if stage c = WriteMaster \<or> stage c = WriteHeader \<or> stage c = WriteRequest then write_call sends c
      else read_call free xmlrpc env gets c)"

inductive call_step :: "bool \<Rightarrow> ros_call \<Rightarrow> ros_call \<Rightarrow> bool" for free :: bool where
  expired: "\<not> finished c \<Longrightarrow> call_step free c (expire c)"
| cancelled: "call_step free c (cancel_call c)"
| answered: "resolver c \<Longrightarrow> call_step free c (resolved found_at c)"
| found: "\<not> finished c \<Longrightarrow> resolving c \<Longrightarrow> resolve_done c \<Longrightarrow> call_step free c (pump_resolved works c)"
| ready: "\<not> finished c \<Longrightarrow> fd c \<Longrightarrow> \<not> resolving c \<Longrightarrow> call_step free c (pump_ready free failed works sends xmlrpc env gets c)"

text \<open>What one round of \<^verbatim>\<open>Pump\<close> meets at a call: the clock at its three loops, whether its descriptors are ready, what c-ares answers while it is
  given the descriptor and in the last loop, and what the socket does.\<close>

record pump_event =
  now_first :: int
  now_ready :: int
  now_last :: int
  polled :: bool
  dns_ready :: "nat list option"
  dns_last :: "nat list option"
  connects :: "nat \<Rightarrow> bool"
  socket_error :: bool
  socket_sends :: "net_send list"
  socket_gets :: "net_recv list"
  parser :: "string \<Rightarrow> lookup"
  resolves :: resolve_env

definition past :: "int \<Rightarrow> ros_call \<Rightarrow> bool" where
  "past t c \<longleftrightarrow> request_deadline (request c) \<le> t"

definition dns_answer :: "nat list option \<Rightarrow> ros_call \<Rightarrow> ros_call" where
  "dns_answer answer c = (case answer of None \<Rightarrow> c | Some found_at \<Rightarrow> resolved found_at c)"

definition pump_first :: "pump_event \<Rightarrow> bool \<Rightarrow> ros_call \<Rightarrow> ros_call" where
  "pump_first e free c =
     (if finished c then c
      else if past (now_first e) c then expire c
      else if resolving c \<and> resolve_done c then pump_resolved (connects e) c
      else c)"

definition pump_polled :: "pump_event \<Rightarrow> bool \<Rightarrow> ros_call \<Rightarrow> ros_call" where
  "pump_polled e free c =
     (if finished c \<or> (\<not> resolver c \<and> \<not> fd c) \<or> \<not> polled e then c
      else if past (now_ready e) c then expire c
      else if resolver c then dns_answer (dns_ready e) c
      else pump_ready free (socket_error e) (connects e) (socket_sends e) (parser e) (resolves e) (socket_gets e) c)"

definition pump_last :: "pump_event \<Rightarrow> bool \<Rightarrow> ros_call \<Rightarrow> ros_call" where
  "pump_last e free c =
     (if finished c then c
      else if past (now_last e) c then expire c
      else if resolver c then dns_answer (dns_last e) c
      else c)"

subsection \<open>All calls\<close>

text \<open>\<open>completed\<close> records the calls whose completion was run, with their results.\<close>

record ros_services =
  calls :: "(nat, ros_call) std_map"
  master_fd :: bool
  kept_uri :: string
  next_id :: nat
  completed :: "(nat \<times> ros_call) list"

definition no_services :: ros_services where
  "no_services = \<lparr>calls = [], master_fd = False, kept_uri = [], next_id = 0, completed = []\<rparr>"

text \<open>\<open>idle\<close>: the kept socket to the master has nothing to read and is not closed.\<close>

definition Start :: "ros_request \<Rightarrow> bool \<Rightarrow> resolve_env \<Rightarrow> ros_services \<Rightarrow> ros_services" where
  "Start r idle env s =
     (let i = Suc (next_id s); c = new_call r in
      if maximum_frame < length (request_bytes r) \<or> maximum_frame < length (master_xml r) \<or> parseAddress (master_uri r) ''http'' = None
      then s\<lparr>next_id := i, calls := sm_set i (not_sent ''invalid service request or master URI'' c) (calls s)\<rparr>
      else
        (let c1 = c\<lparr>address := the (parseAddress (master_uri r) ''http'')\<rparr>;
             asks = (master_xml r \<noteq> [] \<and> master_fd s);
             reuse = (asks \<and> kept_uri s = master_uri r \<and> idle);
             c2 = (if reuse then c1\<lparr>fd := True, stage := ConnectMaster\<rparr>
                   else resolve (numeric_of env) (channel_made env) (servers_set env) True c1)
         in s\<lparr>next_id := i, master_fd := (master_fd s \<and> \<not> asks), calls := sm_set i c2 (calls s)\<rparr>))"

text \<open>A call becomes \<open>c\<close>; a socket that it hands over in this step becomes the kept one.\<close>

definition put_call :: "nat \<Rightarrow> ros_call \<Rightarrow> ros_call \<Rightarrow> ros_services \<Rightarrow> ros_services" where
  "put_call i old c s =
     (let gives = (handed c \<and> \<not> finished old) in
      s\<lparr>calls := sm_set i c (calls s), master_fd := (master_fd s \<or> gives), kept_uri := (if gives then master_uri (request c) else kept_uri s)\<rparr>)"

definition complete_calls :: "ros_services \<Rightarrow> ros_services" where
  "complete_calls s =
     s\<lparr>calls := filter (\<lambda>(i, c). \<not> finished c) (calls s),
       completed := completed s @ filter (\<lambda>(i, c). finished c) (calls s)\<rparr>"

definition Cancel :: "nat \<Rightarrow> ros_services \<Rightarrow> ros_services" where
  "Cancel i s = (case sm_find (calls s) i of None \<Rightarrow> s | Some c \<Rightarrow> put_call i c (cancel_call c) s)"

definition move_call :: "(bool \<Rightarrow> ros_call \<Rightarrow> ros_call) \<Rightarrow> nat \<Rightarrow> ros_services \<Rightarrow> ros_services" where
  "move_call f i s = (case sm_find (calls s) i of None \<Rightarrow> s | Some c \<Rightarrow> put_call i c (f (\<not> master_fd s) c) s)"

text \<open>The three loops of \<^verbatim>\<open>Pump\<close> visit the calls in the order of the map; the completions run at the end, and what they start or cancel follows.\<close>

definition Pump :: "(nat \<Rightarrow> pump_event) \<Rightarrow> ros_services \<Rightarrow> ros_services" where
  "Pump events s =
     (let ids = map fst (calls s);
          s1 = fold (\<lambda>i. move_call (pump_first (events i)) i) ids s;
          s2 = fold (\<lambda>i. move_call (pump_polled (events i)) i) ids s1;
          s3 = fold (\<lambda>i. move_call (pump_last (events i)) i) ids s2
      in complete_calls s3)"

inductive services_step :: "ros_services \<Rightarrow> ros_services \<Rightarrow> bool" where
  starts: "services_step s (Start r idle env s)"
| cancels: "services_step s (Cancel i s)"
| pumps: "services_step s (Pump events s)"

definition serving_calls :: "ros_services \<Rightarrow> bool" where
  "serving_calls s \<longleftrightarrow> services_step\<^sup>*\<^sup>* no_services s"

subsection \<open>What reached the service\<close>

definition master_stage :: "ros_stage \<Rightarrow> bool" where
  "master_stage s \<longleftrightarrow> s \<in> {ResolveMaster, ConnectMaster, WriteMaster, ReadMaster}"

definition wire_ok :: "ros_call \<Rightarrow> bool" where
  "wire_ok c \<longleftrightarrow>
     (case stage c of
        WriteRequest \<Rightarrow> send c = framed (request_bytes (request c)) \<and> sent c \<le> length (send c) \<and> wire c = take (sent c) (send c)
      | ReadResponse \<Rightarrow> wire c = framed (request_bytes (request c))
      | _ \<Rightarrow> wire c = [])"

definition header_ok :: "ros_call \<Rightarrow> bool" where
  "header_ok c \<longleftrightarrow>
     (master_xml (request c) \<noteq> [] \<longrightarrow> master_stage (stage c))
     \<and> (stage c \<in> {WriteRequest, ReadResponse} \<longrightarrow>
          field_of (answered_by c) ''md5sum'' = md5 (request c) \<and> field_of (answered_by c) ''type'' = request_type (request c))"

definition call_ok :: "ros_call \<Rightarrow> bool" where
  "call_ok c \<longleftrightarrow>
     (request_sent c \<longleftrightarrow> wire c \<noteq> []) \<and> wire_ok c \<and> header_ok c
     \<and> (finished c \<longrightarrow> \<not> fd c \<and> \<not> resolver c
          \<and> (outcome (result c) \<in> {NotSent, Deadline, Cancelled} \<longrightarrow> wire c = [])
          \<and> (outcome (result c) = Response \<and> master_xml (request c) = [] \<longrightarrow> stage c = ReadResponse))"

lemma finish_ok:
  assumes "call_ok c" "how = Response \<Longrightarrow> master_xml (request c) \<noteq> [] \<or> stage c = ReadResponse"
  shows "call_ok (finish_call free how d t c)"
  using assms by (auto simp: finish_call_def call_ok_def wire_ok_def header_ok_def cong: ros_stage.case_cong)

lemma refuse_ok: "call_ok c \<Longrightarrow> call_ok (not_sent d c)"
  unfolding not_sent_def by (rule finish_ok) simp_all

lemma call_ok_updates [simp]:
  "call_ok (c\<lparr>addresses := a\<rparr>) = call_ok c" "call_ok (c\<lparr>next_address := n\<rparr>) = call_ok c" "call_ok (c\<lparr>resolve_done := b\<rparr>) = call_ok c"
  "call_ok (c\<lparr>ipv6_query := b\<rparr>) = call_ok c" "call_ok (c\<lparr>master_keepalive := b\<rparr>) = call_ok c" "call_ok (c\<lparr>received := t\<rparr>) = call_ok c"
  "call_ok (c\<lparr>address := w\<rparr>) = call_ok c" "\<not> finished c \<Longrightarrow> call_ok (c\<lparr>resolver := b\<rparr>) = call_ok c"
  "\<not> finished c \<Longrightarrow> call_ok (c\<lparr>fd := b\<rparr>) = call_ok c"
  by (simp_all add: call_ok_def wire_ok_def header_ok_def cong: ros_stage.case_cong)

text \<open>A call before its request: nothing is on the wire.\<close>

lemma early_ok:
  assumes "call_ok c" "\<not> finished c" "wire c' = []" "request_sent c' = False" "\<not> finished c'" "stage c' \<notin> {WriteRequest, ReadResponse}"
    and "request c' = request c" "master_xml (request c) \<noteq> [] \<longrightarrow> master_stage (stage c')"
  shows "call_ok c'"
  using assms by (auto simp: call_ok_def wire_ok_def header_ok_def split: ros_stage.splits)

lemma early_facts: "call_ok c \<Longrightarrow> stage c \<notin> {WriteRequest, ReadResponse} \<Longrightarrow> wire c = [] \<and> \<not> request_sent c"
  by (auto simp: call_ok_def wire_ok_def split: ros_stage.splits)

lemma resolved_ok: "call_ok c \<Longrightarrow> call_ok (resolved found_at c)"
  by (auto simp: resolved_def call_ok_def wire_ok_def header_ok_def cong: ros_stage.case_cong)

lemma resolve_ok:
  assumes "call_ok c" "\<not> finished c" "stage c \<notin> {WriteRequest, ReadResponse}" "master \<or> master_xml (request c) = []"
  shows "call_ok (resolve numeric channel_ok servers_ok master c)"
proof -
  have "wire c = []" "\<not> request_sent c" using early_facts [OF assms(1,3)] by auto
  then have "call_ok (c\<lparr>stage := if master then ResolveMaster else ResolveService\<rparr>)"
    using assms(2,4) by (intro early_ok [OF assms(1,2)]) (auto simp: master_stage_def)
  then show ?thesis
    using assms(2) by (cases master; cases numeric) (auto simp: resolve_def Let_def intro!: refuse_ok)
qed

lemma connect_from_ok:
  assumes "call_ok c" "\<not> finished c" "stage c \<notin> {WriteRequest, ReadResponse}" "master \<or> master_xml (request c) = []"
  shows "call_ok (connect_from works master c)"
  using assms
proof (induction works master c rule: connect_from.induct)
  case (1 works master c)
  have early: "wire c = []" "\<not> request_sent c" using early_facts [OF 1(2,4)] by auto
  have step: "call_ok (c\<lparr>next_address := n\<rparr>)" for n
    using 1(2) by (auto simp: call_ok_def wire_ok_def header_ok_def cong: ros_stage.case_cong)
  have go: "call_ok (c\<lparr>next_address := n, fd := True, stage := (if master then ConnectMaster else ConnectService)\<rparr>)" for n
    using early 1(3,5) by (intro early_ok [OF 1(2,3)]) (auto simp: master_stage_def)
  show ?case
    using 1(1) [OF _ refl _ step] 1(2-5) step go by (subst connect_from.simps) (auto simp: Let_def intro: refuse_ok)
qed

lemma connectNext_ok:
  assumes "call_ok c" "\<not> finished c" "stage c \<notin> {WriteRequest, ReadResponse}" "master \<or> master_xml (request c) = []"
  shows "call_ok (connectNext works master c)"
proof -
  have "call_ok (c\<lparr>fd := False\<rparr>)"
    using assms(1) by (auto simp: call_ok_def wire_ok_def header_ok_def cong: ros_stage.case_cong)
  then show ?thesis unfolding connectNext_def using assms by (intro connect_from_ok) simp_all
qed

lemma not_master_xml: "call_ok c \<Longrightarrow> \<not> master_stage (stage c) \<Longrightarrow> master_xml (request c) = []"
  by (auto simp: call_ok_def header_ok_def)

lemma connected_ok:
  assumes "call_ok c" "\<not> finished c" "stage c = ConnectMaster \<or> stage c = ConnectService"
  shows "call_ok (connected failed works c)"
proof -
  have early: "wire c = []" "\<not> request_sent c" using early_facts [OF assms(1)] assms(3) by auto
  have xml: "stage c = ConnectMaster \<or> master_xml (request c) = []"
    using not_master_xml [OF assms(1)] assms(3) by (auto simp: master_stage_def)
  have "call_ok (prepareSend b WriteMaster c)" for b
    using early assms(2) by (intro early_ok [OF assms(1,2)]) (auto simp: prepareSend_def master_stage_def)
  moreover have "call_ok (prepareSend b WriteHeader c)" if "stage c \<noteq> ConnectMaster" for b
    using early assms(2) xml that by (intro early_ok [OF assms(1,2)]) (auto simp: prepareSend_def master_stage_def)
  ultimately show ?thesis
    using assms xml by (auto simp: connected_def intro!: connectNext_ok)
qed

lemma framed_not_empty [simp]: "framed b \<noteq> []"
  by (simp add: framed_def u32_def)

text \<open>A call that writes: before its request, or the request itself.\<close>

lemma write_done_ok:
  assumes "call_ok c" "\<not> finished c" "stage c \<in> {WriteMaster, WriteHeader, WriteRequest}" "length (send c) \<le> sent c"
  shows "call_ok (c\<lparr>stage := next_stage (stage c), send := [], received := []\<rparr>)"
proof (cases "stage c = WriteRequest")
  case True
  then have "wire c = framed (request_bytes (request c))" using assms(1,4) by (simp add: call_ok_def wire_ok_def)
  moreover from this have "request_sent c" "header_ok c" using assms(1) unfolding call_ok_def by simp_all
  moreover have "master_xml (request c) = []" using not_master_xml [OF assms(1)] True by (simp add: master_stage_def)
  ultimately show ?thesis
    using assms(2) True by (simp add: call_ok_def wire_ok_def header_ok_def next_stage_def)
next
  case False
  have early: "wire c = []" "\<not> request_sent c" using early_facts [OF assms(1)] assms(3) False by auto
  show ?thesis
    using early assms(2,3) False not_master_xml [OF assms(1)]
    by (intro early_ok [OF assms(1,2)]) (auto simp: next_stage_def master_stage_def)
qed

lemma write_took_ok:
  assumes "call_ok c" "\<not> finished c" "stage c \<in> {WriteMaster, WriteHeader, WriteRequest}" "sent c < length (send c)"
  shows "call_ok (c\<lparr>sent := sent c + length (take (Suc k) (drop (sent c) (send c))), request_sent := (request_sent c \<or> stage c = WriteRequest),
      wire := (if stage c = WriteRequest then wire c @ take (Suc k) (drop (sent c) (send c)) else wire c)\<rparr>)"
proof (cases "stage c = WriteRequest")
  case True
  let ?chunk = "take (Suc k) (drop (sent c) (send c))"
  have "wire c @ ?chunk = take (sent c + length ?chunk) (send c)" "sent c + length ?chunk \<le> length (send c)" "?chunk \<noteq> []"
    using assms(1,4) True by (auto simp: call_ok_def wire_ok_def take_add min_def)
  then show ?thesis
    using assms(1,2) True by (simp add: call_ok_def wire_ok_def header_ok_def)
next
  case False
  then show ?thesis
    using assms(1-3) by (auto simp: call_ok_def wire_ok_def header_ok_def)
qed

lemma write_call_ok:
  assumes "call_ok c" "\<not> finished c" "stage c \<in> {WriteMaster, WriteHeader, WriteRequest}"
  shows "call_ok (write_call events c)"
  using assms
proof (induction events c rule: write_call.induct)
  case (1 events c)
  show ?case
  proof (cases "length (send c) \<le> sent c")
    case True
    then show ?thesis using write_done_ok [OF 1(3-5) True] by (subst write_call.simps) simp
  next
    case False
    show ?thesis
    proof (cases events)
      case (Cons e later)
      show ?thesis
      proof (cases e)
        case (Took k)
        then show ?thesis
          using 1(1) [OF False Cons Took refl] write_took_ok [OF 1(3-5), of k] False 1(3-5) Cons
          by (subst write_call.simps) (simp add: Let_def)
      next
        case Send_Interrupted
        then show ?thesis using 1(2) [OF False Cons Send_Interrupted] False 1(3-5) Cons by (subst write_call.simps) simp
      qed (use False 1(3) Cons in \<open>subst write_call.simps, simp add: refuse_ok\<close>)+
    qed (use False 1(3) in \<open>subst write_call.simps, simp\<close>)
  qed
qed

lemma master_body_ok:
  assumes "call_ok c" "\<not> finished c" "stage c = ReadMaster"
  shows "call_ok (master_body free xmlrpc env xml c)"
  using assms
  by (auto simp: master_body_def intro!: refuse_ok finish_ok resolve_ok split: lookup.splits option.splits)

lemma parseMaster_ok:
  assumes "call_ok c" "\<not> finished c" "stage c = ReadMaster"
  shows "call_ok (parseMaster free xmlrpc env c)"
  using assms
  by (auto simp: parseMaster_def Let_def intro!: refuse_ok master_body_ok split: option.splits)

lemma parseHeader_ok:
  assumes "call_ok c" "\<not> finished c" "stage c = ReadHeader"
  shows "call_ok (parseHeader c)"
proof -
  have early: "wire c = []" "\<not> request_sent c" using early_facts [OF assms(1)] assms(3) by auto
  have xml: "master_xml (request c) = []" using not_master_xml [OF assms(1)] assms(3) by (simp add: master_stage_def)
  have "call_ok ((prepareSend (framed (request_bytes (request c))) WriteRequest c)\<lparr>answered_by := named\<rparr>)"
    if "field_of named ''md5sum'' = md5 (request c)" "field_of named ''type'' = request_type (request c)" for named
    using early xml assms(2) that by (simp add: call_ok_def wire_ok_def header_ok_def prepareSend_def)
  then show ?thesis
    using assms(1) by (auto simp: parseHeader_def Let_def intro!: refuse_ok split: sum.splits)
qed

lemma parseResponse_ok:
  assumes "call_ok c" "stage c = ReadResponse"
  shows "call_ok (parseResponse free c)"
  using assms by (auto simp: parseResponse_def Let_def intro!: finish_ok)

lemma parse_call_ok:
  assumes "call_ok c" "\<not> finished c" "stage c \<in> {ReadMaster, ReadHeader, ReadResponse}"
  shows "call_ok (parse_call free xmlrpc env c)"
  using assms parseMaster_ok parseHeader_ok parseResponse_ok by (auto simp: parse_call_def)

lemma read_call_ok:
  assumes "call_ok c" "\<not> finished c" "stage c \<in> {ReadMaster, ReadHeader, ReadResponse}"
  shows "call_ok (read_call free xmlrpc env gets c)"
  using assms
proof (induction free xmlrpc env gets c rule: read_call.induct)
  case (2 free xmlrpc env chunk later c)
  let ?c1 = "parse_call free xmlrpc env (c\<lparr>received := received c @ chunk\<rparr>)"
  have "call_ok ?c1" using 2(2-4) by (intro parse_call_ok) simp_all
  then show ?case
    using 2 refuse_ok [OF 2(2)] by (auto simp: Let_def)
qed (auto intro: refuse_ok)

lemma call_step_ok:
  assumes "call_step free c c'" "call_ok c"
  shows "call_ok c'"
  using assms(1)
proof cases
  case found
  have "stage c = ResolveMaster \<or> master_xml (request c) = []"
    using not_master_xml [OF assms(2)] found(3) by (auto simp: resolving_def master_stage_def)
  then have "call_ok (connectNext works (stage c = ResolveMaster) (c\<lparr>resolver := False\<rparr>))" for works
    using assms(2) found by (intro connectNext_ok) (auto simp: resolving_def)
  then show ?thesis using found assms(2) by (auto simp: pump_resolved_def intro!: refuse_ok)
next
  case (ready failed works sends xmlrpc env gets)
  then show ?thesis
    using assms(2) connected_ok [OF assms(2)] write_call_ok [OF assms(2)] read_call_ok [OF assms(2)]
    by (cases "stage c") (auto simp: pump_ready_def resolving_def)
next
  case (answered found_at)
  then show ?thesis using resolved_ok [OF assms(2)] by simp
qed (use finish_ok [OF assms(2)] in \<open>auto simp: expire_def cancel_call_def\<close>)

text \<open>A call whose host is being resolved holds no socket.\<close>

definition socket_ok :: "ros_call \<Rightarrow> bool" where
  "socket_ok c \<longleftrightarrow> (resolving c \<longrightarrow> \<not> fd c)"

lemma socket_finish [simp]: "socket_ok c \<Longrightarrow> socket_ok (finish_call free how d t c)" "socket_ok c \<Longrightarrow> socket_ok (not_sent d c)"
  by (simp_all add: socket_ok_def resolving_def not_sent_def finish_call_def)

lemma socket_resolve: "\<not> fd c \<Longrightarrow> socket_ok (resolve numeric channel_ok servers_ok master c)"
  by (auto simp: socket_ok_def resolve_def Let_def not_sent_def finish_call_def split: option.splits)

lemma socket_connect: "\<not> fd c \<Longrightarrow> socket_ok (connect_from works master c)"
proof (induction works master c rule: connect_from.induct)
  case (1 works master c)
  then show ?case
    by (subst connect_from.simps) (auto simp: Let_def socket_ok_def resolving_def not_sent_def finish_call_def)
qed

lemma socket_write: "\<not> resolving c \<Longrightarrow> socket_ok (write_call events c)"
proof (induction events c rule: write_call.induct)
  case (1 events c)
  then show ?case
    by (subst write_call.simps) (auto simp: Let_def socket_ok_def resolving_def next_stage_def not_sent_def finish_call_def split: list.splits net_send.splits)
qed

lemma socket_parse: "\<not> resolving c \<Longrightarrow> socket_ok (parse_call free xmlrpc env c)"
proof -
  assume "\<not> resolving c"
  then have keeps: "socket_ok (c\<lparr>master_keepalive := b\<rparr>)" "socket_ok c" for b by (simp_all add: socket_ok_def resolving_def)
  have "socket_ok (master_body free xmlrpc env xml (c\<lparr>master_keepalive := b\<rparr>))" for xml b
    using keeps by (auto simp: master_body_def intro!: socket_resolve split: lookup.splits option.splits)
  then have "socket_ok (parseMaster free xmlrpc env c)"
    using keeps by (auto simp: parseMaster_def Let_def split: option.splits)
  moreover have "socket_ok ((prepareSend bytes WriteRequest c)\<lparr>answered_by := named\<rparr>)" for bytes named
    by (simp add: prepareSend_def socket_ok_def resolving_def)
  then have "socket_ok (parseHeader c)"
    using keeps by (simp add: parseHeader_def Let_def split: sum.split)
  moreover have "socket_ok (parseResponse free c)" using keeps by (simp add: parseResponse_def Let_def)
  ultimately show ?thesis by (simp add: parse_call_def)
qed

lemma socket_read: "\<not> resolving c \<Longrightarrow> socket_ok (read_call free xmlrpc env gets c)"
proof (induction free xmlrpc env gets c rule: read_call.induct)
  case (2 free xmlrpc env chunk later c)
  let ?c1 = "parse_call free xmlrpc env (c\<lparr>received := received c @ chunk\<rparr>)"
  have "socket_ok ?c1" "socket_ok c" using 2(2) socket_parse by (simp_all add: socket_ok_def resolving_def)
  moreover have "\<not> resolving ?c1" if "stage ?c1 = stage c" using that 2(2) by (simp add: resolving_def)
  ultimately show ?case using 2(1) by (simp add: Let_def)
qed (simp_all add: socket_ok_def resolving_def not_sent_def finish_call_def)

lemma socket_ready: "\<not> resolving c \<Longrightarrow> socket_ok (pump_ready free failed works sends xmlrpc env gets c)"
  using socket_write socket_read socket_connect [of "c\<lparr>fd := False\<rparr>"]
  by (simp add: pump_ready_def connected_def connectNext_def) (simp add: prepareSend_def socket_ok_def resolving_def)

lemma call_step_socket:
  assumes "call_step free c c'" "socket_ok c"
  shows "socket_ok c'"
  using assms(1)
proof cases
  case found
  then show ?thesis
    using assms(2) socket_connect by (simp add: pump_resolved_def connectNext_def) (simp add: socket_ok_def resolving_def)
next
  case answered
  then show ?thesis using assms(2) by (simp add: resolved_def socket_ok_def resolving_def)
qed (use assms(2) socket_ready in \<open>simp_all add: expire_def cancel_call_def\<close>)

definition call_sound :: "ros_call \<Rightarrow> bool" where
  "call_sound c \<longleftrightarrow> call_ok c \<and> socket_ok c"

lemma call_step_sound: "call_step free c c' \<Longrightarrow> call_sound c \<Longrightarrow> call_sound c'"
  unfolding call_sound_def using call_step_ok call_step_socket by blast

text \<open>Each loop of \<^verbatim>\<open>Pump\<close> leaves a call alone or makes one step of it.\<close>

lemma pump_steps:
  assumes "call_sound c"
  shows "call_sound (pump_first e free c)" "call_sound (pump_polled e free c)" "call_sound (pump_last e free c)"
proof -
  have answer: "call_sound (dns_answer a c)" if "resolver c" for a
    using assms call_step_sound [OF call_step.answered [OF that]] by (auto simp: dns_answer_def split: option.splits)
  have over: "call_sound (expire c)" if "\<not> finished c" using call_step_sound [OF call_step.expired [OF that] assms] .
  show "call_sound (pump_first e free c)"
    using assms over call_step_sound [OF call_step.found assms] by (simp add: pump_first_def)
  have "call_sound (pump_ready free (socket_error e) (connects e) (socket_sends e) (parser e) (resolves e) (socket_gets e) c)"
    if "\<not> finished c" "fd c"
    using that assms by (intro call_step_sound [OF call_step.ready assms]) (simp_all add: call_sound_def socket_ok_def)
  then show "call_sound (pump_polled e free c)" using assms over answer by (simp add: pump_polled_def)
  show "call_sound (pump_last e free c)" using assms over answer by (simp add: pump_last_def)
qed

lemma new_call_ok: "call_ok (new_call r)" "call_ok (not_sent d (new_call r))"
proof -
  show "call_ok (new_call r)" by (simp add: new_call_def call_ok_def wire_ok_def header_ok_def master_stage_def)
  then show "call_ok (not_sent d (new_call r))" by (rule refuse_ok)
qed

lemma Start_calls:
  assumes "sm_ok (calls s)"
  shows "\<exists>c. calls (Start r idle env s) = sm_set (Suc (next_id s)) c (calls s) \<and> call_sound c"
proof -
  have fresh: "\<not> finished (new_call r)" "stage (new_call r) = ResolveMaster" "request (new_call r) = r" by (simp_all add: new_call_def)
  have "call_ok (resolve n k v True ((new_call r)\<lparr>address := a\<rparr>))" for n k v a
    using new_call_ok(1) [of r] fresh by (intro resolve_ok) simp_all
  moreover have "call_ok ((new_call r)\<lparr>address := a, fd := True, stage := ConnectMaster\<rparr>)" for a
    by (simp add: new_call_def call_ok_def wire_ok_def header_ok_def master_stage_def)
  moreover have "socket_ok (resolve n k v True ((new_call r)\<lparr>address := a\<rparr>))" "socket_ok (not_sent d (new_call r))" for n k v a d
    by (intro socket_resolve socket_finish; simp add: new_call_def socket_ok_def)+
  moreover have "socket_ok ((new_call r)\<lparr>address := a, fd := True, stage := ConnectMaster\<rparr>)" for a
    by (simp add: socket_ok_def resolving_def)
  ultimately show ?thesis using new_call_ok(2) by (auto simp: Start_def Let_def call_sound_def)
qed

definition services_ok :: "ros_services \<Rightarrow> bool" where
  "services_ok s \<longleftrightarrow>
     sm_ok (calls s) \<and> (\<forall>(i, c) \<in> set (calls s) \<union> set (completed s). call_sound c) \<and> (\<forall>(i, c) \<in> set (completed s). finished c)
     \<and> distinct (map fst (completed s)) \<and> fst ` set (calls s) \<inter> fst ` set (completed s) = {}
     \<and> fst ` set (calls s) \<union> fst ` set (completed s) = {1..next_id s}"

lemma set_call_members:
  assumes "sm_ok m" "call_sound c" "\<forall>(i, c) \<in> set m. call_sound c"
  shows "\<forall>(i, c) \<in> set (sm_set k c m). call_sound c"
proof -
  have "x = (k, c) \<or> x \<in> set m" if "x \<in> set (sm_set k c m)" for x
    using that by (induction k c m rule: sm_set.induct) (auto split: if_splits)
  then show ?thesis using assms(2,3) by fastforce
qed

lemma Start_services: "services_ok s \<Longrightarrow> services_ok (Start r idle env s)"
proof -
  assume ok: "services_ok s"
  then have "sm_ok (calls s)" unfolding services_ok_def by (rule conjunct1)
  then obtain c where c: "calls (Start r idle env s) = sm_set (Suc (next_id s)) c (calls s)" "call_sound c"
    using Start_calls by blast
  have rest: "completed (Start r idle env s) = completed s" "next_id (Start r idle env s) = Suc (next_id s)"
    by (simp_all add: Start_def Let_def)
  have "fst ` set (completed s) \<subseteq> {1..next_id s}" using ok unfolding services_ok_def by blast
  then have "Suc (next_id s) \<notin> fst ` set (completed s)" by auto
  then show ?thesis
    using ok c rest set_call_members [of "calls s" c "Suc (next_id s)"] unfolding services_ok_def
    by (simp add: sm_ok_set sm_set_keys atLeastAtMostSuc_conv ball_Un)
qed

lemma put_services:
  assumes "services_ok s" "sm_find (calls s) i = Some c" "call_sound c'"
  shows "services_ok (put_call i c c' s)"
proof -
  have "i \<in> fst ` set (calls s)" using sm_find_in [OF assms(2)] by force
  then show ?thesis
    using assms(1,3) set_call_members [of "calls s" c' i] unfolding services_ok_def
    by (simp add: put_call_def Let_def sm_ok_set sm_set_keys insert_absorb ball_Un)
qed

lemma filter_std_map:
  assumes "sm_ok m"
  shows "sm_ok (filter P m) \<and> distinct (map fst (filter P m))"
proof -
  have "sorted_wrt (<) (map fst (filter P m))"
    using assms unfolding sm_ok_def by (simp add: sorted_wrt_map sorted_wrt_filter)
  then show ?thesis unfolding sm_ok_def by (simp add: strict_sorted_iff)
qed

lemma split_members: "set (filter (\<lambda>(i, c). \<not> P c) m) \<union> set (filter (\<lambda>(i, c). P c) m) = set m"
  by auto

lemma moved_keys:
  assumes "rest \<union> ended = all" "rest \<inter> ended = {}" "all \<inter> before = {}"
  shows "rest \<inter> (before \<union> ended) = {}" "ended \<inter> before = {}" "rest \<union> (before \<union> ended) = all \<union> before"
  using assms by blast+

lemma split_keys:
  assumes "sm_ok m"
  shows "fst ` set (filter (\<lambda>(i, c). \<not> P c) m) \<inter> fst ` set (filter (\<lambda>(i, c). P c) m) = {}"
proof (rule equals0I)
  fix i
  assume "i \<in> fst ` set (filter (\<lambda>(i, c). \<not> P c) m) \<inter> fst ` set (filter (\<lambda>(i, c). P c) m)"
  then obtain c c' where both: "(i, c) \<in> set m" "P c" "(i, c') \<in> set m" "\<not> P c'" by auto
  show False using sm_in_find [OF assms both(1)] sm_in_find [OF assms both(3)] both(2,4) by simp
qed

lemma complete_services: "services_ok s \<Longrightarrow> services_ok (complete_calls s)"
proof -
  assume ok: "services_ok s"
  define rest where "rest = filter (\<lambda>(i, c). \<not> finished c) (calls s)"
  define ended where "ended = filter (\<lambda>(i, c). finished c) (calls s)"
  have map_ok: "sm_ok (calls s)" and apart: "fst ` set (calls s) \<inter> fst ` set (completed s) = {}"
    and once: "distinct (map fst (completed s))" and all: "fst ` set (calls s) \<union> fst ` set (completed s) = {1..next_id s}"
    and calls: "\<forall>(i, c) \<in> set (calls s) \<union> set (completed s). call_sound c" and over: "\<forall>(i, c) \<in> set (completed s). finished c"
    using ok unfolding services_ok_def by simp_all
  have parts: "fst ` set rest \<union> fst ` set ended = fst ` set (calls s)"
    using split_members [of finished "calls s"] unfolding rest_def ended_def by (simp flip: image_Un)
  note keys = moved_keys [OF parts split_keys [OF map_ok, of finished, folded rest_def ended_def] apart]
  have kept: "sm_ok rest" "distinct (map fst ended)" using filter_std_map [OF map_ok] unfolding rest_def ended_def by simp_all
  have new: "completed (complete_calls s) = completed s @ ended" "calls (complete_calls s) = rest" "next_id (complete_calls s) = next_id s"
    by (simp_all add: complete_calls_def rest_def ended_def)
  have "\<forall>(i, c) \<in> set rest \<union> set (completed s @ ended). call_sound c"
    using calls unfolding rest_def ended_def by fastforce
  moreover have "\<forall>(i, c) \<in> set (completed s @ ended). finished c"
    using over unfolding ended_def by fastforce
  moreover have "distinct (map fst (completed s @ ended))"
    using once kept(2) keys(2) by (simp add: Int_commute)
  ultimately show ?thesis
    using kept(1) keys(1,3) all unfolding services_ok_def new by (simp add: image_Un)
qed

lemma move_services:
  assumes "services_ok s" "\<And>free c. call_sound c \<Longrightarrow> call_sound (f free c)"
  shows "services_ok (move_call f i s)"
proof (cases "sm_find (calls s) i")
  case (Some c)
  have "call_sound c" using sm_find_in [OF Some] assms(1) unfolding services_ok_def by blast
  then show ?thesis using put_services [OF assms(1) Some] assms(2) Some by (simp add: move_call_def)
qed (use assms(1) in \<open>simp add: move_call_def\<close>)

lemma fold_services:
  assumes "services_ok s" "\<And>i free c. call_sound c \<Longrightarrow> call_sound (f i free c)"
  shows "services_ok (fold (\<lambda>i. move_call (f i) i) ids s)"
  using assms by (induction ids arbitrary: s) (simp_all add: move_services)

lemma Pump_services: "services_ok s \<Longrightarrow> services_ok (Pump events s)"
  unfolding Pump_def Let_def by (intro complete_services fold_services pump_steps)

lemma Cancel_services:
  assumes "services_ok s"
  shows "services_ok (Cancel i s)"
proof -
  have "Cancel i s = move_call (\<lambda>free. cancel_call) i s" by (simp add: Cancel_def move_call_def)
  then show ?thesis using assms move_services call_step_sound [OF call_step.cancelled] by simp
qed

lemma services_step_ok: "services_step s s' \<Longrightarrow> services_ok s \<Longrightarrow> services_ok s'"
  by (induction rule: services_step.induct) (simp_all add: Start_services Cancel_services Pump_services)

lemma serving_calls_ok: "serving_calls s \<Longrightarrow> services_ok s"
proof -
  assume "serving_calls s"
  then have "services_step\<^sup>*\<^sup>* no_services s" by (simp add: serving_calls_def)
  moreover have "services_ok no_services" by (simp add: no_services_def services_ok_def)
  ultimately show ?thesis by (induction rule: rtranclp_induct) (simp_all add: services_step_ok)
qed

lemma wire_prefix: "call_ok c \<Longrightarrow> \<exists>n. wire c = take n (framed (request_bytes (request c)))"
  unfolding call_ok_def wire_ok_def by (cases "stage c") (auto intro: exI [of _ 0] exI [of _ "length (framed (request_bytes (request c)))"])

text \<open>C25: What a completed call says is what reached its service. An outcome other than a response or unknown means that no byte of the request was handed to the service's
  socket; a response of a service means that the whole request was, to a peer whose header has the MD5 and the type of the request; in between only a
  beginning of the request can have been. Every started call is pending or completed, and completed once.\<close>

theorem ros_call_outcomes_exact:
  assumes "serving_calls s"
  shows "distinct (map fst (completed s)) \<and> fst ` set (calls s) \<inter> fst ` set (completed s) = {}
    \<and> fst ` set (calls s) \<union> fst ` set (completed s) = {1..next_id s}
    \<and> (\<forall>i c. (i, c) \<in> set (completed s) \<longrightarrow>
         (outcome (result c) \<in> {NotSent, Deadline, Cancelled} \<longrightarrow> wire c = [])
         \<and> (outcome (result c) = Response \<and> master_xml (request c) = [] \<longrightarrow>
              wire c = framed (request_bytes (request c)) \<and> field_of (answered_by c) ''md5sum'' = md5 (request c)
              \<and> field_of (answered_by c) ''type'' = request_type (request c))
         \<and> (\<exists>n. wire c = take n (framed (request_bytes (request c)))))"
proof -
  have ok: "services_ok s" using assms by (rule serving_calls_ok)
  have "(outcome (result c) \<in> {NotSent, Deadline, Cancelled} \<longrightarrow> wire c = [])
      \<and> (outcome (result c) = Response \<and> master_xml (request c) = [] \<longrightarrow>
           wire c = framed (request_bytes (request c)) \<and> field_of (answered_by c) ''md5sum'' = md5 (request c)
           \<and> field_of (answered_by c) ''type'' = request_type (request c))
      \<and> (\<exists>n. wire c = take n (framed (request_bytes (request c))))" if "(i, c) \<in> set (completed s)" for i c
  proof -
    have "call_sound c" "finished c" using ok that unfolding services_ok_def by blast+
    then have c: "call_ok c" "finished c" by (simp_all add: call_sound_def)
    then have "outcome (result c) = Response \<and> master_xml (request c) = [] \<longrightarrow> stage c = ReadResponse" by (simp add: call_ok_def)
    then show ?thesis using c wire_prefix [OF c(1)] by (auto simp: call_ok_def wire_ok_def header_ok_def)
  qed
  then show ?thesis using ok unfolding services_ok_def by blast
qed

text \<open>A call of a service \<^verbatim>\<open>/s\<close> whose request is \<^verbatim>\<open>go\<close>, from its start to the response \<^verbatim>\<open>ok\<close>.\<close>

definition sample_request :: ros_request where
  "sample_request =
     \<lparr>master_uri = ''http://m:1'', caller_id = ''/c'', service_name = ''/s'', request_type = ''t'', md5 = ''5'', request_bytes = ''go'', master_xml = [],
      request_deadline = 100\<rparr>"

definition sample_event :: "net_recv list \<Rightarrow> pump_event" where
  "sample_event gets =
     \<lparr>now_first = 0, now_ready = 0, now_last = 0, polled = True, dns_ready = None, dns_last = None, connects = (\<lambda>a. True), socket_error = False,
      socket_sends = [Took 1000], socket_gets = gets, parser = (\<lambda>xml. Lookup_Uri ''rosrpc://h:2''),
      resolves = \<lparr>numeric_of = Some 0, channel_made = True, servers_set = True\<rparr>\<rparr>"

definition sample_gets :: "net_recv list list" where
  "sample_gets =
     [[], [], [Got (''HTTP/1.1 200'' @ crlf @ ''Content-Length: 7'' @ crlf @ crlf @ ''<value>'')], [], [],
      [Got (framed (framed ''md5sum=5'' @ framed ''type=t''))], [], [Got (CHR 0x01 # framed ''ok'')]]"

definition sample_start :: ros_services where
  "sample_start = Start sample_request False \<lparr>numeric_of = Some 0, channel_made = True, servers_set = True\<rparr> no_services"

definition sample_run :: ros_services where
  "sample_run =
     fold (\<lambda>gets. Pump (\<lambda>i. sample_event gets)) sample_gets
       sample_start"

lemma sample_started: "serving_calls sample_start"
  unfolding sample_start_def by (simp add: serving_calls_def r_into_rtranclp [of services_step, OF services_step.starts])

lemma sample_served: "serving_calls sample_run"
proof -
  have pumped: "serving_calls (fold (\<lambda>gets. Pump (\<lambda>i. sample_event gets)) gs s)" if "serving_calls s" for gs s
    using that by (induction gs arbitrary: s) (auto simp: serving_calls_def intro: rtranclp.rtrancl_into_rtrancl services_step.pumps)
  show ?thesis unfolding sample_run_def by (rule pumped) (rule sample_started)
qed

lemma sample_result:
  "map (\<lambda>(i, c). (i, outcome (result c), response (result c), request c)) (completed sample_run) = [(1, Response, ''ok'', sample_request)]"
  by code_simp

theorem ros_call_outcomes_exact_witness:
  "\<exists>c. completed sample_run = [(1, c)] \<and> response (result c) = ''ok'' \<and> wire c = framed ''go'' \<and> field_of (answered_by c) ''md5sum'' = ''5''"
proof -
  obtain c where c: "completed sample_run = [(1, c)]" "outcome (result c) = Response" "response (result c) = ''ok''" "request c = sample_request"
    using sample_result by (auto simp: map_eq_Cons_conv)
  then have "wire c = framed (request_bytes (request c)) \<and> field_of (answered_by c) ''md5sum'' = md5 (request c)"
    using ros_call_outcomes_exact [OF sample_served] by (simp add: sample_request_def)
  then show ?thesis using c by (simp add: sample_request_def)
qed

subsection \<open>Deadlines\<close>

text \<open>No step changes what the call was asked.\<close>

lemma request_basic [simp]:
  "request (finish_call free how d t c) = request c" "request (not_sent d c) = request c" "request (resolved a c) = request c"
  "request (resolve numeric channel_ok servers_ok master c) = request c" "request (prepareSend b n c) = request c"
  "request (expire c) = request c" "request (cancel_call c) = request c" "request (dns_answer o1 c) = request c"
proof -
  show *: "request (finish_call free how d t c) = request c" "request (resolved a c) = request c" for free how d t a c
    by (simp_all add: finish_call_def resolved_def)
  show "request (resolve numeric channel_ok servers_ok master c) = request c" "request (prepareSend b n c) = request c"
    by (simp_all add: resolve_def prepareSend_def Let_def not_sent_def * split: option.split)
qed (simp_all add: not_sent_def expire_def cancel_call_def dns_answer_def finish_call_def resolved_def split: option.split)

lemma request_connect [simp]: "request (connect_from works master c) = request c"
proof (induction works master c rule: connect_from.induct)
  case (1 works master c)
  then show ?case by (subst connect_from.simps) (simp add: Let_def)
qed

lemma request_write [simp]: "request (write_call events c) = request c"
proof (induction events c rule: write_call.induct)
  case (1 events c)
  then show ?case by (subst write_call.simps) (simp add: Let_def split: list.split net_send.split)
qed

lemma request_parse [simp]: "request (parse_call free xmlrpc env c) = request c"
proof -
  have "request (master_body free xmlrpc env xml c1) = request c1" for xml c1
    by (simp add: master_body_def split: option.split lookup.split)
  then have "request (parseMaster free xmlrpc env c) = request c"
    by (simp add: parseMaster_def Let_def split: option.split)
  moreover have "request (parseHeader c) = request c" by (simp add: parseHeader_def Let_def split: sum.split)
  moreover have "request (parseResponse free c) = request c" by (simp add: parseResponse_def Let_def)
  ultimately show ?thesis by (simp add: parse_call_def)
qed

lemma request_read [simp]: "request (read_call free xmlrpc env gets c) = request c"
  by (induction free xmlrpc env gets c rule: read_call.induct) (simp_all add: Let_def)

lemma request_pump [simp]: "request (pump_first e free c) = request c" "request (pump_polled e free c) = request c" "request (pump_last e free c) = request c"
  by (simp_all add: pump_first_def pump_polled_def pump_last_def pump_resolved_def pump_ready_def connected_def connectNext_def)

lemma move_find:
  assumes "sm_ok (calls s)"
  shows "sm_find (calls (move_call f i s)) j = (if j = i then map_option (f (\<not> master_fd s)) (sm_find (calls s) i) else sm_find (calls s) j)"
    and "sm_ok (calls (move_call f i s))"
  using assms by (simp_all add: move_call_def put_call_def Let_def sm_find_set sm_ok_set split: option.split)

lemma fold_find:
  assumes "sm_find (calls s) i = Some c" "distinct ids" "sm_ok (calls s)"
  shows "\<exists>free. sm_find (calls (fold (\<lambda>i. move_call (f i) i) ids s)) i = Some (if i \<in> set ids then f i free c else c)"
  using assms
proof (induction ids arbitrary: s c)
  case (Cons j ids)
  then show ?case
    using Cons.IH [of "move_call (f j) j s"] by (cases "j = i") (auto simp: move_find)
qed simp

lemma fold_keeps: "sm_ok (calls s) \<Longrightarrow> sm_ok (calls (fold (\<lambda>i. move_call (f i) i) ids s))"
  by (induction ids arbitrary: s) (simp_all add: move_find)

lemma finished_last: "past (now_last e) c \<Longrightarrow> finished (pump_last e free c)"
  by (simp add: pump_last_def expire_def finish_call_def)

lemma Pump_past:
  assumes ok: "sm_ok (calls s)" and c: "sm_find (calls s) i = Some c" and over: "past (now_last (events i)) c"
  shows "\<exists>c'. (i, c') \<in> set (completed (Pump events s)) \<and> finished c' \<and> request c' = request c"
proof -
  define ids where "ids = map fst (calls s)"
  define s1 where "s1 = fold (\<lambda>i. move_call (pump_first (events i)) i) ids s"
  define s2 where "s2 = fold (\<lambda>i. move_call (pump_polled (events i)) i) ids s1"
  define s3 where "s3 = fold (\<lambda>i. move_call (pump_last (events i)) i) ids s2"
  have "i \<in> set ids" using sm_find_in [OF c] unfolding ids_def by force
  moreover have "distinct ids" using ok unfolding sm_ok_def ids_def by (simp add: strict_sorted_iff)
  moreover have "sm_ok (calls s1)" "sm_ok (calls s2)" using ok unfolding s1_def s2_def by (simp_all add: fold_keeps)
  ultimately obtain c3 where "sm_find (calls s3) i = Some c3" "finished c3" "request c3 = request c"
    using fold_find [OF c, of ids "\<lambda>i. pump_first (events i)"] fold_find [of s1 i _ ids "\<lambda>i. pump_polled (events i)"]
      fold_find [of s2 i _ ids "\<lambda>i. pump_last (events i)"] finished_last over ok unfolding s1_def [symmetric] s2_def [symmetric] s3_def [symmetric]
    by (fastforce simp: past_def)
  moreover have "Pump events s = complete_calls s3" by (simp add: Pump_def Let_def ids_def s1_def s2_def s3_def)
  ultimately show ?thesis using sm_find_in by (fastforce simp: complete_calls_def)
qed

text \<open>C26: A call does not outlive its deadline, whatever it was waiting for: the master, a name, a connection or a response. A round of \<^verbatim>\<open>Pump\<close> whose clock has
  reached the deadline of a pending call completes that call with its request unchanged and no longer keeps it.\<close>

theorem deadline_completes_call:
  assumes "serving_calls s" "sm_find (calls s) i = Some c" "request_deadline (request c) \<le> now_last (events i)"
  shows "\<exists>c'. (i, c') \<in> set (completed (Pump events s)) \<and> finished c' \<and> request c' = request c \<and> i \<notin> fst ` set (calls (Pump events s))"
proof -
  have ok: "services_ok s" using assms(1) by (rule serving_calls_ok)
  then have "sm_ok (calls s)" unfolding services_ok_def by (rule conjunct1)
  then obtain c' where c': "(i, c') \<in> set (completed (Pump events s))" "finished c'" "request c' = request c"
    using Pump_past assms(2,3) unfolding past_def by blast
  moreover have "fst ` set (calls (Pump events s)) \<inter> fst ` set (completed (Pump events s)) = {}"
    using Pump_services [OF ok, of events] unfolding services_ok_def by blast
  then have "i \<notin> fst ` set (calls (Pump events s))" using c'(1) by force
  ultimately show ?thesis by blast
qed

theorem deadline_completes_call_witness:
  "\<exists>c'. (1, c') \<in> set (completed (Pump (\<lambda>i. (sample_event [])\<lparr>now_last := 100\<rparr>) sample_start)) \<and> finished c' \<and> request c' = sample_request"
proof -
  have "map (\<lambda>(i, c). (i, request c)) (calls sample_start) = [(1, sample_request)]" by code_simp
  then obtain c where c: "calls sample_start = [(1, c)]" "request c = sample_request" by (auto simp: map_eq_Cons_conv)
  show ?thesis
    using deadline_completes_call [OF sample_started, of 1 c "\<lambda>i. (sample_event [])\<lparr>now_last := 100\<rparr>"] c by (auto simp: sample_request_def)
qed
end
