(* ===== verification/Spec2Isabelle.thy ===== *)
theory Spec2Isabelle
  imports Control_Safety Delivery Members Status_Calls Lifecycle Motion Scene_Commands Scene_Yaml Yaml_Scalars Scene_Service
    Service_Helper Publishers Ros_Calls
begin

text \<open>
  \<^bold>\<open>Verification of the XGC2 ROS1 adapters\<close>

  The repository holds the ROS 1 adapters of the XGC2 ground station. Core, the station's server, talks gRPC over a
  private Unix socket to one process per robot type; that process registers robots, streams their
  status and executes commands. A scene adapter keeps the obstacles of a simulated world and a tools adapter exposes
  ROS services. The parts modelled here:

  \<^item> \<^bold>\<open>The robot server\<close> (\<^verbatim>\<open>src/src/common/src/robot_server.cpp\<close>), shared by all robot types. Its state is the record
    \<open>server\<close> of theory \<open>Server_State\<close>: the member table (a sorted association list, theory \<open>Prelude\<close>), a heap of member
    records, the controller's fields, the status subscribers, the command queues and the replies sent. Every critical
    section of a handler is one function on this record.
    \<^item> \<open>Options\<close> and \<open>Domain\<close>: the command line (\<^verbatim>\<open>robot_server_options.cpp\<close>) and the messages with their validation
      (\<^verbatim>\<open>robot_domain.cpp\<close>, \<^verbatim>\<open>native_command.hpp\<close>). A line that parses satisfies every documented constraint, whatever the
      order of its flags.
    \<^item> \<open>Control\<close>, \<open>Control_Protocol\<close>, \<open>Control_Safety\<close>: the controller protocol, as definitions, as a
      transition system with its invariant, and the safety of its reachable states.
    \<^item> \<open>Status\<close>, \<open>Delivery\<close>, \<open>Status_Calls\<close>: selection of members and channels, the telemetry emitter, one round of the
      delivery loop, and the completion-queue tags of the \<^verbatim>\<open>SubscribeStatus\<close> calls.
    \<^item> \<open>Commands\<close>: the command scheduler. A ledger of calls shows that every admitted call is answered exactly once.
    \<^item> \<open>Members\<close>: registration and removal of robots.
    \<^item> \<open>Admission\<close>: phase checks, bounded lanes, the job queues and the service handlers that compose the above.
    \<^item> \<open>Lifecycle\<close> with \<open>Decimal\<close>: owner secret, startup, master binding and watch, drain and exit.
  \<^item> \<^bold>\<open>Clocks\<close>: theory \<open>Backoff\<close> (\<^verbatim>\<open>master_retry.hpp\<close>, \<^verbatim>\<open>peer_backoff.hpp\<close>, \<^verbatim>\<open>core_silence.hpp\<close>). The locale \<open>retry_clock\<close> is the
    contract of a retry loop; both retry classes are interpretations of it.
  \<^item> \<^bold>\<open>Motion publishers\<close>: theory \<open>Motion\<close> over the rounded arithmetic of \<open>Floats\<close> (\<^verbatim>\<open>motion_command.cpp\<close>, \<^verbatim>\<open>variant.cpp\<close> of
    the ground robots, \<^verbatim>\<open>remote_control.cpp\<close> of the multirotors). The locale \<open>motion_stream\<close> states what a dead man's switch
    needs; both publishers are interpretations of it.

  \<^item> \<^bold>\<open>The scene store\<close> (\<^verbatim>\<open>src/src/scene_ros1_adapter/src/core\<close>): the obstacles of a simulated world, edited by commands.
    \<^item> \<open>Python_Text\<close> and \<open>Json\<close> (\<^verbatim>\<open>scalars.cpp\<close>, \<^verbatim>\<open>ordered_object.hpp\<close>, \<^verbatim>\<open>json_io.cpp\<close>): numbers and texts as Python writes them, values with ordered
      objects, equality, the plain encoder.
    \<^item> \<open>Envelope\<close> (\<^verbatim>\<open>EnvelopeJson\<close> of \<^verbatim>\<open>store.cpp\<close>): the caching encoder writes what the plain one does.
    \<^item> \<open>Scene_Document\<close> (\<^verbatim>\<open>document.cpp\<close>): validation and normal form of a document.
    \<^item> \<open>Scene_Store\<close>, \<open>Scene_History\<close>, \<open>Scene_Commands\<close> (\<^verbatim>\<open>SceneStore\<close> of \<^verbatim>\<open>store.cpp\<close>, \<^verbatim>\<open>file_io.cpp\<close>): the store with its file among
      other writers; an abstract editor with a past, a present and a future; the store refines it, and the properties of reachable stores.
    \<^item> \<open>Yaml\<close>, \<open>Yaml_Scalars\<close>, \<open>Scene_Yaml\<close> (\<^verbatim>\<open>yaml_io.cpp\<close>, \<^verbatim>\<open>DocumentYaml\<close> of \<^verbatim>\<open>store.cpp\<close>): the emitter with its scalar styles, the
      implicit types and the readers of numbers, the caching writer of a document. The emitter's loop over a text is a partial function: it returns for texts of
      complete characters, and a theorem shows a text for which it never does.
  \<^item> \<^bold>\<open>The scene service\<close>: \<open>Scene_Dispatch\<close> (\<^verbatim>\<open>command_dispatch.hpp\<close>), the hand-over of a command to the scene's lane as an interleaving of two threads, and
    \<open>Scene_Service\<close> (\<^verbatim>\<open>service.cpp\<close>), HTTP requests, the worker and the readiness thread. A request is completed at most once, none is lost, and
    \<^verbatim>\<open>close\<close> returns.
  \<^item> \<^bold>\<open>The tools adapter\<close> (\<^verbatim>\<open>src/src/ros1_tools_adapter\<close>): \<open>Service_Frames\<close> (\<^verbatim>\<open>service_helper_protocol.hpp\<close>) on machine words,
    \<open>Service_Call\<close> and \<open>Service_Helper\<close> (\<^verbatim>\<open>service_invoker.cpp\<close>, \<^verbatim>\<open>service_helper_main.cpp\<close>), the two ends of a service call through a helper process, and
    \<open>Publishers\<close> (\<^verbatim>\<open>publisher_registry.cpp\<close>). The locales \<open>exact_writer\<close> and \<open>exact_reader\<close> are the contracts of the socket loops; each of the five loops is an
    interpretation. An error that is not classed as uncertain means that nothing reached ROS.
  \<^item> \<^bold>\<open>ROS service calls\<close>: theory \<open>Ros_Calls\<close> (\<^verbatim>\<open>async_ros_services.cpp\<close>), the TCPROS client of the multirotor adapter. A call is the record \<open>ros_call\<close>, all
    calls are \<open>ros_services\<close>, and \<open>Start\<close>, \<open>Cancel\<close> and \<open>Pump\<close> are the methods of \<^verbatim>\<open>AsyncRosServices\<close>. The outcome of a call says what of its
    request reached the service, and no call outlives its deadline.

  \<^bold>\<open>Conventions.\<close> Instants and durations are integers in nanoseconds. Counters of 64 bits are unbounded: none of them
  can reach its limit in the life of a process, and \<^verbatim>\<open>RetireController\<close> and \<^verbatim>\<open>Acquire\<close> refuse the last generation as the code
  does. Doubles and floats are rationals; every operation rounds to nearest even with the format's significand. Refusals are
  the left side of a sum with the code and text of the source. Code outside the repository (gRPC, protobuf, the
  \<^verbatim>\<open>xrpc\<close> transport, roscpp, the operating system) and the native robot objects a server calls through an interface are arguments of
  the definitions: the results of the calls still to come, or functions whose laws are named hypotheses.
  Threads are interleavings: one critical section is one step, and what a thread keeps between two of its sections
  is part of the state. Loops over data are structural recursions. Loops around system calls recurse over the events they meet, and events that run out leave a
  loop that has not returned. Loops that may run forever are step relations (retries, the main threads) or partial functions (the YAML
  emitter), with theorems that say when they end; no definition needs fuel.

  \<^bold>\<open>Properties.\<close> The text before each property states it with its number. Invariants are by rule induction over step relations; refinement and equivalence relate a
  component to its abstract counterpart; every property with hypotheses has a witness, a concrete run of the model.

  \<^bold>\<open>Not modelled.\<close> The native robots (\<^verbatim>\<open>robot_runtime.cpp\<close> of both types, \<^verbatim>\<open>px4_operations.cpp\<close>) with their helpers
  (\<^verbatim>\<open>ground_health.cpp\<close>, the localization inputs) translate between ROS messages and the server's messages; what the
  server relies on is an argument here. The ROS binding and the node mains call into roscpp. The scene adapter's compiler, generation, mesh preparation and lidar
  engine are numeric code over libraries outside the repository (xgc2\_math, mesh loaders, the GPU); the scene node and its projection join the
  store with them. \<^verbatim>\<open>parseJson\<close> and the YAML node graph rest on nlohmann's and yaml-cpp's parsers. Of the tools adapter, the walk over dynamic messages
  (\<^verbatim>\<open>json_codec.cpp\<close>, \<^verbatim>\<open>type_registry.cpp\<close>) rests on ros\_babel\_fish, and starting the helper process is a sequence of operating system calls.
\<close>

end
